(* ===== verification/Gate_Prelude.thy ===== *)
theory Gate_Prelude
  imports Main "HOL-Library.AList" "HOL-Library.Word" "HOL-Library.Multiset"
begin

text \<open>
  Shared vocabulary of the development: the names of the machine types, hash maps as association
  lists with distinct keys, monotonic clock instants, fallible results, and the three interfaces
  several components implement (finite maps, per-key slot counters, prefix codecs).

  Integers. A byte is an \<^typ>\<open>8 word\<close>, an \<open>i32\<close> a \<^typ>\<open>32 word\<close> read by \<^term>\<open>sint\<close>, an
  \<open>i64\<close> that crosses the wire a \<^typ>\<open>64 word\<close>. A \<open>usize\<close> that is a length of a buffer held in
  memory is a \<^typ>\<open>nat\<close>.

  Time. \<open>std::time::Instant\<close> and \<open>Duration\<close> are counted in nanoseconds; \<open>duration_since\<close>
  saturates at zero exactly as subtraction on \<^typ>\<open>nat\<close> does. \<open>Instant::now()\<close> is an argument of
  every operation that reads the clock.
\<close>

section \<open>Collections of simplification rules\<close>

named_theorems hmap_laws \<open>lookup, size and well-formedness of the hash map operations\<close>
named_theorems wire \<open>byte-level encoders and decoders\<close>

section \<open>Machine types, results and time\<close>

type_synonym byte = "8 word"
type_synonym bytes = "byte list"
type_synonym i32 = "32 word"
type_synonym u16 = "16 word"
type_synonym i64 = "64 word"
type_synonym instant = nat
type_synonym duration = nat

definition from_millis :: "nat \<Rightarrow> duration" where
  "from_millis n = n * 1000000"

definition from_secs :: "nat \<Rightarrow> duration" where
  "from_secs n = n * 1000000000"

definition as_secs :: "duration \<Rightarrow> nat" where
  "as_secs d = d div 1000000000"

definition as_millis :: "duration \<Rightarrow> nat" where
  "as_millis d = d div 1000000"

definition checked_sub :: "instant \<Rightarrow> duration \<Rightarrow> instant option" where
  "checked_sub t d = (if d \<le> t then Some (t - d) else None)"

text \<open>\<open>slice a b xs\<close> is \<open>xs[a..b]\<close>; \<open>get_range\<close> is \<open>xs.get(a..b)\<close>.\<close>

definition slice :: "nat \<Rightarrow> nat \<Rightarrow> 'a list \<Rightarrow> 'a list" where
  "slice a b xs = take (b - a) (drop a xs)"

definition get_range :: "nat \<Rightarrow> nat \<Rightarrow> 'a list \<Rightarrow> 'a list option" where
  "get_range a b xs = (if a \<le> b \<and> b \<le> length xs then Some (slice a b xs) else None)"

lemma length_slice [simp]: "b \<le> length xs \<Longrightarrow> length (slice a b xs) = b - a"
  by (simp add: slice_def)

lemma slice_append_right [simp]:
  "length xs \<le> a \<Longrightarrow> slice a b (xs @ ys) = slice (a - length xs) (b - length xs) ys"
  by (simp add: slice_def)

lemma slice_prefix: "b \<le> length xs \<Longrightarrow> slice a b (xs @ ys) = slice a b xs"
  by (simp add: slice_def)

lemma slice_0 [simp]: "slice 0 b xs = take b xs"
  by (simp add: slice_def)

text \<open>The error half of a result is the left summand, as \<open>Err\<close> is.\<close>

definition bind_result :: "'e + 'a \<Rightarrow> ('a \<Rightarrow> 'e + 'b) \<Rightarrow> 'e + 'b" where
  "bind_result r f = (case r of Inl e \<Rightarrow> Inl e | Inr a \<Rightarrow> f a)"

lemma bind_result_simps [simp]:
  "bind_result (Inl e) f = Inl e"
  "bind_result (Inr a) f = f a"
  by (simp_all add: bind_result_def)

lemma bind_result_Inr_iff:
  "bind_result r f = Inr b \<longleftrightarrow> (\<exists>a. r = Inr a \<and> f a = Inr b)"
  by (cases r) auto

definition ok_or :: "'e \<Rightarrow> 'a option \<Rightarrow> 'e + 'a" where
  "ok_or e x = (case x of None \<Rightarrow> Inl e | Some a \<Rightarrow> Inr a)"

lemma ok_or_simps [simp]: "ok_or e None = Inl e" "ok_or e (Some a) = Inr a"
  by (simp_all add: ok_or_def)

section \<open>Hash maps\<close>

text \<open>
  A \<open>HashMap\<close> is an association list whose keys are distinct. The list order stands for the
  unspecified iteration order: every theorem quantifies over all lists, so it holds for every
  order.
\<close>

type_synonym ('k, 'v) hmap = "('k \<times> 'v) list"

definition hm_ok :: "('k, 'v) hmap \<Rightarrow> bool" where
  "hm_ok m \<longleftrightarrow> distinct (map fst m)"

definition hm_get :: "('k, 'v) hmap \<Rightarrow> 'k \<Rightarrow> 'v option" where
  "hm_get m k = map_of m k"

definition hm_insert :: "'k \<Rightarrow> 'v \<Rightarrow> ('k, 'v) hmap \<Rightarrow> ('k, 'v) hmap" where
  "hm_insert k v m = AList.update k v m"

definition hm_remove :: "'k \<Rightarrow> ('k, 'v) hmap \<Rightarrow> ('k, 'v) hmap" where
  "hm_remove k m = AList.delete k m"

definition hm_retain :: "('k \<Rightarrow> 'v \<Rightarrow> bool) \<Rightarrow> ('k, 'v) hmap \<Rightarrow> ('k, 'v) hmap" where
  "hm_retain P m = filter (\<lambda>(k, v). P k v) m"

definition hm_contains :: "('k, 'v) hmap \<Rightarrow> 'k \<Rightarrow> bool" where
  "hm_contains m k \<longleftrightarrow> hm_get m k \<noteq> None"

lemma hm_get_Nil [simp]: "hm_get [] k = None"
  by (simp add: hm_get_def)

lemma hm_ok_Nil [simp]: "hm_ok []"
  by (simp add: hm_ok_def)

lemma hm_get_insert [simp, hmap_laws]:
  "hm_get (hm_insert k v m) j = (if j = k then Some v else hm_get m j)"
  by (simp add: hm_get_def hm_insert_def update_conv')

lemma hm_get_remove [simp, hmap_laws]:
  "hm_get (hm_remove k m) j = (if j = k then None else hm_get m j)"
  by (simp add: hm_get_def hm_remove_def delete_conv')

lemma hm_ok_insert [simp, hmap_laws]: "hm_ok m \<Longrightarrow> hm_ok (hm_insert k v m)"
  by (simp add: hm_ok_def hm_insert_def distinct_update)

lemma hm_ok_remove [simp, hmap_laws]: "hm_ok m \<Longrightarrow> hm_ok (hm_remove k m)"
  by (simp add: hm_ok_def hm_remove_def distinct_delete)

lemma hm_ok_retain [simp, hmap_laws]: "hm_ok m \<Longrightarrow> hm_ok (hm_retain P m)"
  by (simp add: hm_ok_def hm_retain_def distinct_map_filter)

lemma hm_get_in_set: "hm_ok m \<Longrightarrow> (hm_get m k = Some v) = ((k, v) \<in> set m)"
  by (simp add: hm_ok_def hm_get_def)

lemma hm_get_retain [hmap_laws]:
  assumes "hm_ok m"
  shows "hm_get (hm_retain P m) k =
    (case hm_get m k of None \<Rightarrow> None | Some v \<Rightarrow> if P k v then Some v else None)"
proof -
  have iff: "hm_get (hm_retain P m) k = Some v \<longleftrightarrow> hm_get m k = Some v \<and> P k v" for v
    using assms hm_ok_retain [OF assms, of P] by (auto simp: hm_get_in_set hm_retain_def)
  show ?thesis
  proof (cases "hm_get (hm_retain P m) k")
    case None
    then show ?thesis using iff by (auto split: option.splits)
  next
    case (Some v)
    then show ?thesis using iff by simp
  qed
qed

lemma length_hm_retain: "length (hm_retain P m) \<le> length m"
  by (simp add: hm_retain_def)

lemma length_hm_remove: "length (hm_remove k m) \<le> length m"
  by (simp add: hm_remove_def length_delete_le)

lemma hm_get_None_iff: "hm_get m k = None \<longleftrightarrow> k \<notin> fst ` set m"
  by (simp add: hm_get_def map_of_eq_None_iff)

lemma length_hm_insert [hmap_laws]:
  "length (hm_insert k v m) = (if hm_contains m k then length m else Suc (length m))"
  by (induction m) (auto simp: hm_insert_def hm_contains_def hm_get_def)

lemma length_hm_insert_le: "length (hm_insert k v m) \<le> Suc (length m)"
  by (simp add: length_hm_insert)

lemma length_hm_remove_present:
  assumes "hm_ok m" and "hm_contains m k"
  shows "Suc (length (hm_remove k m)) = length m"
  using assms
proof (induction m)
  case Nil
  then show ?case by (simp add: hm_contains_def)
next
  case (Cons p m)
  then show ?case
    by (cases p) (auto simp: hm_ok_def hm_contains_def hm_get_def hm_remove_def split: if_splits)
qed

text \<open>The entries as a multiset, for counting arguments.\<close>

lemma mset_hm_insert_new: "hm_get m k = None \<Longrightarrow> mset (hm_insert k v m) = add_mset (k, v) (mset m)"
  by (induction m) (auto simp: hm_insert_def hm_get_def split: if_splits)

lemma mset_hm_remove: "hm_ok m \<Longrightarrow> hm_get m k = Some v \<Longrightarrow> mset m = add_mset (k, v) (mset (hm_remove k m))"
proof (induction m)
  case (Cons p m)
  have "AList.delete k m = m" if "fst p = k"
    using Cons.prems that by (auto simp: hm_ok_def intro: delete_idem)
  then show ?case using Cons by (cases p) (auto simp: hm_ok_def hm_get_def hm_remove_def split: if_splits)
qed simp

lemma mset_hm_update:
  assumes "hm_ok m" and "hm_get m k = Some v0"
  shows "add_mset (k, v0) (mset (hm_insert k v m)) = add_mset (k, v) (mset m)"
  using assms
proof (induction m)
  case (Cons p m)
  then show ?case by (cases p) (auto simp: hm_ok_def hm_get_def hm_insert_def split: if_splits)
qed (simp add: hm_get_def)

lemma hm_remove_absent: "hm_get m k = None \<Longrightarrow> hm_remove k m = m"
  by (simp add: hm_get_None_iff hm_remove_def delete_idem)

subsection \<open>The map interface\<close>

text \<open>
  What the caches and tables of the program rely on of \<open>std::collections::HashMap\<close>. The lemmas
  proved inside are the bounded-table facts: an insertion that is skipped when the table is full and
  the key is new never grows the table past its cap.
\<close>

locale finite_map =
  fixes lookup :: "'m \<Rightarrow> 'k \<Rightarrow> 'v option"
    and upd :: "'k \<Rightarrow> 'v \<Rightarrow> 'm \<Rightarrow> 'm"
    and del :: "'k \<Rightarrow> 'm \<Rightarrow> 'm"
    and keep :: "('k \<Rightarrow> 'v \<Rightarrow> bool) \<Rightarrow> 'm \<Rightarrow> 'm"
    and card_of :: "'m \<Rightarrow> nat"
    and invar :: "'m \<Rightarrow> bool"
  assumes lookup_upd: "lookup (upd k v m) j = (if j = k then Some v else lookup m j)"
    and lookup_del: "lookup (del k m) j = (if j = k then None else lookup m j)"
    and lookup_keep: "invar m \<Longrightarrow> lookup (keep P m) k =
          (case lookup m k of None \<Rightarrow> None | Some v \<Rightarrow> if P k v then Some v else None)"
    and card_upd: "card_of (upd k v m) = (if lookup m k = None then Suc (card_of m) else card_of m)"
    and card_del: "card_of (del k m) \<le> card_of m"
    and card_keep: "card_of (keep P m) \<le> card_of m"
    and invar_upd: "invar m \<Longrightarrow> invar (upd k v m)"
    and invar_del: "invar m \<Longrightarrow> invar (del k m)"
    and invar_keep: "invar m \<Longrightarrow> invar (keep P m)"
begin

lemma upd_new_below_cap: "card_of m < cap \<Longrightarrow> card_of (upd k v m) \<le> cap"
  by (simp add: card_upd)

lemma upd_known_same_card: "lookup m k = Some w \<Longrightarrow> card_of (upd k v m) = card_of m"
  by (simp add: card_upd)

lemma guarded_upd_bounded:
  assumes "card_of m \<le> cap" and "\<not> (cap \<le> card_of m \<and> lookup m k = None)"
  shows "card_of (upd k v m) \<le> cap"
  using assms by (auto simp: card_upd)

lemma keep_lookup_Some:
  "invar m \<Longrightarrow> lookup (keep P m) k = Some v \<longleftrightarrow> lookup m k = Some v \<and> P k v"
  by (auto simp: lookup_keep split: option.splits)

lemma keep_keep:
  "invar m \<Longrightarrow> lookup (keep P (keep Q m)) k = lookup (keep (\<lambda>k v. P k v \<and> Q k v) m) k"
  by (auto simp: lookup_keep invar_keep split: option.splits)

end

interpretation hm: finite_map hm_get hm_insert hm_remove hm_retain length hm_ok
  by unfold_locales
    (auto simp: hm_get_retain length_hm_retain length_hm_remove length_hm_insert hm_contains_def
      split: option.splits)

section \<open>Slot counters\<close>

text \<open>
  Several guards of the program count live holders per key (pre-login connections per IP, status
  dials per backend, UDP sessions per IP) or process-wide, with the same protocol: a conditional
  acquire against a maximum and an unconditional release. A run interleaves acquires and the
  releases of holders; \<open>slot_run\<close> executes one against an implementation while it keeps, per
  key, the number of holders that were admitted and have not released yet.
\<close>

datatype 'k slot_event = Acquire 'k | Release 'k

fun slot_run ::
  "('s \<Rightarrow> 'k \<Rightarrow> int \<Rightarrow> bool \<times> 's) \<Rightarrow> ('s \<Rightarrow> 'k \<Rightarrow> 's) \<Rightarrow> int \<Rightarrow> 's \<times> ('k \<Rightarrow> int) \<Rightarrow> 'k slot_event list
     \<Rightarrow> 's \<times> ('k \<Rightarrow> int)" where
  "slot_run acq rel mx (s, h) [] = (s, h)"
| "slot_run acq rel mx (s, h) (Acquire k # es) =
     (case acq s k mx of (b, s') \<Rightarrow> slot_run acq rel mx (s', if b then h(k := h k + 1) else h) es)"
| "slot_run acq rel mx (s, h) (Release k # es) =
     (if 0 < h k then slot_run acq rel mx (rel s k, h(k := h k - 1)) es
      else slot_run acq rel mx (s, h) es)"

locale slot_table =
  fixes count :: "'s \<Rightarrow> 'k \<Rightarrow> int"
    and acquire :: "'s \<Rightarrow> 'k \<Rightarrow> int \<Rightarrow> bool \<times> 's"
    and release :: "'s \<Rightarrow> 'k \<Rightarrow> 's"
    and invar :: "'s \<Rightarrow> bool"
  assumes count_nonneg: "invar s \<Longrightarrow> 0 \<le> count s k"
    and acquire_granted: "invar s \<Longrightarrow> acquire s k mx = (True, s') \<Longrightarrow> 
          count s k < mx \<and> invar s' \<and> count s' j = count s j + (if j = k then 1 else 0)"
    and acquire_refused: "invar s \<Longrightarrow> acquire s k mx = (False, s') \<Longrightarrow>
          mx \<le> count s k \<and> invar s' \<and> count s' j = count s j"
    and release_count: "invar s \<Longrightarrow> 0 < count s k \<Longrightarrow>
          invar (release s k) \<and> count (release s k) j = count s j - (if j = k then 1 else 0)"
begin

lemma run_refines:
  assumes "invar s" and "\<And>k. count s k = h k" and "slot_run acquire release mx (s, h) es = (s', h')"
  shows "invar s' \<and> (\<forall>k. count s' k = h' k)"
  using assms
proof (induction es arbitrary: s h)
  case Nil
  then show ?case by simp
next
  case (Cons e es)
  show ?case
  proof (cases e)
    case (Acquire k)
    obtain b t where a: "acquire s k mx = (b, t)" by (cases "acquire s k mx")
    have t: "invar t \<and> (\<forall>j. count t j = (if b then h(k := h k + 1) else h) j)"
      using a acquire_granted [OF Cons.prems(1), of k mx t] acquire_refused [OF Cons.prems(1), of k mx t]
        Cons.prems(2) by (cases b) auto
    show ?thesis
      by (rule Cons.IH [of t "if b then h(k := h k + 1) else h"]) (use t a Acquire Cons.prems(3) in \<open>auto simp del: fun_upd_apply\<close>)
  next
    case (Release k)
    show ?thesis
    proof (cases "0 < h k")
      case True
      have t: "invar (release s k) \<and> (\<forall>j. count (release s k) j = (h(k := h k - 1)) j)"
        using True release_count [OF Cons.prems(1), of k] Cons.prems(2) by auto
      show ?thesis
        by (rule Cons.IH [of "release s k" "h(k := h k - 1)"])
          (use t True Release Cons.prems(3) in \<open>auto simp del: fun_upd_apply\<close>)
    next
      case False
      then show ?thesis using Cons Release by simp
    qed
  qed
qed

lemma run_bounded:
  assumes "invar s" and "\<And>k. count s k = h k" and "\<And>k. h k \<le> mx"
    and "slot_run acquire release mx (s, h) es = (s', h')"
  shows "h' k \<le> mx"
  using assms
proof (induction es arbitrary: s h)
  case Nil
  then show ?case by simp
next
  case (Cons e es)
  show ?case
  proof (cases e)
    case (Acquire j)
    obtain b t where a: "acquire s j mx = (b, t)" by (cases "acquire s j mx")
    let ?h = "if b then h(j := h j + 1) else h"
    have t: "invar t" "\<And>i. count t i = ?h i" "\<And>i. ?h i \<le> mx"
      using a acquire_granted [OF Cons.prems(1), of j mx t] acquire_refused [OF Cons.prems(1), of j mx t]
        Cons.prems(2,3) by (cases b; fastforce)+
    show ?thesis
      by (rule Cons.IH [of t ?h]) (use t a Acquire Cons.prems(4) in \<open>auto simp del: fun_upd_apply\<close>)
  next
    case (Release j)
    show ?thesis
    proof (cases "0 < h j")
      case True
      have "h j - 1 \<le> mx" using Cons.prems(3) [of j] by linarith
      then have t: "invar (release s j)" "\<And>i. count (release s j) i = (h(j := h j - 1)) i"
        "\<And>i. (h(j := h j - 1)) i \<le> mx"
        using True release_count [OF Cons.prems(1), of j] Cons.prems(2,3) by auto
      show ?thesis
        by (rule Cons.IH [of "release s j" "h(j := h j - 1)"])
          (use t True Release Cons.prems(4) in \<open>auto simp del: fun_upd_apply\<close>)
    next
      case False
      then show ?thesis using Cons Release by simp
    qed
  qed
qed

end

section \<open>Housekeeping\<close>

text \<open>
  Several tables drop stale entries from a periodic task. What matters is that nobody can tell: an
  observation made at or after the time of the clean-up has the same answer with and without it.
\<close>

locale housekeeping =
  fixes observe :: "instant \<Rightarrow> 's \<Rightarrow> 'k \<Rightarrow> 'o"
    and tidy :: "instant \<Rightarrow> 's \<Rightarrow> 's"
    and invar :: "'s \<Rightarrow> bool"
  assumes tidy_unobservable: "invar s \<Longrightarrow> now \<le> t \<Longrightarrow> observe t (tidy now s) k = observe t s k"
    and invar_tidy: "invar s \<Longrightarrow> invar (tidy now s)"
begin

lemma tidies_unobservable:
  "invar s \<Longrightarrow> \<forall>n \<in> set nows. n \<le> t \<Longrightarrow> observe t (fold tidy nows s) k = observe t s k"
  by (induction nows arbitrary: s) (auto simp: tidy_unobservable invar_tidy)

end

section \<open>Prefix codecs\<close>

text \<open>
  The wire decoders take a buffer and return a value with the number of bytes they consumed, so the
  caller decides where to continue. An encoder and such a decoder form a prefix codec on the values
  of \<open>dom\<close> when decoding undoes encoding whatever bytes follow.
\<close>

fun decode_all :: "(bytes \<Rightarrow> 'e + 'a \<times> nat) \<Rightarrow> nat \<Rightarrow> bytes \<Rightarrow> ('e + 'a list \<times> nat)" where
  "decode_all dec 0 bs = Inr ([], 0)"
| "decode_all dec (Suc n) bs =
     bind_result (dec bs) (\<lambda>(x, c).
       bind_result (decode_all dec n (drop c bs)) (\<lambda>(xs, c'). Inr (x # xs, c + c')))"

locale prefix_codec =
  fixes enc :: "'a \<Rightarrow> bytes"
    and dec :: "bytes \<Rightarrow> 'e + 'a \<times> nat"
    and dom :: "'a \<Rightarrow> bool"
  assumes dec_enc: "dom x \<Longrightarrow> dec (enc x @ rest) = Inr (x, length (enc x))"
begin

lemma dec_exact: "dom x \<Longrightarrow> dec (enc x) = Inr (x, length (enc x))"
  using dec_enc [of x "[]"] by simp

lemma unique_parse:
  assumes "dom x" and "dom y" and eq: "enc x @ r = enc y @ r'"
  shows "x = y \<and> r = r'"
proof -
  have "Inr (x, length (enc x)) = dec (enc x @ r)" using dec_enc [OF assms(1)] by simp
  also have "\<dots> = dec (enc y @ r')" by (simp only: eq)
  also have "\<dots> = Inr (y, length (enc y))" using dec_enc [OF assms(2)] by simp
  finally have "x = y" by simp
  with eq show ?thesis by simp
qed

lemma enc_inj: "dom x \<Longrightarrow> dom y \<Longrightarrow> enc x = enc y \<Longrightarrow> x = y"
  using unique_parse [of x y "[]" "[]"] by simp

lemma decode_all_concat:
  "\<forall>x \<in> set xs. dom x \<Longrightarrow>
   decode_all dec (length xs) (concat (map enc xs) @ rest) = Inr (xs, length (concat (map enc xs)))"
  by (induction xs) (auto simp: dec_enc)

end

end
