(* ===== verification/Rust_Std.thy ===== *)
theory Rust_Std
  imports Gate_Prelude
begin

text \<open>
  The parts of the Rust language and standard library the program uses, as executable functions:
  strings as lists of Unicode scalar values, their UTF-8 form and \<open>String::from_utf8_lossy\<close>,
  big-endian integers, decimal text, and the string operations of \<open>str\<close>.

  \<open>str::to_lowercase\<close> is given on ASCII text; on any other text it is the argument \<open>lc\<close>, the
  Unicode lowercase mapping, which may change the number of characters.
\<close>

unbundle bit_operations_syntax

section \<open>Panics\<close>

text \<open>A computation that may hit a panic: an out-of-range slice or an \<open>unwrap\<close> of an error.\<close>

datatype 'a run = Panicked | Returned 'a

definition run_bind :: "'a run \<Rightarrow> ('a \<Rightarrow> 'b run) \<Rightarrow> 'b run" where
  "run_bind r f = (case r of Panicked \<Rightarrow> Panicked | Returned x \<Rightarrow> f x)"

lemma run_bind_simps [simp]: "run_bind Panicked f = Panicked" "run_bind (Returned x) f = f x"
  by (simp_all add: run_bind_def)

lemma run_bind_Returned_iff: "run_bind r f = Returned y \<longleftrightarrow> (\<exists>x. r = Returned x \<and> f x = Returned y)"
  by (cases r) auto

section \<open>Characters and strings\<close>

type_synonym str = "nat list"

abbreviation ch :: "char \<Rightarrow> nat" where
  "ch c \<equiv> of_char c"

definition lit :: "string \<Rightarrow> str" where
  "lit s = map of_char s"

definition is_scalar :: "nat \<Rightarrow> bool" where
  "is_scalar c \<longleftrightarrow> c < 0xD800 \<or> 0xE000 \<le> c \<and> c < 0x110000"

definition is_ascii :: "nat \<Rightarrow> bool" where
  "is_ascii c \<longleftrightarrow> c < 128"

definition is_ascii_digit :: "nat \<Rightarrow> bool" where
  "is_ascii_digit c \<longleftrightarrow> 48 \<le> c \<and> c \<le> 57"

definition to_ascii_lowercase :: "nat \<Rightarrow> nat" where
  "to_ascii_lowercase c = (if 65 \<le> c \<and> c \<le> 90 then c + 32 else c)"

definition to_lowercase :: "(str \<Rightarrow> str) \<Rightarrow> str \<Rightarrow> str" where
  "to_lowercase lc s = (if list_all is_ascii s then map to_ascii_lowercase s else lc s)"

definition eq_ignore_ascii_case :: "str \<Rightarrow> str \<Rightarrow> bool" where
  "eq_ignore_ascii_case a b \<longleftrightarrow> map to_ascii_lowercase a = map to_ascii_lowercase b"

definition is_whitespace :: "nat \<Rightarrow> bool" where
  "is_whitespace c \<longleftrightarrow> 9 \<le> c \<and> c \<le> 13 \<or> c = 32 \<or> c = 0x85 \<or> c = 0xA0 \<or> c = 0x1680 \<or>
     0x2000 \<le> c \<and> c \<le> 0x200A \<or> c = 0x2028 \<or> c = 0x2029 \<or> c = 0x202F \<or> c = 0x205F \<or> c = 0x3000"

definition trim_end_by :: "(nat \<Rightarrow> bool) \<Rightarrow> str \<Rightarrow> str" where
  "trim_end_by P s = rev (dropWhile P (rev s))"

definition trim :: "str \<Rightarrow> str" where
  "trim s = trim_end_by is_whitespace (dropWhile is_whitespace s)"

fun split_on :: "nat \<Rightarrow> str \<Rightarrow> str list" where
  "split_on d [] = [[]]"
| "split_on d (c # cs) =
     (if c = d then [] # split_on d cs
      else (case split_on d cs of [] \<Rightarrow> [[c]] | w # ws \<Rightarrow> (c # w) # ws))"

text \<open>\<open>s.rfind(c)\<close> split at the last occurrence: the text before and after it.\<close>

definition rsplit_once :: "nat \<Rightarrow> str \<Rightarrow> (str \<times> str) option" where
  "rsplit_once d s =
     (if d \<in> set s
      then Some (rev (tl (dropWhile (\<lambda>c. c \<noteq> d) (rev s))), rev (takeWhile (\<lambda>c. c \<noteq> d) (rev s)))
      else None)"

lemma rsplit_once_Some: "rsplit_once d s = Some (a, b) \<Longrightarrow> s = a @ d # b \<and> d \<notin> set b"
proof -
  assume h: "rsplit_once d s = Some (a, b)"
  then have d: "d \<in> set (rev s)" by (auto simp: rsplit_once_def split: if_splits)
  let ?t = "takeWhile (\<lambda>c. c \<noteq> d) (rev s)" and ?u = "dropWhile (\<lambda>c. c \<noteq> d) (rev s)"
  have u: "?u \<noteq> []" using d by (auto simp: dropWhile_eq_Nil_conv)
  have "hd ?u = d" using hd_dropWhile [OF u] by simp
  with u have "?u = d # tl ?u" by (metis list.collapse)
  then have "rev s = ?t @ d # tl ?u" by (metis takeWhile_dropWhile_id)
  then have "s = rev (tl ?u) @ d # rev ?t" by (metis append.assoc append_Cons append_Nil rev.simps(2) rev_append rev_rev_ident)
  with h show ?thesis by (auto simp: rsplit_once_def dest: set_takeWhileD split: if_splits)
qed

lemma rsplit_once_append [simp]: "d \<notin> set b \<Longrightarrow> rsplit_once d (a @ d # b) = Some (a, b)"
proof -
  assume "d \<notin> set b"
  then have *: "\<And>x. x \<in> set (rev b) \<Longrightarrow> x \<noteq> d" by auto
  have "takeWhile (\<lambda>c. c \<noteq> d) (rev b @ d # rev a) = rev b"
    using * by (subst takeWhile_append2) auto
  moreover have "dropWhile (\<lambda>c. c \<noteq> d) (rev b @ d # rev a) = d # rev a"
    using * by (subst dropWhile_append2) auto
  ultimately show ?thesis by (simp add: rsplit_once_def)
qed

lemma split_on_nonempty [simp]: "split_on d s \<noteq> []"
  by (induction s) (auto split: list.splits)

lemma split_on_none [simp]: "d \<notin> set s \<Longrightarrow> split_on d s = [s]"
  by (induction s) auto

lemma split_on_append: "d \<notin> set w \<Longrightarrow> split_on d (w @ d # s) = w # split_on d s"
  by (induction w) auto

section \<open>UTF-8\<close>

definition byte_of :: "nat \<Rightarrow> byte" where
  "byte_of n = of_nat n"

lemma unat_byte_of [simp]: "unat (byte_of n) = n mod 256"
  by (simp add: byte_of_def unat_of_nat)

definition utf8_encode_char :: "nat \<Rightarrow> bytes" where
  "utf8_encode_char c =
     (if c < 0x80 then [byte_of c]
      else if c < 0x800 then [byte_of (0xC0 + c div 64), byte_of (0x80 + c mod 64)]
      else if c < 0x10000 then
        [byte_of (0xE0 + c div 4096), byte_of (0x80 + c div 64 mod 64), byte_of (0x80 + c mod 64)]
      else [byte_of (0xF0 + c div 262144), byte_of (0x80 + c div 4096 mod 64),
            byte_of (0x80 + c div 64 mod 64), byte_of (0x80 + c mod 64)])"

definition as_bytes :: "str \<Rightarrow> bytes" where
  "as_bytes s = concat (map utf8_encode_char s)"

definition safe_get :: "bytes \<Rightarrow> nat \<Rightarrow> nat" where
  "safe_get bs i = (if i < length bs then unat (bs ! i) else 0)"

definition is_cont :: "nat \<Rightarrow> bool" where
  "is_cont b \<longleftrightarrow> b div 64 = 2"

definition second_of_3 :: "nat \<Rightarrow> nat \<Rightarrow> bool" where
  "second_of_3 b b1 \<longleftrightarrow> is_cont b1 \<and> (b = 0xE0 \<longrightarrow> 0xA0 \<le> b1) \<and> (b = 0xED \<longrightarrow> b1 \<le> 0x9F)"

definition second_of_4 :: "nat \<Rightarrow> nat \<Rightarrow> bool" where
  "second_of_4 b b1 \<longleftrightarrow> is_cont b1 \<and> (b = 0xF0 \<longrightarrow> 0x90 \<le> b1) \<and> (b = 0xF4 \<longrightarrow> b1 \<le> 0x8F)"

text \<open>
  One step of the lossy decoder on a non-empty buffer: a decoded scalar value, or \<^const>\<open>None\<close> for
  an ill-formed sequence, with the number of bytes it spans.
\<close>

definition utf8_step :: "bytes \<Rightarrow> nat option \<times> nat" where
  "utf8_step bs =
     (let b = safe_get bs 0; b1 = safe_get bs 1; b2 = safe_get bs 2; b3 = safe_get bs 3 in
      if b < 0x80 then (Some b, 1)
      else if 0xC2 \<le> b \<and> b \<le> 0xDF then
        (if is_cont b1 then (Some (b mod 32 * 64 + b1 mod 64), 2) else (None, 1))
      else if 0xE0 \<le> b \<and> b \<le> 0xEF then
        (if second_of_3 b b1
         then if is_cont b2
              then (Some (b mod 16 * 4096 + b1 mod 64 * 64 + b2 mod 64), 3) else (None, 2)
         else (None, 1))
      else if 0xF0 \<le> b \<and> b \<le> 0xF4 then
        (if second_of_4 b b1
         then if is_cont b2
              then if is_cont b3
                   then (Some (b mod 8 * 262144 + b1 mod 64 * 4096 + b2 mod 64 * 64 + b3 mod 64), 4)
                   else (None, 3)
              else (None, 2)
         else (None, 1))
      else (None, 1))"

function from_utf8_lossy :: "bytes \<Rightarrow> str" where
  "from_utf8_lossy [] = []"
| "from_utf8_lossy (b # bs) =
     (case utf8_step (b # bs) of (r, n) \<Rightarrow>
        (case r of Some c \<Rightarrow> c | None \<Rightarrow> 0xFFFD) # from_utf8_lossy (drop (n - 1) bs))"
  by pat_completeness auto
termination
  by (relation "measure length") auto

lemma safe_get_simps [simp]:
  "safe_get (b # bs) 0 = unat b"
  "safe_get (b # bs) (Suc i) = safe_get bs i"
  "safe_get (b # bs) (numeral n) = safe_get bs (pred_numeral n)"
  by (simp_all add: safe_get_def numeral_eq_Suc)

lemma base64_digit:
  obtains q z where "c = q * 64 + z" and "z < (64::nat)" and "c div 64 = q" and "c mod 64 = z"
  by (rule that [of "c div 64" "c mod 64"]) auto

lemma div_64_64: "(c::nat) div 4096 = c div 64 div 64" "c div 262144 = c div 64 div 64 div 64"
  by (simp_all flip: div_mult2_eq)

lemma is_cont_digit: "y < 64 \<Longrightarrow> is_cont (128 + y)"
  by (simp add: is_cont_def)

lemma low_digit: "m dvd k \<Longrightarrow> y < m \<Longrightarrow> (k + y) mod m = (y::nat)"
  by (metis add_0 dvd_imp_mod_0 mod_add_left_eq mod_less)

lemma lead_and_tail_bits [simp]:
  "y < 64 \<Longrightarrow> (128 + y) mod 64 = (y::nat)"
  "x < 32 \<Longrightarrow> (192 + x) mod 32 = (x::nat)"
  "x < 16 \<Longrightarrow> (224 + x) mod 16 = (x::nat)"
  "w < 8 \<Longrightarrow> (240 + w) mod 8 = (w::nat)"
  by (rule low_digit; simp)+

lemma utf8_step_encode:
  assumes "is_scalar c"
  shows "utf8_step (utf8_encode_char c @ rest) = (Some c, length (utf8_encode_char c))"
proof -
  consider (1) "c < 0x80" | (2) "0x80 \<le> c" "c < 0x800" | (3) "0x800 \<le> c" "c < 0x10000"
    | (4) "0x10000 \<le> c" "c < 0x110000"
    using assms by (force simp: is_scalar_def)
  then show ?thesis
  proof cases
    case 1
    then show ?thesis by (simp add: utf8_encode_char_def utf8_step_def Let_def)
  next
    case 2
    obtain x y where c: "c = x * 64 + y" and b: "y < 64"
      by (metis div_mult_mod_eq mod_less_divisor zero_less_numeral)
    have "c div 64 = x" "c mod 64 = y" using b by (simp_all add: c)
    moreover have "2 \<le> x" "x < 32" using 2 b by (simp_all add: c)
    ultimately show ?thesis using 2 b
      by (auto simp: utf8_encode_char_def utf8_step_def Let_def is_cont_digit c)
  next
    case 3
    obtain q z where q: "c = q * 64 + z" "z < 64" "c div 64 = q" "c mod 64 = z" by (rule base64_digit)
    obtain x y where x: "q = x * 64 + y" "y < 64" "q div 64 = x" "q mod 64 = y" by (rule base64_digit)
    have c: "c = x * 4096 + y * 64 + z" and b: "y < 64" "z < 64" using q x by simp_all
    have "c div 4096 = x" "c div 64 mod 64 = y" "c mod 64 = z" using q x by (simp_all add: div_64_64)
    moreover have "x < 16" "x = 0 \<Longrightarrow> 32 \<le> y" "x = 13 \<Longrightarrow> y < 32"
      using 3 b assms by (simp_all add: c is_scalar_def)
    ultimately show ?thesis using 3 b
      by (auto simp: utf8_encode_char_def utf8_step_def Let_def is_cont_digit second_of_3_def c)
  next
    case 4
    obtain q z where q: "c = q * 64 + z" "z < 64" "c div 64 = q" "c mod 64 = z" by (rule base64_digit)
    obtain p y where p: "q = p * 64 + y" "y < 64" "q div 64 = p" "q mod 64 = y" by (rule base64_digit)
    obtain w x where w: "p = w * 64 + x" "x < 64" "p div 64 = w" "p mod 64 = x" by (rule base64_digit)
    have c: "c = w * 262144 + x * 4096 + y * 64 + z" and b: "x < 64" "y < 64" "z < 64"
      using q p w by simp_all
    have "c div 262144 = w" "c div 4096 mod 64 = x" "c div 64 mod 64 = y" "c mod 64 = z"
      using q p w by (simp_all add: div_64_64)
    moreover have "w \<le> 4" "w = 0 \<Longrightarrow> 16 \<le> x" "w = 4 \<Longrightarrow> x < 16"
      using 4 b by (simp_all add: c)
    ultimately show ?thesis using 4 b
      by (auto simp: utf8_encode_char_def utf8_step_def Let_def is_cont_digit second_of_4_def c)
  qed
qed

lemma utf8_encode_char_nonempty: "utf8_encode_char c = b # bs \<Longrightarrow> length (utf8_encode_char c) = Suc (length bs)"
  by simp

lemma from_utf8_lossy_char:
  assumes "is_scalar c"
  shows "from_utf8_lossy (utf8_encode_char c @ rest) = c # from_utf8_lossy rest"
proof -
  obtain b bs where e: "utf8_encode_char c = b # bs"
    by (cases "utf8_encode_char c") (auto simp: utf8_encode_char_def split: if_splits)
  have "utf8_step (b # bs @ rest) = (Some c, Suc (length bs))"
    using utf8_step_encode [OF assms, of rest] by (simp add: e)
  then show ?thesis by (simp add: e)
qed

lemma from_utf8_lossy_as_bytes [simp]:
  "list_all is_scalar s \<Longrightarrow> from_utf8_lossy (as_bytes s) = s"
  by (induction s) (simp_all add: as_bytes_def from_utf8_lossy_char)

lemma as_bytes_append [simp]: "as_bytes (s @ t) = as_bytes s @ as_bytes t"
  by (simp add: as_bytes_def)

lemma as_bytes_Nil [simp]: "as_bytes [] = []"
  by (simp add: as_bytes_def)

lemma as_bytes_inj: "list_all is_scalar s \<Longrightarrow> list_all is_scalar t \<Longrightarrow> as_bytes s = as_bytes t \<Longrightarrow> s = t"
  by (metis from_utf8_lossy_as_bytes)

lemma is_scalar_3:
  assumes "224 \<le> b" "b \<le> 239" "128 \<le> b1" "b1 < 192" "128 \<le> b2" "b2 < 192" "b = 237 \<longrightarrow> b1 \<le> 159"
  shows "is_scalar (b mod 16 * 4096 + b1 mod 64 * 64 + b2 mod 64)"
proof -
  obtain x y z where e: "b = 224 + x" "b1 = 128 + y" "b2 = 128 + z"
    using assms by (metis le_Suc_ex)
  have "x < 13 \<or> x = 13 \<and> y < 32 \<or> 14 \<le> x" using assms by (auto simp: e)
  moreover have "b mod 16 = x" "b1 mod 64 = y" "b2 mod 64 = z" using assms by (simp_all add: e)
  ultimately show ?thesis using assms by (auto simp: e is_scalar_def)
qed

lemma is_scalar_4:
  assumes "240 \<le> b" "b \<le> 244" "128 \<le> b1" "b1 < 192" "128 \<le> b2" "b2 < 192" "128 \<le> b3" "b3 < 192"
    and "b = 240 \<longrightarrow> 144 \<le> b1" "b = 244 \<longrightarrow> b1 \<le> 143"
  shows "is_scalar (b mod 8 * 262144 + b1 mod 64 * 4096 + b2 mod 64 * 64 + b3 mod 64)"
proof -
  obtain w x y z where e: "b = 240 + w" "b1 = 128 + x" "b2 = 128 + y" "b3 = 128 + z"
    using assms by (metis le_Suc_ex)
  have "w = 0 \<and> 16 \<le> x \<or> 1 \<le> w \<and> w < 4 \<or> w = 4 \<and> x < 16" using assms by (auto simp: e)
  moreover have "b mod 8 = w" "b1 mod 64 = x" "b2 mod 64 = y" "b3 mod 64 = z"
    using assms by (simp_all add: e)
  ultimately show ?thesis using assms by (auto simp: e is_scalar_def)
qed

lemma utf8_step_scalar: "utf8_step bs = (Some c, n) \<Longrightarrow> is_scalar c"
proof -
  have cb: "is_cont b \<Longrightarrow> 128 \<le> b \<and> b < 192" for b by (auto simp: is_cont_def)
  have 2: "is_scalar (b mod 32 * 64 + b1 mod 64)" for b b1
  proof -
    have "b mod 32 \<le> 31" "b1 mod 64 \<le> 63" by (simp_all flip: less_Suc_eq_le)
    then show ?thesis unfolding is_scalar_def by linarith
  qed
  have 1: "b < 128 \<Longrightarrow> is_scalar b" for b by (simp add: is_scalar_def)
  assume "utf8_step bs = (Some c, n)"
  then show ?thesis
    unfolding utf8_step_def Let_def second_of_3_def second_of_4_def
    by (auto simp: 1 dest!: cb intro!: 2 is_scalar_3 is_scalar_4 split: if_splits)
qed

lemma from_utf8_lossy_scalar: "list_all is_scalar (from_utf8_lossy bs)"
proof (induction bs rule: from_utf8_lossy.induct)
  case (2 b bs)
  obtain r n where s: "utf8_step (b # bs) = (r, n)" by (cases "utf8_step (b # bs)")
  have "is_scalar (case r of Some c \<Rightarrow> c | None \<Rightarrow> 0xFFFD)"
    using s by (auto simp: is_scalar_def [of "0xFFFD"] dest: utf8_step_scalar split: option.split)
  then show ?case using 2 [of r n] s by simp
qed simp

section \<open>Big-endian integers\<close>

fun be_bytes :: "nat \<Rightarrow> nat \<Rightarrow> bytes" where
  "be_bytes 0 x = []"
| "be_bytes (Suc n) x = byte_of (x div 256 ^ n) # be_bytes n x"

definition from_be :: "bytes \<Rightarrow> nat" where
  "from_be bs = foldl (\<lambda>a b. a * 256 + unat b) 0 bs"

definition to_be_bytes :: "'a::len word \<Rightarrow> bytes" where
  "to_be_bytes w = be_bytes (LENGTH('a) div 8) (unat w)"

definition from_be_bytes :: "bytes \<Rightarrow> 'a::len word" where
  "from_be_bytes bs = of_nat (from_be bs)"

lemma length_be_bytes [simp]: "length (be_bytes n x) = n"
  by (induction n) auto

lemma foldl_be: "foldl (\<lambda>a b. a * 256 + unat b) k (be_bytes n x) = k * 256 ^ n + x mod 256 ^ n"
proof (induction n arbitrary: k)
  case (Suc n)
  have "x mod 256 ^ Suc n = 256 ^ n * (x div 256 ^ n mod 256) + x mod 256 ^ n"
    by (metis mod_mult2_eq mult.commute power_Suc)
  then have "k * 256 ^ Suc n + x mod 256 ^ Suc n
      = (k * 256 + x div 256 ^ n mod 256) * 256 ^ n + x mod 256 ^ n"
    by (simp add: algebra_simps)
  then show ?case by (simp add: Suc)
qed simp

lemma from_be_be_bytes: "from_be (be_bytes n x) = x mod 256 ^ n"
  by (simp add: from_be_def foldl_be)

lemma length_to_be_bytes [simp, wire]:
  "length (to_be_bytes (w :: u16)) = 2"
  "length (to_be_bytes (v :: i32)) = 4"
  "length (to_be_bytes (u :: i64)) = 8"
  by (simp_all add: to_be_bytes_def)

lemma from_to_be_bytes [simp, wire]:
  "from_be_bytes (to_be_bytes (w :: u16)) = w"
  "from_be_bytes (to_be_bytes (v :: i32)) = v"
  "from_be_bytes (to_be_bytes (u :: i64)) = u"
proof -
  have "unat w < 2 ^ LENGTH(16)" "unat v < 2 ^ LENGTH(32)" "unat u < 2 ^ LENGTH(64)"
    by (rule unsigned_less)+
  then have "unat w mod 65536 = unat w" "unat v mod 4294967296 = unat v"
    "unat u mod 18446744073709551616 = unat u"
    by simp_all
  then show "from_be_bytes (to_be_bytes w) = w" "from_be_bytes (to_be_bytes v) = v"
    "from_be_bytes (to_be_bytes u) = u"
    by (simp_all add: from_be_bytes_def to_be_bytes_def from_be_be_bytes)
qed

section \<open>Decimal text\<close>

fun show_nat :: "nat \<Rightarrow> str" where
  "show_nat n = (if n < 10 then [48 + n] else show_nat (n div 10) @ [48 + n mod 10])"

declare show_nat.simps [simp del]

definition show_int :: "int \<Rightarrow> str" where
  "show_int i = (if i < 0 then ch CHR ''-'' # show_nat (nat (- i)) else show_nat (nat i))"

definition digits_value :: "str \<Rightarrow> nat" where
  "digits_value s = foldl (\<lambda>a c. a * 10 + (c - 48)) 0 s"

text \<open>\<open>str::parse\<close> for an unsigned and a signed integer type: an optional sign, then at least one
  ASCII digit and nothing else, in range.\<close>

definition parse_unsigned :: "nat \<Rightarrow> str \<Rightarrow> nat option" where
  "parse_unsigned mx s =
     (let d = (case s of c # cs \<Rightarrow> if c = ch CHR ''+'' then cs else s | [] \<Rightarrow> s) in
      if d \<noteq> [] \<and> list_all is_ascii_digit d \<and> digits_value d \<le> mx then Some (digits_value d) else None)"

definition parse_signed :: "int \<Rightarrow> int \<Rightarrow> str \<Rightarrow> int option" where
  "parse_signed lo hi s =
     (let (neg, d) = (case s of c # cs \<Rightarrow> if c = ch CHR ''+'' then (False, cs)
                                        else if c = ch CHR ''-'' then (True, cs) else (False, s)
                      | [] \<Rightarrow> (False, s));
          v = (if neg then - int (digits_value d) else int (digits_value d)) in
      if d \<noteq> [] \<and> list_all is_ascii_digit d \<and> lo \<le> v \<and> v \<le> hi then Some v else None)"

definition parse_u16 :: "str \<Rightarrow> u16 option" where
  "parse_u16 s = map_option of_nat (parse_unsigned 65535 s)"

definition parse_i64 :: "str \<Rightarrow> int option" where
  "parse_i64 s = parse_signed (- (2 ^ 63)) (2 ^ 63 - 1) s"

definition parse_usize :: "str \<Rightarrow> nat option" where
  "parse_usize s = parse_unsigned (2 ^ 64 - 1) s"

lemma is_ascii_digit_add [simp]: "is_ascii_digit (48 + k) \<longleftrightarrow> k \<le> 9"
  by (simp add: is_ascii_digit_def)

lemma show_nat_digits: "list_all is_ascii_digit (show_nat n) \<and> show_nat n \<noteq> []"
proof (induction n rule: show_nat.induct)
  case (1 n)
  show ?case
  proof (cases "n < 10")
    case True
    then show ?thesis by (subst (1 2) show_nat.simps) simp
  next
    case False
    have "n mod 10 \<le> 9" by (simp flip: less_Suc_eq_le)
    then show ?thesis using 1 False by (subst (1 2) show_nat.simps) simp
  qed
qed

lemma digits_value_show_nat [simp]: "digits_value (show_nat n) = n"
proof (induction n rule: show_nat.induct)
  case (1 n)
  show ?case
  proof (cases "n < 10")
    case True
    then show ?thesis by (subst show_nat.simps) (simp add: digits_value_def)
  next
    case False
    then show ?thesis using 1 by (subst show_nat.simps) (simp add: digits_value_def)
  qed
qed

lemma show_nat_not: "\<not> is_ascii_digit c \<Longrightarrow> c \<notin> set (show_nat n)"
  using show_nat_digits [of n] by (auto simp: list_all_iff)

lemma digit_not_sign:
  assumes "list_all is_ascii_digit d" and "d \<noteq> []"
  obtains c cs where "d = c # cs" and "c \<noteq> ch CHR ''+''" and "c \<noteq> ch CHR ''-''"
  using assms by (cases d) (auto simp: is_ascii_digit_def)

lemma parse_unsigned_show_nat: "n \<le> mx \<Longrightarrow> parse_unsigned mx (show_nat n) = Some n"
proof -
  obtain c cs where d: "show_nat n = c # cs" "c \<noteq> ch CHR ''+''"
    using show_nat_digits [of n] by (auto elim: digit_not_sign)
  moreover assume "n \<le> mx"
  ultimately show ?thesis
    using show_nat_digits [of n] digits_value_show_nat [of n] by (simp add: parse_unsigned_def Let_def)
qed

lemma parse_u16_show [simp]: "parse_u16 (show_nat (unat w)) = Some w"
proof -
  have "unat w < 2 ^ LENGTH(16)" by (rule unsigned_less)
  then have "unat w \<le> 65535" by simp
  then show ?thesis by (simp add: parse_u16_def parse_unsigned_show_nat)
qed

lemma parse_signed_show_int: "lo \<le> i \<Longrightarrow> i \<le> hi \<Longrightarrow> parse_signed lo hi (show_int i) = Some i"
proof -
  assume b: "lo \<le> i" "i \<le> hi"
  obtain c cs where d: "show_nat (nat i) = c # cs" "c \<noteq> ch CHR ''+''" "c \<noteq> ch CHR ''-''"
    using show_nat_digits [of "nat i"] by (auto elim: digit_not_sign)
  show ?thesis
  proof (cases "i < 0")
    case True
    then show ?thesis
      using b show_nat_digits [of "nat (- i)"] by (simp add: parse_signed_def show_int_def Let_def)
  next
    case False
    then show ?thesis
      using b d show_nat_digits [of "nat i"] digits_value_show_nat [of "nat i"]
      by (simp add: parse_signed_def show_int_def Let_def)
  qed
qed

section \<open>Wrapping integers\<close>

text \<open>A signed integer that is not on the wire is an \<^typ>\<open>int\<close> kept in range; arithmetic that can leave the
  range wraps as the release build does.\<close>

definition wrap_i32 :: "int \<Rightarrow> int" where
  "wrap_i32 x = (x + 2 ^ 31) mod 2 ^ 32 - 2 ^ 31"

definition wrap_i64 :: "int \<Rightarrow> int" where
  "wrap_i64 x = (x + 2 ^ 63) mod 2 ^ 64 - 2 ^ 63"

definition is_i64 :: "int \<Rightarrow> bool" where
  "is_i64 x \<longleftrightarrow> - (2 ^ 63) \<le> x \<and> x < 2 ^ 63"

lemma wrap_i64_id [simp]: "is_i64 x \<Longrightarrow> wrap_i64 x = x"
  by (simp add: wrap_i64_def is_i64_def)

lemma is_i64_wrap: "is_i64 (wrap_i64 x)"
proof -
  have "0 \<le> (x + 2 ^ 63) mod 2 ^ 64" "(x + 2 ^ 63) mod 2 ^ 64 < 2 ^ 64" by simp_all
  then show ?thesis unfolding wrap_i64_def is_i64_def by simp
qed

lemma parse_i64_range: "parse_i64 s = Some v \<Longrightarrow> is_i64 v"
  by (auto simp: parse_i64_def parse_signed_def is_i64_def Let_def split: if_splits prod.splits)

lemma parse_i64_show [simp]: "is_i64 v \<Longrightarrow> parse_i64 (show_int v) = Some v"
  by (simp add: parse_i64_def is_i64_def parse_signed_show_int)

end
