(* ===== verification/Connection_Guard.thy ===== *)
theory Connection_Guard
  imports Rust_Std
begin

text \<open>
  The per-IP cap on connections in their pre-login phase, \<open>src/net/connection_guard.rs\<close>: the counter
  table and the RAII guard that holds one of its slots.

  A counter is a \<^typ>\<open>nat\<close>: it counts live guards, one per open connection of the process, and never
  exceeds the \<open>u32\<close> maximum it is compared with. The table is an instance of \<open>slot_table\<close>. The guards
  of concurrent connection tasks are the step relation \<open>prelogin_step\<close>: a guard is acquired, told
  that the client logged in, and dropped, in any interleaving with the others and under a cap that
  may be reconfigured between steps.
\<close>

section \<open>The counter table\<close>

type_synonym pre_login_connections = "(str, nat) hmap"

definition prelogin_try_acquire :: "pre_login_connections \<Rightarrow> str \<Rightarrow> nat \<Rightarrow> bool \<times> pre_login_connections" where
  "prelogin_try_acquire counts ip mx =
     (let counter = (case hm_get counts ip of None \<Rightarrow> 0 | Some c \<Rightarrow> c) + 1 in
      if counter > mx then
        let counter = counter - 1 in
        (False, if counter = 0 then hm_remove ip counts else hm_insert ip counter counts)
      else (True, hm_insert ip counter counts))"

definition prelogin_release :: "pre_login_connections \<Rightarrow> str \<Rightarrow> pre_login_connections" where
  "prelogin_release counts ip =
     (case hm_get counts ip of
        None \<Rightarrow> counts
      | Some counter \<Rightarrow> if counter \<le> 1 then hm_remove ip counts else hm_insert ip (counter - 1) counts)"

section \<open>The guard\<close>

record pre_login_guard =
  pg_ip :: "str option"
  pg_released :: bool

definition guard_acquire ::
  "pre_login_connections \<Rightarrow> str option \<Rightarrow> nat \<Rightarrow> pre_login_guard option \<times> pre_login_connections" where
  "guard_acquire counts ip max_connections_per_ip =
     (if max_connections_per_ip = 0 then (Some \<lparr>pg_ip = None, pg_released = True\<rparr>, counts)
      else case ip of
        None \<Rightarrow> (Some \<lparr>pg_ip = None, pg_released = True\<rparr>, counts)
      | Some ip \<Rightarrow>
          (case prelogin_try_acquire counts ip max_connections_per_ip of
             (True, counts) \<Rightarrow> (Some \<lparr>pg_ip = Some ip, pg_released = False\<rparr>, counts)
           | (False, counts) \<Rightarrow> (None, counts)))"

definition guard_release :: "pre_login_guard \<Rightarrow> pre_login_connections \<Rightarrow> pre_login_guard \<times> pre_login_connections" where
  "guard_release g counts =
     (if \<not> pg_released g
      then (g\<lparr>pg_released := True\<rparr>,
            case pg_ip g of None \<Rightarrow> counts | Some ip \<Rightarrow> prelogin_release counts ip)
      else (g, counts))"

definition guard_done :: "pre_login_guard \<Rightarrow> pre_login_connections \<Rightarrow> pre_login_guard \<times> pre_login_connections" where
  "guard_done g counts = guard_release g counts"

definition guard_drop :: "pre_login_guard \<Rightarrow> pre_login_connections \<Rightarrow> pre_login_connections" where
  "guard_drop g counts = snd (guard_release g counts)"

section \<open>The table as a slot counter\<close>

definition prelogin_count :: "pre_login_connections \<Rightarrow> str \<Rightarrow> int" where
  "prelogin_count counts ip = (case hm_get counts ip of None \<Rightarrow> 0 | Some c \<Rightarrow> int c)"

definition prelogin_ok :: "pre_login_connections \<Rightarrow> bool" where
  "prelogin_ok counts \<longleftrightarrow> hm_ok counts \<and> (\<forall>ip. hm_get counts ip \<noteq> Some 0)"

lemma prelogin_acquire_spec:
  assumes "prelogin_ok s" and "prelogin_try_acquire s ip mx = (b, s')"
  shows "prelogin_ok s' \<and> b = (prelogin_count s ip < int mx)
    \<and> prelogin_count s' j = prelogin_count s j + (if b \<and> j = ip then 1 else 0)"
  using assms
  by (auto simp: prelogin_try_acquire_def prelogin_ok_def prelogin_count_def Let_def
      split: option.splits if_splits)

lemma prelogin_release_spec:
  assumes "prelogin_ok s" and "0 < prelogin_count s ip"
  shows "prelogin_ok (prelogin_release s ip)
    \<and> prelogin_count (prelogin_release s ip) j = prelogin_count s j - (if j = ip then 1 else 0)"
  using assms
  by (auto simp: prelogin_release_def prelogin_ok_def prelogin_count_def split: option.splits)

interpretation prelogin: slot_table prelogin_count
    "\<lambda>s ip mx. prelogin_try_acquire s ip (nat mx)" prelogin_release prelogin_ok
proof
  fix s :: pre_login_connections and k mx s' j
  show "0 \<le> prelogin_count s k" by (simp add: prelogin_count_def split: option.split)
  then have nn: "prelogin_count s k < int (nat mx) \<longleftrightarrow> prelogin_count s k < mx" by linarith
  assume ok: "prelogin_ok s"
  show "prelogin_count s k < mx \<and> prelogin_ok s' \<and>
        prelogin_count s' j = prelogin_count s j + (if j = k then 1 else 0)"
    if "prelogin_try_acquire s k (nat mx) = (True, s')"
    using prelogin_acquire_spec [OF ok that] nn by simp
  show "mx \<le> prelogin_count s k \<and> prelogin_ok s' \<and> prelogin_count s' j = prelogin_count s j"
    if "prelogin_try_acquire s k (nat mx) = (False, s')"
    using prelogin_acquire_spec [OF ok that] nn by simp
  show "prelogin_ok (prelogin_release s k) \<and>
        prelogin_count (prelogin_release s k) j = prelogin_count s j - (if j = k then 1 else 0)"
    if "0 < prelogin_count s k"
    by (rule prelogin_release_spec [OF ok that])
qed

section \<open>Concurrent connections\<close>

text \<open>The guards alive, by connection, beside the shared table. The table's mutex makes each
  operation one step.\<close>

type_synonym prelogin_world = "pre_login_connections \<times> (nat \<rightharpoonup> pre_login_guard)"

inductive prelogin_step :: "prelogin_world \<Rightarrow> prelogin_world \<Rightarrow> bool" where
  admit: "guards c = None \<Longrightarrow> guard_acquire counts ip mx = (Some g, counts') \<Longrightarrow>
    prelogin_step (counts, guards) (counts', guards(c \<mapsto> g))"
| refuse: "guard_acquire counts ip mx = (None, counts') \<Longrightarrow>
    prelogin_step (counts, guards) (counts', guards)"
| logged_in: "guards c = Some g \<Longrightarrow> guard_done g counts = (g', counts') \<Longrightarrow>
    prelogin_step (counts, guards) (counts', guards(c \<mapsto> g'))"
| closed: "guards c = Some g \<Longrightarrow>
    prelogin_step (counts, guards) (guard_drop g counts, guards(c := None))"

inductive_cases prelogin_stepE: "prelogin_step w w'"

definition holds_slot :: "pre_login_guard option \<Rightarrow> str \<Rightarrow> bool" where
  "holds_slot g ip \<longleftrightarrow> (\<exists>x. g = Some x \<and> pg_ip x = Some ip \<and> \<not> pg_released x)"

definition holders :: "(nat \<rightharpoonup> pre_login_guard) \<Rightarrow> str \<Rightarrow> nat set" where
  "holders guards ip = {c. holds_slot (guards c) ip}"

definition prelogin_inv :: "prelogin_world \<Rightarrow> bool" where
  "prelogin_inv w \<longleftrightarrow> prelogin_ok (fst w) \<and> finite (dom (snd w))
     \<and> (\<forall>ip. prelogin_count (fst w) ip = int (card (holders (snd w) ip)))"

lemma finite_holders: "finite (dom guards) \<Longrightarrow> finite (holders guards ip)"
  by (rule finite_subset [of _ "dom guards"]) (auto simp: holders_def holds_slot_def)

lemma holders_update:
  "holders (guards(c := v)) ip = (if holds_slot v ip then insert c (holders guards ip) else holders guards ip - {c})"
  by (auto simp: holders_def)

lemma holds_slot_simps [simp]:
  "\<not> holds_slot None ip"
  "holds_slot (Some \<lparr>pg_ip = i, pg_released = r\<rparr>) ip \<longleftrightarrow> i = Some ip \<and> \<not> r"
  "\<not> holds_slot (Some (g\<lparr>pg_released := True\<rparr>)) ip"
  by (simp_all add: holds_slot_def)

text \<open>Releasing a held guard, whether by login or by close, gives back exactly its own slot.\<close>

lemma release_step_inv:
  assumes inv: "prelogin_inv (counts, guards)" and g: "guards c = Some g"
    and r: "guard_release g counts = (g', counts')" and v: "\<And>ip. \<not> holds_slot v ip"
  shows "prelogin_inv (counts', guards(c := v))"
proof -
  have fin: "finite (dom guards)" and ok: "prelogin_ok counts"
    and cnt: "\<And>ip. prelogin_count counts ip = int (card (holders guards ip))"
    using inv by (simp_all add: prelogin_inv_def)
  have hol: "holders (guards(c := v)) ip = holders guards ip - {c}" for ip
    using v by (simp add: holders_update)
  have fin': "finite (dom (guards(c := v)))" using fin by (auto intro: finite_subset [of _ "insert c (dom guards)"])
  show ?thesis
  proof (cases "\<exists>ip. holds_slot (Some g) ip")
    case True
    then obtain ip where ip: "pg_ip g = Some ip" "\<not> pg_released g" by (auto simp: holds_slot_def)
    then have c': "counts' = prelogin_release counts ip" using r by (simp add: guard_release_def)
    have mem: "c \<in> holders guards j \<longleftrightarrow> j = ip" for j
      using g ip by (auto simp: holders_def holds_slot_def)
    have pos: "0 < prelogin_count counts ip"
      using cnt [of ip] mem [of ip] finite_holders [OF fin, of ip] by (auto simp: card_gt_0_iff)
    have "prelogin_count counts' j = int (card (holders guards j - {c}))" for j
    proof (cases "j = ip")
      case True
      then have "int (card (holders guards j - {c})) = int (card (holders guards j)) - 1"
        using mem [of j] pos cnt [of ip] by (simp add: of_nat_diff)
      then show ?thesis using True prelogin_release_spec [OF ok pos, of j] cnt [of j] by (simp only: c' refl if_True)
    next
      case False
      then show ?thesis using prelogin_release_spec [OF ok pos, of j] cnt [of j] mem [of j] by (simp add: c')
    qed
    then have "prelogin_count counts' j = int (card (holders (guards(c := v)) j))" for j
      by (simp only: hol)
    then show ?thesis
      using prelogin_release_spec [OF ok pos, THEN conjunct1] fin' unfolding prelogin_inv_def by (simp add: c' [symmetric])
  next
    case False
    then have "counts' = counts" using r by (auto simp: guard_release_def holds_slot_def split: if_splits option.splits)
    moreover have "c \<notin> holders guards j" for j using False g by (simp add: holders_def)
    ultimately show ?thesis using ok cnt fin' hol by (simp add: prelogin_inv_def)
  qed
qed

lemma admit_step_inv:
  assumes inv: "prelogin_inv (counts, guards)" and c: "guards c = None"
    and a: "guard_acquire counts ip mx = (Some g, counts')"
  shows "prelogin_inv (counts', guards(c \<mapsto> g))"
proof -
  have fin: "finite (dom guards)" and ok: "prelogin_ok counts"
    and cnt: "\<And>ip. prelogin_count counts ip = int (card (holders guards ip))"
    using inv by (simp_all add: prelogin_inv_def)
  have nc: "c \<notin> holders guards j" for j using c by (simp add: holders_def)
  consider (free) "g = \<lparr>pg_ip = None, pg_released = True\<rparr>" "counts' = counts"
    | (slot) i where "g = \<lparr>pg_ip = Some i, pg_released = False\<rparr>" "prelogin_try_acquire counts i mx = (True, counts')"
    using a by (auto simp: guard_acquire_def split: if_splits option.splits prod.splits bool.splits)
  then show ?thesis
  proof cases
    case free
    then show ?thesis using ok cnt fin nc by (simp add: prelogin_inv_def holders_update)
  next
    case slot
    have "prelogin_count counts' j = int (card (holders (guards(c \<mapsto> g)) j))" for j
      using prelogin_acquire_spec [OF ok slot(2), of j] cnt [of j] nc [of j] finite_holders [OF fin, of j] slot(1)
      by (auto simp: holders_update)
    then show ?thesis using prelogin_acquire_spec [OF ok slot(2)] fin by (simp add: prelogin_inv_def)
  qed
qed

lemma prelogin_step_inv: "prelogin_step w w' \<Longrightarrow> prelogin_inv w \<Longrightarrow> prelogin_inv w'"
proof (induction rule: prelogin_step.induct)
  case (admit guards c counts ip mx g counts')
  then show ?case using admit_step_inv by blast
next
  case (refuse counts ip mx counts' guards)
  then obtain i where "prelogin_try_acquire counts i mx = (False, counts')"
    by (auto simp: guard_acquire_def split: if_splits option.splits prod.splits bool.splits)
  then show ?case using refuse.prems prelogin_acquire_spec [of counts i mx False counts']
    by (simp add: prelogin_inv_def)
next
  case (logged_in guards c g counts g' counts')
  have "\<not> holds_slot (Some g') ip" for ip
    using logged_in(2) by (auto simp: guard_done_def guard_release_def holds_slot_def split: if_splits)
  then show ?case using release_step_inv logged_in by (metis guard_done_def)
next
  case (closed guards c g counts)
  then show ?case using release_step_inv [of counts guards c g "fst (guard_release g counts)" _ None]
    by (simp add: guard_drop_def)
qed

lemma prelogin_reachable_inv: "prelogin_step\<^sup>*\<^sup>* ([], Map.empty) w \<Longrightarrow> prelogin_inv w"
proof (induction rule: rtranclp_induct)
  case base
  then show ?case by (simp add: prelogin_inv_def prelogin_ok_def prelogin_count_def holders_def)
qed (rule prelogin_step_inv)

lemma prelogin_drained:
  assumes "prelogin_inv (counts, Map.empty)"
  shows "counts = []"
proof (cases counts)
  case (Cons p m)
  then have "hm_get counts (fst p) = Some (snd p)" by (cases p) (simp add: hm_get_def)
  moreover have "prelogin_count counts (fst p) = 0" "hm_get counts (fst p) \<noteq> Some 0"
    using assms by (simp_all add: prelogin_inv_def prelogin_ok_def holders_def)
  ultimately show ?thesis by (simp add: prelogin_count_def)
qed

section \<open>Properties\<close>

text \<open>C12: slot conservation. In every state that connections can reach, in any interleaving of
  admissions, logins and closes and under any sequence of configured caps, the counter of an IP is
  exactly the number of its live connections that hold an unreleased slot; in particular no guard
  releases twice, and once every connection is closed the table is empty.\<close>

theorem prelogin_conservation:
  assumes "prelogin_step\<^sup>*\<^sup>* ([], Map.empty) (counts, guards)"
  shows "prelogin_count counts ip = int (card (holders guards ip)) \<and> (guards = Map.empty \<longrightarrow> counts = [])"
  using prelogin_reachable_inv [OF assms] prelogin_drained by (auto simp: prelogin_inv_def)

theorem prelogin_conservation_witness:
  "prelogin_count [(lit ''1.2.3.4'', 1)] (lit ''1.2.3.4'')
     = int (card (holders [7 \<mapsto> \<lparr>pg_ip = Some (lit ''1.2.3.4''), pg_released = False\<rparr>] (lit ''1.2.3.4'')))"
proof -
  have "prelogin_step ([], Map.empty)
     ([(lit ''1.2.3.4'', 1)], [7 \<mapsto> \<lparr>pg_ip = Some (lit ''1.2.3.4''), pg_released = False\<rparr>])"
    by (rule prelogin_step.admit [where ip = "Some (lit ''1.2.3.4'')" and mx = 2])
      (simp_all add: guard_acquire_def prelogin_try_acquire_def hm_insert_def)
  then show ?thesis using prelogin_conservation [OF r_into_rtranclp] by blast
qed

text \<open>The per-IP cap holds. Whatever sequence of attempts and closes is served from an empty
  table under a fixed cap, the number of admitted and still pre-login connections of an IP never
  exceeds the cap and the table's counter equals it.\<close>

theorem prelogin_cap:
  assumes "slot_run (\<lambda>s ip mx. prelogin_try_acquire s ip (nat mx)) prelogin_release mx ([], \<lambda>_. 0) es = (s', held)"
    and "0 \<le> mx"
  shows "held ip \<le> mx \<and> prelogin_count s' ip = held ip"
proof -
  have e: "prelogin_ok []" "\<And>k. prelogin_count [] k = 0" by (simp_all add: prelogin_ok_def prelogin_count_def)
  show ?thesis
    using prelogin.run_bounded [of "[]" "\<lambda>_. 0" mx es s' held ip] prelogin.run_refines [of "[]" "\<lambda>_. 0" mx es s' held]
      e assms by simp
qed

theorem prelogin_cap_witness:
  "snd (slot_run (\<lambda>s ip mx. prelogin_try_acquire s ip (nat mx)) prelogin_release 1 ([], \<lambda>_. 0)
      [Acquire (lit ''a''), Acquire (lit ''a''), Release (lit ''a''), Acquire (lit ''a'')]) (lit ''a'') \<le> 1"
  using prelogin_cap [of 1 "[Acquire (lit ''a''), Acquire (lit ''a''), Release (lit ''a''), Acquire (lit ''a'')]"]
  by (metis prod.collapse zero_le_one)

end
