(* ===== verification/Flood_Control.thy ===== *)
theory Flood_Control
  imports Rust_Std
begin

text \<open>
  The process-wide ceilings of \<open>src/net/flood_control.rs\<close>.

  \<open>GlobalConnections\<close> is one atomic counter without a lock: acquiring adds one and takes it back
  when the sum is over the maximum. Its operations are therefore modelled as separate atomic steps of
  concurrent threads (\<open>gc_step\<close>). \<open>ConnectionRates\<close> is a fixed-window limiter behind a mutex;
  \<open>HeldReconnectSessions\<close> a counter with a settable maximum.
\<close>

section \<open>Global connections\<close>

text \<open>The state after a thread's \<open>fetch_add\<close>: it holds a slot or still has to give it back.\<close>

datatype gc_thread = Holding | Backing_Out

definition gc_fetch_add :: "int \<Rightarrow> int \<Rightarrow> gc_thread \<times> int" where
  "gc_fetch_add mx cnt = (if cnt + 1 > mx then Backing_Out else Holding, cnt + 1)"

definition gc_fetch_sub :: "int \<Rightarrow> int" where
  "gc_fetch_sub cnt = cnt - 1"

text \<open>\<open>try_acquire\<close> when no other thread interferes between its two atomic operations.\<close>

definition gc_try_acquire :: "int \<Rightarrow> int \<Rightarrow> bool \<times> int" where
  "gc_try_acquire mx cnt =
     (case gc_fetch_add mx cnt of
        (Backing_Out, cnt) \<Rightarrow> (False, gc_fetch_sub cnt)
      | (Holding, cnt) \<Rightarrow> (True, cnt))"

record global_connection_guard = gcg_released :: bool

definition gc_guard_acquire :: "int \<Rightarrow> int \<Rightarrow> global_connection_guard option \<times> int" where
  "gc_guard_acquire mx cnt =
     (if mx \<le> 0 then (Some \<lparr>gcg_released = True\<rparr>, cnt)
      else case gc_try_acquire mx cnt of
        (True, cnt) \<Rightarrow> (Some \<lparr>gcg_released = False\<rparr>, cnt)
      | (False, cnt) \<Rightarrow> (None, cnt))"

definition gc_guard_drop :: "global_connection_guard \<Rightarrow> int \<Rightarrow> int" where
  "gc_guard_drop g cnt = (if \<not> gcg_released g then gc_fetch_sub cnt else cnt)"

inductive gc_step :: "int \<Rightarrow> int \<times> (nat \<rightharpoonup> gc_thread) \<Rightarrow> int \<times> (nat \<rightharpoonup> gc_thread) \<Rightarrow> bool" for mx where
  add: "ts t = None \<Longrightarrow> gc_fetch_add mx cnt = (p, cnt') \<Longrightarrow> gc_step mx (cnt, ts) (cnt', ts(t \<mapsto> p))"
| back_out: "ts t = Some Backing_Out \<Longrightarrow> gc_step mx (cnt, ts) (gc_fetch_sub cnt, ts(t := None))"
| release: "ts t = Some Holding \<Longrightarrow> gc_step mx (cnt, ts) (gc_fetch_sub cnt, ts(t := None))"

section \<open>Connection rates\<close>

record window =
  w_start :: instant
  w_count :: nat

definition MAX_TRACKED_IPS :: nat where
  "MAX_TRACKED_IPS = 250000"

definition SWEEP_CUTOFF :: duration where
  "SWEEP_CUTOFF = from_secs 600"

type_synonym connection_rates = "(str, window) hmap"

text \<open>The \<open>u32\<close> counter wraps on \<open>fetch_add\<close>, and so does the addition to its old value.\<close>

definition rate_try_acquire ::
  "instant \<Rightarrow> str \<Rightarrow> nat \<Rightarrow> duration \<Rightarrow> connection_rates \<Rightarrow> bool \<times> connection_rates" where
  "rate_try_acquire now ip mx window windows =
     (if MAX_TRACKED_IPS \<le> length windows \<and> \<not> hm_contains windows ip then (True, windows)
      else let w = (case hm_get windows ip of
                      None \<Rightarrow> \<lparr>w_start = now, w_count = 0\<rparr>
                    | Some w \<Rightarrow> if window \<le> now - w_start w then \<lparr>w_start = now, w_count = 0\<rparr> else w);
               cnt = (w_count w + 1) mod 2 ^ 32 in
        (cnt \<le> mx, hm_insert ip (w\<lparr>w_count := cnt\<rparr>) windows))"

definition rate_sweep :: "instant \<Rightarrow> connection_rates \<Rightarrow> connection_rates" where
  "rate_sweep now windows =
     (case checked_sub now SWEEP_CUTOFF of
        None \<Rightarrow> windows
      | Some cutoff \<Rightarrow> hm_retain (\<lambda>_ w. cutoff \<le> w_start w) windows)"

section \<open>Held reconnect sessions\<close>

record held_reconnect_sessions =
  hr_held :: int
  hr_max :: int

definition hr_set_max :: "int \<Rightarrow> held_reconnect_sessions \<Rightarrow> held_reconnect_sessions" where
  "hr_set_max mx s = s\<lparr>hr_max := mx\<rparr>"

definition hr_try_enter :: "held_reconnect_sessions \<Rightarrow> bool \<times> held_reconnect_sessions" where
  "hr_try_enter s =
     (let mx = hr_max s; held = hr_held s + 1 in
      if held > mx \<and> mx > 0 then (False, s\<lparr>hr_held := held - 1\<rparr>) else (True, s\<lparr>hr_held := held\<rparr>))"

definition hr_exit :: "held_reconnect_sessions \<Rightarrow> held_reconnect_sessions" where
  "hr_exit s = s\<lparr>hr_held := max (hr_held s - 1) 0\<rparr>"

section \<open>The atomic counter under interleaving\<close>

definition in_state :: "(nat \<rightharpoonup> gc_thread) \<Rightarrow> gc_thread \<Rightarrow> nat set" where
  "in_state ts p = {t. ts t = Some p}"

definition gc_inv :: "int \<Rightarrow> int \<times> (nat \<rightharpoonup> gc_thread) \<Rightarrow> bool" where
  "gc_inv mx s \<longleftrightarrow> finite (dom (snd s))
     \<and> fst s = int (card (in_state (snd s) Holding)) + int (card (in_state (snd s) Backing_Out))
     \<and> int (card (in_state (snd s) Holding)) \<le> max mx 0"

lemma finite_in_state: "finite (dom ts) \<Longrightarrow> finite (in_state ts p)"
  by (rule finite_subset [of _ "dom ts"]) (auto simp: in_state_def)

lemma in_state_update:
  "in_state (ts(t := v)) p = (if v = Some p then insert t (in_state ts p) else in_state ts p - {t})"
  by (auto simp: in_state_def)

lemma card_leave:
  assumes "finite (dom ts)" and "ts t = Some p"
  shows "int (card (in_state (ts(t := None)) q)) = int (card (in_state ts q)) - (if p = q then 1 else 0)"
proof -
  have m: "t \<in> in_state ts q \<longleftrightarrow> p = q" using assms(2) by (simp add: in_state_def)
  then have "p = q \<Longrightarrow> 0 < card (in_state ts q)"
    using finite_in_state [OF assms(1), of q] by (auto simp: card_gt_0_iff)
  then show ?thesis using m by (auto simp: in_state_update of_nat_diff Suc_leI)
qed

lemma card_enter:
  assumes "finite (dom ts)" and "ts t = None"
  shows "int (card (in_state (ts(t \<mapsto> p)) q)) = int (card (in_state ts q)) + (if p = q then 1 else 0)"
proof -
  have "t \<notin> in_state ts q" using assms(2) by (simp add: in_state_def)
  then show ?thesis using finite_in_state [OF assms(1), of q] by (simp add: in_state_update)
qed

lemma gc_step_inv: "gc_step mx s s' \<Longrightarrow> gc_inv mx s \<Longrightarrow> gc_inv mx s'"
proof (induction rule: gc_step.induct)
  case (add ts t cnt p cnt')
  then have fin: "finite (dom ts)" by (simp add: gc_inv_def)
  show ?case
    using add card_enter [OF fin add(1), of p Holding] card_enter [OF fin add(1), of p Backing_Out] fin
    by (auto simp: gc_inv_def gc_fetch_add_def split: if_splits)
next
  case (back_out ts t cnt)
  then have fin: "finite (dom ts)" by (simp add: gc_inv_def)
  show ?case
    using back_out card_leave [OF fin back_out(1), of Holding] card_leave [OF fin back_out(1), of Backing_Out] fin
    by (auto simp: gc_inv_def gc_fetch_sub_def intro: finite_subset [of _ "dom ts"])
next
  case (release ts t cnt)
  then have fin: "finite (dom ts)" by (simp add: gc_inv_def)
  show ?case
    using release card_leave [OF fin release(1), of Holding] card_leave [OF fin release(1), of Backing_Out] fin
    by (auto simp: gc_inv_def gc_fetch_sub_def intro: finite_subset [of _ "dom ts"])
qed

lemma gc_reachable_inv: "(gc_step mx)\<^sup>*\<^sup>* (0, Map.empty) s \<Longrightarrow> gc_inv mx s"
proof (induction rule: rtranclp_induct)
  case base
  then show ?case by (simp add: gc_inv_def in_state_def)
qed (rule gc_step_inv)

section \<open>The counter as a slot table\<close>

text \<open>Without interference the counter is a slot table with a single key.\<close>

interpretation gc_slots: slot_table "\<lambda>cnt (_ :: unit). cnt" "\<lambda>cnt _ mx. gc_try_acquire mx cnt"
    "\<lambda>cnt _. gc_fetch_sub cnt" "\<lambda>cnt. 0 \<le> cnt"
  by unfold_locales (auto simp: gc_try_acquire_def gc_fetch_add_def gc_fetch_sub_def split: if_splits)

section \<open>The rate limiter\<close>

text \<open>One IP's attempts at the given instants: how many of them are let through.\<close>

fun rate_admitted :: "str \<Rightarrow> nat \<Rightarrow> duration \<Rightarrow> connection_rates \<Rightarrow> (str \<times> instant) list \<Rightarrow> nat" where
  "rate_admitted ip mx window ws [] = 0"
| "rate_admitted ip mx window ws ((i, t) # es) =
     (case rate_try_acquire t i mx window ws of (b, ws') \<Rightarrow>
        (if b \<and> i = ip then 1 else 0) + rate_admitted ip mx window ws' es)"

fun rate_run :: "nat \<Rightarrow> duration \<Rightarrow> connection_rates \<Rightarrow> (str \<times> instant) list \<Rightarrow> connection_rates" where
  "rate_run mx window ws [] = ws"
| "rate_run mx window ws ((i, t) # es) = rate_run mx window (snd (rate_try_acquire t i mx window ws)) es"

text \<open>The room a table leaves: no fail-open for the IPs that still come.\<close>

definition has_room :: "connection_rates \<Rightarrow> str set \<Rightarrow> bool" where
  "has_room ws ips \<longleftrightarrow> hm_ok ws \<and> finite ips \<and> card (fst ` set ws \<union> ips) \<le> MAX_TRACKED_IPS"

lemma hm_length_card: "hm_ok m \<Longrightarrow> length m = card (fst ` set m)"
  by (metis hm_ok_def distinct_card length_map list.set_map)

lemma has_room_not_full:
  assumes "has_room ws ips" and "ip \<in> ips"
  shows "\<not> (MAX_TRACKED_IPS \<le> length ws \<and> \<not> hm_contains ws ip)"
proof
  assume h: "MAX_TRACKED_IPS \<le> length ws \<and> \<not> hm_contains ws ip"
  then have "ip \<notin> fst ` set ws" by (simp add: hm_contains_def hm_get_None_iff)
  then have "card (fst ` set ws) < card (fst ` set ws \<union> ips)"
    using assms by (intro psubset_card_mono) (auto simp: has_room_def)
  then show False using h assms(1) by (simp add: has_room_def hm_length_card)
qed

lemma set_hm_insert: "fst ` set (hm_insert k v m) = insert k (fst ` set m)"
  by (simp add: hm_insert_def dom_update)

lemma has_room_step:
  assumes "has_room ws ips" and "i \<in> ips"
  shows "has_room (snd (rate_try_acquire t i mx window ws)) ips"
  using assms has_room_not_full [OF assms]
  by (auto simp: rate_try_acquire_def Let_def has_room_def set_hm_insert insert_absorb Un_insert_left)

lemma rate_other_ip:
  "i \<noteq> ip \<Longrightarrow> hm_get (snd (rate_try_acquire t i mx window ws)) ip = hm_get ws ip"
  by (simp add: rate_try_acquire_def Let_def)

text \<open>Within one fixed window that started at \<open>s\<close> with \<open>c\<close> attempts counted, at most \<open>mx - c\<close> more
  attempts pass, and the window stays as it is.\<close>

lemma rate_one_window:
  assumes "has_room ws ips" and "fst ` set es \<subseteq> ips" and "hm_get ws ip = Some \<lparr>w_start = s, w_count = c\<rparr>"
    and "\<forall>(i, t) \<in> set es. t - s < window" and "c + length es < 2 ^ 32"
  shows "rate_admitted ip mx window ws es \<le> mx - c"
  using assms
proof (induction es arbitrary: ws c)
  case (Cons e es)
  obtain i t where e: "e = (i, t)" by (cases e)
  let ?ws = "snd (rate_try_acquire t i mx window ws)"
  have r: "has_room ?ws ips" using has_room_step [OF Cons.prems(1)] Cons.prems(2) e by auto
  show ?case
  proof (cases "i = ip")
    case True
    have nf: "\<not> (MAX_TRACKED_IPS \<le> length ws \<and> \<not> hm_contains ws ip)"
      using has_room_not_full [OF Cons.prems(1)] Cons.prems(2) e True by auto
    have c: "(c + 1) mod 2 ^ 32 = c + 1" using Cons.prems(5) by simp
    have a: "rate_try_acquire t ip mx window ws = (c + 1 \<le> mx, hm_insert ip \<lparr>w_start = s, w_count = c + 1\<rparr> ws)"
      using nf Cons.prems(3,4) e c by (auto simp: rate_try_acquire_def Let_def)
    have "rate_admitted ip mx window ?ws es \<le> mx - (c + 1)"
      by (rule Cons.IH [OF r]) (use Cons.prems a True in auto)
    then show ?thesis using a True e by auto
  next
    case False
    have "rate_admitted ip mx window ?ws es \<le> mx - c"
      by (rule Cons.IH [OF r]) (use Cons.prems False e in \<open>auto simp: rate_other_ip\<close>)
    then show ?thesis using False e by (auto split: prod.splits)
  qed
qed simp

text \<open>An IP that is untracked or whose window has passed opens a new window with its next attempt.\<close>

lemma rate_fresh:
  assumes "has_room ws ips" and "fst ` set es \<subseteq> ips"
    and "case hm_get ws ip of None \<Rightarrow> True | Some w \<Rightarrow> \<forall>(i, t) \<in> set es. window \<le> t - w_start w"
    and "\<forall>(i, t) \<in> set es. a \<le> t \<and> t < a + window" and "length es < 2 ^ 32 - 1"
    and "sorted (map snd es)"
  shows "rate_admitted ip mx window ws es \<le> mx"
  using assms
proof (induction es arbitrary: ws)
  case (Cons e es)
  obtain i t where e: "e = (i, t)" by (cases e)
  let ?ws = "snd (rate_try_acquire t i mx window ws)"
  have r: "has_room ?ws ips" using has_room_step [OF Cons.prems(1)] Cons.prems(2) e by auto
  show ?case
  proof (cases "i = ip")
    case True
    have nf: "\<not> (MAX_TRACKED_IPS \<le> length ws \<and> \<not> hm_contains ws ip)"
      using has_room_not_full [OF Cons.prems(1)] Cons.prems(2) e True by auto
    have a: "rate_try_acquire t ip mx window ws = (1 \<le> mx, hm_insert ip \<lparr>w_start = t, w_count = 1\<rparr> ws)"
      using nf Cons.prems(3) e by (auto simp: rate_try_acquire_def Let_def split: option.splits)
    have "rate_admitted ip mx window ?ws es \<le> mx - 1"
      by (rule rate_one_window [OF r, where s = t]) (use Cons.prems a True e in auto)
    then show ?thesis using a True e by auto
  next
    case False
    have "rate_admitted ip mx window ?ws es \<le> mx"
      by (rule Cons.IH [OF r]) (use Cons.prems False e in \<open>auto simp: rate_other_ip split: option.splits\<close>)
    then show ?thesis using False e by (auto split: prod.splits)
  qed
qed simp

lemma rate_admitted_append:
  "rate_admitted ip mx window ws (xs @ ys) =
   rate_admitted ip mx window ws xs + rate_admitted ip mx window (rate_run mx window ws xs) ys"
proof (induction xs arbitrary: ws)
  case (Cons e xs)
  then show ?case by (cases e) (simp split: prod.splits)
qed simp

lemma has_room_run: "has_room ws ips \<Longrightarrow> fst ` set es \<subseteq> ips \<Longrightarrow> has_room (rate_run mx window ws es) ips"
proof (induction es arbitrary: ws)
  case (Cons e es)
  then show ?case using has_room_step by (cases e) auto
qed simp

lemma rate_run_keeps_window:
  assumes "has_room ws ips" and "fst ` set es \<subseteq> ips" and "hm_get ws ip = Some w"
    and "\<forall>(i, t) \<in> set es. t - w_start w < window"
  shows "\<exists>w'. hm_get (rate_run mx window ws es) ip = Some w' \<and> w_start w' = w_start w"
  using assms
proof (induction es arbitrary: ws w)
  case (Cons e es)
  obtain i t where e: "e = (i, t)" by (cases e)
  let ?ws = "snd (rate_try_acquire t i mx window ws)"
  have r: "has_room ?ws ips" using has_room_step [OF Cons.prems(1)] Cons.prems(2) e by auto
  have nf: "\<not> (MAX_TRACKED_IPS \<le> length ws \<and> \<not> hm_contains ws i)"
    using has_room_not_full [OF Cons.prems(1)] Cons.prems(2) e by auto
  obtain w1 where w1: "hm_get ?ws ip = Some w1" "w_start w1 = w_start w"
  proof (cases "i = ip")
    case True
    then show thesis using that nf Cons.prems(3,4) e by (auto simp: rate_try_acquire_def Let_def)
  next
    case False
    then show thesis using that [of w] Cons.prems(3) by (simp add: rate_other_ip)
  qed
  show ?case
    using Cons.IH [OF r _ w1(1)] Cons.prems(2,4) w1(2) e by auto
qed auto

lemma rate_run_counts:
  assumes "\<forall>i w. hm_get ws i = Some w \<longrightarrow> w_count w \<le> n"
  shows "\<forall>i w. hm_get (rate_run mx window ws es) i = Some w \<longrightarrow> w_count w \<le> n + length es"
  using assms
proof (induction es arbitrary: ws n)
  case (Cons e es)
  obtain j t where e: "e = (j, t)" by (cases e)
  have "(w_count w + 1) mod 2 ^ 32 \<le> Suc n" if "hm_get ws i = Some w" for i w
    using Cons.prems that mod_less_eq_dividend [of "w_count w + 1" "2 ^ 32"] by fastforce
  moreover have "Suc 0 mod 4294967296 \<le> Suc n" by simp
  ultimately have "\<forall>i w. hm_get (snd (rate_try_acquire t j mx window ws)) i = Some w \<longrightarrow> w_count w \<le> Suc n"
    using Cons.prems by (auto simp: rate_try_acquire_def Let_def le_SucI split: option.splits if_splits)
  from Cons.IH [OF this] show ?case by (simp add: e)
qed simp

lemma sorted_split:
  assumes "sorted (map snd es)"
  shows "\<forall>e \<in> set (takeWhile (\<lambda>e. snd e - s < w) es). snd e - s < w"
    and "\<forall>e \<in> set (dropWhile (\<lambda>e. snd e - s < w) es). w \<le> snd e - (s :: nat)"
proof -
  show "\<forall>e \<in> set (takeWhile (\<lambda>e. snd e - s < w) es). snd e - s < w" by (auto dest: set_takeWhileD)
  show "\<forall>e \<in> set (dropWhile (\<lambda>e. snd e - s < w) es). w \<le> snd e - s"
    using assms by (induction es) (auto simp: not_less)
qed

lemma rate_sliding:
  assumes room: "has_room ws ips" "fst ` set es \<subseteq> ips"
    and n: "\<forall>w. hm_get ws ip = Some w \<longrightarrow> w_count w + length es < 2 ^ 32" "length es < 2 ^ 32 - 1"
    and t: "\<forall>(i, t) \<in> set es. a \<le> t \<and> t < a + window" "sorted (map snd es)"
  shows "rate_admitted ip mx window ws es \<le> 2 * mx"
proof (cases "hm_get ws ip")
  case None
  then have "rate_admitted ip mx window ws es \<le> mx" by (intro rate_fresh [OF room _ t(1) n(2) t(2)]) simp
  then show ?thesis by simp
next
  case (Some w)
  define es1 where "es1 = takeWhile (\<lambda>e. snd e - w_start w < window) es"
  define es2 where "es2 = dropWhile (\<lambda>e. snd e - w_start w < window) es"
  have es: "es = es1 @ es2" by (simp add: es1_def es2_def)
  have sub: "fst ` set es1 \<subseteq> ips" "fst ` set es2 \<subseteq> ips" using room(2) by (auto simp: es)
  have 1: "\<forall>(i, t) \<in> set es1. t - w_start w < window" "\<forall>(i, t) \<in> set es2. window \<le> t - w_start w"
    using sorted_split [OF t(2), where s = "w_start w" and w = window] unfolding es1_def es2_def by fastforce+
  have a1: "rate_admitted ip mx window ws es1 \<le> mx - w_count w"
    by (rule rate_one_window [OF room(1) sub(1) _ 1(1)]) (use Some n(1) es in auto)
  let ?ws = "rate_run mx window ws es1"
  obtain w' where "hm_get ?ws ip = Some w'" "w_start w' = w_start w"
    using rate_run_keeps_window [OF room(1) sub(1) Some 1(1)] by blast
  then have "rate_admitted ip mx window ?ws es2 \<le> mx"
    by (intro rate_fresh [OF has_room_run [OF room(1) sub(1)] sub(2), where ip = ip and window = window and a = a])
      (use 1(2) t n(2) es in \<open>auto simp: sorted_append\<close>)
  then show ?thesis using a1 by (simp add: es rate_admitted_append)
qed

section \<open>Properties\<close>

text \<open>C15: the global ceiling holds under every interleaving. However the atomic add, back-out and
  release operations of concurrent connection tasks interleave, the number of tasks that hold a slot
  never exceeds the maximum, and the counter always equals the slots held plus the adds still to
  be taken back; when no task is left it is zero.\<close>

theorem global_cap_interleaved:
  assumes "(gc_step mx)\<^sup>*\<^sup>* (0, Map.empty) (cnt, ts)"
  shows "int (card {t. ts t = Some Holding}) \<le> max mx 0
    \<and> cnt = int (card {t. ts t = Some Holding}) + int (card {t. ts t = Some Backing_Out})
    \<and> (ts = Map.empty \<longrightarrow> cnt = 0)"
  using gc_reachable_inv [OF assms] by (auto simp: gc_inv_def in_state_def)

theorem global_cap_interleaved_witness:
  "int (card {t. [Suc 0 \<mapsto> Holding, 2 \<mapsto> Backing_Out] t = Some Holding}) \<le> max 1 0"
proof -
  have "gc_step 1 (0, Map.empty) (1, [Suc 0 \<mapsto> Holding])"
    by (rule gc_step.add) (simp_all add: gc_fetch_add_def)
  moreover have "gc_step 1 (1, [Suc 0 \<mapsto> Holding]) (2, [Suc 0 \<mapsto> Holding, 2 \<mapsto> Backing_Out])"
    by (rule gc_step.add) (simp_all add: gc_fetch_add_def)
  ultimately have "(gc_step 1)\<^sup>*\<^sup>* (0, Map.empty) (2, [Suc 0 \<mapsto> Holding, 2 \<mapsto> Backing_Out])"
    by (meson converse_rtranclp_into_rtranclp rtranclp.rtrancl_refl)
  from global_cap_interleaved [OF this] show ?thesis by blast
qed

text \<open>The connection-rate limiter admits at most twice its maximum from one IP in any interval as
  long as its window, whatever the history and the other traffic, as long as the IPs seen fit the
  tracking table; the factor two is the fixed-window boundary the code accepts.\<close>

theorem rate_limit_sliding:
  assumes "card (fst ` set (pre @ es)) \<le> MAX_TRACKED_IPS" and "length (pre @ es) < 2 ^ 32 - 1"
    and "sorted (map snd es)" and "\<forall>(i, t) \<in> set es. a \<le> t \<and> t < a + window"
  shows "rate_admitted ip mx window (rate_run mx window [] pre) es \<le> 2 * mx"
proof -
  have room: "has_room [] (fst ` set (pre @ es))" using assms(1) by (simp add: has_room_def)
  have "\<forall>w. hm_get (rate_run mx window [] pre) ip = Some w \<longrightarrow> w_count w \<le> length pre"
    using rate_run_counts [of "[]" 0 mx window pre] by simp
  then have "\<forall>w. hm_get (rate_run mx window [] pre) ip = Some w \<longrightarrow> w_count w + length es < 2 ^ 32"
    using assms(2) by fastforce
  then show ?thesis
    by (intro rate_sliding [OF has_room_run [OF room]]) (use assms in auto)
qed

theorem rate_limit_sliding_witness:
  "rate_admitted (lit ''a'') 1 10 (rate_run 1 10 [] [(lit ''a'', 0)])
     [(lit ''a'', 9), (lit ''a'', 10), (lit ''b'', 11), (lit ''a'', 12)] \<le> 2 * 1"
  by (rule rate_limit_sliding [where a = 9])
    (simp_all add: MAX_TRACKED_IPS_def card_insert_if lit_def)

text \<open>The periodic sweep can open a window early. It drops every window that started more than ten
  minutes ago, so a limit configured with a longer window admits an IP that is still over its
  maximum within that window.\<close>

theorem sweep_forgets_open_window:
  assumes "SWEEP_CUTOFF < now - t" and "now - t < window" and "0 < mx" and "mx \<le> n" and "n < 2 ^ 32 - 1"
  shows "fst (rate_try_acquire now ip mx window [(ip, \<lparr>w_start = t, w_count = n\<rparr>)]) = False
    \<and> fst (rate_try_acquire now ip mx window (rate_sweep now [(ip, \<lparr>w_start = t, w_count = n\<rparr>)])) = True"
proof -
  have "rate_sweep now [(ip, \<lparr>w_start = t, w_count = n\<rparr>)] = []"
    using assms(1) by (auto simp: rate_sweep_def checked_sub_def hm_retain_def SWEEP_CUTOFF_def from_secs_def)
  moreover have "(n + 1) mod 2 ^ 32 = n + 1" using assms(5) by simp
  ultimately show ?thesis
    using assms by (simp add: rate_try_acquire_def Let_def hm_get_def MAX_TRACKED_IPS_def)
qed

theorem sweep_forgets_open_window_witness:
  "fst (rate_try_acquire (from_secs 700) (lit ''a'') 5 (from_secs 900)
      (rate_sweep (from_secs 700) [(lit ''a'', \<lparr>w_start = 0, w_count = 5\<rparr>)])) = True"
  using sweep_forgets_open_window [of "from_secs 700" 0 "from_secs 900" 5 5 "lit ''a''"]
  by (simp add: SWEEP_CUTOFF_def from_secs_def)

end
