(* ===== verification/Ip_Ban.thy ===== *)
theory Ip_Ban
  imports Rust_Std
begin

text \<open>
  The automatic ban list of \<open>src/net/ip_ban.rs\<close>. Every operation takes the table's lock for its whole
  body, so each is one function on the table with the clock reading as an argument.

  The abstract state is \<open>ban_view\<close>: until when an IP is banned. Shown: the operations refine the
  obvious updates of that view, housekeeping never changes an answer, a threshold's worth of
  violations inside a window bans and fewer do not.
\<close>

section \<open>Definitions\<close>

record offender =
  of_violations_since :: instant
  of_violation_count :: nat
  of_banned_until :: "instant option"

definition MAX_TRACKED_OFFENDERS :: nat where
  "MAX_TRACKED_OFFENDERS = 250000"

definition FORGET_AFTER :: duration where
  "FORGET_AFTER = from_secs 3600"

type_synonym ip_ban_list = "(str, offender) hmap"

definition fresh_offender :: "instant \<Rightarrow> offender" where
  "fresh_offender now = \<lparr>of_violations_since = now, of_violation_count = 0, of_banned_until = None\<rparr>"

definition is_banned :: "instant \<Rightarrow> str \<Rightarrow> ip_ban_list \<Rightarrow> bool \<times> ip_ban_list" where
  "is_banned now ip offenders =
     (case hm_get offenders ip of
        None \<Rightarrow> (False, offenders)
      | Some o1 \<Rightarrow>
          (case of_banned_until o1 of
             Some until \<Rightarrow> if until > now then (True, offenders) else (False, hm_remove ip offenders)
           | None \<Rightarrow> (False, offenders)))"

definition ban :: "instant \<Rightarrow> str \<Rightarrow> duration \<Rightarrow> ip_ban_list \<Rightarrow> ip_ban_list" where
  "ban now ip duration offenders =
     (let o1 = (case hm_get offenders ip of None \<Rightarrow> fresh_offender now | Some o1 \<Rightarrow> o1) in
      hm_insert ip (o1\<lparr>of_banned_until := Some (now + duration)\<rparr>) offenders)"

definition record_violation ::
  "instant \<Rightarrow> str \<Rightarrow> nat \<Rightarrow> duration \<Rightarrow> duration \<Rightarrow> ip_ban_list \<Rightarrow> bool \<times> ip_ban_list" where
  "record_violation now ip max_violations window ban_duration offenders =
     (if MAX_TRACKED_OFFENDERS \<le> length offenders \<and> \<not> hm_contains offenders ip then (False, offenders)
      else let o1 = (case hm_get offenders ip of None \<Rightarrow> fresh_offender now | Some o1 \<Rightarrow> o1);
               o2 = (if window \<le> now - of_violations_since o1
                     then o1\<lparr>of_violations_since := now, of_violation_count := 0\<rparr> else o1);
               o3 = o2\<lparr>of_violation_count := (of_violation_count o2 + 1) mod 2 ^ 32\<rparr> in
        if max_violations \<le> of_violation_count o3
        then (True, hm_insert ip (o3\<lparr>of_banned_until := Some (now + ban_duration),
                of_violation_count := 0, of_violations_since := now\<rparr>) offenders)
        else (False, hm_insert ip o3 offenders))"

definition active_bans :: "instant \<Rightarrow> ip_ban_list \<Rightarrow> (str \<times> nat) list" where
  "active_bans now offenders =
     sort_key (\<lambda>b. - int (snd b))
       (List.map_filter (\<lambda>(ip, o1).
          case of_banned_until o1 of
            None \<Rightarrow> None
          | Some until \<Rightarrow> if until > now then Some (ip, as_secs (until - now)) else None) offenders)"

definition unban :: "instant \<Rightarrow> str \<Rightarrow> ip_ban_list \<Rightarrow> bool \<times> ip_ban_list" where
  "unban now ip offenders =
     (case hm_get offenders ip of
        None \<Rightarrow> (False, offenders)
      | Some o1 \<Rightarrow>
          (case of_banned_until o1 of None \<Rightarrow> False | Some until \<Rightarrow> until > now, hm_remove ip offenders))"

definition ban_sweep :: "instant \<Rightarrow> ip_ban_list \<Rightarrow> ip_ban_list" where
  "ban_sweep now offenders =
     hm_retain (\<lambda>_ o1.
       (case of_banned_until o1 of None \<Rightarrow> False | Some until \<Rightarrow> until > now)
       \<or> now - of_violations_since o1 < FORGET_AFTER) offenders"

section \<open>The view of a ban list\<close>

definition ban_view :: "ip_ban_list \<Rightarrow> str \<Rightarrow> instant option" where
  "ban_view l ip = Option.bind (hm_get l ip) of_banned_until"

definition banned_at :: "instant \<Rightarrow> ip_ban_list \<Rightarrow> str \<Rightarrow> bool" where
  "banned_at now l ip \<longleftrightarrow> (\<exists>until. ban_view l ip = Some until \<and> now < until)"

lemma fst_is_banned: "fst (is_banned now ip l) = banned_at now l ip"
  by (auto simp: is_banned_def banned_at_def ban_view_def split: option.splits)

lemma is_banned_later:
  "now \<le> t \<Longrightarrow> banned_at t (snd (is_banned now ip l)) j = banned_at t l j"
  by (auto simp: is_banned_def banned_at_def ban_view_def split: option.splits if_splits)

lemma ban_sweep_later:
  "hm_ok l \<Longrightarrow> now \<le> t \<Longrightarrow> banned_at t (ban_sweep now l) j = banned_at t l j"
  by (auto simp: ban_sweep_def banned_at_def ban_view_def hm_get_retain bind_eq_Some_conv split: option.splits if_splits)

lemma record_violation_hit:
  assumes "record_violation now ip m w d l = (True, l')"
  shows "ban_view l' j = (if j = ip then Some (now + d) else ban_view l j)"
  using assms by (auto simp: record_violation_def ban_view_def Let_def split: if_splits)

lemma record_violation_miss:
  assumes "record_violation now ip m w d l = (False, l')"
  shows "ban_view l' j = ban_view l j"
  using assms by (auto simp: record_violation_def ban_view_def fresh_offender_def Let_def split: if_splits option.splits)

lemma ban_view_ban: "ban_view (ban now ip d l) j = (if j = ip then Some (now + d) else ban_view l j)"
  by (simp add: ban_def ban_view_def Let_def)

lemma ban_view_unban: "ban_view (snd (unban now ip l)) j = (if j = ip then None else ban_view l j)"
  by (auto simp: unban_def ban_view_def split: option.splits)

text \<open>Every operation keeps the keys distinct, and only the console command may exceed the cap.\<close>

lemma ban_list_ok:
  assumes "hm_ok l"
  shows "hm_ok (snd (is_banned now ip l))" "hm_ok (ban now ip d l)" "hm_ok (snd (record_violation now ip m w d l))"
    "hm_ok (snd (unban now ip l))" "hm_ok (ban_sweep now l)"
  using assms
  by (auto simp: is_banned_def ban_def record_violation_def unban_def ban_sweep_def Let_def split: option.splits)

lemma record_violation_capped:
  "length l \<le> MAX_TRACKED_OFFENDERS \<Longrightarrow> length (snd (record_violation now ip m w d l)) \<le> MAX_TRACKED_OFFENDERS"
  using hm.guarded_upd_bounded [of l MAX_TRACKED_OFFENDERS ip]
  by (auto simp: record_violation_def Let_def hm_contains_def)

interpretation ban_house: housekeeping "\<lambda>t l ip. banned_at t l ip" ban_sweep hm_ok
  by unfold_locales (simp_all add: ban_sweep_later ban_list_ok)

section \<open>Counting violations\<close>

text \<open>The bans triggered by a sequence of violations of one IP at the given instants.\<close>

fun violations :: "str \<Rightarrow> nat \<Rightarrow> duration \<Rightarrow> duration \<Rightarrow> ip_ban_list \<Rightarrow> instant list \<Rightarrow> bool list \<times> ip_ban_list" where
  "violations ip m w d l [] = ([], l)"
| "violations ip m w d l (t # ts) =
     (case record_violation t ip m w d l of (b, l') \<Rightarrow>
        (case violations ip m w d l' ts of (bs, l'') \<Rightarrow> (b # bs, l'')))"

lemma violations_below:
  assumes "hm_get l ip = Some \<lparr>of_violations_since = s, of_violation_count = c, of_banned_until = u\<rparr>"
    and "\<forall>t \<in> set ts. t - s < w" and "c + length ts < m" and "m < 2 ^ 32"
  shows "fst (violations ip m w d l ts) = replicate (length ts) False
    \<and> hm_get (snd (violations ip m w d l ts)) ip =
        Some \<lparr>of_violations_since = s, of_violation_count = c + length ts, of_banned_until = u\<rparr>"
  using assms
proof (induction ts arbitrary: l c)
  case (Cons t ts)
  have c: "hm_contains l ip" using Cons.prems(1) by (simp add: hm_contains_def)
  have mod: "(c + 1) mod 2 ^ 32 = c + 1" using Cons.prems(3,4) by simp
  let ?l = "hm_insert ip \<lparr>of_violations_since = s, of_violation_count = c + 1, of_banned_until = u\<rparr> l"
  have r: "record_violation t ip m w d l = (False, ?l)"
    using c mod Cons.prems by (simp add: record_violation_def Let_def)
  show ?case
    using Cons.IH [of ?l "c + 1"] Cons.prems r by (auto split: prod.splits)
qed simp

lemma violations_threshold:
  assumes "hm_get l ip = None" and "length l < MAX_TRACKED_OFFENDERS" and "0 < w"
    and "\<forall>t \<in> set (ts @ [t']). t - t0 < w" and "length ts + 2 = m" and "m < 2 ^ 32"
  shows "fst (violations ip m w d l (t0 # ts @ [t'])) = replicate (length ts + 1) False @ [True]"
proof -
  let ?l = "hm_insert ip \<lparr>of_violations_since = t0, of_violation_count = 1, of_banned_until = None\<rparr> l"
  have r0: "record_violation t0 ip m w d l = (False, ?l)"
    using assms by (auto simp: record_violation_def fresh_offender_def Let_def)
  obtain bs l1 where v: "violations ip m w d ?l ts = (bs, l1)" by (cases "violations ip m w d ?l ts")
  have b: "bs = replicate (length ts) False"
    "hm_get l1 ip = Some \<lparr>of_violations_since = t0, of_violation_count = 1 + length ts, of_banned_until = None\<rparr>"
    using violations_below [of ?l ip t0 1 None ts w m d] assms(4-6) v by simp_all
  have app: "violations ip m w d k (xs @ ys) =
      (case violations ip m w d k xs of (b1, k1) \<Rightarrow> (case violations ip m w d k1 ys of (b2, k2) \<Rightarrow> (b1 @ b2, k2)))"
    for k xs ys by (induction xs arbitrary: k) (simp_all split: prod.splits)
  have "fst (record_violation t' ip m w d l1)"
    using b(2) assms(4-6) by (auto simp: record_violation_def Let_def hm_contains_def)
  then show ?thesis using r0 v b(1) by (auto simp: app split: prod.splits)
qed

section \<open>The list of active bans\<close>

lemma map_filter_member:
  assumes "hm_ok l"
  shows "(ip, s) \<in> set (List.map_filter (\<lambda>(ip, o1). case of_banned_until o1 of
        None \<Rightarrow> None | Some until \<Rightarrow> if until > now then Some (ip, as_secs (until - now)) else None) l)
    \<longleftrightarrow> (\<exists>until. ban_view l ip = Some until \<and> now < until \<and> s = as_secs (until - now))"
  using assms
  by (auto simp: List.map_filter_def ban_view_def bind_eq_Some_conv hm_get_in_set split: option.splits if_splits) force+

lemma active_bans_sorted: "sorted (map (\<lambda>b. - int (snd b)) (active_bans now l))"
  unfolding active_bans_def by (rule sorted_sort_key)

section \<open>Properties\<close>

text \<open>Fail2ban threshold. For an IP that is not tracked yet, a run of violations that all fall
  within the window of the first one triggers a ban exactly at the configured number of them: every
  earlier one reports no ban, that one reports it.\<close>

theorem ban_exactly_at_threshold:
  assumes "hm_get l ip = None" and "length l < MAX_TRACKED_OFFENDERS" and "0 < w"
    and "\<forall>t \<in> set (ts @ [t']). t - t0 < w" and "length ts + 2 = m" and "m < 2 ^ 32"
  shows "fst (violations ip m w d l (t0 # ts @ [t'])) = replicate (length ts + 1) False @ [True]
    \<and> banned_at t (snd (record_violation t' ip m w d (snd (violations ip m w d l (t0 # ts))))) ip
        = (t < t' + d)"
proof
  show f: "fst (violations ip m w d l (t0 # ts @ [t'])) = replicate (length ts + 1) False @ [True]"
    by (rule violations_threshold [OF assms])
  obtain bs l1 where v: "violations ip m w d l (t0 # ts) = (bs, l1)" by (cases "violations ip m w d l (t0 # ts)")
  have app: "violations ip m w d k (xs @ [t']) =
      (case violations ip m w d k xs of (b1, k1) \<Rightarrow> (case record_violation t' ip m w d k1 of (b, k2) \<Rightarrow> (b1 @ [b], k2)))"
    for k xs by (induction xs arbitrary: k) (simp_all split: prod.splits)
  have "fst (violations ip m w d l ((t0 # ts) @ [t'])) = bs @ [fst (record_violation t' ip m w d l1)]"
    unfolding app v by (simp split: prod.splits)
  then have "fst (record_violation t' ip m w d l1)" using f by simp
  then obtain l2 where "record_violation t' ip m w d l1 = (True, l2)" by (metis prod.collapse)
  from record_violation_hit [OF this, of ip] this
  show "banned_at t (snd (record_violation t' ip m w d (snd (violations ip m w d l (t0 # ts))))) ip = (t < t' + d)"
    unfolding v by (simp add: banned_at_def)
qed

theorem ban_exactly_at_threshold_witness:
  "fst (violations (lit ''a'') 3 60 100 [] [0, 10, 20]) = [False, False, True]"
  using ban_exactly_at_threshold [of "[]" "lit ''a''" 60 "[10]" 20 0 3 100 0]
  by (simp add: MAX_TRACKED_OFFENDERS_def)

text \<open>The ban list refines a map from IPs to the end of their ban. Answers are read off that map;
  a console ban and a violation that reports a ban set it, a console unban clears it, a violation
  that reports none leaves it; and neither the lazy clean-up of a lookup nor the periodic sweep
  changes any answer at any later time.\<close>

theorem ban_list_refines_view:
  assumes "hm_ok l" and "now \<le> t"
  shows "fst (is_banned now ip l) = banned_at now l ip
    \<and> banned_at t (snd (is_banned now ip l)) j = banned_at t l j
    \<and> banned_at t (ban_sweep now l) j = banned_at t l j
    \<and> ban_view (ban now ip d l) = (ban_view l)(ip := Some (now + d))
    \<and> ban_view (snd (unban now ip l)) = (ban_view l)(ip := None)
    \<and> fst (unban now ip l) = banned_at now l ip
    \<and> ban_view (snd (record_violation now ip m w d l)) =
        (if fst (record_violation now ip m w d l) then (ban_view l)(ip := Some (now + d)) else ban_view l)"
proof (intro conjI)
  show "fst (unban now ip l) = banned_at now l ip"
    by (auto simp: unban_def banned_at_def ban_view_def split: option.splits)
  obtain b l' where r: "record_violation now ip m w d l = (b, l')" by (cases "record_violation now ip m w d l")
  show "ban_view (snd (record_violation now ip m w d l)) =
        (if fst (record_violation now ip m w d l) then (ban_view l)(ip := Some (now + d)) else ban_view l)"
    using r record_violation_hit [of now ip m w d l l'] record_violation_miss [of now ip m w d l l']
    by (cases b) (auto simp: fun_eq_iff)
qed (use assms in \<open>auto simp: fst_is_banned is_banned_later ban_sweep_later ban_view_ban ban_view_unban fun_eq_iff\<close>)

theorem ban_list_refines_view_witness:
  "banned_at 9 (ban_sweep 5 [(lit ''a'', \<lparr>of_violations_since = 0, of_violation_count = 0, of_banned_until = Some 10\<rparr>)]) (lit ''a'')
    = banned_at 9 [(lit ''a'', \<lparr>of_violations_since = 0, of_violation_count = 0, of_banned_until = Some 10\<rparr>)] (lit ''a'')"
  using ban_list_refines_view [of "[(lit ''a'', \<lparr>of_violations_since = 0, of_violation_count = 0, of_banned_until = Some 10\<rparr>)]" 5 9]
  by (simp add: hm_ok_def)

text \<open>The console listing shows every active ban once, with its remaining whole seconds, the
  longest first, and nothing else.\<close>

theorem active_bans_correct:
  assumes "hm_ok l"
  shows "sorted (map (\<lambda>b. - int (snd b)) (active_bans now l))
    \<and> ((ip, s) \<in> set (active_bans now l) \<longleftrightarrow>
        (\<exists>until. ban_view l ip = Some until \<and> now < until \<and> s = as_secs (until - now)))"
  using active_bans_sorted [of now l] map_filter_member [OF assms, of ip s now]
  unfolding active_bans_def set_sort by blast

theorem active_bans_correct_witness:
  "(lit ''a'', 2) \<in> set (active_bans 0 [(lit ''a'', \<lparr>of_violations_since = 0, of_violation_count = 0, of_banned_until = Some (from_secs 2)\<rparr>)])"
  using active_bans_correct [of "[(lit ''a'', \<lparr>of_violations_since = 0, of_violation_count = 0, of_banned_until = Some (from_secs 2)\<rparr>)]" 0 "lit ''a''" 2]
  by (simp add: hm_ok_def ban_view_def hm_get_def as_secs_def from_secs_def)

text \<open>An automatic ban can cut a console ban short. A violation that reaches the threshold while a
  longer console ban is still running, from a connection that was already open, reports a fresh
  ban and replaces the remaining time by the automatic duration.\<close>

theorem auto_ban_shortens_console_ban:
  assumes "hm_get l ip = None" and "t + d < now + long"
  shows "fst (record_violation t ip 1 w d (ban now ip long l)) = True
    \<and> ban_view (ban now ip long l) ip = Some (now + long)
    \<and> ban_view (snd (record_violation t ip 1 w d (ban now ip long l))) ip = Some (t + d)"
proof -
  obtain b l' where r: "record_violation t ip 1 w d (ban now ip long l) = (b, l')" by (cases "record_violation t ip 1 w d (ban now ip long l)")
  moreover have "fst (record_violation t ip 1 w d (ban now ip long l))"
    using assms(1) by (auto simp: record_violation_def ban_def hm_contains_def fresh_offender_def Let_def)
  ultimately show ?thesis using record_violation_hit [of t ip 1 w d "ban now ip long l" l' ip] by (simp add: ban_view_ban)
qed

theorem auto_ban_shortens_console_ban_witness:
  "ban_view (snd (record_violation (from_secs 5) (lit ''a'') 1 (from_secs 60) (from_secs 10)
     (ban 0 (lit ''a'') (from_secs 86400) []))) (lit ''a'') = Some (from_secs 15)"
  using auto_ban_shortens_console_ban [of "[]" "lit ''a''" "from_secs 5" "from_secs 10" 0 "from_secs 86400" "from_secs 60"]
  by (simp add: from_secs_def)

end
