(* ===== verification/Varint.thy ===== *)
theory Varint
  imports Rust_Std
begin

text \<open>
  The wire primitives of \<open>src/protocol/varint.rs\<close>: VarInts, frame lengths and length-prefixed
  strings. A Rust function that appends to an output vector is modelled by the bytes it appends.

  The lemmas characterise the decoder exactly: which buffers are incomplete, which are rejected,
  and that a decision, once made, does not change when more bytes arrive. Encoding and decoding
  form a prefix codec on every \<open>i32\<close>.
\<close>

unbundle bit_operations_syntax

section \<open>Definitions\<close>

definition MAX_PACKET_BYTES :: i32 where
  "MAX_PACKET_BYTES = push_bit 21 1 - 1"

definition LOGIN_ENCRYPTION_REQUEST :: i32 where
  "LOGIN_ENCRYPTION_REQUEST = 0x01"

datatype var_int_error = Incomplete | TooBig

fun read_var_int_loop :: "bytes \<Rightarrow> i32 \<Rightarrow> nat \<Rightarrow> nat \<Rightarrow> var_int_error + i32 \<times> nat" where
  "read_var_int_loop [] result shift i = Inl Incomplete"
| "read_var_int_loop (b # bs) result shift i =
     (let result = result OR push_bit shift (ucast (b AND 0x7F)) in
      if b AND 0x80 = 0 then Inr (result, i + 1)
      else if 35 \<le> shift + 7 then Inl TooBig
      else read_var_int_loop bs result (shift + 7) (i + 1))"

definition read_var_int :: "bytes \<Rightarrow> var_int_error + i32 \<times> nat" where
  "read_var_int buf = read_var_int_loop buf 0 0 0"

lemma drop_bit_7_less:
  fixes v :: i32
  assumes "v AND NOT 0x7F \<noteq> 0"
  shows "unat (drop_bit 7 v) < unat v"
proof -
  have "v \<noteq> 0" using assms by auto
  then have "0 < unat v" by (simp add: unat_gt_0)
  then show ?thesis by (simp add: drop_bit_eq_div unat_div)
qed

function write_var_int :: "i32 \<Rightarrow> bytes" where
  "write_var_int v =
     (if v AND NOT 0x7F = 0 then [ucast v]
      else ucast ((v AND 0x7F) OR 0x80) # write_var_int (drop_bit 7 v))"
  by pat_completeness auto
termination
  by (relation "measure unat") (auto simp: drop_bit_7_less)

declare write_var_int.simps [simp del]

datatype frame_length_out_of_range = FrameLengthOutOfRange i32

definition read_frame_length :: "bytes \<Rightarrow> frame_length_out_of_range + (i32 \<times> nat) option" where
  "read_frame_length buf =
     (case read_var_int buf of
        Inl Incomplete \<Rightarrow> Inr None
      | Inl TooBig \<Rightarrow> Inl (FrameLengthOutOfRange (- 1))
      | Inr (len, consumed) \<Rightarrow>
          if sint len < 0 \<or> sint len > sint MAX_PACKET_BYTES
          then Inl (FrameLengthOutOfRange len)
          else Inr (Some (len, consumed)))"

datatype string_too_long = StringTooLong i32

definition saturating_mul_4 :: "i32 \<Rightarrow> int" where
  "saturating_mul_4 n = max (- (2 ^ 31)) (min (2 ^ 31 - 1) (sint n * 4))"

definition read_string :: "bytes \<Rightarrow> i32 \<Rightarrow> string_too_long + str \<times> nat" where
  "read_string buf max_length =
     (case read_var_int buf of
        Inl _ \<Rightarrow> Inl (StringTooLong (- 1))
      | Inr (len, consumed) \<Rightarrow>
          if sint len < 0 \<or> sint len > saturating_mul_4 max_length
          then Inl (StringTooLong len)
          else (case get_range consumed (consumed + unat len) buf of
                  None \<Rightarrow> Inl (StringTooLong len)
                | Some bytes \<Rightarrow> Inr (from_utf8_lossy bytes, consumed + unat len)))"

definition write_string :: "str \<Rightarrow> bytes" where
  "write_string value = write_var_int (of_nat (length (as_bytes value))) @ as_bytes value"

definition length_prefix :: "bytes \<Rightarrow> bytes" where
  "length_prefix payload = write_var_int (of_nat (length payload)) @ payload"

section \<open>The decoder\<close>

definition is_continuation :: "byte \<Rightarrow> bool" where
  "is_continuation b \<longleftrightarrow> b AND 0x80 \<noteq> 0"

lemma read_loop_Inr:
  "read_var_int_loop bs r (7 * k) i = Inr (v, n) \<Longrightarrow>
   i < n \<and> n - i \<le> length bs \<and> (k < 5 \<longrightarrow> n - i \<le> 5 - k) \<and> \<not> is_continuation (bs ! (n - i - 1))"
proof (induction bs arbitrary: r k i)
  case (Cons b bs)
  show ?case
  proof (cases "b AND 0x80 = 0")
    case False
    with Cons.prems have k: "7 * k + 7 < 35"
      and "read_var_int_loop bs (r OR push_bit (7 * k) (ucast (b AND 0x7F))) (7 * Suc k) (Suc i) = Inr (v, n)"
      by (auto simp: Let_def add.commute split: if_splits)
    from Cons.IH [OF this(2)] k show ?thesis by (auto simp: nth_Cons' )
  qed (use Cons.prems in \<open>auto simp: Let_def is_continuation_def\<close>)
qed simp

lemma read_loop_Incomplete:
  "k < 5 \<Longrightarrow> read_var_int_loop bs r (7 * k) i = Inl Incomplete \<longleftrightarrow>
   length bs < 5 - k \<and> list_all is_continuation bs"
proof (induction bs arbitrary: r k i)
  case (Cons b bs)
  show ?case
  proof (cases "b AND 0x80 = 0 \<or> k = 4")
    case False
    then have "read_var_int_loop (b # bs) r (7 * k) i =
        read_var_int_loop bs (r OR push_bit (7 * k) (ucast (b AND 0x7F))) (7 * Suc k) (Suc i)"
      using Cons.prems by (auto simp: Let_def add.commute)
    then show ?thesis using False Cons.prems Cons.IH [of "Suc k"] by (auto simp: is_continuation_def)
  qed (use Cons.prems in \<open>auto simp: Let_def is_continuation_def\<close>)
qed simp

lemma read_loop_TooBig:
  "k < 5 \<Longrightarrow> read_var_int_loop bs r (7 * k) i = Inl TooBig \<longleftrightarrow>
   5 - k \<le> length bs \<and> list_all is_continuation (take (5 - k) bs)"
proof (induction bs arbitrary: r k i)
  case (Cons b bs)
  have s: "5 - k = Suc (5 - Suc k)" using Cons.prems by simp
  show ?case
  proof (cases "b AND 0x80 = 0 \<or> k = 4")
    case False
    then have e: "read_var_int_loop (b # bs) r (7 * k) i =
        read_var_int_loop bs (r OR push_bit (7 * k) (ucast (b AND 0x7F))) (7 * Suc k) (Suc i)"
      using Cons.prems by (auto simp: Let_def add.commute)
    show ?thesis using False Cons.prems Cons.IH [of "Suc k"] e unfolding s
      by (auto simp: is_continuation_def)
  qed (use Cons.prems in \<open>auto simp: Let_def is_continuation_def s simp del: Suc_diff_Suc\<close>)
qed (auto simp: Let_def)

lemma read_loop_append:
  "read_var_int_loop bs r s i \<noteq> Inl Incomplete \<Longrightarrow>
   read_var_int_loop (bs @ more) r s i = read_var_int_loop bs r s i"
  by (induction bs arbitrary: r s i) (auto simp: Let_def)

lemma read_var_int_Incomplete_iff:
  "read_var_int buf = Inl Incomplete \<longleftrightarrow> length buf < 5 \<and> list_all is_continuation buf"
  using read_loop_Incomplete [of 0 buf 0 0] by (simp add: read_var_int_def)

lemma read_var_int_TooBig_iff:
  "read_var_int buf = Inl TooBig \<longleftrightarrow> 5 \<le> length buf \<and> list_all is_continuation (take 5 buf)"
  using read_loop_TooBig [of 0 buf 0 0] by (simp add: read_var_int_def)

lemma read_var_int_consumed:
  "read_var_int buf = Inr (v, n) \<Longrightarrow> 1 \<le> n \<and> n \<le> 5 \<and> n \<le> length buf"
  using read_loop_Inr [of buf 0 0 0 v n] by (simp add: read_var_int_def)

lemma read_var_int_append:
  "read_var_int buf \<noteq> Inl Incomplete \<Longrightarrow> read_var_int (buf @ more) = read_var_int buf"
  by (simp add: read_var_int_def read_loop_append)

lemma read_var_int_take:
  assumes "read_var_int (buf @ more) = Inr (v, n)" and "n \<le> length buf"
  shows "read_var_int buf = Inr (v, n)"
proof (cases "read_var_int buf = Inl Incomplete")
  case False
  then show ?thesis using assms read_var_int_append [of buf more] by simp
next
  case True
  then have "\<forall>i < length buf. is_continuation (buf ! i)"
    by (simp add: read_var_int_Incomplete_iff list_all_length)
  moreover have "\<not> is_continuation ((buf @ more) ! (n - 1))" "1 \<le> n"
    using read_loop_Inr [of "buf @ more" 0 0 0 v n] assms(1) by (simp_all add: read_var_int_def)
  ultimately show ?thesis using assms(2) by (auto simp: nth_append split: if_splits)
qed

section \<open>The encoder\<close>

lemma bit_septet [simp]: "bit (127 :: int) n \<longleftrightarrow> n < 7" "bit (128 :: int) n \<longleftrightarrow> n = 7"
proof -
  have "127 = (mask 7 :: int)" "128 = (2 ^ 7 :: int)" by (simp_all add: mask_eq_exp_minus_1)
  then show "bit (127 :: int) n \<longleftrightarrow> n < 7" "bit (128 :: int) n \<longleftrightarrow> n = 7"
    by (simp_all only: bit_mask_iff bit_exp_iff) auto
qed

lemma low_septet: "ucast (((ucast ((v AND 0x7F) OR 0x80) :: byte)) AND 0x7F) = (v AND 0x7F :: i32)"
  by (rule bit_word_eqI) (auto simp: bit_simps)

lemma continuation_septet: "(ucast ((v AND 0x7F :: i32) OR 0x80) :: byte) AND 0x80 \<noteq> 0"
proof -
  have "bit ((ucast ((v AND 0x7F :: i32) OR 0x80) :: byte) AND 0x80) 7"
    by (simp add: bit_simps)
  then show ?thesis by (metis bit_0_eq bot_apply bot_bool_def)
qed

lemma last_septet:
  assumes "v AND NOT 0x7F = (0 :: i32)"
  shows "(ucast v :: byte) AND 0x80 = 0" and "ucast ((ucast v :: byte) AND 0x7F) = v"
proof -
  have "bit (v AND NOT 0x7F) n = False" for n using assms by simp
  then have b: "bit v n \<Longrightarrow> n < 32 \<Longrightarrow> bit (0x7F :: i32) n" for n by (auto simp: bit_simps)
  show "(ucast v :: byte) AND 0x80 = 0"
    by (rule bit_word_eqI) (use b [of 7] in \<open>auto simp: bit_simps\<close>)
  show "ucast ((ucast v :: byte) AND 0x7F) = v"
    by (rule bit_word_eqI) (use b in \<open>fastforce simp: bit_simps\<close>)
qed

lemma septet_join: "push_bit s (v AND 0x7F) OR push_bit (s + 7) (drop_bit 7 v) = push_bit s (v :: i32)"
proof (rule bit_word_eqI)
  fix n assume "n < LENGTH(32)"
  then show "bit (push_bit s (v AND 0x7F) OR push_bit (s + 7) (drop_bit 7 v)) n = bit (push_bit s v) n"
    by (cases "s + 7 \<le> n") (auto simp: bit_simps add.commute)
qed

lemma and_not_septet: "v AND NOT 0x7F = (0 :: i32) \<longleftrightarrow> unat v < 128"
proof -
  have "v AND NOT 0x7F = 0 \<longleftrightarrow> v AND 0x7F = v"
    by (auto simp: bit_eq_iff bit_simps)
  also have "v AND 0x7F = take_bit 7 v" by (simp add: take_bit_eq_mask mask_eq_exp_minus_1)
  also have "take_bit 7 v = v \<longleftrightarrow> take_bit 7 (unat v) = unat v"
    by (metis unsigned_take_bit_eq unsigned_word_eqI)
  also have "\<dots> \<longleftrightarrow> unat v < 128" by (simp add: take_bit_nat_eq_self_iff)
  finally show ?thesis .
qed

lemma unat_drop_septet: "unat (drop_bit 7 v :: i32) = unat v div 128"
  by (simp add: drop_bit_eq_div unat_div)

lemma read_loop_write:
  assumes "k < 5" and "unat v < 2 ^ (32 - 7 * k)"
  shows "read_var_int_loop (write_var_int v @ rest) r (7 * k) i
       = Inr (r OR push_bit (7 * k) v, i + length (write_var_int v))"
  using assms
proof (induction v arbitrary: r k i rule: write_var_int.induct)
  case (1 v)
  show ?case
  proof (cases "v AND NOT 0x7F = 0")
    case True
    then show ?thesis by (subst (1 2) write_var_int.simps) (simp add: last_septet)
  next
    case False
    then have "128 \<le> unat v" using and_not_septet [of v] by linarith
    with 1(3) have "2 ^ 7 < (2::nat) ^ (32 - 7 * k)" by simp
    then have k: "k < 4" by (simp only: power_strict_increasing_iff)
    have "32 - 7 * k = (32 - 7 * Suc k) + 7" using k by simp
    then have "(2::nat) ^ (32 - 7 * k) = 2 ^ (32 - 7 * Suc k) * 2 ^ 7" by (simp only: power_add)
    then have "unat v div 128 < 2 ^ (32 - 7 * Suc k)"
      using 1(3) by (intro less_mult_imp_div_less) simp
    then have IH: "read_var_int_loop (write_var_int (drop_bit 7 v) @ rest) r' (7 * Suc k) j
        = Inr (r' OR push_bit (7 * Suc k) (drop_bit 7 v), j + length (write_var_int (drop_bit 7 v)))" for r' j
      using 1(1) [OF False, of "Suc k"] k by (simp add: unat_drop_septet)
    have "read_var_int_loop (write_var_int v @ rest) r (7 * k) i
        = read_var_int_loop (write_var_int (drop_bit 7 v) @ rest)
            (r OR push_bit (7 * k) (v AND 0x7F)) (7 * Suc k) (Suc i)"
      using k False by (subst write_var_int.simps)
        (simp add: low_septet [simplified] continuation_septet [simplified] Let_def add.commute)
    also have "\<dots> = Inr ((r OR push_bit (7 * k) (v AND 0x7F)) OR push_bit (7 * Suc k) (drop_bit 7 v),
        Suc i + length (write_var_int (drop_bit 7 v)))"
      by (rule IH)
    also have "(r OR push_bit (7 * k) (v AND 0x7F)) OR push_bit (7 * Suc k) (drop_bit 7 v)
        = r OR push_bit (7 * k) v"
      by (metis septet_join or.assoc mult_Suc_right add.commute)
    finally show ?thesis using False by (subst (2) write_var_int.simps) simp
  qed
qed

lemma read_write_var_int:
  "read_var_int (write_var_int v @ rest) = Inr (v, length (write_var_int v))"
proof -
  have "unat v < 2 ^ LENGTH(32)" by (rule unsigned_less)
  then show ?thesis using read_loop_write [of 0 v rest 0 0] by (simp add: read_var_int_def)
qed

interpretation varint: prefix_codec write_var_int read_var_int "\<lambda>_. True"
  by unfold_locales (simp add: read_write_var_int)

lemma length_write_var_int: "1 \<le> length (write_var_int v) \<and> length (write_var_int v) \<le> 5"
  using read_var_int_consumed [of "write_var_int v" v] varint.dec_exact by simp

section \<open>Frames and strings\<close>

lemma MAX_PACKET_BYTES_sint: "sint MAX_PACKET_BYTES = 2097151"
  by (simp add: MAX_PACKET_BYTES_def)

lemma sint_of_nat_i32 [simp]: "n < 2147483648 \<Longrightarrow> sint (of_nat n :: i32) = int n"
  by (simp add: signed_of_nat signed_take_bit_int_eq_self)

lemma unat_of_nat_i32 [simp]: "n < 2147483648 \<Longrightarrow> unat (of_nat n :: i32) = n"
  by (simp add: unat_of_nat)

lemma sint_nonneg_unat:
  assumes "0 \<le> sint (v :: i32)"
  shows "int (unat v) = sint v"
proof -
  have "\<not> bit v 31" using assms bit_last_iff [of v] by simp
  then have "signed_take_bit 31 (uint v) = take_bit 31 (uint v)" 
    by (simp add: signed_take_bit_eq_if_positive bit_unsigned_iff)
  moreover have "take_bit 31 v = v"
  proof (rule bit_word_eqI)
    fix n assume "n < LENGTH(32)"
    then show "bit (take_bit 31 v) n = bit v n"
      using \<open>\<not> bit v 31\<close> by (cases "n = 31") (auto simp: bit_simps)
  qed
  ultimately show ?thesis by (simp add: sint_uint flip: unsigned_take_bit_eq)
qed

lemma write_string_read:
  assumes "list_all is_scalar value" and "int (length (as_bytes value)) \<le> saturating_mul_4 mx"
  shows "read_string (write_string value @ rest) mx = Inr (value, length (write_string value))"
proof -
  have "saturating_mul_4 mx \<le> 2147483647" by (simp add: saturating_mul_4_def)
  then have l: "length (as_bytes value) < 2147483648" using assms(2) by linarith
  have r: "get_range (length (write_var_int (of_nat (length (as_bytes value)))))
       (length (write_var_int (of_nat (length (as_bytes value)))) + length (as_bytes value))
       (write_string value @ rest) = Some (as_bytes value)"
    by (simp add: get_range_def write_string_def slice_def)
  show ?thesis
    using assms l r read_write_var_int [of "of_nat (length (as_bytes value))" "as_bytes value @ rest"]
    by (simp add: read_string_def write_string_def)
qed

interpretation wire_string: prefix_codec write_string "\<lambda>buf. read_string buf mx"
    "\<lambda>s. list_all is_scalar s \<and> int (length (as_bytes s)) \<le> saturating_mul_4 mx" for mx
  by unfold_locales (simp add: write_string_read)

lemma read_string_consumed:
  "read_string buf mx = Inr (s, n) \<Longrightarrow> n \<le> length buf \<and> list_all is_scalar s"
  by (auto simp: read_string_def get_range_def from_utf8_lossy_scalar
      split: sum.splits prod.splits if_splits option.splits)

lemma read_length_prefix [wire]:
  "read_var_int (length_prefix p @ rest) =
   Inr (of_nat (length p), length (write_var_int (of_nat (length p))))"
  by (simp add: length_prefix_def read_write_var_int)

lemma length_length_prefix [wire]:
  "length (length_prefix p) = length (write_var_int (of_nat (length p))) + length p"
  by (simp add: length_prefix_def)

section \<open>Properties\<close>

text \<open>C26: every \<open>i32\<close> survives the wire. Decoding the VarInt that was written, with any bytes
  after it, returns the value and consumes exactly the one to five bytes that were written.\<close>

theorem var_int_round_trip:
  "read_var_int (write_var_int v @ rest) = Inr (v, length (write_var_int v))
   \<and> 1 \<le> length (write_var_int v) \<and> length (write_var_int v) \<le> 5"
  using varint.dec_enc [of v rest] length_write_var_int [of v] by simp

text \<open>The VarInt decoder decides exactly. A buffer is incomplete iff it holds fewer than five
  bytes and all of them continue; it is rejected iff its first five bytes all continue; and a
  decision other than incomplete is not changed by bytes that arrive later.\<close>

theorem read_var_int_decides:
  "(read_var_int buf = Inl Incomplete \<longleftrightarrow> length buf < 5 \<and> list_all is_continuation buf)
   \<and> (read_var_int buf = Inl TooBig \<longleftrightarrow> 5 \<le> length buf \<and> list_all is_continuation (take 5 buf))
   \<and> (read_var_int buf = Inl Incomplete \<or> read_var_int (buf @ more) = read_var_int buf)"
  using read_var_int_Incomplete_iff read_var_int_TooBig_iff read_var_int_append by blast

text \<open>A length-prefixed string of Unicode scalar values is read back unchanged whenever its
  UTF-8 form fits the reader's limit of four bytes per allowed character, and the reader stops
  exactly behind it.\<close>

theorem wire_string_round_trip:
  assumes "list_all is_scalar s" and "int (length (as_bytes s)) \<le> saturating_mul_4 mx"
  shows "read_string (write_string s @ rest) mx = Inr (s, length (write_string s))"
  using assms by (intro wire_string.dec_enc) simp

theorem wire_string_round_trip_witness:
  "read_string (write_string [0x48, 0xE9, 0x20AC, 0x1F600] @ [7]) 16
     = Inr ([0x48, 0xE9, 0x20AC, 0x1F600], length (write_string [0x48, 0xE9, 0x20AC, 0x1F600]))"
  by (rule wire_string_round_trip)
    (simp_all add: is_scalar_def as_bytes_def utf8_encode_char_def saturating_mul_4_def)

text \<open>C32: the frame-length reader accepts what \<open>length_prefix\<close> writes iff the payload is at most
  \<open>MAX_PACKET_BYTES\<close> long, and never returns a length outside \<open>0..MAX_PACKET_BYTES\<close>.\<close>

theorem read_frame_length_bounds:
  "(length p < 2147483648 \<longrightarrow>
     read_frame_length (length_prefix p @ rest) =
       (if length p \<le> 2097151
        then Inr (Some (of_nat (length p), length (write_var_int (of_nat (length p)))))
        else Inl (FrameLengthOutOfRange (of_nat (length p)))))
   \<and> (\<forall>len n. read_frame_length buf = Inr (Some (len, n)) \<longrightarrow>
        0 \<le> sint len \<and> sint len \<le> 2097151 \<and> 1 \<le> n \<and> n \<le> 5)"
proof (intro conjI allI impI)
  show "length p < 2147483648 \<Longrightarrow> read_frame_length (length_prefix p @ rest) =
       (if length p \<le> 2097151
        then Inr (Some (of_nat (length p), length (write_var_int (of_nat (length p)))))
        else Inl (FrameLengthOutOfRange (of_nat (length p))))"
    by (simp add: read_frame_length_def read_length_prefix MAX_PACKET_BYTES_sint)
next
  fix len n
  assume "read_frame_length buf = Inr (Some (len, n))"
  then have "read_var_int buf = Inr (len, n) \<and> 0 \<le> sint len \<and> sint len \<le> 2097151"
    by (auto simp: read_frame_length_def MAX_PACKET_BYTES_sint
        split: sum.splits var_int_error.splits prod.splits if_splits)
  then show "0 \<le> sint len" "sint len \<le> 2097151" "1 \<le> n" "n \<le> 5"
    using read_var_int_consumed [of buf len n] by auto
qed

theorem read_frame_length_bounds_witness:
  "read_frame_length (length_prefix [1, 2, 3] @ []) =
     Inr (Some (of_nat (length [1, 2, 3 :: byte]), length (write_var_int (of_nat (length [1, 2, 3 :: byte])))))"
  using read_frame_length_bounds [of "[1, 2, 3]" "[]" "[]"] by simp

end
