(* ===== verification/Net_Addr.thy ===== *)
theory Net_Addr
  imports Rust_Std
begin

text \<open>
  The part of \<open>std::net\<close> the program uses: \<open>IpAddr\<close> and \<open>SocketAddr\<close> values, the textual form
  \<open>Display\<close> writes and the parser behind \<open>str::parse::<IpAddr>()\<close>. An IPv4 literal has four
  decimal octets of at most three digits without a leading zero; an IPv6 literal has up to eight
  hexadecimal groups of at most four digits, one \<open>::\<close> and an optional trailing IPv4 part.

  The printer and the parser agree on every IPv4 address (\<open>parse_ip_addr_show_v4\<close>).
\<close>

section \<open>Addresses\<close>

datatype ip_addr = V4 byte byte byte byte | V6 bytes

datatype socket_addr = SocketAddr (addr_ip: ip_addr) (addr_port: u16)

fun is_ipv6 :: "ip_addr \<Rightarrow> bool" where
  "is_ipv6 (V4 a b c d) = False"
| "is_ipv6 (V6 o6) = True"

fun ip_ok :: "ip_addr \<Rightarrow> bool" where
  "ip_ok (V4 a b c d) = True"
| "ip_ok (V6 o6) \<longleftrightarrow> length o6 = 16"

section \<open>Display\<close>

definition show_octet :: "byte \<Rightarrow> str" where
  "show_octet b = show_nat (unat b)"

definition show_ipv4 :: "byte \<Rightarrow> byte \<Rightarrow> byte \<Rightarrow> byte \<Rightarrow> str" where
  "show_ipv4 a b c d = show_octet a @ lit ''.'' @ show_octet b @ lit ''.'' @ show_octet c @ lit ''.'' @ show_octet d"

definition hex_digit :: "nat \<Rightarrow> nat" where
  "hex_digit n = (if n < 10 then 48 + n else 87 + n)"

fun show_hex :: "nat \<Rightarrow> str" where
  "show_hex n = (if n < 16 then [hex_digit n] else show_hex (n div 16) @ [hex_digit (n mod 16)])"

declare show_hex.simps [simp del]

fun segments :: "bytes \<Rightarrow> nat list" where
  "segments (h # l # r) = (256 * unat h + unat l) # segments r"
| "segments _ = []"

text \<open>The first longest run of zero segments, as its start and length.\<close>

fun longest_zero_run :: "nat list \<Rightarrow> nat \<Rightarrow> nat \<times> nat \<Rightarrow> nat \<times> nat \<Rightarrow> nat \<times> nat" where
  "longest_zero_run [] i cur best = best"
| "longest_zero_run (s # r) i (cs, cl) (bs, bl) =
     (if s = 0 then
        let cs' = (if cl = 0 then i else cs); cl' = cl + 1 in
        longest_zero_run r (i + 1) (cs', cl') (if cl' > bl then (cs', cl') else (bs, bl))
      else longest_zero_run r (i + 1) (0, 0) (bs, bl))"

fun join_hex :: "nat list \<Rightarrow> str" where
  "join_hex [] = []"
| "join_hex [s] = show_hex s"
| "join_hex (s # r) = show_hex s @ lit '':'' @ join_hex r"

definition show_ipv6 :: "bytes \<Rightarrow> str" where
  "show_ipv6 o6 =
     (let segs = segments o6 in
      if take 5 segs = [0, 0, 0, 0, 0] \<and> segs ! 5 = 0xFFFF
      then lit ''::ffff:'' @ show_ipv4 (o6 ! 12) (o6 ! 13) (o6 ! 14) (o6 ! 15)
      else case longest_zero_run segs 0 (0, 0) (0, 0) of (start, len) \<Rightarrow>
        if len > 1 then join_hex (take start segs) @ lit ''::'' @ join_hex (drop (start + len) segs)
        else join_hex segs)"

fun show_ip :: "ip_addr \<Rightarrow> str" where
  "show_ip (V4 a b c d) = show_ipv4 a b c d"
| "show_ip (V6 o6) = show_ipv6 o6"

fun show_socket_addr :: "socket_addr \<Rightarrow> str" where
  "show_socket_addr (SocketAddr ip p) =
     (if is_ipv6 ip then lit ''['' @ show_ip ip @ lit '']:'' else show_ip ip @ lit '':'') @ show_nat (unat p)"

section \<open>Parsing\<close>

text \<open>Each reader returns the value with the text it left, or fails without consuming anything.\<close>

definition read_octet :: "str \<Rightarrow> (byte \<times> str) option" where
  "read_octet s =
     (let d = takeWhile is_ascii_digit s; r = dropWhile is_ascii_digit s in
      if d = [] \<or> 3 < length d \<or> (hd d = 48 \<and> 1 < length d) \<or> 255 < digits_value d then None
      else Some (byte_of (digits_value d), r))"

definition read_given_char :: "nat \<Rightarrow> str \<Rightarrow> str option" where
  "read_given_char c s = (case s of [] \<Rightarrow> None | x # r \<Rightarrow> if x = c then Some r else None)"

definition read_sep_octet :: "str \<Rightarrow> (byte \<times> str) option" where
  "read_sep_octet s = Option.bind (read_given_char 46 s) read_octet"

definition read_ipv4_addr :: "str \<Rightarrow> ((byte \<times> byte \<times> byte \<times> byte) \<times> str) option" where
  "read_ipv4_addr s =
     Option.bind (read_octet s) (\<lambda>(a, s). Option.bind (read_sep_octet s) (\<lambda>(b, s).
     Option.bind (read_sep_octet s) (\<lambda>(c, s). Option.bind (read_sep_octet s) (\<lambda>(d, s).
       Some ((a, b, c, d), s)))))"

definition hex_value :: "nat \<Rightarrow> nat option" where
  "hex_value c = (if 48 \<le> c \<and> c \<le> 57 then Some (c - 48)
     else if 97 \<le> c \<and> c \<le> 102 then Some (c - 87)
     else if 65 \<le> c \<and> c \<le> 70 then Some (c - 55) else None)"

definition read_hex_group :: "str \<Rightarrow> (nat \<times> str) option" where
  "read_hex_group s =
     (let d = takeWhile (\<lambda>c. hex_value c \<noteq> None) s; r = dropWhile (\<lambda>c. hex_value c \<noteq> None) s in
      if d = [] \<or> 4 < length d then None
      else Some (foldl (\<lambda>a c. a * 16 + the (hex_value c)) 0 d, r))"

definition read_separator :: "nat \<Rightarrow> (str \<Rightarrow> ('a \<times> str) option) \<Rightarrow> str \<Rightarrow> ('a \<times> str) option" where
  "read_separator i f s = (if i = 0 then f s else Option.bind (read_given_char 58 s) f)"

text \<open>\<open>read_groups\<close> fills at most \<open>limit\<close> slots and says whether an IPv4 part ended it.\<close>

fun read_groups :: "nat \<Rightarrow> nat \<Rightarrow> str \<Rightarrow> nat list \<times> bool \<times> str" where
  "read_groups i 0 s = ([], False, s)"
| "read_groups i (Suc left) s =
     (case (if 0 < left then read_separator i read_ipv4_addr s else None) of
        Some ((a, b, c, d), r) \<Rightarrow> ([256 * unat a + unat b, 256 * unat c + unat d], True, r)
      | None \<Rightarrow>
          (case read_separator i read_hex_group s of
             None \<Rightarrow> ([], False, s)
           | Some (g, r) \<Rightarrow> (case read_groups (i + 1) left r of (gs, v4, t) \<Rightarrow> (g # gs, v4, t))))"

definition octets_of :: "nat list \<Rightarrow> bytes" where
  "octets_of gs = concat (map (\<lambda>g. [byte_of (g div 256), byte_of g]) gs)"

definition read_ipv6_addr :: "str \<Rightarrow> (bytes \<times> str) option" where
  "read_ipv6_addr s =
     (case read_groups 0 8 s of (head, head_ipv4, r) \<Rightarrow>
        if length head = 8 then Some (octets_of head, r)
        else if head_ipv4 then None
        else Option.bind (read_given_char 58 r) (\<lambda>r. Option.bind (read_given_char 58 r) (\<lambda>r.
          case read_groups 0 (8 - (length head + 1)) r of (tail, _, r) \<Rightarrow>
            Some (octets_of (head @ replicate (8 - length head - length tail) 0 @ tail), r))))"

definition parse_ip_addr :: "str \<Rightarrow> ip_addr option" where
  "parse_ip_addr s =
     (case (case read_ipv4_addr s of
              Some ((a, b, c, d), r) \<Rightarrow> Some (V4 a b c d, r)
            | None \<Rightarrow> map_option (\<lambda>(o6, r). (V6 o6, r)) (read_ipv6_addr s)) of
        Some (ip, []) \<Rightarrow> Some ip
      | _ \<Rightarrow> None)"

section \<open>IPv4 text round trip\<close>

lemma length_show_nat: "n < 10 ^ k \<Longrightarrow> 0 < k \<Longrightarrow> length (show_nat n) \<le> k"
proof (induction k arbitrary: n)
  case (Suc k)
  show ?case
  proof (cases "n < 10")
    case True
    then show ?thesis by (subst show_nat.simps) simp
  next
    case False
    then have "0 < k" "n div 10 < 10 ^ k"
      using Suc.prems by (auto intro!: Nat.gr0I simp: less_mult_imp_div_less mult.commute)
    then have "length (show_nat (n div 10)) \<le> k" by (rule Suc.IH [rotated])
    then show ?thesis using False by (subst show_nat.simps) simp
  qed
qed simp

lemma hd_show_nat: "hd (show_nat n) = 48 \<Longrightarrow> n = 0"
proof (induction n rule: show_nat.induct)
  case (1 n)
  show ?case
  proof (cases "n < 10")
    case True
    then show ?thesis using 1(2) by (subst (asm) show_nat.simps) simp
  next
    case False
    have "hd (show_nat n) = hd (show_nat (n div 10))"
      using False show_nat_digits [of "n div 10"] by (subst show_nat.simps) simp
    then show ?thesis using 1 False by simp
  qed
qed

lemma read_octet_show:
  assumes "s = [] \<or> \<not> is_ascii_digit (hd s)"
  shows "read_octet (show_octet b @ s) = Some (b, s)"
proof -
  let ?d = "show_nat (unat b)"
  have d: "list_all is_ascii_digit ?d" "?d \<noteq> []" using show_nat_digits [of "unat b"] by auto
  have "takeWhile is_ascii_digit (?d @ s) = ?d" "dropWhile is_ascii_digit (?d @ s) = s"
    using d(1) assms by (cases s; auto simp: list_all_iff takeWhile_append dropWhile_append)+
  moreover have u: "unat b < 2 ^ LENGTH(8)" by (rule unsigned_less)
  moreover have "length ?d \<le> 3" using u by (intro length_show_nat) simp_all
  moreover have "length ?d \<le> 1" if "hd ?d = 48"
    using hd_show_nat [OF that] by (simp add: show_nat.simps)
  ultimately show ?thesis
    using d(2) by (auto simp: read_octet_def show_octet_def Let_def byte_of_def not_less)
qed

lemma read_sep_octet_show:
  assumes "s = [] \<or> \<not> is_ascii_digit (hd s)"
  shows "read_sep_octet (46 # show_octet b @ s) = Some (b, s)"
  using read_octet_show [OF assms] by (simp add: read_sep_octet_def read_given_char_def)

lemma parse_ip_addr_show_v4: "parse_ip_addr (show_ip (V4 a b c d)) = Some (V4 a b c d)"
  using read_octet_show [of "46 # show_octet b @ 46 # show_octet c @ 46 # show_octet d" a]
    read_sep_octet_show [of "46 # show_octet c @ 46 # show_octet d" b]
    read_sep_octet_show [of "46 # show_octet d" c] read_sep_octet_show [of "[]" d]
  by (simp add: parse_ip_addr_def show_ipv4_def read_ipv4_addr_def lit_def is_ascii_digit_def)

lemma show_ipv4_no_space: "32 \<notin> set (show_ipv4 a b c d)"
  using show_nat_not [of 32] by (auto simp: show_ipv4_def show_octet_def lit_def is_ascii_digit_def)

end
