(* ===== verification/Minecraft_Protocol.thy ===== *)
theory Minecraft_Protocol
  imports Varint Net_Addr
begin

text \<open>
  The packet encoders and decoders of \<open>src/protocol/minecraft_protocol.rs\<close>. A UUID is the list of its
  sixteen bytes, as \<open>Uuid::from_bytes\<close> and \<open>Uuid::into_bytes\<close> exchange it.
\<close>

section \<open>Definitions\<close>

type_synonym uuid = bytes

definition encode_proxy_protocol_header :: "socket_addr \<Rightarrow> socket_addr \<Rightarrow> bytes" where
  "encode_proxy_protocol_header source_addr dest_addr =
     (let proto = (if is_ipv6 (addr_ip source_addr) then lit ''TCP6'' else lit ''TCP4'') in
      as_bytes (lit ''PROXY '' @ proto @ lit '' '' @ show_ip (addr_ip source_addr) @ lit '' ''
        @ show_ip (addr_ip dest_addr) @ lit '' '' @ show_nat (unat (addr_port source_addr)) @ lit '' ''
        @ show_nat (unat (addr_port dest_addr)) @ [13, 10]))"

definition encode_handshake :: "i32 \<Rightarrow> str \<Rightarrow> u16 \<Rightarrow> i32 \<Rightarrow> bytes" where
  "encode_handshake protocol_version host port next_state =
     length_prefix (write_var_int 0x00 @ write_var_int protocol_version @ write_string host
       @ to_be_bytes port @ write_var_int next_state)"

definition encode_status_response :: "str \<Rightarrow> bytes" where
  "encode_status_response json = length_prefix (write_var_int 0x00 @ write_string json)"

definition uuid_from_bits :: "i64 \<Rightarrow> i64 \<Rightarrow> uuid" where
  "uuid_from_bits most_significant least_significant =
     to_be_bytes most_significant @ to_be_bytes least_significant"

definition uuid_to_bits :: "uuid \<Rightarrow> i64 \<times> i64" where
  "uuid_to_bits uuid = (from_be_bytes (slice 0 8 uuid), from_be_bytes (slice 8 16 uuid))"

definition parse_login_start :: "bytes \<Rightarrow> (str \<times> uuid option) option" where
  "parse_login_start buf =
     (case read_var_int buf of
        Inl _ \<Rightarrow> None
      | Inr (len, payload_start) \<Rightarrow>
          if sint len < 0 then None
          else if length buf - payload_start < unat len then None
          else case read_var_int (drop payload_start buf) of
            Inl _ \<Rightarrow> None
          | Inr (packet_id, consumed) \<Rightarrow>
              if packet_id \<noteq> 0x00 then None
              else let pos = payload_start + consumed in
                case read_string (drop pos buf) 16 of
                  Inl _ \<Rightarrow> None
                | Inr (name, consumed) \<Rightarrow>
                    let pos = pos + consumed; payload_end = payload_start + unat len in
                    if payload_end < pos then None
                    else if payload_end - pos = 16
                    then (case get_range pos (pos + 16) buf of
                            None \<Rightarrow> None
                          | Some bytes \<Rightarrow>
                              Some (name, Some (uuid_from_bits (from_be_bytes (slice 0 8 bytes))
                                                               (from_be_bytes (slice 8 16 bytes)))))
                    else Some (name, None))"

definition encode_login_start :: "str \<Rightarrow> uuid option \<Rightarrow> bytes" where
  "encode_login_start name uuid =
     length_prefix (write_var_int 0x00 @ write_string name @
       (case uuid of
          None \<Rightarrow> []
        | Some uuid \<Rightarrow> (case uuid_to_bits uuid of (most, least) \<Rightarrow> to_be_bytes most @ to_be_bytes least)))"

definition encode_pong :: "i64 \<Rightarrow> bytes" where
  "encode_pong payload = length_prefix (write_var_int 0x01 @ to_be_bytes payload)"

section \<open>UUIDs\<close>

lemma from_be_snoc: "from_be (bs @ [b]) = from_be bs * 256 + unat b"
  by (simp add: from_be_def)

lemma from_be_less: "from_be bs < 256 ^ length bs"
proof (induction bs rule: rev_induct)
  case (snoc b bs)
  have "unat b < 2 ^ LENGTH(8)" by (rule unsigned_less)
  then have "unat b < 256" by simp
  moreover have "Suc (from_be bs) * 256 \<le> 256 ^ length bs * 256"
    using snoc.IH by (intro mult_right_mono) auto
  ultimately show ?case by (simp add: from_be_snoc)
qed (simp add: from_be_def)

lemma be_bytes_snoc: "be_bytes (Suc n) x = be_bytes n (x div 256) @ [byte_of x]"
  by (induction n arbitrary: x) (simp_all flip: div_mult2_eq)

lemma be_bytes_from_be: "be_bytes (length bs) (from_be bs) = bs"
proof (induction bs rule: rev_induct)
  case (snoc b bs)
  have "unat b < 2 ^ LENGTH(8)" by (rule unsigned_less)
  then have b: "unat b < 256" by simp
  have "(from_be bs * 256 + unat b) div 256 = from_be bs"
    using b by simp
  moreover have "byte_of (from_be bs * 256 + unat b) = b"
  proof -
    have "unat (byte_of (from_be bs * 256 + unat b)) = unat b" using b by simp
    then show ?thesis by (metis unsigned_word_eqI)
  qed
  ultimately show ?case using snoc by (simp add: from_be_snoc be_bytes_snoc del: be_bytes.simps(2))
qed simp

lemma to_from_be_bytes_i64:
  assumes "length bs = 8"
  shows "to_be_bytes (from_be_bytes bs :: i64) = bs"
proof -
  have "from_be bs < 256 ^ 8" using from_be_less [of bs] assms by simp
  then have "unat (from_be_bytes bs :: i64) = from_be bs"
    by (simp add: from_be_bytes_def unat_of_nat)
  then show ?thesis using be_bytes_from_be [of bs] assms by (simp add: to_be_bytes_def)
qed

lemma uuid_bits_round_trip: "length u = 16 \<Longrightarrow> (case uuid_to_bits u of (m, l) \<Rightarrow> uuid_from_bits m l) = u"
  by (simp add: uuid_to_bits_def uuid_from_bits_def to_from_be_bytes_i64 slice_def)

section \<open>Login Start\<close>

lemma length_write_string: "length (write_string s) \<le> 5 + length (as_bytes s)"
  using length_write_var_int [of "of_nat (length (as_bytes s))"] by (simp add: write_string_def)

lemma parse_login_start_shape:
  assumes "read_var_int buf = Inr (len, h)" "0 \<le> sint len" "h + unat len \<le> length buf"
    and "read_var_int (drop h buf) = Inr (0, z)"
    and "read_string (drop (h + z) buf) 16 = Inr (name, n)"
    and "unat len = z + n + k"
  shows "parse_login_start buf =
    Some (name, if k = 16 then Some (slice (h + z + n) (h + z + n + 16) buf) else None)"
proof -
  have g: "get_range (h + z + n) (h + z + n + 16) buf = Some (slice (h + z + n) (h + z + n + 16) buf)"
    if "k = 16" using that assms(3,6) by (simp add: get_range_def)
  have u: "uuid_from_bits (from_be_bytes (slice 0 8 b)) (from_be_bytes (slice 8 16 b)) = b"
    if "length b = 16" for b
    using that by (simp add: uuid_from_bits_def to_from_be_bytes_i64 slice_def)
  have l: "length (slice (h + z + n) (h + z + n + 16) buf) = 16" if "k = 16"
    using that assms(3,6) by simp
  have "\<not> length buf - h < unat len" using assms(3) by simp
  then show ?thesis
    using assms g u l by (simp add: parse_login_start_def Let_def del: slice_0)
qed

lemma parse_encode_login_start:
  assumes name: "list_all is_scalar name" "length (as_bytes name) \<le> 64"
    and uuid: "pred_option (\<lambda>u. length u = 16) uuid"
  shows "parse_login_start (encode_login_start name uuid @ rest) = Some (name, uuid)"
proof -
  define u where "u = (case uuid of None \<Rightarrow> [] | Some u \<Rightarrow> u)"
  define p where "p = write_var_int 0 @ write_string name @ u"
  define buf where "buf = encode_login_start name uuid @ rest"
  have buf: "buf = write_var_int (of_nat (length p)) @ p @ rest"
    using uuid uuid_bits_round_trip unfolding buf_def u_def p_def
    by (cases uuid) (simp_all add: encode_login_start_def length_prefix_def uuid_from_bits_def split: prod.splits)
  have "length p < 2147483648"
    using length_write_string [of name] length_write_var_int [of 0] name uuid
    by (cases uuid) (simp_all add: p_def u_def)
  note len = sint_of_nat_i32 [OF this] unat_of_nat_i32 [OF this]
  have s: "read_string (write_string name @ u @ rest) 16 = Inr (name, length (write_string name))"
    using name by (intro write_string_read) (simp_all add: saturating_mul_4_def)
  have "parse_login_start buf = Some (name, if length u = 16
      then Some (slice (length (write_var_int (of_nat (length p))) + length (write_var_int 0) + length (write_string name))
         (length (write_var_int (of_nat (length p))) + length (write_var_int 0) + length (write_string name) + 16) buf)
      else None)"
    by (rule parse_login_start_shape [where len = "of_nat (length p)"])
      (use len s in \<open>simp_all add: buf read_write_var_int p_def\<close>)
  then show ?thesis using uuid unfolding buf_def [symmetric]
    by (cases uuid) (simp_all add: u_def buf p_def slice_def)
qed

section \<open>Properties\<close>

text \<open>Login Start round trip. Whatever player name of at most sixteen characters (64 UTF-8
  bytes) and optional UUID is encoded, the parser returns exactly them, whatever bytes follow; this
  is what makes replaying a login against a new backend equivalent to the client's own login.\<close>

theorem login_start_round_trip:
  assumes "list_all is_scalar name" and "length (as_bytes name) \<le> 64"
    and "pred_option (\<lambda>u. length u = 16) uuid"
  shows "parse_login_start (encode_login_start name uuid @ rest) = Some (name, uuid)"
  using assms by (rule parse_encode_login_start)

theorem login_start_round_trip_witness:
  "parse_login_start (encode_login_start (lit ''Steve'') (Some (replicate 16 7)) @ [1, 2])
     = Some (lit ''Steve'', Some (replicate 16 7))"
  by (rule login_start_round_trip) (simp_all add: lit_def is_scalar_def as_bytes_def utf8_encode_char_def)

end
