(* ===== verification/Byte_Stream.thy ===== *)
theory Byte_Stream
  imports Rust_Std
begin

text \<open>
  The receiving half of a socket as the code sees it through \<open>AsyncRead\<close>. The peer's bytes arrive in
  segments; one \<open>read\<close> returns at most the size of the caller's buffer from the segment at hand,
  zero bytes once the peer has closed, or an I/O error. Segment boundaries are arbitrary, so a
  theorem about every list of segments is a theorem about every fragmentation of the stream.
\<close>

type_synonym io_error = str

datatype read_event = Data bytes | Read_Error io_error

type_synonym reader = "read_event list"

fun read_some :: "nat \<Rightarrow> reader \<Rightarrow> (io_error + bytes) \<times> reader" where
  "read_some n [] = (Inr [], [])"
| "read_some n (Data b # r) =
     (Inr (take n b), if length b \<le> n then r else Data (drop n b) # r)"
| "read_some n (Read_Error e # r) = (Inl e, r)"

text \<open>The bytes still to come on a connection that does not fail.\<close>

fun incoming :: "reader \<Rightarrow> bytes" where
  "incoming [] = []"
| "incoming (Data b # r) = b @ incoming r"
| "incoming (Read_Error e # r) = []"

fun healthy :: "reader \<Rightarrow> bool" where
  "healthy [] \<longleftrightarrow> True"
| "healthy (Data b # r) \<longleftrightarrow> b \<noteq> [] \<and> healthy r"
| "healthy (Read_Error e # r) \<longleftrightarrow> False"

fun reader_size :: "reader \<Rightarrow> nat" where
  "reader_size [] = 0"
| "reader_size (Data b # r) = Suc (length b) + reader_size r"
| "reader_size (Read_Error e # r) = Suc (reader_size r)"

lemma read_some_shrinks:
  "read_some n r = (Inr c, r') \<Longrightarrow> c \<noteq> [] \<Longrightarrow> reader_size r' < reader_size r"
  by (cases r rule: reader_size.cases) (auto split: if_splits)

lemma read_some_incoming:
  "read_some n r = (Inr c, r') \<Longrightarrow> incoming r = c @ incoming r'"
  by (cases r rule: reader_size.cases) (auto split: if_splits)

lemma read_some_healthy:
  assumes "healthy r" and "0 < n"
  obtains c r' where "read_some n r = (Inr c, r')" and "healthy r'" and "length c \<le> n"
    and "incoming r = c @ incoming r'" and "c = [] \<longleftrightarrow> incoming r = []"
  using assms by (cases r rule: reader_size.cases) (auto split: if_splits)

text \<open>An upper bound on the segment sizes is inherited by what a read leaves behind.\<close>

definition segments_at_most :: "nat \<Rightarrow> reader \<Rightarrow> bool" where
  "segments_at_most m r \<longleftrightarrow> (\<forall>b. Data b \<in> set r \<longrightarrow> length b \<le> m)"

lemma read_some_segments:
  "segments_at_most m r \<Longrightarrow> read_some n r = (Inr c, r') \<Longrightarrow> segments_at_most m r' \<and> length c \<le> m"
  by (cases r rule: reader_size.cases) (fastforce simp: segments_at_most_def split: if_splits)+

lemma segments_at_most_code [simp]:
  "segments_at_most m []"
  "segments_at_most m (Data b # r) \<longleftrightarrow> length b \<le> m \<and> segments_at_most m r"
  "segments_at_most m (Read_Error e # r) \<longleftrightarrow> segments_at_most m r"
  by (auto simp: segments_at_most_def)

text \<open>\<open>AsyncReadExt::read_exact\<close>: keep reading until \<open>n\<close> bytes have arrived.\<close>

function read_exact :: "nat \<Rightarrow> reader \<Rightarrow> (io_error + bytes) \<times> reader" where
  "read_exact n r =
     (if n = 0 then (Inr [], r)
      else case read_some n r of
        (Inl e, r') \<Rightarrow> (Inl e, r')
      | (Inr c, r') \<Rightarrow>
          if c = [] then (Inl (lit ''early eof''), r')
          else (case read_exact (n - length c) r' of
                  (Inl e, r'') \<Rightarrow> (Inl e, r'')
                | (Inr cs, r'') \<Rightarrow> (Inr (c @ cs), r'')))"
  by pat_completeness auto
termination
  by (relation "measure (\<lambda>(n, r). reader_size r)") (auto dest: read_some_shrinks [OF sym])

declare read_exact.simps [simp del]

lemma read_exact_healthy:
  assumes "healthy r" and "n \<le> length (incoming r)"
  obtains r' where "read_exact n r = (Inr (take n (incoming r)), r')" and "healthy r'"
    and "incoming r' = drop n (incoming r)"
  using assms
proof (induction n r arbitrary: thesis rule: read_exact.induct)
  case (1 n r)
  show ?case
  proof (cases "n = 0")
    case True
    then show ?thesis using 1(2) [of r] 1(3) by (simp add: read_exact.simps)
  next
    case False
    then obtain c r1 where c: "read_some n r = (Inr c, r1)" "healthy r1" "length c \<le> n"
      "incoming r = c @ incoming r1" "c = [] \<longleftrightarrow> incoming r = []"
      using read_some_healthy [OF 1(3), of n] by blast
    have ne: "c \<noteq> []" using c(5) False 1(4) by auto
    have "n - length c \<le> length (incoming r1)" using 1(4) c(4) by simp
    then obtain r2 where r2: "read_exact (n - length c) r1 = (Inr (take (n - length c) (incoming r1)), r2)"
      "healthy r2" "incoming r2 = drop (n - length c) (incoming r1)"
      using 1(1) [OF False c(1) [symmetric] refl ne _ c(2)] by blast
    have "read_exact n r = (Inr (take n (incoming r)), r2)"
      using False c(1,3,4) ne r2(1) by (subst read_exact.simps) simp
    then show ?thesis using 1(2) [of r2] r2(2,3) c(3,4) by simp
  qed
qed

end
