(* ===== verification/Handshake.thy ===== *)
theory Handshake
  imports Minecraft_Protocol Byte_Stream
begin

text \<open>
  The handshake sniffer of \<open>src/protocol/handshake.rs\<close>: the parser \<open>try_parse\<close> that decides on the
  bytes buffered so far, and the reading loop around it.

  Shown: the parser accepts exactly what the encoder writes and recovers every field, with the host
  cut at a Forge marker and stripped of trailing dots; a proper prefix of a handshake frame is
  always incomplete; an accepted handshake stays accepted when more bytes arrive; and the parser
  checks the host and port against the buffered bytes, not against the declared frame length.
\<close>

section \<open>Definitions\<close>

definition MAX_HANDSHAKE_FRAME_BYTES :: int where
  "MAX_HANDSHAKE_FRAME_BYTES = 512"

datatype handshake_error = Io io_error | Eof | Malformed str

record handshake =
  hs_protocol_version :: i32
  hs_host :: str
  hs_port :: u16
  hs_next_state :: i32
  hs_raw_frame :: bytes

datatype parse_outcome = Complete handshake | Incomplete_Frame | Malformed_Frame str

definition strip_host :: "str \<Rightarrow> str" where
  "strip_host host = trim_end_by (\<lambda>c. c = ch CHR ''.'') (takeWhile (\<lambda>c. c \<noteq> 0) host)"

definition parse_host_port :: "bytes \<Rightarrow> nat \<Rightarrow> nat \<Rightarrow> i32 \<Rightarrow> nat \<Rightarrow> parse_outcome" where
  "parse_host_port buf header_len len protocol_version pos =
     (case read_var_int (drop pos buf) of
        Inl _ \<Rightarrow> Malformed_Frame (lit ''bad host length'')
      | Inr (host_length, consumed) \<Rightarrow>
          if \<not> (0 \<le> sint host_length \<and> sint host_length \<le> 255)
          then Malformed_Frame (lit ''bogus host length '' @ show_int (sint host_length))
          else let pos = pos + consumed; host_length = unat host_length in
            if length buf < pos + host_length + 2
            then Malformed_Frame (lit ''host/port fields exceed declared frame length'')
            else let host = from_utf8_lossy (slice pos (pos + host_length) buf);
                     pos = pos + host_length;
                     host = strip_host host;
                     port = from_be_bytes [buf ! pos, buf ! (pos + 1)];
                     pos = pos + 2 in
              case read_var_int (drop pos buf) of
                Inl _ \<Rightarrow> Malformed_Frame (lit ''bad next state'')
              | Inr (next_state, _) \<Rightarrow>
                  Complete \<lparr>hs_protocol_version = protocol_version, hs_host = host, hs_port = port,
                    hs_next_state = next_state, hs_raw_frame = take (header_len + len) buf\<rparr>)"

definition parse_fields :: "bytes \<Rightarrow> nat \<Rightarrow> nat \<Rightarrow> parse_outcome" where
  "parse_fields buf header_len len =
     (case read_var_int (drop header_len buf) of
        Inl _ \<Rightarrow> Malformed_Frame (lit ''bad packet id'')
      | Inr (packet_id, consumed) \<Rightarrow>
          if packet_id \<noteq> 0x00
          then Malformed_Frame (lit ''first packet id was '' @ show_int (sint packet_id)
                 @ lit '', expected handshake (0)'')
          else let pos = header_len + consumed in
            case read_var_int (drop pos buf) of
              Inl _ \<Rightarrow> Malformed_Frame (lit ''bad protocol version'')
            | Inr (protocol_version, consumed) \<Rightarrow>
                parse_host_port buf header_len len protocol_version (pos + consumed))"

definition try_parse :: "bytes \<Rightarrow> parse_outcome" where
  "try_parse buf =
     (case read_var_int buf of
        Inl Incomplete \<Rightarrow> Incomplete_Frame
      | Inl TooBig \<Rightarrow> Malformed_Frame (lit ''bogus handshake length'')
      | Inr (len, header_len) \<Rightarrow>
          if \<not> (0 \<le> sint len \<and> sint len \<le> MAX_HANDSHAKE_FRAME_BYTES)
          then Malformed_Frame (lit ''bogus handshake length '' @ show_int (sint len))
          else if length buf - header_len < unat len then Incomplete_Frame
          else parse_fields buf header_len (unat len))"

function read_handshake_loop :: "bytes \<Rightarrow> reader \<Rightarrow> (handshake_error + handshake) \<times> reader" where
  "read_handshake_loop buf reader =
     (case try_parse buf of
        Complete h \<Rightarrow> (Inr h, reader)
      | Malformed_Frame reason \<Rightarrow> (Inl (Malformed reason), reader)
      | Incomplete_Frame \<Rightarrow>
          (case read_some 512 reader of
             (Inl e, reader) \<Rightarrow> (Inl (Io e), reader)
           | (Inr chunk, reader) \<Rightarrow>
               if chunk = [] then (Inl Eof, reader)
               else let buf = buf @ chunk in
                 if int (length buf) > MAX_HANDSHAKE_FRAME_BYTES + 16
                 then (Inl (Malformed (lit ''handshake exceeded maximum size without completing'')), reader)
                 else read_handshake_loop buf reader))"
  by pat_completeness auto
termination
  by (relation "measure (\<lambda>(b, r). reader_size r)") (auto dest: read_some_shrinks [OF sym])

declare read_handshake_loop.simps [simp del]

definition read_handshake :: "reader \<Rightarrow> (handshake_error + handshake) \<times> reader" where
  "read_handshake reader = read_handshake_loop [] reader"

section \<open>The parser\<close>

text \<open>A proper prefix of a length-prefixed frame never yields more than its length.\<close>

lemma read_var_int_frame_prefix:
  assumes "length p < 2147483648" and "k < length (length_prefix p)"
  shows "read_var_int (take k (length_prefix p)) = Inl Incomplete
    \<or> (\<exists>h. read_var_int (take k (length_prefix p)) = Inr (of_nat (length p), h)
        \<and> k < h + length p)"
proof -
  let ?b = "take k (length_prefix p)" and ?h = "length (write_var_int (of_nat (length p)))"
  have full: "read_var_int (?b @ drop k (length_prefix p)) = Inr (of_nat (length p), ?h)"
    using read_length_prefix [of p "[]"] by simp
  have "?h + length p = length (length_prefix p)" by (simp add: length_length_prefix)
  then have "k < ?h + length p" using assms(2) by simp
  moreover have "read_var_int ?b \<noteq> Inl Incomplete \<Longrightarrow> read_var_int ?b = Inr (of_nat (length p), ?h)"
    using read_var_int_append [of ?b "drop k (length_prefix p)"] full by simp
  ultimately show ?thesis by blast
qed

lemma try_parse_frame_prefix:
  assumes "int (length p) \<le> MAX_HANDSHAKE_FRAME_BYTES" and "k < length (length_prefix p)"
  shows "try_parse (take k (length_prefix p)) = Incomplete_Frame"
proof -
  have l: "length p < 2147483648" using assms(1) by (simp add: MAX_HANDSHAKE_FRAME_BYTES_def)
  from read_var_int_frame_prefix [OF l assms(2)] show ?thesis
  proof
    assume "\<exists>h. read_var_int (take k (length_prefix p)) = Inr (of_nat (length p), h) \<and> k < h + length p"
    then obtain h where h: "read_var_int (take k (length_prefix p)) = Inr (of_nat (length p), h)" "k < h + length p"
      by blast
    have "h \<le> k" using read_var_int_consumed [OF h(1)] by simp
    then have "length (take k (length_prefix p)) - h < length p" using h(2) assms(2) by simp
    then show ?thesis using h(1) l assms(1) by (simp add: try_parse_def)
  qed (simp add: try_parse_def)
qed

lemma handshake_payload_length:
  assumes "length (as_bytes host) \<le> 255"
  shows "length (write_var_int 0 @ write_var_int v @ write_string host @ to_be_bytes (port :: u16)
     @ write_var_int s) \<le> 277"
  using assms length_write_string [of host] length_write_var_int [of 0] length_write_var_int [of v]
    length_write_var_int [of s] by simp

lemma nth_two: "drop n xs = a # b # ys \<Longrightarrow> xs ! n = a \<and> xs ! Suc n = b"
  by (metis Cons_nth_drop_Suc drop_eq_Nil2 list.inject list.distinct(1) linorder_not_le)

lemma parse_host_port_encoded:
  assumes "list_all is_scalar host" and "length (as_bytes host) \<le> 255"
    and "drop pos buf = write_string host @ to_be_bytes port @ write_var_int s @ rest"
  shows "parse_host_port buf hl len v pos =
    Complete \<lparr>hs_protocol_version = v, hs_host = strip_host host, hs_port = port,
      hs_next_state = s, hs_raw_frame = take (hl + len) buf\<rparr>"
proof -
  let ?n = "length (as_bytes host)" and ?c = "length (write_var_int (of_nat (length (as_bytes host))))"
  let ?q = "pos + ?c + ?n"
  have d: "drop (pos + k) buf = drop k (write_string host @ to_be_bytes port @ write_var_int s @ rest)" for k
    by (metis add.commute assms(3) drop_drop)
  have n: "sint (of_nat ?n :: i32) = int ?n" "unat (of_nat ?n :: i32) = ?n"
    using assms(2) by simp_all
  have r1: "read_var_int (drop pos buf) = Inr (of_nat ?n, ?c)"
    by (simp add: assms(3) write_string_def read_write_var_int)
  have "length (drop pos buf) = ?c + ?n + 2 + length (write_var_int s @ rest)"
    unfolding assms(3) by (simp add: write_string_def)
  moreover have "pos \<le> length buf" using calculation length_write_var_int [of s] by simp
  ultimately have l: "\<not> length buf < ?q + 2" by simp
  have sl: "slice (pos + ?c) ?q buf = as_bytes host"
    using d [of ?c] by (simp add: slice_def write_string_def)
  have dq: "drop ?q buf = to_be_bytes port @ write_var_int s @ rest"
    using d [of "?c + ?n"] by (simp add: write_string_def add.assoc)
  obtain a b where ab: "to_be_bytes port = [a, b]"
    using length_to_be_bytes(1) [of port] by (auto simp only: length_Suc_conv length_0_conv numeral_2_eq_2)
  then have pt: "buf ! ?q = a" "buf ! (?q + 1) = b" using dq nth_two [of ?q buf] by auto
  have "drop (?q + 2) buf = drop 2 (drop ?q buf)" by (simp add: add.commute)
  then have "drop (?q + 2) buf = write_var_int s @ rest" using dq ab by simp
  then have r2: "read_var_int (drop (?q + 2) buf) = Inr (s, length (write_var_int s))"
    by (simp add: read_write_var_int)
  have po: "from_be_bytes [a, b] = port" using from_to_be_bytes(1) [of port] ab by simp
  show ?thesis
    unfolding parse_host_port_def r1
    using n l sl pt r2 po assms(1,2) by (simp add: Let_def)
qed

lemma try_parse_encode_handshake:
  assumes "list_all is_scalar host" and "length (as_bytes host) \<le> 255"
  shows "try_parse (encode_handshake v host port s @ rest) =
    Complete \<lparr>hs_protocol_version = v, hs_host = strip_host host, hs_port = port,
      hs_next_state = s, hs_raw_frame = encode_handshake v host port s\<rparr>"
proof -
  define p where "p = write_var_int 0 @ write_var_int v @ write_string host @ to_be_bytes port @ write_var_int s"
  let ?h = "write_var_int (of_nat (length p))"
  define buf where "buf = ?h @ p @ rest"
  have e: "encode_handshake v host port s = ?h @ p"
    by (simp add: encode_handshake_def length_prefix_def p_def)
  have b: "encode_handshake v host port s @ rest = buf" by (simp add: e buf_def)
  have "length p \<le> 277" using handshake_payload_length [OF assms(2)] by (simp add: p_def)
  then have n: "sint (of_nat (length p) :: i32) = int (length p)" "unat (of_nat (length p) :: i32) = length p"
    "int (length p) \<le> MAX_HANDSHAKE_FRAME_BYTES"
    by (simp_all add: MAX_HANDSHAKE_FRAME_BYTES_def)
  have r0: "read_var_int buf = Inr (of_nat (length p), length ?h)"
    by (simp add: buf_def read_write_var_int)
  have r1: "read_var_int (drop (length ?h) buf) = Inr (0, length (write_var_int 0))"
    by (simp add: buf_def p_def read_write_var_int)
  have r2: "read_var_int (drop (length ?h + length (write_var_int 0)) buf) = Inr (v, length (write_var_int v))"
    by (simp add: buf_def p_def read_write_var_int)
  have r3: "parse_host_port buf (length ?h) (length p) v (length ?h + length (write_var_int 0) + length (write_var_int v))
     = Complete \<lparr>hs_protocol_version = v, hs_host = strip_host host, hs_port = port,
      hs_next_state = s, hs_raw_frame = take (length ?h + length p) buf\<rparr>"
    by (rule parse_host_port_encoded [OF assms, of _ _ port s rest]) (simp add: buf_def p_def)
  have "\<not> length buf - length ?h < length p" by (simp add: buf_def)
  moreover have "take (length ?h + length p) buf = ?h @ p" by (simp add: buf_def)
  ultimately show ?thesis
    unfolding b using n r0 r1 r2 r3 by (simp add: try_parse_def parse_fields_def Let_def e)
qed

lemma try_parse_encode_prefix:
  assumes "length (as_bytes host) \<le> 255" and "k < length (encode_handshake v host port s)"
  shows "try_parse (take k (encode_handshake v host port s)) = Incomplete_Frame"
  using try_parse_frame_prefix [OF _ assms(2) [unfolded encode_handshake_def]] handshake_payload_length [OF assms(1), of v port s]
  by (simp add: MAX_HANDSHAKE_FRAME_BYTES_def encode_handshake_def)

lemma length_encode_handshake:
  assumes "length (as_bytes host) \<le> 255"
  shows "length (encode_handshake v host port s) \<le> 282"
proof -
  let ?p = "write_var_int 0 @ write_var_int v @ write_string host @ to_be_bytes port @ write_var_int s"
  have "length (write_var_int (of_nat (length ?p))) \<le> 5" using length_write_var_int by blast
  moreover have "length ?p \<le> 277" by (rule handshake_payload_length [OF assms])
  ultimately show ?thesis unfolding encode_handshake_def length_length_prefix by linarith
qed

text \<open>An accepted handshake stays accepted: every field was decided by bytes already there.\<close>

lemma read_var_int_drop_append:
  assumes "read_var_int (drop n buf) = Inr (v, c)"
  shows "read_var_int (drop n (buf @ later)) = Inr (v, c)"
proof -
  have "n \<le> length buf" using read_var_int_consumed [OF assms] by auto
  then show ?thesis using assms read_var_int_append [of "drop n buf" later] by simp
qed

lemma parse_host_port_stable:
  assumes "parse_host_port buf hl len v pos = Complete h" and "hl + len \<le> length buf"
  shows "parse_host_port (buf @ later) hl len v pos = Complete h"
proof -
  from assms(1) obtain m c where m: "read_var_int (drop pos buf) = Inr (m, c)"
    by (auto simp: parse_host_port_def split: sum.splits)
  from assms(1) m have b: "0 \<le> sint m \<and> sint m \<le> 255" "pos + c + unat m + 2 \<le> length buf"
    by (auto simp: parse_host_port_def Let_def split: if_splits)
  from assms(1) m b obtain s k where s: "read_var_int (drop (pos + c + unat m + 2) buf) = Inr (s, k)"
    by (auto simp: parse_host_port_def Let_def split: sum.splits if_splits)
  show ?thesis
    using assms m b s read_var_int_drop_append [OF m, of later] read_var_int_drop_append [OF s, of later]
    by (simp add: parse_host_port_def Let_def slice_prefix nth_append)
qed

lemma try_parse_Complete:
  assumes "try_parse buf = Complete h"
  obtains len hl v pos where "read_var_int buf = Inr (len, hl)" and "0 \<le> sint len"
    and "sint len \<le> MAX_HANDSHAKE_FRAME_BYTES" and "hl + unat len \<le> length buf"
    and "parse_fields buf hl (unat len) = Complete h"
proof -
  from assms obtain len hl where r: "read_var_int buf = Inr (len, hl)"
    by (auto simp: try_parse_def split: sum.splits var_int_error.splits)
  have "hl \<le> length buf" using read_var_int_consumed [OF r] by simp
  then show ?thesis
    using assms r that by (auto simp: try_parse_def split: if_splits)
qed

lemma try_parse_stable:
  assumes "try_parse buf = Complete h"
  shows "try_parse (buf @ later) = Complete h"
proof -
  obtain len hl where r: "read_var_int buf = Inr (len, hl)" "0 \<le> sint len"
    "sint len \<le> MAX_HANDSHAKE_FRAME_BYTES" "hl + unat len \<le> length buf"
    "parse_fields buf hl (unat len) = Complete h"
    using try_parse_Complete [OF assms] by blast
  from r(5) obtain c where i: "read_var_int (drop hl buf) = Inr (0, c)"
    by (auto simp: parse_fields_def split: sum.splits if_splits)
  from r(5) i obtain v k where v: "read_var_int (drop (hl + c) buf) = Inr (v, k)"
    by (auto simp: parse_fields_def Let_def split: sum.splits)
  have p: "parse_host_port (buf @ later) hl (unat len) v (hl + c + k) = Complete h"
    using r(4,5) i v by (intro parse_host_port_stable) (simp_all add: parse_fields_def)
  show ?thesis
    using r(1-4) p read_var_int_append [of buf later]
      read_var_int_drop_append [OF i, of later] read_var_int_drop_append [OF v, of later]
    by (simp add: try_parse_def parse_fields_def)
qed

lemma parse_host_port_raw_frame:
  "parse_host_port buf hl len v pos = Complete h \<Longrightarrow> hs_raw_frame h = take (hl + len) buf"
  by (auto simp: parse_host_port_def Let_def split: sum.splits if_splits prod.splits)

lemma parse_fields_raw_frame:
  "parse_fields buf hl len = Complete h \<Longrightarrow> hs_raw_frame h = take (hl + len) buf"
  by (auto simp: parse_fields_def Let_def parse_host_port_raw_frame split: sum.splits if_splits prod.splits)

lemma unat_from_sint_le: "0 \<le> sint (w :: i32) \<Longrightarrow> sint w \<le> int k \<Longrightarrow> unat w \<le> k"
  by (metis sint_nonneg_unat of_nat_le_iff)

section \<open>Properties\<close>

text \<open>C1: the sniffer recovers every field of an encoded handshake. For any protocol version, port,
  next state and host of at most 255 UTF-8 bytes, parsing the encoded packet, whatever bytes
  were pipelined behind it, completes with those fields, the host cut at the first NUL (the Forge
  marker) and stripped of trailing dots, and with exactly the packet as the raw frame; and every
  proper prefix of the packet is reported incomplete, never malformed.\<close>

theorem handshake_round_trip:
  assumes "list_all is_scalar host" and "length (as_bytes host) \<le> 255"
  shows "try_parse (encode_handshake v host port s @ rest) =
      Complete \<lparr>hs_protocol_version = v, hs_host = strip_host host, hs_port = port,
        hs_next_state = s, hs_raw_frame = encode_handshake v host port s\<rparr>
    \<and> (\<forall>k < length (encode_handshake v host port s).
         try_parse (take k (encode_handshake v host port s)) = Incomplete_Frame)"
  using try_parse_encode_handshake [OF assms] try_parse_encode_prefix [OF assms(2)] by blast

theorem handshake_round_trip_witness:
  "try_parse (encode_handshake 763 (lit ''a.'' @ [0] @ lit ''FML'') 25565 2 @ [9]) =
      Complete \<lparr>hs_protocol_version = 763, hs_host = lit ''a'', hs_port = 25565,
        hs_next_state = 2, hs_raw_frame = encode_handshake 763 (lit ''a.'' @ [0] @ lit ''FML'') 25565 2\<rparr>"
  using handshake_round_trip [of "lit ''a.'' @ [0] @ lit ''FML''" 763 25565 2 "[9]"]
  by (simp add: lit_def is_scalar_def as_bytes_def utf8_encode_char_def strip_host_def trim_end_by_def)

text \<open>C18: a completed handshake is final and bounded. If the parser completes on the bytes buffered
  so far, it completes with the same result whatever arrives later, and the raw frame that is
  forwarded to the backend is a prefix of the buffer of at most 517 bytes.\<close>

theorem try_parse_final:
  assumes "try_parse buf = Complete h"
  shows "try_parse (buf @ later) = Complete h
    \<and> hs_raw_frame h = take (length (hs_raw_frame h)) buf \<and> length (hs_raw_frame h) \<le> 517"
proof -
  obtain len hl where r: "read_var_int buf = Inr (len, hl)" "0 \<le> sint len"
    "sint len \<le> MAX_HANDSHAKE_FRAME_BYTES" "hl + unat len \<le> length buf"
    "parse_fields buf hl (unat len) = Complete h"
    using try_parse_Complete [OF assms] by blast
  have "unat len \<le> 512" using r(2,3) by (intro unat_from_sint_le) (simp_all add: MAX_HANDSHAKE_FRAME_BYTES_def)
  then show ?thesis
    using try_parse_stable [OF assms] parse_fields_raw_frame [OF r(5)] r(4) read_var_int_consumed [OF r(1)]
    by simp
qed

theorem try_parse_final_witness:
  "try_parse (encode_handshake 5 [] 7 1 @ []) = Complete
     \<lparr>hs_protocol_version = 5, hs_host = [], hs_port = 7, hs_next_state = 1, hs_raw_frame = encode_handshake 5 [] 7 1\<rparr>
   \<and> try_parse ((encode_handshake 5 [] 7 1 @ []) @ [1, 2, 3]) = Complete
     \<lparr>hs_protocol_version = 5, hs_host = [], hs_port = 7, hs_next_state = 1, hs_raw_frame = encode_handshake 5 [] 7 1\<rparr>"
proof -
  have "try_parse (encode_handshake 5 [] 7 1 @ []) = Complete
     \<lparr>hs_protocol_version = 5, hs_host = [], hs_port = 7, hs_next_state = 1, hs_raw_frame = encode_handshake 5 [] 7 1\<rparr>"
    using try_parse_encode_handshake [of "[]" 5 7 1 "[]"] by (simp add: strip_host_def trim_end_by_def)
  then show ?thesis using try_parse_final by blast
qed

text \<open>The declared frame length does not confine the fields. A frame that declares length zero
  is malformed while only its length byte has arrived, but the very same byte stream is
  accepted, with a one-byte raw frame, once the bytes behind the frame have arrived too: packet
  id, version, host, port and state are read past the declared end.\<close>

theorem declared_length_not_enforced:
  "try_parse [0] = Malformed_Frame (lit ''bad packet id'')
   \<and> try_parse ([0] @ [0, 5, 1, 97, 0, 80, 1]) = Complete \<lparr>hs_protocol_version = 5, hs_host = lit ''a'',
        hs_port = 80, hs_next_state = 1, hs_raw_frame = [0]\<rparr>"
  by code_simp

end
