(* ===== verification/Buffered_Stream.thy ===== *)
theory Buffered_Stream
  imports Handshake
begin

text \<open>
  The per-connection read buffer of \<open>src/net/buffered_stream.rs\<close>. Its framed reads (a handshake, a
  length-prefixed frame) are loops of the same shape: decide on the unread bytes, otherwise read
  more. The locale \<open>framed_reader\<close> states that shape once and proves what every such loop
  guarantees for every fragmentation of the stream; both loops of the code are interpretations.
\<close>

section \<open>Definitions\<close>

record buffered_stream =
  bs_inner :: reader
  bs_buf :: bytes
  bs_pos :: nat

definition bs_new :: "reader \<Rightarrow> buffered_stream" where
  "bs_new inner = \<lparr>bs_inner = inner, bs_buf = [], bs_pos = 0\<rparr>"

definition unread :: "buffered_stream \<Rightarrow> bytes" where
  "unread st = drop (bs_pos st) (bs_buf st)"

definition fill_more :: "buffered_stream \<Rightarrow> (io_error + nat) \<times> buffered_stream" where
  "fill_more st =
     (case read_some 4096 (bs_inner st) of
        (Inl e, r) \<Rightarrow> (Inl e, st\<lparr>bs_inner := r\<rparr>)
      | (Inr chunk, r) \<Rightarrow> (Inr (length chunk), st\<lparr>bs_inner := r, bs_buf := bs_buf st @ chunk\<rparr>))"

definition handshake_too_large :: handshake_error where
  "handshake_too_large = Malformed (lit ''handshake exceeded maximum size without completing'')"

lemma fill_more_shrinks:
  "fill_more st = (Inr n, st') \<Longrightarrow> n \<noteq> 0 \<Longrightarrow> reader_size (bs_inner st') < reader_size (bs_inner st)"
  by (auto simp: fill_more_def dest: read_some_shrinks split: prod.splits sum.splits)

function bs_read_handshake :: "buffered_stream \<Rightarrow> (handshake_error + handshake) \<times> buffered_stream" where
  "bs_read_handshake st =
     (case try_parse (unread st) of
        Complete h \<Rightarrow> (Inr h, st\<lparr>bs_pos := bs_pos st + length (hs_raw_frame h)\<rparr>)
      | Malformed_Frame reason \<Rightarrow> (Inl (Malformed reason), st)
      | Incomplete_Frame \<Rightarrow>
          (case fill_more st of
             (Inl e, st) \<Rightarrow> (Inl (Io e), st)
           | (Inr n, st) \<Rightarrow>
               if n = 0 then (Inl Eof, st)
               else if length (bs_buf st) - bs_pos st > 1024 then (Inl handshake_too_large, st)
               else bs_read_handshake st))"
  by pat_completeness auto
termination
  by (relation "measure (\<lambda>st. reader_size (bs_inner st))") (auto dest: fill_more_shrinks [OF sym])

function read_frame :: "i32 \<Rightarrow> buffered_stream \<Rightarrow> (io_error + bytes) \<times> buffered_stream" where
  "read_frame max_len st =
     (case (case read_var_int (unread st) of
              Inr (len, header_len) \<Rightarrow>
                if \<not> (0 \<le> sint len \<and> sint len \<le> sint max_len)
                then Some (Inl (lit ''frame length '' @ show_int (sint len) @ lit '' out of range''))
                else let total_len = header_len + unat len in
                  if total_len \<le> length (unread st)
                  then Some (Inr (take total_len (unread st), total_len)) else None
            | Inl _ \<Rightarrow> None) of
        Some (Inl e) \<Rightarrow> (Inl e, st)
      | Some (Inr (frame, total_len)) \<Rightarrow> (Inr frame, st\<lparr>bs_pos := bs_pos st + total_len\<rparr>)
      | None \<Rightarrow>
          (case fill_more st of
             (Inl e, st) \<Rightarrow> (Inl e, st)
           | (Inr n, st) \<Rightarrow>
               if n = 0 then (Inl (lit ''connection closed before frame completed''), st)
               else read_frame max_len st))"
  by pat_completeness auto
termination
  by (relation "measure (\<lambda>(m, st). reader_size (bs_inner st))") (auto dest: fill_more_shrinks [OF sym])

declare bs_read_handshake.simps [simp del] read_frame.simps [simp del]

definition poll_read :: "nat \<Rightarrow> buffered_stream \<Rightarrow> (io_error + bytes) \<times> buffered_stream" where
  "poll_read remaining st =
     (if bs_pos st < length (bs_buf st) then
        let n = min remaining (length (bs_buf st) - bs_pos st);
            out = slice (bs_pos st) (bs_pos st + n) (bs_buf st);
            pos = bs_pos st + n in
        (Inr out, if pos = length (bs_buf st) then st\<lparr>bs_buf := [], bs_pos := 0\<rparr> else st\<lparr>bs_pos := pos\<rparr>)
      else (case read_some remaining (bs_inner st) of (r, inner) \<Rightarrow> (r, st\<lparr>bs_inner := inner\<rparr>)))"

section \<open>The stream a buffer presents\<close>

text \<open>What the caller has not seen yet: the unread bytes, then what the peer still sends.\<close>

definition contents :: "buffered_stream \<Rightarrow> bytes" where
  "contents st = unread st @ incoming (bs_inner st)"

definition bs_ok :: "buffered_stream \<Rightarrow> bool" where
  "bs_ok st \<longleftrightarrow> bs_pos st \<le> length (bs_buf st) \<and> healthy (bs_inner st)"

lemma bs_new_ok [simp]: "bs_ok (bs_new r) \<longleftrightarrow> healthy r" "contents (bs_new r) = incoming r"
  by (simp_all add: bs_ok_def bs_new_def contents_def unread_def)

lemma unread_take: "unread st = take (length (unread st)) (contents st)"
  by (simp add: contents_def)

lemma fill_more_ok:
  assumes "bs_ok st"
  obtains n st' where "fill_more st = (Inr n, st')" and "bs_ok st'" and "contents st' = contents st"
    and "length (unread st') = length (unread st) + n" and "n = 0 \<longleftrightarrow> incoming (bs_inner st) = []"
    and "\<And>m. segments_at_most m (bs_inner st) \<Longrightarrow> segments_at_most m (bs_inner st') \<and> n \<le> m"
    and "length (bs_buf st') - bs_pos st' = length (unread st')"
proof -
  have h: "healthy (bs_inner st)" "bs_pos st \<le> length (bs_buf st)" using assms by (simp_all add: bs_ok_def)
  obtain c r where c: "read_some 4096 (bs_inner st) = (Inr c, r)" "healthy r"
    "length c \<le> 4096" "incoming (bs_inner st) = c @ incoming r" "c = [] \<longleftrightarrow> incoming (bs_inner st) = []"
    by (rule read_some_healthy [OF h(1) zero_less_numeral])
  show ?thesis
    by (rule that [of "length c" "st\<lparr>bs_inner := r, bs_buf := bs_buf st @ c\<rparr>"])
      (use h c read_some_segments [OF _ c(1)] in \<open>auto simp: fill_more_def bs_ok_def contents_def unread_def\<close>)
qed

section \<open>Framed reads\<close>

text \<open>
  \<open>decide\<close> looks at the unread bytes: it needs more of them, fails, or returns a value with the
  number of bytes it stands for. \<open>over\<close> is the bound on the unread bytes checked after each fill.
\<close>

locale framed_reader =
  fixes decide :: "bytes \<Rightarrow> ('e + 'a \<times> nat) option"
    and over :: "nat \<Rightarrow> bool"
    and io_fail :: "io_error \<Rightarrow> 'e" and eof_fail :: 'e and big_fail :: 'e
    and loop :: "buffered_stream \<Rightarrow> ('e + 'a) \<times> buffered_stream"
  assumes unfold: "loop st =
     (case decide (unread st) of
        Some (Inl e) \<Rightarrow> (Inl e, st)
      | Some (Inr (a, n)) \<Rightarrow> (Inr a, st\<lparr>bs_pos := bs_pos st + n\<rparr>)
      | None \<Rightarrow>
          (case fill_more st of
             (Inl e, st') \<Rightarrow> (Inl (io_fail e), st')
           | (Inr n, st') \<Rightarrow>
               if n = 0 then (Inl eof_fail, st')
               else if over (length (bs_buf st') - bs_pos st') then (Inl big_fail, st')
               else loop st'))"
begin

lemma loop_decided:
  assumes "bs_ok st" and "decide (unread st) = Some (Inr (a, n))" and "n \<le> length (unread st)"
  obtains st' where "loop st = (Inr a, st')" and "bs_ok st'" and "contents st' = drop n (contents st)"
proof -
  have "bs_pos st + n \<le> length (bs_buf st)" using assms(1,3) by (auto simp: bs_ok_def unread_def)
  then show ?thesis
    using assms by (intro that [of "st\<lparr>bs_pos := bs_pos st + n\<rparr>"])
      (auto simp: unfold [of st] bs_ok_def contents_def unread_def add.commute)
qed

lemma loop_conserves:
  assumes "bs_ok st" and "loop st = (res, st')" and "\<And>b a n. decide b = Some (Inr (a, n)) \<Longrightarrow> n \<le> length b"
  shows "bs_ok st' \<and> (case res of Inl e \<Rightarrow> contents st' = contents st
    | Inr a \<Rightarrow> \<exists>k n. decide (take k (contents st)) = Some (Inr (a, n)) \<and> n \<le> k \<and> k \<le> length (contents st) \<and> contents st' = drop n (contents st))"
  using assms(1,2)
proof (induction "reader_size (bs_inner st)" arbitrary: st rule: less_induct)
  case less
  note u = unread_take [of st]
  have ul: "length (unread st) \<le> length (contents st)" by (simp add: contents_def)
  show ?case
  proof (cases "decide (unread st)")
    case None
    obtain n st1 where f: "fill_more st = (Inr n, st1)" "bs_ok st1" "contents st1 = contents st"
      using fill_more_ok [OF less.prems(1)] by metis
    show ?thesis
    proof (cases "n = 0 \<or> over (length (bs_buf st1) - bs_pos st1)")
      case True
      then show ?thesis using less.prems(2) None f by (auto simp: unfold [of st] split: if_splits)
    next
      case False
      then have run: "loop st1 = (res, st')" using less.prems(2) None f by (simp add: unfold [of st])
      have "reader_size (bs_inner st1) < reader_size (bs_inner st)" using fill_more_shrinks [OF f(1)] False by simp
      from less.hyps [OF this f(2) run] show ?thesis unfolding f(3) .
    qed
  next
    case (Some d)
    show ?thesis
    proof (cases d)
      case (Inl e)
      then show ?thesis using less.prems Some by (auto simp: unfold [of st])
    next
      case (Inr p)
      then obtain a n where an: "decide (unread st) = Some (Inr (a, n))" using Some by (cases p) auto
      then have n: "n \<le> length (unread st)" by (rule assms(3))
      obtain st2 where "loop st = (Inr a, st2)" "bs_ok st2" "contents st2 = drop n (contents st)"
        by (rule loop_decided [OF less.prems(1) an n])
      moreover have "decide (take (length (unread st)) (contents st)) = Some (Inr (a, n))" using an u by simp
      ultimately show ?thesis using less.prems(2) n ul by auto
    qed
  qed
qed

lemma loop_delivers:
  assumes "bs_ok st" and "n \<le> length (contents st)"
    and wait: "\<And>k. k < n \<Longrightarrow> decide (take k (contents st)) = None"
    and ready: "\<And>k. n \<le> k \<Longrightarrow> k \<le> length (contents st) \<Longrightarrow> decide (take k (contents st)) = Some (Inr (a, n))"
    and fits: "segments_at_most m (bs_inner st)" "\<And>l. l < n + m \<Longrightarrow> \<not> over l"
  obtains st' where "loop st = (Inr a, st')" and "bs_ok st'" and "contents st' = drop n (contents st)"
  using assms
proof (induction "reader_size (bs_inner st)" arbitrary: st thesis rule: less_induct)
  case less
  note u = unread_take [of st]
  have ul: "length (unread st) \<le> length (contents st)" by (simp add: contents_def)
  show ?case
  proof (cases "n \<le> length (unread st)")
    case True
    then have "decide (unread st) = Some (Inr (a, n))" using less.prems(5) [OF True ul] u by simp
    from loop_decided [OF less.prems(2) this True] show ?thesis using less.prems(1) by blast
  next
    case False
    then have d: "decide (unread st) = None" using less.prems(4) [of "length (unread st)"] u by simp
    obtain k st' where f: "fill_more st = (Inr k, st')" "bs_ok st'" "contents st' = contents st"
      "length (unread st') = length (unread st) + k" "k = 0 \<longleftrightarrow> incoming (bs_inner st) = []"
      "segments_at_most m (bs_inner st') \<and> k \<le> m" "length (bs_buf st') - bs_pos st' = length (unread st')"
      using fill_more_ok [OF less.prems(2)] less.prems(6) by metis
    have k: "k \<noteq> 0" using False f(5) less.prems(3) by (auto simp: contents_def)
    have "\<not> over (length (unread st'))" using less.prems(7) f(4,6) False by simp
    then have step: "loop st = loop st'" using unfold [of st] d f(1,7) k by simp
    show ?thesis
      by (rule less.hyps [OF fill_more_shrinks [OF f(1) k], where thesis = thesis])
        (use less.prems f(2,3,6) step in \<open>auto simp only: f(3)\<close>)
  qed
qed

text \<open>A loop whose decision never comes swallows the whole stream into its buffer.\<close>

lemma loop_swallows:
  assumes "bs_ok st" and "\<And>k. decide (take k (contents st)) = None" and "\<And>l. \<not> over l"
  obtains st' where "loop st = (Inl eof_fail, st')" and "unread st' = contents st"
  using assms
proof (induction "reader_size (bs_inner st)" arbitrary: st thesis rule: less_induct)
  case less
  have d: "decide (unread st) = None" using less.prems(3) unread_take [of st] by metis
  obtain k st' where f: "fill_more st = (Inr k, st')" "bs_ok st'" "contents st' = contents st"
    "length (unread st') = length (unread st) + k" "k = 0 \<longleftrightarrow> incoming (bs_inner st) = []"
    using fill_more_ok [OF less.prems(2)] by metis
  show ?case
  proof (cases "k = 0")
    case True
    then have "loop st = (Inl eof_fail, st')" using unfold [of st] d f(1) by simp
    moreover have "length (unread st') = length (contents st')"
      using True f(3-5) by (simp add: contents_def)
    then have "unread st' = contents st" using f(3) unread_take [of st'] by simp
    ultimately show ?thesis using less.prems(1) by blast
  next
    case False
    then have "loop st = loop st'" using unfold [of st] d f(1) less.prems(4) by simp
    then show ?thesis
      using less.hyps [OF fill_more_shrinks [OF f(1) False] _ f(2)] less.prems(1,3,4) f(3) by metis
  qed
qed

end

definition decide_handshake :: "bytes \<Rightarrow> (handshake_error + handshake \<times> nat) option" where
  "decide_handshake b =
     (case try_parse b of
        Complete h \<Rightarrow> Some (Inr (h, length (hs_raw_frame h)))
      | Malformed_Frame r \<Rightarrow> Some (Inl (Malformed r))
      | Incomplete_Frame \<Rightarrow> None)"

definition decide_frame :: "i32 \<Rightarrow> bytes \<Rightarrow> (io_error + bytes \<times> nat) option" where
  "decide_frame max_len b =
     (case read_var_int b of
        Inr (len, header_len) \<Rightarrow>
          if \<not> (0 \<le> sint len \<and> sint len \<le> sint max_len)
          then Some (Inl (lit ''frame length '' @ show_int (sint len) @ lit '' out of range''))
          else if header_len + unat len \<le> length b
          then Some (Inr (take (header_len + unat len) b, header_len + unat len)) else None
      | Inl _ \<Rightarrow> None)"

interpretation hs_loop: framed_reader decide_handshake "\<lambda>l. 1024 < l" Io Eof handshake_too_large bs_read_handshake
  by unfold_locales (subst bs_read_handshake.simps, auto simp: decide_handshake_def split: parse_outcome.split prod.split sum.split)

interpretation frame_loop: framed_reader "decide_frame max_len" "\<lambda>_. False" "\<lambda>e. e"
    "lit ''connection closed before frame completed''" "[]" "read_frame max_len" for max_len
  by unfold_locales (subst read_frame.simps, auto simp: decide_frame_def Let_def split: prod.split sum.split)

lemma decide_frame_written:
  assumes "int (length p) \<le> sint max_len" and "c = length_prefix p @ rest"
  shows "k < length (length_prefix p) \<Longrightarrow> decide_frame max_len (take k c) = None"
    and "length (length_prefix p) \<le> k \<Longrightarrow> k \<le> length c \<Longrightarrow>
      decide_frame max_len (take k c) = Some (Inr (length_prefix p, length (length_prefix p)))"
proof -
  have "sint max_len < 2 ^ (LENGTH(32) - 1)" by (rule sint_lt)
  then have l: "length p < 2147483648" using assms(1) by simp
  let ?h = "length (write_var_int (of_nat (length p)))"
  have hp: "?h + length p = length (length_prefix p)" by (simp add: length_length_prefix)
  {
    assume k: "k < length (length_prefix p)"
    then have t: "take k c = take k (length_prefix p)" by (simp add: assms(2))
    from read_var_int_frame_prefix [OF l k]
    show "decide_frame max_len (take k c) = None"
    proof
      assume "\<exists>h. read_var_int (take k (length_prefix p)) = Inr (of_nat (length p), h) \<and> k < h + length p"
      then show ?thesis using l assms(1) k by (auto simp: decide_frame_def t)
    qed (simp add: decide_frame_def t)
  }
  {
    assume k: "length (length_prefix p) \<le> k" "k \<le> length c"
    then have t: "take k c = length_prefix p @ take (k - length (length_prefix p)) rest"
      by (simp add: assms(2))
    show "decide_frame max_len (take k c) = Some (Inr (length_prefix p, length (length_prefix p)))"
      using l assms(1) k(1) hp by (simp add: decide_frame_def t read_length_prefix)
  }
qed

lemma decide_frame_starved:
  assumes "list_all is_continuation (take 5 c)"
  shows "decide_frame max_len (take k c) = None"
proof -
  have t: "list_all is_continuation (take 5 (take k c))"
    using assms by (auto simp: list_all_length)
  have "read_var_int (take k c) \<in> {Inl Incomplete, Inl TooBig}"
  proof (cases "length (take k c) < 5")
    case True
    then have "take 5 (take k c) = take k c" by (intro take_all) simp
    then show ?thesis using True t read_var_int_Incomplete_iff [of "take k c"] by (simp only: insert_iff simp_thms)
  next
    case False
    then show ?thesis using t read_var_int_TooBig_iff [of "take k c"] by (simp only: not_less insert_iff simp_thms)
  qed
  then show ?thesis by (auto simp: decide_frame_def)
qed

lemma decide_handshake_encoded:
  assumes "list_all is_scalar host" and "length (as_bytes host) \<le> 255"
    and "c = encode_handshake v host port s @ rest"
  shows "k < length (encode_handshake v host port s) \<Longrightarrow> decide_handshake (take k c) = None"
    and "length (encode_handshake v host port s) \<le> k \<Longrightarrow> k \<le> length c \<Longrightarrow> decide_handshake (take k c) =
      Some (Inr (\<lparr>hs_protocol_version = v, hs_host = strip_host host, hs_port = port,
        hs_next_state = s, hs_raw_frame = encode_handshake v host port s\<rparr>, length (encode_handshake v host port s)))"
  using try_parse_encode_handshake [OF assms(1,2), of v port s "take (k - length (encode_handshake v host port s)) rest"]
    try_parse_encode_prefix [OF assms(2), of k v port s]
  by (simp_all add: decide_handshake_def assms(3))

lemma poll_read_contents:
  assumes "bs_pos st \<le> length (bs_buf st)" and "poll_read n st = (Inr out, st')"
  shows "contents st = out @ contents st' \<and> bs_pos st' \<le> length (bs_buf st')"
proof (cases "bs_pos st < length (bs_buf st)")
  case True
  define k where "k = min n (length (bs_buf st) - bs_pos st)"
  have o: "out = take k (unread st)"
    using assms(2) True by (auto simp: poll_read_def Let_def k_def slice_def unread_def)
  have k: "k \<le> length (unread st)" by (simp add: k_def unread_def)
  have u: "unread st' = drop k (unread st) \<and> bs_inner st' = bs_inner st \<and> bs_pos st' \<le> length (bs_buf st')"
    using assms(2) True k unfolding poll_read_def Let_def k_def [symmetric]
    by (auto simp: unread_def add.commute split: if_splits)
  show ?thesis unfolding contents_def o using u by (metis append.assoc append_take_drop_id)
next
  case False
  then have "unread st = []" by (simp add: unread_def)
  moreover have "\<exists>r. read_some n (bs_inner st) = (Inr out, r) \<and> st' = st\<lparr>bs_inner := r\<rparr>"
    using assms(2) False by (auto simp: poll_read_def split: prod.splits)
  ultimately show ?thesis
    using assms(1) False by (auto simp: contents_def unread_def dest: read_some_incoming)
qed

text \<open>A sequence of raw reads with the given buffer sizes, up to the first error.\<close>

fun poll_reads :: "nat list \<Rightarrow> buffered_stream \<Rightarrow> bytes \<times> buffered_stream" where
  "poll_reads [] st = ([], st)"
| "poll_reads (n # ns) st =
     (case poll_read n st of
        (Inl e, st') \<Rightarrow> ([], st')
      | (Inr out, st') \<Rightarrow> (case poll_reads ns st' of (outs, st'') \<Rightarrow> (out @ outs, st'')))"

lemma poll_read_healthy:
  assumes "bs_ok st"
  obtains out st' where "poll_read n st = (Inr out, st')" and "bs_ok st'"
proof -
  obtain o2 r where r: "read_some n (bs_inner st) = (Inr o2, r)" "healthy r"
    using assms by (cases "bs_inner st" rule: reader_size.cases) (auto simp: bs_ok_def)
  show ?thesis
  proof (cases "bs_pos st < length (bs_buf st)")
    case True
    then show ?thesis using assms by (intro that) (auto simp: poll_read_def bs_ok_def Let_def)
  next
    case False
    then show ?thesis using assms r by (intro that) (auto simp: poll_read_def bs_ok_def)
  qed
qed

lemma poll_reads_contents:
  "bs_ok st \<Longrightarrow> poll_reads ns st = (outs, st') \<Longrightarrow> contents st = outs @ contents st' \<and> bs_ok st'"
proof (induction ns arbitrary: st outs)
  case (Cons n ns)
  obtain out st1 where p: "poll_read n st = (Inr out, st1)" "bs_ok st1"
    using poll_read_healthy [OF Cons.prems(1)] by metis
  obtain rest where r: "poll_reads ns st1 = (rest, st')" "outs = out @ rest"
    using Cons.prems(2) p(1) by (auto split: prod.splits)
  have "contents st = out @ contents st1"
    using poll_read_contents [OF _ p(1)] Cons.prems(1) by (simp add: bs_ok_def)
  then show ?case using Cons.IH [OF p(2) r(1)] r(2) by simp
qed simp

lemma read_frame_delivers:
  assumes "bs_ok st" and "contents st = length_prefix p @ rest" and "int (length p) \<le> sint max_len"
  shows "\<exists>st'. read_frame max_len st = (Inr (length_prefix p), st') \<and> bs_ok st' \<and> contents st' = rest"
proof -
  obtain m where m: "segments_at_most m (bs_inner st)"
  proof
    show "segments_at_most (\<Sum>x\<leftarrow>bs_inner st. case x of Data b \<Rightarrow> length b | Read_Error e \<Rightarrow> 0) (bs_inner st)"
      by (force simp: segments_at_most_def dest!: split_list)
  qed
  show ?thesis
    by (rule frame_loop.loop_delivers [OF assms(1) _ _ _ m, of "length (length_prefix p)" max_len "length_prefix p"])
      (use decide_frame_written [OF assms(3) assms(2)] assms(2) in auto)
qed

lemma read_frame_conserves:
  assumes "bs_ok st" and "read_frame max_len st = (res, st')"
  shows "bs_ok st' \<and> (case res of Inl e \<Rightarrow> contents st' = contents st | Inr f \<Rightarrow> contents st = f @ contents st')"
proof -
  have d: "n \<le> length b \<and> a = take n b" if "decide_frame max_len b = Some (Inr (a, n))" for a b n
    using that by (auto simp: decide_frame_def split: sum.splits if_splits)
  have "bs_ok st' \<and> (case res of Inl e \<Rightarrow> contents st' = contents st
    | Inr a \<Rightarrow> \<exists>k n. decide_frame max_len (take k (contents st)) = Some (Inr (a, n)) \<and> n \<le> k \<and> k \<le> length (contents st) \<and> contents st' = drop n (contents st))"
    using frame_loop.loop_conserves [OF assms] d by blast
  then show ?thesis using d by (fastforce split: sum.splits simp: min_def)
qed

section \<open>Properties\<close>

text \<open>C2: a frame is read whole however the stream is fragmented, and nothing behind it is lost.
  On a healthy connection whose unseen bytes start with a length-prefixed frame within the
  caller's limit, \<open>read_frame\<close> returns exactly that frame, and the bytes behind it are what the next
  reader sees.\<close>

theorem read_frame_fragmentation:
  assumes "bs_ok st" and "contents st = length_prefix p @ rest" and "int (length p) \<le> sint max_len"
  shows "\<exists>st'. read_frame max_len st = (Inr (length_prefix p), st') \<and> bs_ok st' \<and> contents st' = rest"
  using assms by (rule read_frame_delivers)

theorem read_frame_fragmentation_witness:
  "\<exists>st'. read_frame 100 (bs_new [Data [2], Data [7], Data [8, 9, 9]]) = (Inr (length_prefix [7, 8]), st')
     \<and> bs_ok st' \<and> contents st' = [9, 9]"
  by (rule read_frame_fragmentation) (simp_all add: length_prefix_def write_var_int.simps)

lemma read_handshake_delivers:
  assumes "bs_ok st" and "contents st = encode_handshake v host port s @ rest"
    and "list_all is_scalar host" and "length (as_bytes host) \<le> 255"
    and "segments_at_most m (bs_inner st)" and "length (encode_handshake v host port s) + m \<le> 1025"
  shows "\<exists>st'. bs_read_handshake st =
      (Inr \<lparr>hs_protocol_version = v, hs_host = strip_host host, hs_port = port,
        hs_next_state = s, hs_raw_frame = encode_handshake v host port s\<rparr>, st')
    \<and> bs_ok st' \<and> contents st' = rest"
  by (rule hs_loop.loop_delivers [OF assms(1) _ _ _ assms(5), of "length (encode_handshake v host port s)"
        "\<lparr>hs_protocol_version = v, hs_host = strip_host host, hs_port = port,
        hs_next_state = s, hs_raw_frame = encode_handshake v host port s\<rparr>"])
    (use decide_handshake_encoded [OF assms(3,4,2)] assms(2,6) in auto)

text \<open>C5: a handshake is sniffed correctly however the stream is fragmented, as long as no segment
  is so large that frame and segment together exceed the 1024-byte cap: the fields are those the
  client encoded and every byte pipelined behind the handshake is kept for the next read.\<close>

theorem read_handshake_fragmentation:
  assumes "bs_ok st" and "contents st = encode_handshake v host port s @ rest"
    and "list_all is_scalar host" and "length (as_bytes host) \<le> 255"
    and "segments_at_most m (bs_inner st)" and "length (encode_handshake v host port s) + m \<le> 1025"
  shows "\<exists>st'. bs_read_handshake st =
      (Inr \<lparr>hs_protocol_version = v, hs_host = strip_host host, hs_port = port,
        hs_next_state = s, hs_raw_frame = encode_handshake v host port s\<rparr>, st')
    \<and> bs_ok st' \<and> contents st' = rest"
  by (rule read_handshake_delivers [OF assms])

theorem read_handshake_fragmentation_witness:
  "\<exists>st'. bs_read_handshake (bs_new [Data (take 3 (encode_handshake 5 [] 7 2)),
        Data (drop 3 (encode_handshake 5 [] 7 2) @ [42])]) =
      (Inr \<lparr>hs_protocol_version = 5, hs_host = strip_host [], hs_port = 7,
        hs_next_state = 2, hs_raw_frame = encode_handshake 5 [] 7 2\<rparr>, st')
    \<and> bs_ok st' \<and> contents st' = [42]"
  by (rule read_handshake_fragmentation [where m = 20])
    (simp_all add: encode_handshake_def length_prefix_def write_string_def write_var_int.simps to_be_bytes_def bs_new_def
      bs_ok_def contents_def unread_def)

text \<open>The size cap is checked before the buffer is parsed again. When a client's first segment
  carries a complete handshake with more than 1024 bytes in total, the connection is refused as
  oversized although the parser would have accepted those very bytes.\<close>

theorem complete_handshake_refused:
  assumes "list_all is_scalar host" and "length (as_bytes host) \<le> 255"
    and "1024 < length (encode_handshake v host port s @ rest)"
    and "length (encode_handshake v host port s @ rest) \<le> 4096"
  shows "fst (bs_read_handshake (bs_new [Data (encode_handshake v host port s @ rest)])) = Inl handshake_too_large
    \<and> (\<exists>h. try_parse (encode_handshake v host port s @ rest) = Complete h)"
proof -
  have "try_parse [] = Incomplete_Frame" by (simp add: try_parse_def read_var_int_def)
  then have "fst (bs_read_handshake (bs_new [Data c])) = Inl handshake_too_large"
    if "1024 < length c" "length c \<le> 4096" for c
    using that by (subst bs_read_handshake.simps) (auto simp: bs_new_def unread_def fill_more_def)
  then show ?thesis using assms try_parse_encode_handshake [OF assms(1,2)] by blast
qed

theorem complete_handshake_refused_witness:
  "fst (bs_read_handshake (bs_new [Data (encode_handshake 763 (lit ''mc'') 25565 2 @ replicate 1200 0)]))
     = Inl handshake_too_large"
proof -
  have "length (encode_handshake 763 (lit ''mc'') 25565 2 :: bytes) \<le> 282"
    by (rule length_encode_handshake) (simp add: lit_def as_bytes_def utf8_encode_char_def)
  then show ?thesis
    using complete_handshake_refused [of "lit ''mc''" 763 25565 2 "replicate 1200 0"]
    by (simp add: lit_def is_scalar_def as_bytes_def utf8_encode_char_def)
qed

text \<open>An over-long length prefix is never rejected by the frame reader. If the unseen bytes
  begin with five continuation bytes, which no VarInt has, \<open>read_frame\<close> reports nothing until the
  peer closes and by then holds the whole stream, of whatever size, in its buffer.\<close>

theorem read_frame_overlong_prefix_swallowed:
  assumes "bs_ok st" and "5 \<le> length (contents st)" and "list_all is_continuation (take 5 (contents st))"
  shows "\<exists>st'. read_frame max_len st = (Inl (lit ''connection closed before frame completed''), st')
    \<and> unread st' = contents st"
  by (rule frame_loop.loop_swallows [OF assms(1), of max_len]) (use decide_frame_starved [OF assms(3)] in auto)

theorem read_frame_overlong_prefix_swallowed_witness:
  "\<exists>st'. read_frame 100 (bs_new [Data [255, 255, 255], Data [255, 255, 1, 2]])
      = (Inl (lit ''connection closed before frame completed''), st')
    \<and> unread st' = [255, 255, 255, 255, 255, 1, 2]"
  using read_frame_overlong_prefix_swallowed [of "bs_new [Data [255, 255, 255], Data [255, 255, 1, 2]]" 100]
  by (simp add: is_continuation_def)

text \<open>The relay that takes over after the framed reads loses and reorders nothing: what a
  sequence of raw reads delivers, followed by what is still unseen, is exactly what was unseen
  before.\<close>

theorem raw_reads_lossless:
  assumes "bs_ok st" and "poll_reads ns st = (outs, st')"
  shows "outs @ contents st' = contents st"
  using poll_reads_contents [OF assms] by simp

theorem raw_reads_lossless_witness:
  "fst (poll_reads [2, 5, 5] \<lparr>bs_inner = [Data [4, 5]], bs_buf = [0, 1, 2, 3], bs_pos = 1\<rparr>)
     @ contents (snd (poll_reads [2, 5, 5] \<lparr>bs_inner = [Data [4, 5]], bs_buf = [0, 1, 2, 3], bs_pos = 1\<rparr>))
   = [1, 2, 3, 4, 5]"
  using raw_reads_lossless [of "\<lparr>bs_inner = [Data [4, 5]], bs_buf = [0, 1, 2, 3], bs_pos = 1\<rparr>" "[2, 5, 5]"]
  by (simp add: bs_ok_def contents_def unread_def prod_eq_iff)

end
