(* ===== verification/Proxy_Protocol.thy ===== *)
theory Proxy_Protocol
  imports Minecraft_Protocol Byte_Stream
begin

text \<open>
  PROXY protocol v1 and v2: the one-shot header parser of \<open>src/protocol/proxy_protocol_datagram.rs\<close>
  and the stream reader of \<open>src/protocol/proxy_protocol_tcp.rs\<close> that reads just enough bytes and
  hands them to that parser.
\<close>

unbundle bit_operations_syntax

section \<open>The header parser\<close>

type_synonym proxy_protocol_format_error = str

definition V2_SIGNATURE :: bytes where
  "V2_SIGNATURE = [0x0D, 0x0A, 0x0D, 0x0A, 0x00, 0x0D, 0x0A, 0x51, 0x55, 0x49, 0x54, 0x0A]"

definition V1_PREFIX :: bytes where
  "V1_PREFIX = as_bytes (lit ''PROXY '')"

definition starts_with :: "bytes \<Rightarrow> bytes \<Rightarrow> bool" where
  "starts_with buf pre \<longleftrightarrow> length pre \<le> length buf \<and> take (length pre) buf = pre"

definition parse_v2 :: "bytes \<Rightarrow> proxy_protocol_format_error + socket_addr option \<times> nat" where
  "parse_v2 buf =
     (let ver_cmd = buf ! 12 in
      if drop_bit 4 ver_cmd \<noteq> 0x2 then Inl (lit ''PROXY v2 version nibble != 2'')
      else let command = ver_cmd AND 0x0F;
               family = drop_bit 4 (buf ! 13);
               addr_len = unat (from_be_bytes [buf ! 14, buf ! 15] :: u16);
               header_len = 16 + addr_len in
        if length buf < header_len
        then Inl (lit ''PROXY v2 header truncated (need '' @ show_nat header_len @ lit '' bytes)'')
        else if command = 0 \<or> family = 0 then Inr (None, header_len)
        else if family = 1 \<and> 12 \<le> addr_len
        then Inr (Some (SocketAddr (V4 (buf ! 16) (buf ! 17) (buf ! 18) (buf ! 19))
                         (from_be_bytes [buf ! 24, buf ! 25])), header_len)
        else if family = 2 \<and> 36 \<le> addr_len
        then Inr (Some (SocketAddr (V6 (slice 16 32 buf)) (from_be_bytes [buf ! 48, buf ! 49])), header_len)
        else Inl (lit ''PROXY v2 address block too short for family '' @ show_nat (unat family)))"

text \<open>The search loop for the first CRLF, as the index of its CR.\<close>

fun find_crlf :: "bytes \<Rightarrow> nat option" where
  "find_crlf (a # b # r) = (if a = 0x0D \<and> b = 0x0A then Some 0 else map_option Suc (find_crlf (b # r)))"
| "find_crlf _ = None"

definition parse_v1 :: "bytes \<Rightarrow> proxy_protocol_format_error + socket_addr option \<times> nat" where
  "parse_v1 buf =
     (case find_crlf (take (min (length buf) 108) buf) of
        None \<Rightarrow> Inl (lit ''PROXY v1 header has no CRLF within 107 bytes'')
      | Some crlf \<Rightarrow>
          let line = from_utf8_lossy (take crlf buf); consumed = crlf + 2;
              parts = split_on (ch CHR '' '') line;
              bad = lit ''PROXY v1 header has an unparseable source address: '' @ line in
          if 2 \<le> length parts \<and> parts ! 1 = lit ''UNKNOWN'' then Inr (None, consumed)
          else if length parts < 6 then Inl (lit ''PROXY v1 header has too few fields: '' @ line)
          else (case parse_ip_addr (parts ! 2) of
                  None \<Rightarrow> Inl bad
                | Some ip \<Rightarrow>
                    (case parse_u16 (parts ! 4) of
                       None \<Rightarrow> Inl bad
                     | Some port \<Rightarrow> Inr (Some (SocketAddr ip port), consumed))))"

definition parse_proxy_protocol_header :: "bytes \<Rightarrow> proxy_protocol_format_error + socket_addr option \<times> nat" where
  "parse_proxy_protocol_header buf =
     (if 16 \<le> length buf \<and> starts_with buf V2_SIGNATURE then parse_v2 buf
      else if starts_with buf V1_PREFIX then parse_v1 buf
      else Inl (lit ''no PROXY protocol v1 or v2 signature''))"

section \<open>The stream reader\<close>

function read_exact_more ::
  "bytes \<Rightarrow> nat \<Rightarrow> reader \<Rightarrow> (proxy_protocol_format_error + bytes) \<times> reader" where
  "read_exact_more buf target_len r =
     (if target_len \<le> length buf then (Inr buf, r)
      else case read_some (target_len - length buf) r of
        (Inl e, r') \<Rightarrow> (Inl (lit ''io error reading PROXY header: '' @ e), r')
      | (Inr chunk, r') \<Rightarrow>
          if chunk = [] then (Inl (lit ''connection closed before PROXY header completed''), r')
          else read_exact_more (buf @ chunk) target_len r')"
  by pat_completeness auto
termination
  by (relation "measure (\<lambda>(b, t, r). reader_size r)") (auto dest: read_some_shrinks [OF sym])

declare read_exact_more.simps [simp del]

lemma read_exact_more_length:
  "read_exact_more buf t r = (Inr b, r') \<Longrightarrow> length b = max t (length buf)"
proof (induction buf t r arbitrary: b r' rule: read_exact_more.induct)
  case (1 buf t r)
  show ?case
  proof (cases "t \<le> length buf")
    case True
    then show ?thesis using 1(2) by (simp add: read_exact_more.simps)
  next
    case False
    then obtain c r1 where c: "read_some (t - length buf) r = (Inr c, r1)" "c \<noteq> []"
      "read_exact_more (buf @ c) t r1 = (Inr b, r')"
      using 1(2) by (subst (asm) read_exact_more.simps) (auto split: prod.splits sum.splits if_splits)
    have "length c \<le> t - length buf"
      using c(1) by (cases r rule: reader_size.cases) auto
    then show ?thesis using 1(1) [OF False c(1) [symmetric] refl c(2,3)] False by simp
  qed
qed

function read_v1_line :: "bytes \<Rightarrow> reader \<Rightarrow> (proxy_protocol_format_error + bytes) \<times> reader" where
  "read_v1_line buf r =
     (if find_crlf buf \<noteq> None then (Inr buf, r)
      else if 108 \<le> length buf then (Inl (lit ''PROXY v1 header has no CRLF within 107 bytes''), r)
      else case read_exact_more buf (length buf + 1) r of
        (Inl e, r') \<Rightarrow> (Inl e, r')
      | (Inr buf', r') \<Rightarrow> read_v1_line buf' r')"
  by pat_completeness auto
termination
  by (relation "measure (\<lambda>(b, r). 108 - length b)") (auto dest!: read_exact_more_length [OF sym])

declare read_v1_line.simps [simp del]

definition read_proxy_protocol_header ::
  "reader \<Rightarrow> (proxy_protocol_format_error + socket_addr option) \<times> reader" where
  "read_proxy_protocol_header r =
     (case read_exact_more [] 16 r of
        (Inl e, r) \<Rightarrow> (Inl e, r)
      | (Inr buf, r) \<Rightarrow>
          (case (if starts_with buf V2_SIGNATURE
                 then read_exact_more buf (16 + unat (from_be_bytes [buf ! 14, buf ! 15] :: u16)) r
                 else if starts_with buf V1_PREFIX then read_v1_line buf r
                 else (Inl (lit ''no PROXY protocol v1 or v2 signature''), r)) of
             (Inl e, r) \<Rightarrow> (Inl e, r)
           | (Inr buf, r) \<Rightarrow>
               (case parse_proxy_protocol_header buf of
                  Inl e \<Rightarrow> (Inl e, r)
                | Inr (addr, _) \<Rightarrow> (Inr addr, r))))"

section \<open>Reading on a healthy connection\<close>

lemma read_exact_more_healthy:
  assumes "healthy r" and "t \<le> length buf + length (incoming r)" and "length buf \<le> t"
  obtains r' where "read_exact_more buf t r = (Inr (take t (buf @ incoming r)), r')" and "healthy r'"
    and "incoming r' = drop (t - length buf) (incoming r)"
  using assms
proof (induction buf t r arbitrary: thesis rule: read_exact_more.induct)
  case (1 buf t r)
  show ?case
  proof (cases "t \<le> length buf")
    case True
    then show ?thesis using 1(2) [of r] 1(3,5) by (simp add: read_exact_more.simps)
  next
    case False
    then obtain c r1 where c: "read_some (t - length buf) r = (Inr c, r1)" "healthy r1" "length c \<le> t - length buf"
      "incoming r = c @ incoming r1" "c = [] \<longleftrightarrow> incoming r = []"
      using read_some_healthy [OF 1(3), of "t - length buf"] by auto
    have ne: "c \<noteq> []" using c(5) False 1(4) by auto
    have len: "t \<le> length (buf @ c) + length (incoming r1)" "length (buf @ c) \<le> t"
      using 1(4) c(3,4) False by simp_all
    obtain r2 where r2: "read_exact_more (buf @ c) t r1 = (Inr (take t ((buf @ c) @ incoming r1)), r2)"
      "healthy r2" "incoming r2 = drop (t - length (buf @ c)) (incoming r1)"
      using 1(1) [OF False c(1) [symmetric] refl ne _ c(2) len] by blast
    have "read_exact_more buf t r = (Inr (take t (buf @ incoming r)), r2)"
      using False c(1,4) ne r2(1) by (subst read_exact_more.simps) simp
    then show ?thesis using 1(2) [of r2] r2(2,3) c(3,4) by simp
  qed
qed

lemma find_crlf_line:
  assumes "13 \<notin> set line"
  shows "find_crlf (line @ 13 # 10 # rest) = Some (length line)"
  using assms
proof (induction line)
  case (Cons a line)
  then show ?case by (cases line) auto
qed simp

lemma find_crlf_none: "13 \<notin> set (butlast b) \<Longrightarrow> find_crlf b = None"
  by (induction b rule: find_crlf.induct) auto

lemma find_crlf_prefix:
  assumes "13 \<notin> set line" and "k < length line + 2"
  shows "find_crlf (take k (line @ [13, 10])) = None"
proof (rule find_crlf_none)
  have "butlast (take k (line @ [13, 10])) = take (k - 1) (line @ [13, 10])"
    using assms(2) by (intro butlast_take) simp
  also have "\<dots> = take (k - 1) line" using assms(2) by simp
  finally show "13 \<notin> set (butlast (take k (line @ [13, 10])))"
    using assms(1) by (metis in_set_takeD)
qed

lemma read_v1_line_healthy:
  assumes "13 \<notin> set line" and "length line + 2 \<le> 108" and "healthy r"
    and "k \<le> length line + 2" and "buf = take k (line @ [13, 10])"
    and "buf @ incoming r = line @ [13, 10] @ rest"
  obtains r' where "read_v1_line buf r = (Inr (line @ [13, 10]), r')" and "healthy r'" and "incoming r' = rest"
  using assms
proof (induction "length line + 2 - k" arbitrary: k buf r thesis)
  case 0
  then have b: "buf = line @ [13, 10]" by simp
  then show ?case using 0 find_crlf_line [OF 0(3), of "[]"] by (simp add: read_v1_line.simps)
next
  case (Suc d)
  then have k: "k < length line + 2" by simp
  have lb: "length buf = k" using Suc.prems(6) k by simp
  have "length (buf @ incoming r) = length line + 2 + length rest" by (simp only: Suc.prems(7)) simp
  then obtain r1 where r1: "read_exact_more buf (Suc k) r = (Inr (take (Suc k) (buf @ incoming r)), r1)"
    "healthy r1" "incoming r1 = drop (Suc k - length buf) (incoming r)"
    using read_exact_more_healthy [OF Suc.prems(4), of "Suc k" buf] k lb by auto
  define buf1 where "buf1 = take (Suc k) (buf @ incoming r)"
  have b1: "buf1 = take (Suc k) (line @ [13, 10])"
    unfolding buf1_def Suc.prems(7) append_assoc [symmetric] by (subst take_append) (use k in simp)
  have "drop (Suc k) (buf @ incoming r) = incoming r1" unfolding r1(3) using lb by simp
  then have "buf1 @ incoming r1 = buf @ incoming r" unfolding buf1_def by (metis append_take_drop_id)
  then have c1: "buf1 @ incoming r1 = line @ [13, 10] @ rest" using Suc.prems(7) by simp
  obtain r2 where r2: "read_v1_line buf1 r1 = (Inr (line @ [13, 10]), r2)" "healthy r2" "incoming r2 = rest"
    by (rule Suc.hyps(1) [where k = "Suc k" and r = r1 and buf = buf1]) (use Suc.hyps(2) Suc.prems(2,3) r1(2) k b1 c1 in auto)
  have "find_crlf buf = None" using find_crlf_prefix [OF Suc.prems(2) k] Suc.prems(6) by simp
  then have "read_v1_line buf r = (Inr (line @ [13, 10]), r2)"
    using lb k Suc.prems(3) r1(1) r2(1) by (subst read_v1_line.simps) (simp add: buf1_def)
  then show ?case using Suc.prems(1) r2(2,3) by blast
qed

section \<open>Headers that end where they say\<close>

text \<open>A version 2 header with its address block, or a version 1 line that is at least as long as the
  sixteen bytes the stream reader fetches first.\<close>

definition v2_header :: "byte \<Rightarrow> byte \<Rightarrow> bytes \<Rightarrow> bytes" where
  "v2_header ver_cmd fam_proto addr =
     V2_SIGNATURE @ [ver_cmd, fam_proto] @ to_be_bytes (of_nat (length addr) :: u16) @ addr"

definition v1_header :: "bytes \<Rightarrow> bytes" where
  "v1_header line = line @ [13, 10]"

lemma v2_header_shape:
  assumes "length addr < 65536"
  shows "take 16 (v2_header a b addr) = V2_SIGNATURE @ [a, b] @ to_be_bytes (of_nat (length addr) :: u16)"
    and "length (v2_header a b addr) = 16 + length addr"
    and "starts_with (v2_header a b addr @ rest) V2_SIGNATURE"
    and "unat (from_be_bytes [v2_header a b addr ! 14, v2_header a b addr ! 15] :: u16) = length addr"
proof -
  obtain x y where xy: "to_be_bytes (of_nat (length addr) :: u16) = [x, y]"
    using length_to_be_bytes(1) [of "of_nat (length addr) :: u16"]
    by (auto simp only: length_Suc_conv length_0_conv numeral_2_eq_2)
  have "from_be_bytes [x, y] = (of_nat (length addr) :: u16)" using from_to_be_bytes(1) xy by metis
  then show "unat (from_be_bytes [v2_header a b addr ! 14, v2_header a b addr ! 15] :: u16) = length addr"
    using assms by (simp add: v2_header_def V2_SIGNATURE_def xy unat_of_nat)
  show "take 16 (v2_header a b addr) = V2_SIGNATURE @ [a, b] @ to_be_bytes (of_nat (length addr) :: u16)"
    "length (v2_header a b addr) = 16 + length addr"
    "starts_with (v2_header a b addr @ rest) V2_SIGNATURE"
    by (simp_all add: v2_header_def V2_SIGNATURE_def starts_with_def xy)
qed

lemma read_v2_header:
  assumes "length addr < 65536" and "healthy r" and "incoming r = v2_header a b addr @ rest"
  obtains r' where "read_proxy_protocol_header r =
      (case parse_proxy_protocol_header (v2_header a b addr) of Inl e \<Rightarrow> Inl e | Inr (ad, _) \<Rightarrow> Inr ad, r')"
    and "healthy r'" and "incoming r' = rest"
proof -
  let ?h = "v2_header a b addr"
  note sh = v2_header_shape [OF assms(1), of a b]
  obtain r1 where r1: "read_exact_more [] 16 r = (Inr (take 16 ?h), r1)" "healthy r1"
    "incoming r1 = drop 16 (?h @ rest)"
    using read_exact_more_healthy [OF assms(2), of 16 "[]"] assms(3) sh(2) by auto
  have n: "take 16 ?h ! 14 = ?h ! 14" "take 16 ?h ! 15 = ?h ! 15" by simp_all
  have s: "starts_with (take 16 ?h) V2_SIGNATURE"
    using sh(1) by (simp add: starts_with_def)
  have c: "take 16 ?h @ incoming r1 = ?h @ rest" using r1(3) sh(2) by simp
  have "length (take 16 ?h @ incoming r1) = 16 + length addr + length rest" unfolding c using sh(2) by simp
  then have l1: "16 + length addr \<le> length (take 16 ?h) + length (incoming r1)" by simp
  have l2: "length (take 16 ?h) \<le> 16 + length addr" using sh(2) by simp
  obtain r2 where r2: "read_exact_more (take 16 ?h) (16 + length addr) r1
      = (Inr (take (16 + length addr) (take 16 ?h @ incoming r1)), r2)"
    "healthy r2" "incoming r2 = drop (16 + length addr - length (take 16 ?h)) (incoming r1)"
    using read_exact_more_healthy [OF r1(2) l1 l2] by blast
  have t: "take (16 + length addr) (take 16 ?h @ incoming r1) = ?h" unfolding c using sh(2) by simp
  have i: "incoming r2 = rest" unfolding r2(3) r1(3) using sh(2) by simp
  have "read_proxy_protocol_header r =
      (case parse_proxy_protocol_header ?h of Inl e \<Rightarrow> Inl e | Inr (ad, _) \<Rightarrow> Inr ad, r2)"
    unfolding read_proxy_protocol_header_def r1(1)
    using s sh(4) r2(1) [unfolded t] n by (simp split: sum.split prod.split)
  then show ?thesis using that r2(2) i by blast
qed

lemma read_v1_header:
  assumes line: "13 \<notin> set line" "starts_with line V1_PREFIX" "14 \<le> length line" "length line \<le> 106"
    and "healthy r" and "incoming r = v1_header line @ rest"
  obtains r' where "read_proxy_protocol_header r =
      (case parse_proxy_protocol_header (v1_header line) of Inl e \<Rightarrow> Inl e | Inr (ad, _) \<Rightarrow> Inr ad, r')"
    and "healthy r'" and "incoming r' = rest"
proof -
  let ?h = "line @ [13, 10]"
  have inc: "incoming r = ?h @ rest" using assms(6) by (simp add: v1_header_def)
  obtain r1 where r1: "read_exact_more [] 16 r = (Inr (take 16 (?h @ rest)), r1)" "healthy r1"
    "incoming r1 = drop 16 (?h @ rest)"
    using read_exact_more_healthy [OF assms(5), of 16 "[]"] inc line(3) by auto
  have t: "take 16 (?h @ rest) = take 16 ?h" unfolding take_append [of 16 ?h rest] using line(3) by simp
  have p: "starts_with (take 16 ?h) V1_PREFIX" "\<not> starts_with (take 16 ?h) V2_SIGNATURE"
  proof -
    have six: "take 6 (take 16 ?h) = take 6 line" using line(3) by simp
    then show "starts_with (take 16 ?h) V1_PREFIX"
      using line(2,3) by (simp add: starts_with_def V1_PREFIX_def as_bytes_def lit_def utf8_encode_char_def)
    have "hd line = 80" using line(2,3)
      by (cases line) (simp_all add: starts_with_def V1_PREFIX_def as_bytes_def lit_def utf8_encode_char_def byte_of_def)
    moreover have "starts_with (take 16 ?h) V2_SIGNATURE \<Longrightarrow> hd line = 13"
      using line(3) by (cases line) (simp_all add: starts_with_def V2_SIGNATURE_def)
    ultimately show "\<not> starts_with (take 16 ?h) V2_SIGNATURE" by auto
  qed
  have c: "take 16 ?h @ incoming r1 = line @ [13, 10] @ rest"
    using r1(3) t by (metis append_assoc append_take_drop_id)
  have k: "length line + 2 \<le> 108" "16 \<le> length line + 2" using line by simp_all
  obtain r2 where r2: "read_v1_line (take 16 ?h) r1 = (Inr ?h, r2)" "healthy r2" "incoming r2 = rest"
    using read_v1_line_healthy [OF line(1) k(1) r1(2) k(2) refl c] by blast
  have "read_proxy_protocol_header r =
      (case parse_proxy_protocol_header ?h of Inl e \<Rightarrow> Inl e | Inr (ad, _) \<Rightarrow> Inr ad, r2)"
    unfolding read_proxy_protocol_header_def r1(1) t
    using p r2(1) by (simp split: sum.split prod.split)
  then show ?thesis using that r2(2,3) by (simp add: v1_header_def)
qed

section \<open>The header the gateway itself writes\<close>

definition v1_line :: "socket_addr \<Rightarrow> socket_addr \<Rightarrow> str" where
  "v1_line src dst =
     lit ''PROXY '' @ (if is_ipv6 (addr_ip src) then lit ''TCP6'' else lit ''TCP4'') @ lit '' ''
       @ show_ip (addr_ip src) @ lit '' '' @ show_ip (addr_ip dst) @ lit '' ''
       @ show_nat (unat (addr_port src)) @ lit '' '' @ show_nat (unat (addr_port dst))"

lemma encode_is_v1_header:
  "encode_proxy_protocol_header src dst = v1_header (as_bytes (v1_line src dst))"
  by (simp add: encode_proxy_protocol_header_def v1_header_def v1_line_def Let_def)
    (simp add: as_bytes_def utf8_encode_char_def byte_of_def)

lemma as_bytes_ascii: "list_all is_ascii s \<Longrightarrow> as_bytes s = map byte_of s"
  by (induction s) (simp_all add: as_bytes_def utf8_encode_char_def is_ascii_def)

lemma show_nat_ascii: "list_all is_ascii (show_nat n)"
  using show_nat_digits [of n] by (auto simp: list_all_iff is_ascii_def is_ascii_digit_def)

lemma show_ipv4_ascii: "list_all is_ascii (show_ipv4 a b c d)"
  using show_nat_ascii by (simp add: show_ipv4_def show_octet_def lit_def) (simp add: is_ascii_def)

lemma ascii_scalar: "list_all is_ascii s \<Longrightarrow> list_all is_scalar s"
  by (auto simp: list_all_iff is_ascii_def is_scalar_def)

lemma v1_line_ascii:
  assumes "\<not> is_ipv6 (addr_ip src)" and "\<not> is_ipv6 (addr_ip dst)"
  shows "list_all is_ascii (v1_line src dst)"
  using assms show_nat_ascii show_ipv4_ascii
  by (cases "addr_ip src"; cases "addr_ip dst") (simp_all add: v1_line_def lit_def, simp_all add: is_ascii_def)

lemma v1_line_split:
  assumes "\<not> is_ipv6 (addr_ip src)" and "\<not> is_ipv6 (addr_ip dst)"
  shows "split_on 32 (v1_line src dst) =
    [lit ''PROXY'', lit ''TCP4'', show_ip (addr_ip src), show_ip (addr_ip dst),
     show_nat (unat (addr_port src)), show_nat (unat (addr_port dst))]"
proof -
  have no: "32 \<notin> set (show_ip (addr_ip src))" "32 \<notin> set (show_ip (addr_ip dst))"
    using assms show_ipv4_no_space by (cases "addr_ip src"; cases "addr_ip dst"; simp)+
  have nn: "32 \<notin> set (show_nat n)" for n by (rule show_nat_not) (simp add: is_ascii_digit_def)
  have w: "32 \<notin> set (lit ''PROXY'')" "32 \<notin> set (lit ''TCP4'')" by (simp_all add: lit_def)
  have "v1_line src dst = lit ''PROXY'' @ 32 # lit ''TCP4'' @ 32 # show_ip (addr_ip src) @ 32 #
      show_ip (addr_ip dst) @ 32 # show_nat (unat (addr_port src)) @ 32 # show_nat (unat (addr_port dst))"
    using assms by (simp add: v1_line_def lit_def)
  then show ?thesis by (simp only: split_on_append no nn w split_on_none simp_thms)
qed

lemma v1_line_length:
  assumes "\<not> is_ipv6 (addr_ip src)" and "\<not> is_ipv6 (addr_ip dst)"
  shows "length (v1_line src dst) \<le> 100" and "14 \<le> length (v1_line src dst)"
proof -
  have o: "length (show_octet b) \<le> 3" for b :: byte
  proof -
    have "unat b < 2 ^ LENGTH(8)" by (rule unsigned_less)
    then show ?thesis unfolding show_octet_def by (intro length_show_nat) simp_all
  qed
  have p: "length (show_nat (unat q)) \<le> 5" for q :: u16
  proof -
    have "unat q < 2 ^ LENGTH(16)" by (rule unsigned_less)
    then show ?thesis by (intro length_show_nat) simp_all
  qed
  have v: "length (show_ipv4 a b c d) \<le> 15" "3 \<le> length (show_ipv4 a b c d)" for a b c d
    using o [of a] o [of b] o [of c] o [of d] by (simp_all add: show_ipv4_def lit_def)
  obtain a b c d a' b' c' d' where ip: "addr_ip src = V4 a b c d" "addr_ip dst = V4 a' b' c' d'"
    using assms by (metis ip_addr.exhaust is_ipv6.simps(2))
  show "length (v1_line src dst) \<le> 100" "14 \<le> length (v1_line src dst)"
    using p [of "addr_port src"] p [of "addr_port dst"] v [of a b c d] v [of a' b' c' d']
    by (simp_all add: v1_line_def lit_def ip)
qed

lemma parse_encoded_header:
  assumes "\<not> is_ipv6 (addr_ip src)" and "\<not> is_ipv6 (addr_ip dst)"
  shows "parse_proxy_protocol_header (encode_proxy_protocol_header src dst @ rest)
    = Inr (Some src, length (encode_proxy_protocol_header src dst))"
proof -
  let ?l = "as_bytes (v1_line src dst)"
  define buf where "buf = ?l @ 13 # 10 # rest"
  have asc: "list_all is_ascii (v1_line src dst)" by (rule v1_line_ascii [OF assms])
  have lb: "?l = map byte_of (v1_line src dst)" by (rule as_bytes_ascii [OF asc])
  have no13: "13 \<notin> set ?l"
  proof
    assume "13 \<in> set ?l"
    then obtain c where c: "c \<in> set (v1_line src dst)" "byte_of c = 13" unfolding lb by auto
    then have "c mod 256 = unat (13 :: byte)" by (metis unat_byte_of)
    moreover have "c < 128" using asc c(1) by (simp add: list_all_iff is_ascii_def)
    ultimately have "c = 13" by simp
    with c(1) show False
      using assms show_nat_not [of 13] by (cases "addr_ip src"; cases "addr_ip dst")
        (auto simp: v1_line_def lit_def show_ipv4_def show_octet_def is_ascii_digit_def)
  qed
  have len: "length ?l = length (v1_line src dst)" by (simp add: lb)
  then have l: "length ?l \<le> 100" "14 \<le> length ?l" using v1_line_length [OF assms] by simp_all
  have pre: "take 6 buf = V1_PREFIX"
    by (simp add: buf_def v1_line_def V1_PREFIX_def) (simp add: as_bytes_def lit_def utf8_encode_char_def)
  have "length V1_PREFIX = 6" by (simp add: V1_PREFIX_def as_bytes_def lit_def utf8_encode_char_def)
  then have st: "starts_with buf V1_PREFIX" using pre l by (simp add: starts_with_def buf_def)
  have "take 1 buf = take 1 V1_PREFIX" using pre by (metis min.absorb1 numeral_le_one_iff one_le_numeral take_take)
  then have ns: "\<not> starts_with buf V2_SIGNATURE"
    by (cases buf) (simp_all add: starts_with_def V2_SIGNATURE_def V1_PREFIX_def as_bytes_def lit_def utf8_encode_char_def byte_of_def)
  have "take (min (length buf) 108) buf = ?l @ 13 # 10 # take (min (length buf) 108 - length ?l - 2) rest"
    using l by (simp add: buf_def take_Cons')
  then have f: "find_crlf (take (min (length buf) 108) buf) = Some (length ?l)"
    by (simp add: find_crlf_line [OF no13])
  have line: "from_utf8_lossy (take (length ?l) buf) = v1_line src dst"
    using ascii_scalar [OF asc] by (simp add: buf_def)
  have ip: "parse_ip_addr (show_ip (addr_ip src)) = Some (addr_ip src)"
    using assms(1) parse_ip_addr_show_v4 by (cases "addr_ip src") simp_all
  have unk: "lit ''TCP4'' \<noteq> lit ''UNKNOWN''" by (simp add: lit_def)
  have "parse_v1 buf = Inr (Some src, length ?l + 2)"
    unfolding parse_v1_def f using line ip unk v1_line_split [OF assms] by (simp add: Let_def)
  then show ?thesis
    using st ns by (simp add: parse_proxy_protocol_header_def encode_is_v1_header v1_header_def buf_def)
qed

section \<open>Properties\<close>

text \<open>The PROXY v1 header the gateway writes for an IPv4 client is understood by its own parser:
  the client address comes back, the header's length is reported exactly, and whatever follows is
  left alone.\<close>

theorem proxy_header_round_trip:
  assumes "\<not> is_ipv6 (addr_ip src)" and "\<not> is_ipv6 (addr_ip dst)"
  shows "parse_proxy_protocol_header (encode_proxy_protocol_header src dst @ rest)
    = Inr (Some src, length (encode_proxy_protocol_header src dst))"
  using assms by (rule parse_encoded_header)

theorem proxy_header_round_trip_witness:
  "parse_proxy_protocol_header (encode_proxy_protocol_header
       (SocketAddr (V4 192 168 1 1) 5555) (SocketAddr (V4 10 0 0 2) 25565) @ [1, 2, 3])
    = Inr (Some (SocketAddr (V4 192 168 1 1) 5555), length (encode_proxy_protocol_header
       (SocketAddr (V4 192 168 1 1) 5555) (SocketAddr (V4 10 0 0 2) 25565)))"
  by (rule proxy_header_round_trip) simp_all



text \<open>The shortest version 1 header is over-read. \<open>PROXY UNKNOWN\<close> with its CRLF is fifteen bytes
  long, but the stream reader fetches sixteen before it looks: it accepts the header and drops
  the first byte of the Minecraft handshake behind it.\<close>

theorem proxy_unknown_overread:
  "length (as_bytes (lit ''PROXY UNKNOWN'') @ [13, 10]) = 15
   \<and> read_proxy_protocol_header [Data (as_bytes (lit ''PROXY UNKNOWN'') @ [13, 10] @ b # rest)]
     = (Inr None, if rest = [] then [] else [Data rest])"
proof -
  let ?l = "as_bytes (lit ''PROXY UNKNOWN'')"
  have l: "?l = [80, 82, 79, 88, 89, 32, 85, 78, 75, 78, 79, 87, 78]" by code_simp
  have r: "read_exact_more [] 16 [Data (?l @ [13, 10] @ b # rest)]
      = (Inr (?l @ [13, 10, b]), if rest = [] then [] else [Data rest])"
    by (subst read_exact_more.simps, simp add: l) (subst (1 2) read_exact_more.simps, simp)
  have f: "find_crlf (?l @ [13, 10, b]) = Some 13" by (simp add: l)
  have s: "starts_with (?l @ [13, 10, b]) V1_PREFIX" "\<not> starts_with (?l @ [13, 10, b]) V2_SIGNATURE"
    by (simp_all add: starts_with_def V1_PREFIX_def V2_SIGNATURE_def l)
      (simp add: as_bytes_def lit_def utf8_encode_char_def byte_of_def)
  have v: "read_v1_line (?l @ [13, 10, b]) r' = (Inr (?l @ [13, 10, b]), r')" for r'
    by (subst read_v1_line.simps) (simp add: f)
  have "from_utf8_lossy ?l = lit ''PROXY UNKNOWN''"
    by (rule from_utf8_lossy_as_bytes) (simp add: lit_def is_scalar_def)
  then have "from_utf8_lossy (take 13 (?l @ [13, 10, b])) = lit ''PROXY UNKNOWN''" by (simp add: l)
  then have p: "parse_v1 (?l @ [13, 10, b]) = Inr (None, 15)"
    using f by (simp add: parse_v1_def l Let_def) (simp add: lit_def)
  show ?thesis
    using r s v p by (simp add: read_proxy_protocol_header_def parse_proxy_protocol_header_def l)
qed

end
