(* ===== verification/Duration_Parse.thy ===== *)
theory Duration_Parse
  imports Rust_Std
begin

text \<open>
  Durations and byte sizes of the configuration, \<open>src/config/duration.rs\<close>. Amounts are \<open>i64\<close>; the unit
  multiplication of a duration is unchecked and wraps, that of a byte size is checked.
\<close>

section \<open>Definitions\<close>

definition is_amount_char :: "nat \<Rightarrow> bool" where
  "is_amount_char c \<longleftrightarrow> is_ascii_digit c \<or> c = ch CHR ''-''"

definition duration_unit :: "str \<Rightarrow> int option" where
  "duration_unit u =
     (if u = lit ''ms'' then Some 1 else if u = lit ''s'' then Some 1000 else if u = lit ''m'' then Some 60000
      else if u = lit ''h'' then Some 3600000 else if u = lit ''d'' then Some 86400000 else None)"

definition parse_duration_millis :: "str \<Rightarrow> str + int" where
  "parse_duration_millis value =
     (let value = trim value;
          amount_str = takeWhile is_amount_char value;
          unit = dropWhile is_amount_char value in
      if unit = [] then Inl (lit ''Invalid duration: '' @ value)
      else case parse_i64 amount_str of
        None \<Rightarrow> Inl (lit ''Invalid duration: '' @ value)
      | Some amount \<Rightarrow>
          (case duration_unit unit of
             None \<Rightarrow> Inl (lit ''Invalid duration unit: '' @ value)
           | Some factor \<Rightarrow> Inr (wrap_i64 (amount * factor))))"

definition strip_suffix :: "str \<Rightarrow> str \<Rightarrow> str option" where
  "strip_suffix suf s =
     (if length suf \<le> length s \<and> drop (length s - length suf) s = suf
      then Some (take (length s - length suf) s) else None)"

definition size_unit :: "str \<Rightarrow> int option" where
  "size_unit u =
     (if u = [] then Some 1 else if u = lit ''k'' then Some 1024 else if u = lit ''m'' then Some (1024 ^ 2)
      else if u = lit ''g'' then Some (1024 ^ 3) else if u = lit ''t'' then Some (1024 ^ 4)
      else if u = lit ''p'' then Some (1024 ^ 5) else None)"

definition parse_byte_size :: "(str \<Rightarrow> str) \<Rightarrow> str \<Rightarrow> str + int" where
  "parse_byte_size lc value =
     (let trimmed = trim value;
          digits = takeWhile is_amount_char trimmed;
          bad = Inl (lit ''invalid byte size: '' @ value) in
      if digits = [] \<or> digits = lit ''-'' then bad
      else case parse_i64 digits of
        None \<Rightarrow> bad
      | Some amount \<Rightarrow>
          if amount < 0 then Inr (- 1)
          else let unit = to_lowercase lc (trim (dropWhile is_amount_char trimmed));
                   unit = (case strip_suffix (lit ''ib'') unit of
                             Some u \<Rightarrow> u
                           | None \<Rightarrow> (case strip_suffix (lit ''b'') unit of Some u \<Rightarrow> u | None \<Rightarrow> unit)) in
            (case size_unit unit of
               None \<Rightarrow> Inl (lit ''invalid byte size unit: '' @ value)
             | Some factor \<Rightarrow>
                 if is_i64 (amount * factor) then Inr (amount * factor)
                 else Inl (lit ''byte size out of range: '' @ value)))"

section \<open>Reading what is written\<close>

lemma show_int_amount: "list_all is_amount_char (show_int v) \<and> show_int v \<noteq> []"
  using show_nat_digits [of "nat v"] show_nat_digits [of "nat (- v)"]
  by (auto simp: show_int_def is_amount_char_def list_all_iff)

lemma amount_not_space: "is_amount_char c \<Longrightarrow> \<not> is_whitespace c"
  by (auto simp: is_amount_char_def is_ascii_digit_def is_whitespace_def)

lemma trim_id: "s \<noteq> [] \<Longrightarrow> \<not> is_whitespace (hd s) \<Longrightarrow> \<not> is_whitespace (last s) \<Longrightarrow> trim s = s"
proof -
  assume s: "s \<noteq> []" "\<not> is_whitespace (hd s)" "\<not> is_whitespace (last s)"
  then have "dropWhile is_whitespace s = s" by (cases s) auto
  moreover have "dropWhile is_whitespace (rev s) = rev s" using s by (cases s rule: rev_cases) auto
  ultimately show ?thesis by (simp add: trim_def trim_end_by_def)
qed

lemma split_amount:
  assumes "u \<noteq> []" and "list_all (\<lambda>c. \<not> is_amount_char c) u"
  shows "takeWhile is_amount_char (show_int v @ u) = show_int v"
    and "dropWhile is_amount_char (show_int v @ u) = u"
  using assms show_int_amount [of v]
  by (cases u; auto simp: takeWhile_append dropWhile_append list_all_iff)+

lemma parse_duration_shown:
  assumes "is_i64 v" and "duration_unit u = Some f"
  shows "parse_duration_millis (show_int v @ u) = Inr (wrap_i64 (v * f))"
proof -
  have u: "u \<in> {lit ''ms'', lit ''s'', lit ''m'', lit ''h'', lit ''d''}"
    using assms(2) by (auto simp: duration_unit_def split: if_splits)
  then have n: "u \<noteq> []" "list_all (\<lambda>c. \<not> is_amount_char c) u" "\<not> is_whitespace (last u)"
    by (auto simp: lit_def is_amount_char_def is_ascii_digit_def is_whitespace_def)
  have "hd (show_int v @ u) = hd (show_int v)" using show_int_amount [of v] by simp
  then have "\<not> is_whitespace (hd (show_int v @ u))"
    using show_int_amount [of v] amount_not_space by (cases "show_int v") auto
  then have "trim (show_int v @ u) = show_int v @ u" using n by (intro trim_id) simp_all
  then show ?thesis
    using assms n(1) by (simp add: parse_duration_millis_def Let_def split_amount [OF n(1,2)] del: dropWhile_eq_Nil_conv)
qed

section \<open>Properties\<close>

text \<open>A duration that fits is read exactly. Writing an amount with one of the five units and parsing
  it gives the amount times the unit in milliseconds whenever that product is an \<open>i64\<close>; beyond it
  the result silently wraps around, so a large duration can come out negative.\<close>

theorem duration_exact_or_wrapped:
  assumes "is_i64 v" and "duration_unit u = Some f"
  shows "parse_duration_millis (show_int v @ u) = Inr (wrap_i64 (v * f))
    \<and> (is_i64 (v * f) \<longrightarrow> parse_duration_millis (show_int v @ u) = Inr (v * f))
    \<and> parse_duration_millis (show_int 106751991168 @ lit ''d'') = Inr (- 9223372036794351616)"
proof -
  have "duration_unit (lit ''d'') = Some 86400000" by (simp add: duration_unit_def lit_def)
  then have "parse_duration_millis (show_int 106751991168 @ lit ''d'') = Inr (wrap_i64 (106751991168 * 86400000))"
    by (rule parse_duration_shown [rotated]) (simp add: is_i64_def)
  moreover have "wrap_i64 (106751991168 * 86400000) = - 9223372036794351616" by (simp add: wrap_i64_def)
  ultimately show ?thesis using parse_duration_shown [OF assms] by simp
qed

theorem duration_exact_or_wrapped_witness:
  "parse_duration_millis (show_int 3 @ lit ''m'') = Inr (3 * 60000)"
  using duration_exact_or_wrapped [of 3 "lit ''m''" 60000] by (simp add: is_i64_def duration_unit_def lit_def)

text \<open>A byte size is never wrapped. Every accepted size is between -1 (unlimited) and the largest
  \<open>i64\<close>, whatever the text.\<close>

theorem byte_size_in_range:
  assumes "parse_byte_size lc value = Inr n"
  shows "- 1 \<le> n \<and> n < 2 ^ 63"
proof -
  have f: "size_unit u = Some f \<Longrightarrow> 0 \<le> f" for u f by (auto simp: size_unit_def split: if_splits)
  have "n = - 1 \<or> (\<exists>amount u f. 0 \<le> amount \<and> size_unit u = Some f \<and> n = amount * f \<and> is_i64 n)"
    using assms by (fastforce simp: parse_byte_size_def Let_def split: if_splits option.splits)
  then show ?thesis
  proof
    assume "\<exists>amount u f. 0 \<le> amount \<and> size_unit u = Some f \<and> n = amount * f \<and> is_i64 n"
    then have "0 \<le> n" "is_i64 n" using f mult_nonneg_nonneg by blast+
    then show ?thesis by (simp add: is_i64_def)
  qed simp
qed

theorem byte_size_in_range_witness:
  "parse_byte_size (\<lambda>s. s) (lit ''100GiB'') = Inr 107374182400 \<and> (107374182400 :: int) < 2 ^ 63"
proof -
  have "parse_byte_size (\<lambda>s. s) (lit ''100GiB'') = Inr 107374182400"
    by (simp add: parse_byte_size_def lit_def trim_def trim_end_by_def is_whitespace_def is_amount_char_def
        is_ascii_digit_def parse_i64_def parse_signed_def digits_value_def to_lowercase_def is_ascii_def
        to_ascii_lowercase_def strip_suffix_def size_unit_def is_i64_def Let_def)
  then show ?thesis using byte_size_in_range by blast
qed

end
