(* ===== verification/Host_Pattern.thy ===== *)
theory Host_Pattern
  imports Rust_Std
begin

text \<open>
  Host patterns of \<open>src/config/host_pattern.rs\<close>: the dynamic-programming matcher, the greedy capture
  walk and \<open>$N\<close> substitution.

  The reference is \<open>glob\<close>, the recursive meaning of a pattern. Shown: the table holds exactly the
  values of \<open>glob\<close> on suffixes; the matcher agrees with it; the captures refill the pattern to the
  hostname. The table is built on the lowercased hostname while the captures are cut from the
  original one, which differ in length for some Unicode hostnames.

  \<open>lc\<close> is the Unicode lowercase mapping on text that is not ASCII.
\<close>

section \<open>Definitions\<close>

record host_pattern =
  hp_raw :: str
  hp_pattern :: str
  hp_wildcard_count :: nat

abbreviation star :: nat where "star \<equiv> 42"
abbreviation question :: nat where "question \<equiv> 63"

definition trim_dots :: "str \<Rightarrow> str" where
  "trim_dots s = trim_end_by (\<lambda>c. c = ch CHR ''.'') s"

definition is_wildcard :: "nat \<Rightarrow> bool" where
  "is_wildcard c \<longleftrightarrow> c = star \<or> c = question"

definition host_pattern_new :: "(str \<Rightarrow> str) \<Rightarrow> str \<Rightarrow> host_pattern" where
  "host_pattern_new lc raw =
     (let pattern = to_lowercase lc (trim_dots raw) in
      \<lparr>hp_raw = raw, hp_pattern = pattern, hp_wildcard_count = length (filter is_wildcard pattern)\<rparr>)"

text \<open>One row of the table, filled from the right, from the row below it.\<close>

fun dp_row :: "nat \<Rightarrow> str \<Rightarrow> bool list \<Rightarrow> bool list" where
  "dp_row pc [] below = [if pc = star then hd below else False]"
| "dp_row pc (c # cs) below =
     (let r = dp_row pc cs (tl below) in
      (if pc = star then hd below \<or> hd r
       else if pc = question then hd (tl below)
       else c = pc \<and> hd (tl below)) # r)"

fun dp_table :: "str \<Rightarrow> str \<Rightarrow> bool list list" where
  "dp_table [] lower = [replicate (length lower) False @ [True]]"
| "dp_table (pc # ps) lower = (let rest = dp_table ps lower in dp_row pc lower (hd rest) # rest)"

text \<open>The last index from \<open>j\<close> on whose entry is set, \<open>best\<close> if there is none.\<close>

fun last_set :: "bool list \<Rightarrow> nat \<Rightarrow> nat \<Rightarrow> nat" where
  "last_set [] k best = best"
| "last_set (b # bs) k best = last_set bs (k + 1) (if b then k else best)"

text \<open>The walk over the pattern with the rows below it; a slice past the original text panics.\<close>

fun capture_walk :: "str \<Rightarrow> bool list list \<Rightarrow> str \<Rightarrow> nat \<Rightarrow> str list run" where
  "capture_walk [] rows text j = Returned []"
| "capture_walk (pc # ps) rows text j =
     (let below = hd rows in
      if is_wildcard pc then
        let best = (if pc = star then last_set (drop j below) j j else j + 1) in
        if length text < best then Panicked
        else (case capture_walk ps (tl rows) text best of
                Panicked \<Rightarrow> Panicked
              | Returned cs \<Rightarrow> Returned (slice j best text # cs))
      else capture_walk ps (tl rows) text (j + 1))"

definition match_host :: "(str \<Rightarrow> str) \<Rightarrow> host_pattern \<Rightarrow> str \<Rightarrow> str list option run" where
  "match_host lc hp hostname =
     (let text = trim_dots hostname in
      if 255 < length text then Returned None
      else let lower = to_lowercase lc text;
               p = hp_pattern hp;
               dp = dp_table p lower in
        if \<not> hd (hd dp) then Returned None
        else (case capture_walk p (tl dp) text 0 of
                Panicked \<Rightarrow> Panicked
              | Returned cs \<Rightarrow> Returned (Some cs)))"

definition host_pattern_eq :: "host_pattern \<Rightarrow> host_pattern \<Rightarrow> bool" where
  "host_pattern_eq a b \<longleftrightarrow> hp_pattern a = hp_pattern b"

function subst_loop :: "str \<Rightarrow> str list \<Rightarrow> str run" where
  "subst_loop [] captures = Returned []"
| "subst_loop (c # cs) captures =
     (let digits = takeWhile is_ascii_digit cs; rest = dropWhile is_ascii_digit cs in
      if c = ch CHR ''$'' \<and> digits \<noteq> [] then
        (case parse_usize digits of
           None \<Rightarrow> Panicked
         | Some idx \<Rightarrow>
             let piece = (if 1 \<le> idx \<and> idx \<le> length captures then captures ! (idx - 1) else c # digits) in
             (case subst_loop rest captures of
                Panicked \<Rightarrow> Panicked
              | Returned out \<Rightarrow> Returned (piece @ out)))
      else (case subst_loop cs captures of
              Panicked \<Rightarrow> Panicked
            | Returned out \<Rightarrow> Returned (c # out)))"
  by pat_completeness auto
termination
  by (relation "measure (\<lambda>(s, c). length s)") (auto simp: le_imp_less_Suc length_dropWhile_le)

definition substitute_params :: "str \<Rightarrow> str list \<Rightarrow> str run" where
  "substitute_params template captures =
     (if captures = [] then Returned template else subst_loop template captures)"

section \<open>The meaning of a pattern\<close>

fun glob :: "str \<Rightarrow> str \<Rightarrow> bool" where
  "glob [] t \<longleftrightarrow> t = []"
| "glob (pc # ps) t \<longleftrightarrow>
     (if pc = star then \<exists>k \<le> length t. glob ps (drop k t)
      else if pc = question then t \<noteq> [] \<and> glob ps (tl t)
      else t \<noteq> [] \<and> hd t = pc \<and> glob ps (tl t))"

text \<open>The text a pattern stands for when its wildcards are filled in order.\<close>

fun fill :: "str \<Rightarrow> str list \<Rightarrow> str" where
  "fill [] cs = []"
| "fill (pc # ps) cs = (if is_wildcard pc then hd cs @ fill ps (tl cs) else pc # fill ps cs)"

lemma glob_star_step: "glob (star # ps) (c # t) \<longleftrightarrow> glob ps (c # t) \<or> glob (star # ps) t"
proof
  assume "glob (star # ps) (c # t)"
  then obtain k where k: "k \<le> length (c # t)" "glob ps (drop k (c # t))" by auto
  then show "glob ps (c # t) \<or> glob (star # ps) t" by (cases k) auto
next
  assume "glob ps (c # t) \<or> glob (star # ps) t"
  then show "glob (star # ps) (c # t)"
  proof
    assume "glob ps (c # t)"
    then show ?thesis by (auto intro!: exI [of _ 0])
  next
    assume "glob (star # ps) t"
    then obtain k where "k \<le> length t" "glob ps (drop k t)" by auto
    then show ?thesis by (auto intro!: exI [of _ "Suc k"])
  qed
qed

lemma dp_row_glob:
  assumes "length below = Suc (length t)" and "\<And>j. j \<le> length t \<Longrightarrow> below ! j = glob ps (drop j t)"
  shows "length (dp_row pc t below) = Suc (length t) \<and>
    (\<forall>j \<le> length t. dp_row pc t below ! j = glob (pc # ps) (drop j t))"
  using assms
proof (induction t arbitrary: below)
  case Nil
  then show ?case using Nil(2) [of 0] by (cases below) auto
next
  case (Cons c t)
  obtain b bs where b: "below = b # bs" "length bs = Suc (length t)" using Cons.prems(1) by (cases below) auto
  have bs: "bs ! j = glob ps (drop j t)" if "j \<le> length t" for j
    using Cons.prems(2) [of "Suc j"] that b by simp
  note IH = Cons.IH [OF b(2) bs]
  have b0: "b = glob ps (c # t)" using Cons.prems(2) [of 0] b by simp
  have b1: "hd bs = glob ps t" using bs [of 0] b(2) by (cases bs) auto
  have r: "dp_row pc t bs \<noteq> []" "hd (dp_row pc t bs) = glob (pc # ps) t"
    using IH by (cases "dp_row pc t bs"; auto simp del: glob.simps)+
  have h: "hd (dp_row pc (c # t) below) = glob (pc # ps) (c # t)"
  proof (cases "pc = star")
    case True
    then show ?thesis using b b0 r(2) glob_star_step [of ps c t] by (simp add: Let_def del: glob.simps)
  next
    case False
    then show ?thesis using b b1 by (auto simp: Let_def)
  qed
  show ?case
  proof (intro conjI allI impI)
    show "length (dp_row pc (c # t) below) = Suc (length (c # t))" using IH b by (simp add: Let_def)
    fix j assume j: "j \<le> length (c # t)"
    show "dp_row pc (c # t) below ! j = glob (pc # ps) (drop j (c # t))"
    proof (cases j)
      case 0
      then show ?thesis using h by (simp add: Let_def del: glob.simps)
    next
      case (Suc i)
      then show ?thesis using IH j b by (simp add: Let_def del: glob.simps)
    qed
  qed
qed

lemma dp_table_glob:
  "length (dp_table p t) = Suc (length p) \<and> (\<forall>i \<le> length p. length (dp_table p t ! i) = Suc (length t) \<and>
     (\<forall>j \<le> length t. dp_table p t ! i ! j = glob (drop i p) (drop j t)))"
proof (induction p)
  case Nil
  then show ?case by (auto simp: nth_append)
next
  case (Cons pc ps)
  let ?rest = "dp_table ps t"
  have ne: "?rest \<noteq> []" using Cons.IH by auto
  then have hd0: "hd ?rest = ?rest ! 0" by (simp add: hd_conv_nth)
  have row: "length (dp_row pc t (hd ?rest)) = Suc (length t) \<and>
    (\<forall>j \<le> length t. dp_row pc t (hd ?rest) ! j = glob (pc # ps) (drop j t))"
    by (rule dp_row_glob) (use Cons.IH hd0 in auto)
  show ?case
  proof (intro conjI allI impI)
    show "length (dp_table (pc # ps) t) = Suc (length (pc # ps))" using Cons.IH by (simp add: Let_def)
    fix i assume "i \<le> length (pc # ps)"
    then show "length (dp_table (pc # ps) t ! i) = Suc (length t)"
      using row Cons.IH by (cases i) (simp_all add: Let_def)
    fix j assume "j \<le> length t"
    then show "dp_table (pc # ps) t ! i ! j = glob (drop i (pc # ps)) (drop j t)"
      using row Cons.IH \<open>i \<le> length (pc # ps)\<close> by (cases i) (simp_all add: Let_def del: glob.simps)
  qed
qed

lemma tl_dp_table: "tl (dp_table (pc # ps) t) = dp_table ps t"
  by (simp add: Let_def)

lemma hd_dp_table:
  "length (hd (dp_table p t)) = Suc (length t)"
  "j \<le> length t \<Longrightarrow> hd (dp_table p t) ! j = glob p (drop j t)"
  using dp_table_glob [of p t] by (cases "dp_table p t"; force)+

lemma hd_hd_dp_table: "hd (hd (dp_table p t)) = glob p t"
  using hd_dp_table(1) [of p t] hd_dp_table(2) [of 0 t p] by (cases "hd (dp_table p t)") auto

section \<open>The capture walk\<close>

lemma last_set_spec:
  assumes "last_set bs k best = r"
  shows "(\<exists>i < length bs. bs ! i \<and> r = k + i \<and> (\<forall>i' < length bs. bs ! i' \<longrightarrow> i' \<le> i))
    \<or> ((\<forall>i < length bs. \<not> bs ! i) \<and> r = best)"
  using assms
proof (induction bs arbitrary: k best)
  case (Cons b bs)
  from Cons.IH [of "k + 1" "if b then k else best"] Cons.prems
  have "(\<exists>i < length bs. bs ! i \<and> r = Suc k + i \<and> (\<forall>i' < length bs. bs ! i' \<longrightarrow> i' \<le> i))
    \<or> ((\<forall>i < length bs. \<not> bs ! i) \<and> r = (if b then k else best))" by simp
  then show ?case
  proof
    assume "\<exists>i < length bs. bs ! i \<and> r = Suc k + i \<and> (\<forall>i' < length bs. bs ! i' \<longrightarrow> i' \<le> i)"
    then obtain i where "i < length bs" "bs ! i" "r = Suc k + i" "\<forall>i' < length bs. bs ! i' \<longrightarrow> i' \<le> i" by blast
    then show ?thesis by (intro disjI1 exI [of _ "Suc i"]) (auto simp: nth_Cons' less_Suc_eq_0_disj)
  next
    assume "(\<forall>i < length bs. \<not> bs ! i) \<and> r = (if b then k else best)"
    then show ?thesis by (cases b) (auto simp: less_Suc_eq_0_disj nth_Cons')
  qed
qed simp

text \<open>After a matching star the walk stands at the last index from which the rest still matches.\<close>

lemma star_best:
  assumes "j \<le> length t" and "glob (star # ps) (drop j t)"
  defines "best \<equiv> last_set (drop j (hd (dp_table ps t))) j j"
  shows "j \<le> best \<and> best \<le> length t \<and> glob ps (drop best t)
    \<and> (\<forall>k. best < k \<longrightarrow> k \<le> length t \<longrightarrow> \<not> glob ps (drop k t))"
proof -
  let ?row = "hd (dp_table ps t)"
  have l: "length (drop j ?row) = Suc (length t) - j" by (simp add: hd_dp_table)
  have n: "drop j ?row ! i = glob ps (drop (j + i) t)" if "i < length (drop j ?row)" for i
    using that assms(1) hd_dp_table(1) [of ps t] hd_dp_table(2) [of "j + i" t ps] by simp
  from assms(2) obtain k where k: "k \<le> length t - j" "glob ps (drop (j + k) t)" by (auto simp: add.commute)
  then have "drop j ?row ! k" "k < length (drop j ?row)" using n [of k] l assms(1) by auto
  with last_set_spec [of "drop j ?row" j j best] obtain i where
    i: "i < length (drop j ?row)" "drop j ?row ! i" "best = j + i"
    "\<forall>i' < length (drop j ?row). drop j ?row ! i' \<longrightarrow> i' \<le> i"
    unfolding best_def by blast
  have "\<not> glob ps (drop k t)" if "best < k" "k \<le> length t" for k
  proof
    assume g: "glob ps (drop k t)"
    have "k - j < length (drop j ?row)" "j \<le> k" using that i(3) l by simp_all
    then have "drop j ?row ! (k - j)" using n [of "k - j"] g by (simp del: nth_drop length_drop)
    then have "k - j \<le> i" using i(4) \<open>k - j < length (drop j ?row)\<close> by blast
    then show False using that(1) i(3) by simp
  qed
  then show ?thesis using i n [of i] l assms(1) by auto
qed

definition cuts :: "(nat \<times> nat) list \<Rightarrow> str \<Rightarrow> str list" where
  "cuts ivs s = map (\<lambda>(a, b). slice a b s) ivs"

text \<open>The walk never panics when the two texts have the same length, and the captures are cut at
  positions that refill the pattern to the matched text.\<close>

lemma capture_walk_spec:
  assumes "length text = length t" and "j \<le> length t" and "glob p (drop j t)"
  shows "\<exists>ivs. capture_walk p (tl (dp_table p t)) text j = Returned (cuts ivs text) \<and>
    length ivs = length (filter is_wildcard p) \<and> fill p (cuts ivs t) = drop j t"
  using assms
proof (induction p arbitrary: j)
  case Nil
  then show ?case by (simp add: cuts_def)
next
  case (Cons pc ps)
  define best where "best = (if pc = star then last_set (drop j (hd (dp_table ps t))) j j else Suc j)"
  have e: "(if pc = star then last_set (drop j (hd (dp_table ps t))) j j else j + 1) = best"
    by (simp add: best_def)
  have b: "j \<le> best \<and> best \<le> length t \<and> glob ps (drop best t)"
  proof (cases "pc = star")
    case True
    then show ?thesis using star_best [of j t ps] Cons.prems(2,3) by (simp add: best_def)
  next
    case False
    then have "drop j t \<noteq> []" "glob ps (tl (drop j t))" using Cons.prems(3) by (auto split: if_splits)
    then show ?thesis using False by (simp add: best_def drop_Suc tl_drop Suc_le_eq)
  qed
  obtain ivs where cs: "capture_walk ps (tl (dp_table ps t)) text best = Returned (cuts ivs text)"
    "length ivs = length (filter is_wildcard ps)" "fill ps (cuts ivs t) = drop best t"
    using Cons.IH [OF Cons.prems(1), of best] b by blast
  have sl: "slice j best t @ drop best t = drop j t"
    using b by (simp add: slice_def) (metis append_take_drop_id drop_drop le_add_diff_inverse2)
  show ?case
  proof (cases "is_wildcard pc")
    case True
    have "capture_walk (pc # ps) (tl (dp_table (pc # ps) t)) text j = Returned (cuts ((j, best) # ivs) text)"
      unfolding tl_dp_table capture_walk.simps Let_def e using True b cs(1) Cons.prems(1)
      by (simp add: cuts_def)
    then show ?thesis using True cs(2,3) sl by (intro exI [of _ "(j, best) # ivs"]) (simp add: cuts_def)
  next
    case False
    then have "pc \<noteq> star" by (auto simp: is_wildcard_def)
    moreover have "drop j t = pc # drop (Suc j) t"
      using Cons.prems(2,3) False by (cases "drop j t") (auto simp: is_wildcard_def drop_Suc simp flip: tl_drop)
    ultimately show ?thesis
      using False cs unfolding tl_dp_table by (intro exI [of _ ivs]) (simp add: best_def)
  qed
qed

lemma match_host_spec:
  assumes "text = trim_dots hostname" and "length text \<le> 255" and "length (to_lowercase lc text) = length text"
  shows "if glob (hp_pattern hp) (to_lowercase lc text)
    then \<exists>ivs. match_host lc hp hostname = Returned (Some (cuts ivs text))
      \<and> length ivs = length (filter is_wildcard (hp_pattern hp))
      \<and> fill (hp_pattern hp) (cuts ivs (to_lowercase lc text)) = to_lowercase lc text
    else match_host lc hp hostname = Returned None"
proof (cases "glob (hp_pattern hp) (to_lowercase lc text)")
  case True
  then obtain ivs where "capture_walk (hp_pattern hp) (tl (dp_table (hp_pattern hp) (to_lowercase lc text))) text 0
      = Returned (cuts ivs text)" "length ivs = length (filter is_wildcard (hp_pattern hp))"
    "fill (hp_pattern hp) (cuts ivs (to_lowercase lc text)) = to_lowercase lc text"
    using capture_walk_spec [of "text" "to_lowercase lc text" 0 "hp_pattern hp"] assms(3) by auto
  then show ?thesis using assms(1,2) True by (auto simp: match_host_def Let_def hd_hd_dp_table)
next
  case False
  then show ?thesis using assms(1,2) by (simp add: match_host_def Let_def hd_hd_dp_table)
qed

section \<open>Substitution\<close>

lemma subst_loop_literal:
  "36 \<notin> set a \<Longrightarrow> subst_loop (a @ b) caps =
    (case subst_loop b caps of Panicked \<Rightarrow> Panicked | Returned out \<Rightarrow> Returned (a @ out))"
  by (induction a) (auto simp: Let_def split: run.split)

lemma subst_loop_ref:
  assumes "n < 2 ^ 64" and "b = [] \<or> \<not> is_ascii_digit (hd b)"
  shows "subst_loop (36 # show_nat n @ b) caps =
    (case subst_loop b caps of Panicked \<Rightarrow> Panicked
     | Returned out \<Rightarrow> Returned ((if 1 \<le> n \<and> n \<le> length caps then caps ! (n - 1) else 36 # show_nat n) @ out))"
proof -
  have d: "list_all is_ascii_digit (show_nat n)" "show_nat n \<noteq> []" using show_nat_digits [of n] by auto
  have "takeWhile is_ascii_digit (show_nat n @ b) = show_nat n" "dropWhile is_ascii_digit (show_nat n @ b) = b"
    using d(1) assms(2) by (cases b; auto simp: list_all_iff takeWhile_append dropWhile_append)+
  moreover have "parse_usize (show_nat n) = Some n"
    using assms(1) by (simp add: parse_usize_def parse_unsigned_show_nat)
  ultimately show ?thesis using d(2) by (auto simp: Let_def split: run.split)
qed

section \<open>Properties\<close>

text \<open>C8: the table-driven matcher means what the pattern means. On every hostname of at most 255
  characters whose lowercase form has the same number of characters (every ASCII hostname), the
  matcher answers exactly when the pattern matches in the recursive reading of \<open>*\<close> and \<open>?\<close>; it
  then returns one capture per wildcard, each cut from the hostname as the client wrote it, at
  positions at which the lowercase hostname refills the pattern.\<close>

theorem match_host_equals_glob:
  assumes "text = trim_dots hostname" and "length text \<le> 255" and "length (to_lowercase lc text) = length text"
  shows "if glob (hp_pattern hp) (to_lowercase lc text)
    then \<exists>ivs. match_host lc hp hostname = Returned (Some (cuts ivs text))
      \<and> length ivs = length (filter is_wildcard (hp_pattern hp))
      \<and> fill (hp_pattern hp) (cuts ivs (to_lowercase lc text)) = to_lowercase lc text
    else match_host lc hp hostname = Returned None"
  using assms by (rule match_host_spec)

theorem match_host_equals_glob_witness:
  "(\<exists>ivs. match_host (\<lambda>s. s) (host_pattern_new (\<lambda>s. s) (lit ''*.?b'')) (lit ''A.b.XB.'')
        = Returned (Some (cuts ivs (lit ''A.b.XB''))) \<and> length ivs = 2)
   \<and> match_host (\<lambda>s. s) (host_pattern_new (\<lambda>s. s) (lit ''*.?b'')) (lit ''A.b.XB.'')
        = Returned (Some [lit ''A.b'', lit ''X''])"
proof
  let ?hp = "host_pattern_new (\<lambda>s. s) (lit ''*.?b'')"
  have g: "glob (hp_pattern ?hp) (to_lowercase (\<lambda>s. s) (lit ''A.b.XB''))" by code_simp
  have t: "lit ''A.b.XB'' = trim_dots (lit ''A.b.XB.'')" by code_simp
  have l: "length (lit ''A.b.XB'') \<le> 255"
    "length (to_lowercase (\<lambda>s. s) (lit ''A.b.XB'')) = length (lit ''A.b.XB'')"
    by code_simp+
  have w: "length (filter is_wildcard (hp_pattern ?hp)) = 2" by code_simp
  show "\<exists>ivs. match_host (\<lambda>s. s) ?hp (lit ''A.b.XB.'') = Returned (Some (cuts ivs (lit ''A.b.XB''))) \<and> length ivs = 2"
    using match_host_equals_glob [OF t l, of ?hp, unfolded if_P [OF g] w] by blast
  show "match_host (\<lambda>s. s) ?hp (lit ''A.b.XB.'') = Returned (Some [lit ''A.b'', lit ''X''])"
    by code_simp
qed

text \<open>A hostname whose lowercase form is longer than itself crashes the matcher. U+0130 lowercases
  to the two characters U+0069 U+0307; a client that sends it as its host makes the catch-all
  pattern cut past the end of the original text, which panics.\<close>

theorem match_host_unicode_panic:
  assumes "lc [0x130] = [0x69, 0x307]"
  shows "match_host lc (host_pattern_new lc (lit ''*'')) [0x130] = Panicked"
  using assms
  by (simp add: match_host_def host_pattern_new_def trim_dots_def trim_end_by_def to_lowercase_def
      is_ascii_def lit_def to_ascii_lowercase_def is_wildcard_def Let_def)

theorem match_host_unicode_panic_witness:
  "match_host (\<lambda>s. if s = [0x130] then [0x69, 0x307] else s)
     (host_pattern_new (\<lambda>s. if s = [0x130] then [0x69, 0x307] else s) (lit ''*'')) [0x130] = Panicked"
  by (rule match_host_unicode_panic) simp

text \<open>Parameter substitution. Literal text without a dollar sign is kept, a reference \<open>$n\<close> is
  replaced by the n-th capture when there is one and kept as written otherwise, and substitution
  continues behind it.\<close>

theorem substitute_params_reference:
  assumes "36 \<notin> set a" and "n < 2 ^ 64" and "b = [] \<or> \<not> is_ascii_digit (hd b)" and "caps \<noteq> []"
    and "substitute_params b caps = Returned out"
  shows "substitute_params (a @ 36 # show_nat n @ b) caps =
    Returned (a @ (if 1 \<le> n \<and> n \<le> length caps then caps ! (n - 1) else 36 # show_nat n) @ out)"
  using assms by (simp add: substitute_params_def subst_loop_literal subst_loop_ref del: subst_loop.simps)

theorem substitute_params_reference_witness:
  "substitute_params (lit ''be-'' @ 36 # show_nat 2 @ lit '':1'') [lit ''x'', lit ''yz'']
    = Returned (lit ''be-yz:1'')"
proof -
  have "substitute_params (lit '':1'') [lit ''x'', lit ''yz''] = Returned (lit '':1'')" by code_simp
  then show ?thesis
    using substitute_params_reference [of "lit ''be-''" 2 "lit '':1''" "[lit ''x'', lit ''yz'']" "lit '':1''"]
    by (simp add: lit_def is_ascii_digit_def)
qed

end
