(* ===== verification/Text_Format.thy ===== *)
theory Text_Format
  imports Rust_Std
begin

text \<open>
  The MiniMessage subset of \<open>src/protocol/text_format.rs\<close> and the status response of
  \<open>src/protocol/status_json.rs\<close>: legacy codes to tags, the lenient tag parser, styles, flattening to
  styled runs and the two serialisers.

  Two things are arguments: \<open>lc\<close>, Unicode lowercasing beyond ASCII, and \<open>interp\<close>, the colour a
  gradient with the given stops has at a position out of a total; the code's own, \<open>interpolate\<close> with its
  floating-point rounding, is \<open>gradient_at\<close> of \<open>Colour_Gradient\<close>. What is shown here holds for every choice of both.
\<close>

section \<open>Colours\<close>

datatype rgb = Rgb byte byte byte

definition NAMED_COLORS :: "(string \<times> char \<times> rgb) list" where
  "NAMED_COLORS =
    [(''black'', CHR ''0'', Rgb 0 0 0), (''dark_blue'', CHR ''1'', Rgb 0 0 170),
     (''dark_green'', CHR ''2'', Rgb 0 170 0), (''dark_aqua'', CHR ''3'', Rgb 0 170 170),
     (''dark_red'', CHR ''4'', Rgb 170 0 0), (''dark_purple'', CHR ''5'', Rgb 170 0 170),
     (''gold'', CHR ''6'', Rgb 255 170 0), (''gray'', CHR ''7'', Rgb 170 170 170),
     (''dark_gray'', CHR ''8'', Rgb 85 85 85), (''blue'', CHR ''9'', Rgb 85 85 255),
     (''green'', CHR ''a'', Rgb 85 255 85), (''aqua'', CHR ''b'', Rgb 85 255 255),
     (''red'', CHR ''c'', Rgb 255 85 85), (''light_purple'', CHR ''d'', Rgb 255 85 255),
     (''yellow'', CHR ''e'', Rgb 255 255 85), (''white'', CHR ''f'', Rgb 255 255 255)]"

definition named_color :: "str \<Rightarrow> rgb option" where
  "named_color name = map_option (\<lambda>(_, _, c). c) (List.find (\<lambda>(n, _, _). lit n = name) NAMED_COLORS)"

definition legacy_char_for_rgb :: "rgb \<Rightarrow> nat option" where
  "legacy_char_for_rgb c = map_option (\<lambda>(_, k, _). of_char k) (List.find (\<lambda>(_, _, v). v = c) NAMED_COLORS)"

definition json_name_for_rgb :: "rgb \<Rightarrow> str option" where
  "json_name_for_rgb c = map_option (\<lambda>(n, _, _). lit n) (List.find (\<lambda>(_, _, v). v = c) NAMED_COLORS)"

definition hex_val :: "nat \<Rightarrow> nat option" where
  "hex_val c = (if 48 \<le> c \<and> c \<le> 57 then Some (c - 48)
     else if 97 \<le> c \<and> c \<le> 102 then Some (c - 87) else if 65 \<le> c \<and> c \<le> 70 then Some (c - 55) else None)"

text \<open>\<open>u8::from_str_radix(s, 16)\<close> on two bytes of text: two hexadecimal digits, or a plus sign and one.\<close>

definition radix16_u8 :: "str \<Rightarrow> byte option" where
  "radix16_u8 s =
     (let d = (case s of c # cs \<Rightarrow> if c = ch CHR ''+'' then cs else s | [] \<Rightarrow> s) in
      if d = [] \<or> \<not> list_all (\<lambda>c. hex_val c \<noteq> None) d then None
      else Some (byte_of (foldl (\<lambda>a c. a * 16 + the (hex_val c)) 0 d)))"

text \<open>Cut a string after \<open>n\<close> bytes of its UTF-8 form, where that is a character boundary.\<close>

fun split_at_byte :: "nat \<Rightarrow> str \<Rightarrow> (str \<times> str) option" where
  "split_at_byte 0 s = Some ([], s)"
| "split_at_byte (Suc n) [] = None"
| "split_at_byte (Suc n) (c # s) =
     (let k = length (utf8_encode_char c) in
      if k \<le> Suc n then map_option (\<lambda>(a, b). (c # a, b)) (split_at_byte (Suc n - k) s) else None)"

definition parse_hex :: "str \<Rightarrow> rgb option run" where
  "parse_hex s =
     (case s of
        [] \<Rightarrow> Returned None
      | c # s \<Rightarrow>
          if c \<noteq> ch CHR ''#'' \<or> length (as_bytes s) \<noteq> 6 then Returned None
          else case split_at_byte 2 s of
            None \<Rightarrow> Panicked
          | Some (r, s) \<Rightarrow>
              (case radix16_u8 r of
                 None \<Rightarrow> Returned None
               | Some r \<Rightarrow>
                   (case split_at_byte 2 s of
                      None \<Rightarrow> Panicked
                    | Some (g, b) \<Rightarrow>
                        (case radix16_u8 g of
                           None \<Rightarrow> Returned None
                         | Some g \<Rightarrow> (case radix16_u8 b of None \<Rightarrow> Returned None | Some b \<Rightarrow> Returned (Some (Rgb r g b)))))))"

definition color_from_str :: "str \<Rightarrow> rgb option run" where
  "color_from_str s = (if s \<noteq> [] \<and> hd s = ch CHR ''#'' then parse_hex s else Returned (named_color s))"

section \<open>Parsing\<close>

definition legacy_tag_for :: "nat \<Rightarrow> string option" where
  "legacy_tag_for c = map_of
    (map (\<lambda>(k, t). (of_char k, t))
      [(CHR ''0'', ''black''), (CHR ''1'', ''dark_blue''), (CHR ''2'', ''dark_green''), (CHR ''3'', ''dark_aqua''),
       (CHR ''4'', ''dark_red''), (CHR ''5'', ''dark_purple''), (CHR ''6'', ''gold''), (CHR ''7'', ''gray''),
       (CHR ''8'', ''dark_gray''), (CHR ''9'', ''blue''), (CHR ''a'', ''green''), (CHR ''b'', ''aqua''),
       (CHR ''c'', ''red''), (CHR ''d'', ''light_purple''), (CHR ''e'', ''yellow''), (CHR ''f'', ''white''),
       (CHR ''k'', ''obfuscated''), (CHR ''l'', ''bold''), (CHR ''m'', ''strikethrough''),
       (CHR ''n'', ''underlined''), (CHR ''o'', ''italic''), (CHR ''r'', ''reset'')]) c"

fun legacy_codes_to_tags :: "str \<Rightarrow> str" where
  "legacy_codes_to_tags [] = []"
| "legacy_codes_to_tags [c] = [c]"
| "legacy_codes_to_tags (c # d # cs) =
     (if c = ch CHR ''&'' then
        (case legacy_tag_for (to_ascii_lowercase d) of
           Some tag \<Rightarrow> ch CHR ''<'' # lit tag @ ch CHR ''>'' # legacy_codes_to_tags cs
         | None \<Rightarrow> c # legacy_codes_to_tags (d # cs))
      else c # legacy_codes_to_tags (d # cs))"

datatype node = Node_Text str | Node_Tag str "str list" "node list"

definition flush :: "str \<Rightarrow> node list" where
  "flush s = (if s = [] then [] else [Node_Text s])"

text \<open>The text between \<open><\<close> and the next \<open>>\<close>, and what follows it.\<close>

definition tag_inner :: "str \<Rightarrow> str" where
  "tag_inner cs = takeWhile (\<lambda>x. x \<noteq> ch CHR ''>'') cs"

definition tag_rest :: "str \<Rightarrow> str" where
  "tag_rest cs = tl (dropWhile (\<lambda>x. x \<noteq> ch CHR ''>'') cs)"

definition tag_parts :: "str \<Rightarrow> str list" where
  "tag_parts inner = split_on (ch CHR '':'') inner"

function (domintros) parse_nodes :: "bool \<Rightarrow> str \<Rightarrow> str \<Rightarrow> node list \<times> str" where
  "parse_nodes nested buf [] = (flush buf, [])"
| "parse_nodes nested buf (c # cs) =
     (if c = 92 \<and> cs \<noteq> [] then parse_nodes nested (buf @ [hd cs]) (tl cs)
      else if c = ch CHR ''<'' \<and> ch CHR ''>'' \<in> set cs then
        if tag_inner cs \<noteq> [] \<and> hd (tag_inner cs) = ch CHR ''/'' then
          if nested then (flush buf, tag_rest cs)
          else parse_nodes nested (buf @ ch CHR ''<'' # tag_inner cs @ [ch CHR ''>'']) (tag_rest cs)
        else if hd (tag_parts (tag_inner cs)) = [] then parse_nodes nested (buf @ [c]) cs
        else (case parse_nodes True [] (tag_rest cs) of (children, rest) \<Rightarrow>
               (case parse_nodes nested [] rest of (ns, r) \<Rightarrow>
                  (flush buf @ Node_Tag (hd (tag_parts (tag_inner cs))) (tl (tag_parts (tag_inner cs))) children # ns, r)))
      else parse_nodes nested (buf @ [c]) cs)"
  by pat_completeness auto

text \<open>The parser never returns more input than it was given, so its nested call terminates.\<close>

lemma tag_rest_shorter: "ch CHR ''>'' \<in> set cs \<Longrightarrow> length (tag_rest cs) < length cs"
proof -
  assume "ch CHR ''>'' \<in> set cs"
  then have "dropWhile (\<lambda>x. x \<noteq> ch CHR ''>'') cs \<noteq> []" by (auto simp: dropWhile_eq_Nil_conv)
  then have "length (tag_rest cs) < length (dropWhile (\<lambda>x. x \<noteq> ch CHR ''>'') cs)"
    unfolding tag_rest_def by (cases "dropWhile (\<lambda>x. x \<noteq> ch CHR ''>'') cs") auto
  also have "\<dots> \<le> length cs" by (rule length_dropWhile_le)
  finally show ?thesis .
qed

lemma parse_nodes_shrinks:
  "parse_nodes_dom (nested, buf, cs) \<Longrightarrow> length (snd (parse_nodes nested buf cs)) \<le> length cs"
proof (induction rule: parse_nodes.pinduct)
  case (1 nested buf)
  then show ?case by (simp add: parse_nodes.psimps)
next
  case (2 nested buf c cs)
  let ?tag = "c = ch CHR ''<'' \<and> ch CHR ''>'' \<in> set cs"
  let ?close = "tag_inner cs \<noteq> [] \<and> hd (tag_inner cs) = ch CHR ''/''"
  let ?anon = "hd (tag_parts (tag_inner cs)) = []"
  note ps = parse_nodes.psimps(2) [OF 2(1)]
  have r: "?tag \<Longrightarrow> length (tag_rest cs) < length cs" using tag_rest_shorter by blast
  consider (esc) "c = 92 \<and> cs \<noteq> []" | (plain) "\<not> (c = 92 \<and> cs \<noteq> [])" "\<not> ?tag"
    | (close1) "\<not> (c = 92 \<and> cs \<noteq> [])" ?tag ?close nested | (close0) "\<not> (c = 92 \<and> cs \<noteq> [])" ?tag ?close "\<not> nested"
    | (anon) "\<not> (c = 92 \<and> cs \<noteq> [])" ?tag "\<not> ?close" ?anon
    | (tagged) "\<not> (c = 92 \<and> cs \<noteq> [])" ?tag "\<not> ?close" "\<not> ?anon"
    by blast
  then show ?case
  proof cases
    case esc
    then have "length (snd (parse_nodes nested (buf @ [hd cs]) (tl cs))) \<le> length (tl cs)" by (rule 2(2))
    then show ?thesis unfolding ps if_P [OF esc] by simp
  next
    case plain
    then have "length (snd (parse_nodes nested (buf @ [c]) cs)) \<le> length cs" by (rule 2(7))
    then show ?thesis unfolding ps if_not_P [OF plain(1)] if_not_P [OF plain(2)] by simp
  next
    case close1
    then show ?thesis unfolding ps if_not_P [OF close1(1)] if_P [OF close1(2)] if_P [OF close1(3)] using r by simp
  next
    case close0
    then have "length (snd (parse_nodes nested (buf @ ch CHR ''<'' # tag_inner cs @ [ch CHR ''>'']) (tag_rest cs))) \<le> length (tag_rest cs)"
      by (rule 2(3))
    then show ?thesis
      unfolding ps if_not_P [OF close0(1)] if_P [OF close0(2)] if_P [OF close0(3)] if_not_P [OF close0(4)]
      using r [OF close0(2)] by simp
  next
    case anon
    then have "length (snd (parse_nodes nested (buf @ [c]) cs)) \<le> length cs" by (rule 2(4))
    then show ?thesis
      unfolding ps if_not_P [OF anon(1)] if_P [OF anon(2)] if_not_P [OF anon(3)] if_P [OF anon(4)] by simp
  next
    case tagged
    obtain children rest where c1: "parse_nodes True [] (tag_rest cs) = (children, rest)"
      by (cases "parse_nodes True [] (tag_rest cs)")
    have "length rest \<le> length (tag_rest cs)" using 2(5) [OF tagged] by (simp add: c1)
    moreover have "length (snd (parse_nodes nested [] rest)) \<le> length rest"
      by (rule 2(6) [OF tagged c1 [symmetric]])
    ultimately show ?thesis
      unfolding ps if_not_P [OF tagged(1)] if_P [OF tagged(2)] if_not_P [OF tagged(3)] if_not_P [OF tagged(4)]
      using r [OF tagged(2)] c1 by (auto split: prod.splits)
  qed
qed

termination parse_nodes
proof (relation "measure (\<lambda>(nested, buf, cs). length cs)", goal_cases)
  case (6 nested buf c cs children rest)
  then show ?case
    using tag_rest_shorter [of cs] parse_nodes_shrinks [of True "[]" "tag_rest cs"] by (auto dest!: sym [of "(children, rest)"])
qed (use tag_rest_shorter in \<open>fastforce+\<close>)

declare parse_nodes.simps(2) [simp del]

section \<open>Styles and runs\<close>

record style =
  st_color :: "rgb option"
  st_bold :: bool
  st_italic :: bool
  st_underlined :: bool
  st_strikethrough :: bool
  st_obfuscated :: bool

definition style_default :: style where
  "style_default = \<lparr>st_color = None, st_bold = False, st_italic = False, st_underlined = False,
     st_strikethrough = False, st_obfuscated = False\<rparr>"

definition with_color :: "style \<Rightarrow> rgb option \<Rightarrow> style" where
  "with_color st c = (case c of Some rgb \<Rightarrow> st\<lparr>st_color := Some rgb\<rparr> | None \<Rightarrow> st)"

definition apply_tag :: "(str \<Rightarrow> str) \<Rightarrow> style \<Rightarrow> str \<Rightarrow> str list \<Rightarrow> style run" where
  "apply_tag lc st name args =
     (let n = to_lowercase lc name in
      if n = lit ''reset'' then Returned style_default
      else if n \<in> {lit ''bold'', lit ''b''} then Returned (st\<lparr>st_bold := True\<rparr>)
      else if n \<in> {lit ''italic'', lit ''i'', lit ''em''} then Returned (st\<lparr>st_italic := True\<rparr>)
      else if n \<in> {lit ''underlined'', lit ''u''} then Returned (st\<lparr>st_underlined := True\<rparr>)
      else if n \<in> {lit ''strikethrough'', lit ''st''} then Returned (st\<lparr>st_strikethrough := True\<rparr>)
      else if n \<in> {lit ''obfuscated'', lit ''obf''} then Returned (st\<lparr>st_obfuscated := True\<rparr>)
      else if n \<in> {lit ''color'', lit ''colour''} then
        (case args of [] \<Rightarrow> Returned st | a # _ \<Rightarrow> run_bind (color_from_str a) (\<lambda>c. Returned (with_color st c)))
      else if n \<noteq> [] \<and> hd n = ch CHR ''#'' then run_bind (parse_hex n) (\<lambda>c. Returned (with_color st c))
      else Returned (with_color st (named_color n)))"

record styled_run =
  sr_text :: str
  sr_style :: style

fun visible_len :: "node list \<Rightarrow> nat" where
  "visible_len [] = 0"
| "visible_len (Node_Text s # ns) = length s + visible_len ns"
| "visible_len (Node_Tag name args children # ns) = visible_len children + visible_len ns"

fun filter_colors :: "str list \<Rightarrow> rgb list run" where
  "filter_colors [] = Returned []"
| "filter_colors (a # as) =
     run_bind (color_from_str a) (\<lambda>c. run_bind (filter_colors as) (\<lambda>cs.
       Returned (case c of Some rgb \<Rightarrow> rgb # cs | None \<Rightarrow> cs)))"

definition gradient_stops :: "str list \<Rightarrow> rgb list run" where
  "gradient_stops args =
     run_bind (filter_colors args) (\<lambda>stops. Returned (if stops = [] then [Rgb 255 255 255] else stops))"

type_synonym interp = "rgb list \<Rightarrow> nat \<Rightarrow> nat \<Rightarrow> rgb"

definition gradient_text :: "interp \<Rightarrow> rgb list \<Rightarrow> nat \<Rightarrow> style \<Rightarrow> nat \<Rightarrow> str \<Rightarrow> styled_run list" where
  "gradient_text interp stops tot st pos s =
     map (\<lambda>(i, c). \<lparr>sr_text = [c], sr_style = st\<lparr>st_color := Some (interp stops i tot)\<rparr>\<rparr>) (enumerate pos s)"

text \<open>Inside a gradient: the runs and the position reached.\<close>

fun flatten_gradient ::
  "interp \<Rightarrow> (str \<Rightarrow> str) \<Rightarrow> style \<Rightarrow> rgb list \<Rightarrow> nat \<Rightarrow> nat \<Rightarrow> node list \<Rightarrow> (styled_run list \<times> nat) run" where
  "flatten_gradient interp lc st stops tot pos [] = Returned ([], pos)"
| "flatten_gradient interp lc st stops tot pos (Node_Text s # ns) =
     run_bind (flatten_gradient interp lc st stops tot (pos + length s) ns) (\<lambda>(rs, p).
       Returned (gradient_text interp stops tot st pos s @ rs, p))"
| "flatten_gradient interp lc st stops tot pos (Node_Tag name args children # ns) =
     run_bind
       (if eq_ignore_ascii_case name (lit ''gradient'') then
          run_bind (gradient_stops args) (\<lambda>inner_stops.
            run_bind (flatten_gradient interp lc st inner_stops (max (visible_len children) 1) 0 children)
              (\<lambda>(rs, _). Returned (rs, pos)))
        else
          run_bind (apply_tag lc st name args) (\<lambda>new_style.
            flatten_gradient interp lc new_style stops tot pos children))
       (\<lambda>(rs1, p1). run_bind (flatten_gradient interp lc st stops tot p1 ns) (\<lambda>(rs2, p2).
          Returned (rs1 @ rs2, p2)))"

fun flatten_nodes :: "interp \<Rightarrow> (str \<Rightarrow> str) \<Rightarrow> style \<Rightarrow> node list \<Rightarrow> styled_run list run" where
  "flatten_nodes interp lc st [] = Returned []"
| "flatten_nodes interp lc st (Node_Text s # ns) =
     run_bind (flatten_nodes interp lc st ns) (\<lambda>rs.
       Returned (if s \<noteq> [] then \<lparr>sr_text = s, sr_style = st\<rparr> # rs else rs))"
| "flatten_nodes interp lc st (Node_Tag name args children # ns) =
     run_bind
       (if eq_ignore_ascii_case name (lit ''gradient'') then
          run_bind (gradient_stops args) (\<lambda>stops.
            run_bind (flatten_gradient interp lc st stops (max (visible_len children) 1) 0 children)
              (\<lambda>(rs, _). Returned rs))
        else run_bind (apply_tag lc st name args) (\<lambda>new_style. flatten_nodes interp lc new_style children))
       (\<lambda>rs1. run_bind (flatten_nodes interp lc st ns) (\<lambda>rs2. Returned (rs1 @ rs2)))"

definition parse_runs :: "interp \<Rightarrow> (str \<Rightarrow> str) \<Rightarrow> str \<Rightarrow> styled_run list run" where
  "parse_runs interp lc input =
     flatten_nodes interp lc style_default (fst (parse_nodes False [] (legacy_codes_to_tags input)))"

section \<open>Serialisers\<close>

definition hex2 :: "byte \<Rightarrow> str" where
  "hex2 b = (let d = \<lambda>n. if n < 10 then 48 + n else 87 + n in [d (unat b div 16), d (unat b mod 16)])"

fun hex6 :: "rgb \<Rightarrow> str" where
  "hex6 (Rgb r g b) = hex2 r @ hex2 g @ hex2 b"

definition escape_char :: "nat \<Rightarrow> str" where
  "escape_char c =
     (if c = 34 then [92, 34]
      else if c = 92 then [92, 92]
      else if c = 10 then [92, ch CHR ''n'']
      else if c = 13 then [92, ch CHR ''r'']
      else if c = 9 then [92, ch CHR ''t'']
      else if c < 0x20 then [92, ch CHR ''u''] @ lit ''00'' @ hex2 (byte_of c)
      else [c])"

definition escape_json :: "str \<Rightarrow> str" where
  "escape_json value = concat (map escape_char value)"

definition quoted :: "string \<Rightarrow> str" where
  "quoted s = [34] @ lit s @ [34]"

definition run_to_json :: "styled_run \<Rightarrow> str" where
  "run_to_json r =
     lit ''{'' @ quoted ''text'' @ lit '':'' @ [34] @ escape_json (sr_text r) @ [34]
     @ (case st_color (sr_style r) of
          None \<Rightarrow> []
        | Some rgb \<Rightarrow> lit '','' @ quoted ''color'' @ lit '':'' @ [34]
            @ (case json_name_for_rgb rgb of Some name \<Rightarrow> name | None \<Rightarrow> lit ''#'' @ hex6 rgb) @ [34])
     @ (if st_bold (sr_style r) then lit '','' @ quoted ''bold'' @ lit '':true'' else [])
     @ (if st_italic (sr_style r) then lit '','' @ quoted ''italic'' @ lit '':true'' else [])
     @ (if st_underlined (sr_style r) then lit '','' @ quoted ''underlined'' @ lit '':true'' else [])
     @ (if st_strikethrough (sr_style r) then lit '','' @ quoted ''strikethrough'' @ lit '':true'' else [])
     @ (if st_obfuscated (sr_style r) then lit '','' @ quoted ''obfuscated'' @ lit '':true'' else [])
     @ lit ''}''"

fun join_comma :: "str list \<Rightarrow> str" where
  "join_comma [] = []"
| "join_comma [s] = s"
| "join_comma (s # t # r) = s @ lit '','' @ join_comma (t # r)"

definition to_json_component :: "interp \<Rightarrow> (str \<Rightarrow> str) \<Rightarrow> str \<Rightarrow> str run" where
  "to_json_component interp lc input =
     run_bind (parse_runs interp lc input) (\<lambda>runs.
       Returned (case runs of
          [] \<Rightarrow> lit ''{'' @ quoted ''text'' @ lit '':'' @ [34, 34] @ lit ''}''
        | [r] \<Rightarrow> run_to_json r
        | _ \<Rightarrow> lit ''{'' @ quoted ''text'' @ lit '':'' @ [34, 34] @ lit '','' @ quoted ''extra'' @ lit '':['' @
            join_comma (map run_to_json runs) @ lit '']}''))"

definition SECTION :: nat where "SECTION = 0xA7"

definition write_legacy_style :: "style \<Rightarrow> str" where
  "write_legacy_style st =
     (case st_color st of
        None \<Rightarrow> []
      | Some rgb \<Rightarrow>
          (case legacy_char_for_rgb rgb of
             Some code \<Rightarrow> [SECTION, code]
           | None \<Rightarrow> [SECTION, ch CHR ''x''] @ concat (map (\<lambda>h. [SECTION, h]) (hex6 rgb))))
     @ (if st_bold st then [SECTION, ch CHR ''l''] else [])
     @ (if st_italic st then [SECTION, ch CHR ''o''] else [])
     @ (if st_underlined st then [SECTION, ch CHR ''n''] else [])
     @ (if st_strikethrough st then [SECTION, ch CHR ''m''] else [])
     @ (if st_obfuscated st then [SECTION, ch CHR ''k''] else [])"

definition to_legacy_text :: "interp \<Rightarrow> (str \<Rightarrow> str) \<Rightarrow> str \<Rightarrow> str run" where
  "to_legacy_text interp lc input =
     run_bind (parse_runs interp lc input) (\<lambda>runs.
       Returned (concat (map (\<lambda>r. if sr_text r = [] then [] else write_legacy_style (sr_style r) @ sr_text r) runs)))"

section \<open>The text survives the styling\<close>

fun nodes_text :: "node list \<Rightarrow> str" where
  "nodes_text [] = []"
| "nodes_text (Node_Text s # ns) = s @ nodes_text ns"
| "nodes_text (Node_Tag name args children # ns) = nodes_text children @ nodes_text ns"

definition runs_text :: "styled_run list \<Rightarrow> str" where
  "runs_text rs = concat (map sr_text rs)"

lemma runs_text_simps [simp]:
  "runs_text [] = []" "runs_text (r # rs) = sr_text r @ runs_text rs" "runs_text (xs @ ys) = runs_text xs @ runs_text ys"
  by (simp_all add: runs_text_def)

lemma gradient_text_text [simp]: "runs_text (gradient_text interp stops tot st pos s) = s"
  by (induction s arbitrary: pos) (simp_all add: gradient_text_def)

lemma flatten_gradient_text:
  "flatten_gradient interp lc st stops tot pos ns = Returned (rs, p) \<Longrightarrow> runs_text rs = nodes_text ns"
  by (induction interp lc st stops tot pos ns arbitrary: rs p rule: flatten_gradient.induct)
    (fastforce simp: run_bind_Returned_iff split: if_splits prod.splits)+

lemma flatten_nodes_text: "flatten_nodes interp lc st ns = Returned rs \<Longrightarrow> runs_text rs = nodes_text ns"
  by (induction interp lc st ns arbitrary: rs rule: flatten_nodes.induct)
    (fastforce simp: run_bind_Returned_iff flatten_gradient_text split: if_splits prod.splits)+

definition is_plain :: "str \<Rightarrow> bool" where
  "is_plain s \<longleftrightarrow> list_all (\<lambda>c. c \<noteq> ch CHR ''<'' \<and> c \<noteq> ch CHR ''&'' \<and> c \<noteq> 92) s"

lemma legacy_codes_plain: "is_plain s \<Longrightarrow> legacy_codes_to_tags s = s"
  by (induction s rule: legacy_codes_to_tags.induct) (auto simp: is_plain_def)

lemma parse_nodes_plain: "is_plain s \<Longrightarrow> parse_nodes nested buf s = (flush (buf @ s), [])"
proof (induction s arbitrary: buf)
  case (Cons c s)
  then show ?case by (simp add: parse_nodes.simps is_plain_def)
qed simp

lemma parse_runs_plain:
  "is_plain s \<Longrightarrow> parse_runs interp lc s = Returned (if s = [] then [] else [\<lparr>sr_text = s, sr_style = style_default\<rparr>])"
  by (simp add: parse_runs_def legacy_codes_plain parse_nodes_plain flush_def)

section \<open>JSON escaping\<close>

text \<open>The inverse of the escaping, as a JSON reader performs it on what lies between two quotes.\<close>

definition hex4 :: "str \<Rightarrow> nat" where
  "hex4 s = foldl (\<lambda>a c. a * 16 + (if c \<le> 57 then c - 48 else c - 87)) 0 s"

fun unescape_json :: "str \<Rightarrow> str option" where
  "unescape_json [] = Some []"
| "unescape_json (c # cs) =
     (if c = 92 then
        (case cs of
           [] \<Rightarrow> None
         | e # r \<Rightarrow>
             if e = ch CHR ''u'' then
               (case r of h1 # h2 # h3 # h4 # r' \<Rightarrow> map_option (Cons (hex4 [h1, h2, h3, h4])) (unescape_json r') | _ \<Rightarrow> None)
             else if e = ch CHR ''n'' then map_option (Cons 10) (unescape_json r)
             else if e = ch CHR ''r'' then map_option (Cons 13) (unescape_json r)
             else if e = ch CHR ''t'' then map_option (Cons 9) (unescape_json r)
             else if e = 34 \<or> e = 92 then map_option (Cons e) (unescape_json r)
             else None)
      else if c = 34 \<or> c < 32 then None
      else map_option (Cons c) (unescape_json cs))"

lemma hex_control: "c < 32 \<Longrightarrow> hex4 (lit ''00'' @ hex2 (byte_of c)) = c"
proof -
  assume c: "c < 32"
  have "c = c div 16 * 16 + c mod 16" by simp
  moreover have "c div 16 < 10" using c by auto
  moreover have "c mod 16 < 16" by simp
  ultimately show ?thesis using c
    by (auto simp: hex4_def hex2_def Let_def lit_def)
qed

lemma unescape_escape_char: "unescape_json (escape_char c @ s) = map_option (Cons c) (unescape_json s)"
proof (cases "c < 32 \<and> c \<noteq> 10 \<and> c \<noteq> 13 \<and> c \<noteq> 9")
  case True
  obtain h3 h4 where h: "hex2 (byte_of c) = [h3, h4]" by (simp add: hex2_def Let_def)
  then have "hex4 [48, 48, h3, h4] = c" using hex_control [of c] True by (simp add: lit_def)
  then show ?thesis using True h by (simp add: escape_char_def lit_def)
qed (auto simp: escape_char_def)

lemma unescape_escape: "unescape_json (escape_json s) = Some s"
proof (induction s)
  case (Cons c s)
  then show ?case
    using unescape_escape_char [of c "escape_json s"] by (simp add: escape_json_def)
qed (simp add: escape_json_def)

section \<open>Properties\<close>

text \<open>Styling never changes the text. Whatever tags, colours and gradients a message uses, and
  whatever colours a gradient computes, the concatenation of the styled runs is exactly the text of
  the parsed nodes, and a message without markup characters is passed through unchanged by both
  serialisers.\<close>

theorem styling_preserves_text:
  "(parse_runs interp lc input = Returned rs \<longrightarrow>
      runs_text rs = nodes_text (fst (parse_nodes False [] (legacy_codes_to_tags input))))
   \<and> (is_plain s \<longrightarrow> to_legacy_text interp lc s = Returned s
        \<and> (s \<noteq> [] \<longrightarrow> to_json_component interp lc s =
             Returned (lit ''{'' @ quoted ''text'' @ lit '':'' @ [34] @ escape_json s @ [34] @ lit ''}'')))"
proof -
  have "parse_runs interp lc input = Returned rs \<Longrightarrow>
      runs_text rs = nodes_text (fst (parse_nodes False [] (legacy_codes_to_tags input)))"
    by (auto simp: parse_runs_def intro: flatten_nodes_text)
  moreover have "is_plain s \<Longrightarrow> to_legacy_text interp lc s = Returned s"
    by (simp add: to_legacy_text_def parse_runs_plain write_legacy_style_def style_default_def)
  moreover have "is_plain s \<Longrightarrow> s \<noteq> [] \<Longrightarrow> to_json_component interp lc s =
             Returned (lit ''{'' @ quoted ''text'' @ lit '':'' @ [34] @ escape_json s @ [34] @ lit ''}'')"
    by (simp add: to_json_component_def parse_runs_plain run_to_json_def style_default_def)
  ultimately show ?thesis by blast
qed

theorem styling_preserves_text_witness:
  "to_legacy_text (\<lambda>_ _ _. Rgb 0 0 0) (\<lambda>s. s) (lit ''hello'') = Returned (lit ''hello'')"
  using styling_preserves_text [where s = "lit ''hello''" and interp = "\<lambda>_ _ _. Rgb 0 0 0" and lc = "\<lambda>s. s"]
  by (simp add: is_plain_def lit_def)

text \<open>JSON escaping is exact. Reading the escaped text back as the contents of a JSON string gives the
  original, so no message text can end the string early or inject structure into the response.\<close>

theorem escape_json_round_trip: "unescape_json (escape_json s) = Some s"
  by (rule unescape_escape)

text \<open>Decorations leak in legacy text. The serialiser emits each run's codes but never a reset, so
  a plain run after a bold one is rendered bold as well: a message with one bold word gives the
  same output as the message that is bold throughout.\<close>

theorem legacy_text_bold_leaks:
  "to_legacy_text interp lc (lit ''<bold>a</bold>b'') = to_legacy_text interp lc (lit ''<bold>ab</bold>'')
   \<and> parse_runs interp lc (lit ''<bold>a</bold>b'') \<noteq> parse_runs interp lc (lit ''<bold>ab</bold>'')"
proof -
  have p: "parse_nodes False [] (legacy_codes_to_tags (lit ''<bold>a</bold>b'')) =
      ([Node_Tag (lit ''bold'') [] [Node_Text (lit ''a'')], Node_Text (lit ''b'')], [])" by code_simp
  have q: "parse_nodes False [] (legacy_codes_to_tags (lit ''<bold>ab</bold>'')) =
      ([Node_Tag (lit ''bold'') [] [Node_Text (lit ''ab'')]], [])" by code_simp
  have a: "apply_tag lc style_default (lit ''bold'') [] = Returned (style_default\<lparr>st_bold := True\<rparr>)"
    by (simp add: apply_tag_def to_lowercase_def lit_def is_ascii_def to_ascii_lowercase_def Let_def)
  have g: "\<not> eq_ignore_ascii_case (lit ''bold'') (lit ''gradient'')" by code_simp
  have r: "parse_runs interp lc (lit ''<bold>a</bold>b'') =
      Returned [\<lparr>sr_text = lit ''a'', sr_style = style_default\<lparr>st_bold := True\<rparr>\<rparr>, \<lparr>sr_text = lit ''b'', sr_style = style_default\<rparr>]"
    "parse_runs interp lc (lit ''<bold>ab</bold>'') =
      Returned [\<lparr>sr_text = lit ''ab'', sr_style = style_default\<lparr>st_bold := True\<rparr>\<rparr>]"
    using g by (simp_all add: parse_runs_def p q a) (simp_all add: lit_def)
  show ?thesis
    by (simp add: to_legacy_text_def r write_legacy_style_def style_default_def) (simp add: lit_def)
qed

text \<open>A malformed hex colour can crash the renderer. The colour is measured in bytes but cut at byte
  offsets, so six bytes that contain a two-byte character across an offset panic, against the
  module's promise that malformed markup never does.\<close>

theorem hex_colour_panics:
  "to_legacy_text interp lc (lit ''<color:#a'' @ [0xE9] @ lit ''aaa>x'') = Panicked"
proof -
  have p: "parse_nodes False [] (legacy_codes_to_tags (lit ''<color:#a'' @ [0xE9] @ lit ''aaa>x'')) =
      ([Node_Tag (lit ''color'') [lit ''#a'' @ [0xE9] @ lit ''aaa''] [Node_Text (lit ''x'')]], [])" by code_simp
  have h: "color_from_str (lit ''#a'' @ [0xE9] @ lit ''aaa'') = Panicked" by code_simp
  have low: "to_lowercase lc (lit ''color'') = lit ''color''"
    by (simp add: to_lowercase_def lit_def is_ascii_def to_ascii_lowercase_def)
  have ne: "lit ''color'' \<noteq> lit ''reset''" "lit ''color'' \<notin> {lit ''bold'', lit ''b''}"
    "lit ''color'' \<notin> {lit ''italic'', lit ''i'', lit ''em''}" "lit ''color'' \<notin> {lit ''underlined'', lit ''u''}"
    "lit ''color'' \<notin> {lit ''strikethrough'', lit ''st''}" "lit ''color'' \<notin> {lit ''obfuscated'', lit ''obf''}"
    by (simp_all add: lit_def)
  have "apply_tag lc style_default (lit ''color'') [lit ''#a'' @ [0xE9] @ lit ''aaa''] = Panicked"
    unfolding apply_tag_def low Let_def using ne h by (simp only: if_False if_True list.case insert_iff simp_thms run_bind_simps)
  moreover have "\<not> eq_ignore_ascii_case (lit ''color'') (lit ''gradient'')" by code_simp
  ultimately show ?thesis unfolding to_legacy_text_def parse_runs_def p by simp
qed

end
