(* ===== verification/Dns_Cache.thy ===== *)
theory Dns_Cache
  imports Net_Addr
begin

text \<open>
  The hostname cache of \<open>src/net/dns_cache.rs\<close>. Its operations suspend at the DNS lookup, so they are
  split there: what happens before (\<open>resolve_start\<close>, the spawn of a refresh or warm-up) and what the
  task does with the answer (\<open>finish_task\<close>). The tasks in flight and the cache evolve by
  \<open>dns_step\<close>, in any order.

  The operating system's resolver is the predicate \<open>answers\<close>: the addresses it may return for a host
  and port, any of them at any time; a lookup may also fail.
\<close>

section \<open>Definitions\<close>

definition CACHE_TTL :: duration where "CACHE_TTL = from_secs 60"
definition NEGATIVE_TTL :: duration where "NEGATIVE_TTL = from_secs 5"
definition ENTRY_IDLE_EVICT :: duration where "ENTRY_IDLE_EVICT = from_secs 600"
definition MAX_CACHE_ENTRIES :: nat where "MAX_CACHE_ENTRIES = 10000"

datatype dns_resolve_error = DnsResolveError str

type_synonym dns_result = "dns_resolve_error + socket_addr"

record dns_entry =
  de_result :: dns_result
  de_expires_at :: instant

record dns_cache =
  dc_cache :: "(str, dns_entry) hmap"
  dc_refreshing :: "str list"

definition dns_key :: "str \<Rightarrow> u16 \<Rightarrow> str" where
  "dns_key host port = host @ lit '':'' @ show_nat (unat port)"

definition parse_ipv4 :: "str \<Rightarrow> ip_addr option" where
  "parse_ipv4 s = (case read_ipv4_addr s of Some ((a, b, c, d), []) \<Rightarrow> Some (V4 a b c d) | _ \<Rightarrow> None)"

definition parse_ipv6 :: "str \<Rightarrow> ip_addr option" where
  "parse_ipv6 s = (case read_ipv6_addr s of Some (o6, []) \<Rightarrow> Some (V6 o6) | _ \<Rightarrow> None)"

definition is_ip_literal :: "str \<Rightarrow> u16 \<Rightarrow> socket_addr option" where
  "is_ip_literal host port =
     (case parse_ipv4 host of
        Some ip \<Rightarrow> Some (SocketAddr ip port)
      | None \<Rightarrow>
          if ch CHR '':'' \<in> set host then
            let cleaned = trim_end_by (\<lambda>c. c = ch CHR '']'') (dropWhile (\<lambda>c. c = ch CHR ''['') host) in
            map_option (\<lambda>ip. SocketAddr ip port) (parse_ipv6 cleaned)
          else None)"

text \<open>The tasks that wait for the resolver: the first lookup of a \<open>resolve\<close> call, a background
  refresh, a warm-up.\<close>

datatype dns_task = Lookup_Task str u16 | Refresh_Task str u16 | Warm_Task str u16

datatype dns_outcome = Immediate dns_result | Awaiting

definition refresh_async :: "str \<Rightarrow> str \<Rightarrow> u16 \<Rightarrow> dns_cache \<Rightarrow> dns_cache \<times> dns_task list" where
  "refresh_async key host port c =
     (if key \<in> set (dc_refreshing c) then (c, [])
      else (c\<lparr>dc_refreshing := key # dc_refreshing c\<rparr>, [Refresh_Task host port]))"

definition resolve_start :: "instant \<Rightarrow> str \<Rightarrow> u16 \<Rightarrow> dns_cache \<Rightarrow> dns_outcome \<times> dns_cache \<times> dns_task list" where
  "resolve_start now host port c =
     (case is_ip_literal host port of
        Some addr \<Rightarrow> (Immediate (Inr addr), c, [])
      | None \<Rightarrow>
          let key = dns_key host port in
          (case hm_get (dc_cache c) key of
             Some entry \<Rightarrow>
               (if now \<ge> de_expires_at entry
                then (case refresh_async key host port c of (c, ts) \<Rightarrow> (Immediate (de_result entry), c, ts))
                else (Immediate (de_result entry), c, []))
           | None \<Rightarrow> (Awaiting, c, [Lookup_Task host port])))"

definition resolve_finish :: "instant \<Rightarrow> str \<Rightarrow> u16 \<Rightarrow> dns_result \<Rightarrow> dns_cache \<Rightarrow> dns_cache" where
  "resolve_finish now host port result c =
     (if length (dc_cache c) < MAX_CACHE_ENTRIES then
        let ttl = (case result of Inr _ \<Rightarrow> CACHE_TTL | Inl _ \<Rightarrow> NEGATIVE_TTL) in
        c\<lparr>dc_cache := hm_insert (dns_key host port) \<lparr>de_result = result, de_expires_at = now + ttl\<rparr> (dc_cache c)\<rparr>
      else c)"

definition will_resolve_without_blocking :: "str \<Rightarrow> u16 \<Rightarrow> dns_cache \<Rightarrow> bool" where
  "will_resolve_without_blocking host port c \<longleftrightarrow>
     is_ip_literal host port \<noteq> None \<or> hm_contains (dc_cache c) (dns_key host port)"

definition warm_start :: "str \<Rightarrow> u16 \<Rightarrow> dns_task list" where
  "warm_start host port = (if is_ip_literal host port \<noteq> None then [] else [Warm_Task host port])"

text \<open>A successful answer of a refresh or a warm-up replaces the entry; a failure leaves it.\<close>

definition store_good :: "instant \<Rightarrow> str \<Rightarrow> u16 \<Rightarrow> dns_result \<Rightarrow> dns_cache \<Rightarrow> dns_cache" where
  "store_good now host port result c =
     (case result of
        Inr addr \<Rightarrow>
          if length (dc_cache c) < MAX_CACHE_ENTRIES
          then c\<lparr>dc_cache := hm_insert (dns_key host port) \<lparr>de_result = Inr addr, de_expires_at = now + CACHE_TTL\<rparr> (dc_cache c)\<rparr>
          else c
      | Inl _ \<Rightarrow> c)"

definition refresh_finish :: "instant \<Rightarrow> str \<Rightarrow> u16 \<Rightarrow> dns_result \<Rightarrow> dns_cache \<Rightarrow> dns_cache" where
  "refresh_finish now host port result c =
     (let c = store_good now host port result c in
      c\<lparr>dc_refreshing := removeAll (dns_key host port) (dc_refreshing c)\<rparr>)"

definition evict_idle_entries :: "instant \<Rightarrow> dns_cache \<Rightarrow> dns_cache" where
  "evict_idle_entries now c =
     (case checked_sub now ENTRY_IDLE_EVICT of
        None \<Rightarrow> c
      | Some cutoff \<Rightarrow>
          let cache = hm_retain (\<lambda>_ e. de_expires_at e \<ge> cutoff) (dc_cache c) in
          c\<lparr>dc_cache := cache, dc_refreshing := filter (hm_contains cache) (dc_refreshing c)\<rparr>)"

definition do_lookup :: "str \<Rightarrow> socket_addr list option \<Rightarrow> dns_result" where
  "do_lookup host lookup_host =
     (case lookup_host of
        Some (addr # _) \<Rightarrow> Inr addr
      | Some [] \<Rightarrow> Inl (DnsResolveError host)
      | None \<Rightarrow> Inl (DnsResolveError host))"

section \<open>Tasks in flight\<close>

fun finish_task :: "instant \<Rightarrow> dns_task \<Rightarrow> socket_addr list option \<Rightarrow> dns_cache \<Rightarrow> dns_cache" where
  "finish_task now (Lookup_Task host port) found c = resolve_finish now host port (do_lookup host found) c"
| "finish_task now (Refresh_Task host port) found c = refresh_finish now host port (do_lookup host found) c"
| "finish_task now (Warm_Task host port) found c = store_good now host port (do_lookup host found) c"

fun task_target :: "dns_task \<Rightarrow> str \<times> u16" where
  "task_target (Lookup_Task host port) = (host, port)"
| "task_target (Refresh_Task host port) = (host, port)"
| "task_target (Warm_Task host port) = (host, port)"

inductive dns_step :: "(str \<Rightarrow> u16 \<Rightarrow> socket_addr \<Rightarrow> bool) \<Rightarrow> dns_cache \<times> dns_task list \<Rightarrow> dns_cache \<times> dns_task list \<Rightarrow> bool"
  for answers where
  resolve: "resolve_start now host port c = (r, c', ts) \<Longrightarrow> dns_step answers (c, tasks) (c', ts @ tasks)"
| warm: "dns_step answers (c, tasks) (c, warm_start host port @ tasks)"
| finish: "task \<in> set tasks \<Longrightarrow> task_target task = (host, port) \<Longrightarrow>
    \<forall>addrs. found = Some addrs \<longrightarrow> list_all (answers host port) addrs \<Longrightarrow>
    dns_step answers (c, tasks) (finish_task now task found c, remove1 task tasks)"
| evict: "dns_step answers (c, tasks) (evict_idle_entries now c, tasks)"

section \<open>Invariant\<close>

lemma dns_key_inj: "dns_key h p = dns_key h' p' \<Longrightarrow> h = h' \<and> p = p'"
proof -
  assume e: "dns_key h p = dns_key h' p'"
  have no: "58 \<notin> set (show_nat n)" for n by (rule show_nat_not) (simp add: is_ascii_digit_def)
  have "rsplit_once 58 (dns_key h p) = Some (h, show_nat (unat p))" for h p
    using no by (simp add: dns_key_def lit_def)
  with e have "h = h'" "show_nat (unat p) = show_nat (unat p')" by (metis option.inject prod.inject)+
  then show ?thesis by (metis option.inject parse_u16_show)
qed

definition dns_sound :: "(str \<Rightarrow> u16 \<Rightarrow> socket_addr \<Rightarrow> bool) \<Rightarrow> dns_cache \<Rightarrow> bool" where
  "dns_sound answers c \<longleftrightarrow> (\<forall>key e. hm_get (dc_cache c) key = Some e \<longrightarrow>
     (\<exists>host port. key = dns_key host port \<and>
        (case de_result e of Inr addr \<Rightarrow> answers host port addr | Inl err \<Rightarrow> err = DnsResolveError host)))"

definition dns_inv :: "(str \<Rightarrow> u16 \<Rightarrow> socket_addr \<Rightarrow> bool) \<Rightarrow> dns_cache \<times> dns_task list \<Rightarrow> bool" where
  "dns_inv answers w \<longleftrightarrow> hm_ok (dc_cache (fst w)) \<and> length (dc_cache (fst w)) \<le> MAX_CACHE_ENTRIES
     \<and> dns_sound answers (fst w) \<and> distinct (dc_refreshing (fst w))
     \<and> (\<forall>key \<in> set (dc_refreshing (fst w)). \<exists>host port. key = dns_key host port \<and> Refresh_Task host port \<in> set (snd w))"

lemma do_lookup_sound:
  assumes "\<forall>addrs. found = Some addrs \<longrightarrow> list_all (answers host port) addrs"
  shows "case do_lookup host found of Inr addr \<Rightarrow> answers host port addr | Inl err \<Rightarrow> err = DnsResolveError host"
  using assms by (auto simp: do_lookup_def split: option.split list.split)

lemma dns_store:
  assumes "dns_sound answers c" and "hm_ok (dc_cache c)" and "length (dc_cache c) \<le> MAX_CACHE_ENTRIES"
    and "case r of Inr addr \<Rightarrow> answers host port addr | Inl err \<Rightarrow> err = DnsResolveError host"
  shows "hm_ok (dc_cache (resolve_finish now host port r c)) \<and> length (dc_cache (resolve_finish now host port r c)) \<le> MAX_CACHE_ENTRIES
      \<and> dns_sound answers (resolve_finish now host port r c)"
    and "hm_ok (dc_cache (store_good now host port r c)) \<and> length (dc_cache (store_good now host port r c)) \<le> MAX_CACHE_ENTRIES
      \<and> dns_sound answers (store_good now host port r c)"
proof -
  have b: "length (hm_insert k v (dc_cache c)) \<le> MAX_CACHE_ENTRIES" if "length (dc_cache c) < MAX_CACHE_ENTRIES" for k v
    using that by (rule hm.upd_new_below_cap)
  have s: "dns_sound answers (c\<lparr>dc_cache := hm_insert (dns_key host port) \<lparr>de_result = r, de_expires_at = t\<rparr> (dc_cache c)\<rparr>)" for t
    using assms(1,4) by (auto simp: dns_sound_def)
  show "hm_ok (dc_cache (resolve_finish now host port r c)) \<and> length (dc_cache (resolve_finish now host port r c)) \<le> MAX_CACHE_ENTRIES
      \<and> dns_sound answers (resolve_finish now host port r c)"
    using assms(1-3) b s by (simp add: resolve_finish_def Let_def)
  show "hm_ok (dc_cache (store_good now host port r c)) \<and> length (dc_cache (store_good now host port r c)) \<le> MAX_CACHE_ENTRIES
      \<and> dns_sound answers (store_good now host port r c)"
    using assms(1-3) b s by (cases r) (simp_all add: store_good_def)
qed

lemma store_refreshing [simp]:
  "dc_refreshing (resolve_finish now host port r c) = dc_refreshing c"
  "dc_refreshing (store_good now host port r c) = dc_refreshing c"
  by (simp_all add: resolve_finish_def store_good_def Let_def split: sum.split)

lemma finish_step_inv:
  assumes inv: "dns_inv answers (c, tasks)" and t: "task_target task = (host, port)"
    and f: "\<forall>addrs. found = Some addrs \<longrightarrow> list_all (answers host port) addrs"
  shows "dns_inv answers (finish_task now task found c, remove1 task tasks)"
proof -
  note st = dns_store [where c = c and answers = answers, OF _ _ _ do_lookup_sound [where answers = answers and host = host and port = port, OF f]]
  have pre: "dns_sound answers c" "hm_ok (dc_cache c)" "length (dc_cache c) \<le> MAX_CACHE_ENTRIES"
    "distinct (dc_refreshing c)" using inv by (simp_all add: dns_inv_def)
  have ref: "\<exists>h p. key = dns_key h p \<and> Refresh_Task h p \<in> set (remove1 task tasks)"
    if key: "key \<in> set (dc_refreshing c)" and other: "\<And>h p. task = Refresh_Task h p \<Longrightarrow> key \<noteq> dns_key h p" for key
  proof -
    obtain h p where hp: "key = dns_key h p" "Refresh_Task h p \<in> set tasks"
      using inv key unfolding dns_inv_def by auto
    then have "task \<noteq> Refresh_Task h p" using other by blast
    then show ?thesis using hp in_set_remove1 [of "Refresh_Task h p" task tasks] by blast
  qed
  show ?thesis
  proof (cases task)
    case (Lookup_Task h p)
    then show ?thesis using st(1) [OF pre(1-3)] pre(4) t ref by (auto simp: dns_inv_def)
  next
    case (Refresh_Task h p)
    then show ?thesis using st(2) [OF pre(1-3)] pre(4) t ref
      by (auto simp: dns_inv_def refresh_finish_def Let_def dns_sound_def distinct_removeAll)
  next
    case (Warm_Task h p)
    then show ?thesis using st(2) [OF pre(1-3)] pre(4) t ref by (auto simp: dns_inv_def)
  qed
qed

lemma evict_step_inv:
  assumes inv: "dns_inv answers (c, tasks)"
  shows "dns_inv answers (evict_idle_entries now c, tasks)"
proof (cases "checked_sub now ENTRY_IDLE_EVICT")
  case None
  then show ?thesis using inv by (simp add: evict_idle_entries_def)
next
  case (Some cutoff)
  have "hm_ok (dc_cache c)" using inv by (simp add: dns_inv_def)
  then show ?thesis
    using inv Some length_hm_retain [of "\<lambda>_ e. de_expires_at e \<ge> cutoff" "dc_cache c"]
    by (auto simp: dns_inv_def evict_idle_entries_def Let_def dns_sound_def hm.keep_lookup_Some)
qed

lemma dns_step_inv: "dns_step answers w w' \<Longrightarrow> dns_inv answers w \<Longrightarrow> dns_inv answers w'"
proof (induction rule: dns_step.induct)
  case (resolve now host port c r c' ts tasks)
  then show ?case
    by (fastforce simp: resolve_start_def refresh_async_def dns_inv_def dns_sound_def Let_def split: option.splits if_splits)
next
  case (warm c tasks host port)
  then show ?case by (fastforce simp: dns_inv_def)
next
  case (finish task tasks host port found c now)
  then show ?case by (intro finish_step_inv)
next
  case (evict c tasks now)
  then show ?case by (rule evict_step_inv)
qed

definition dns_empty :: dns_cache where
  "dns_empty = \<lparr>dc_cache = [], dc_refreshing = []\<rparr>"

lemma dns_reachable_inv: "(dns_step answers)\<^sup>*\<^sup>* (dns_empty, []) w \<Longrightarrow> dns_inv answers w"
proof (induction rule: rtranclp_induct)
  case base
  then show ?case by (simp add: dns_inv_def dns_sound_def dns_empty_def)
qed (rule dns_step_inv)

lemma resolve_start_sound:
  assumes "dns_sound answers c" and "resolve_start now host port c = (Immediate (Inr addr), c', ts)"
    and "is_ip_literal host port = None"
  shows "answers host port addr"
proof -
  from assms(2,3) obtain e where e: "hm_get (dc_cache c) (dns_key host port) = Some e" "de_result e = Inr addr"
    by (auto simp: resolve_start_def Let_def split: option.splits if_splits prod.splits)
  with assms(1) obtain h p where "dns_key host port = dns_key h p" "answers h p addr"
    unfolding dns_sound_def by fastforce
  then show ?thesis using dns_key_inj by blast
qed

section \<open>Properties\<close>

text \<open>The cache only ever hands out what the resolver said. In every state reachable by any
  interleaving of lookups, background refreshes, warm-ups and evictions, an address returned at
  once for a hostname that is not an IP literal is one the resolver may return for exactly that
  host and port; the cache stays within its cap; and every key marked as refreshing has a refresh
  task in flight that will clear the mark.\<close>

theorem dns_cache_sound:
  assumes "(dns_step answers)\<^sup>*\<^sup>* (dns_empty, []) (c, tasks)"
  shows "length (dc_cache c) \<le> MAX_CACHE_ENTRIES
    \<and> (\<forall>now host port addr c' ts. is_ip_literal host port = None
         \<longrightarrow> resolve_start now host port c = (Immediate (Inr addr), c', ts) \<longrightarrow> answers host port addr)
    \<and> (\<forall>key \<in> set (dc_refreshing c). \<exists>host port. key = dns_key host port \<and> Refresh_Task host port \<in> set tasks)"
  using dns_reachable_inv [OF assms] resolve_start_sound by (auto simp: dns_inv_def)

theorem dns_cache_sound_witness:
  "length (dc_cache (finish_task 0 (Warm_Task (lit ''mc'') 1) (Some [SocketAddr (V4 1 2 3 4) 1]) dns_empty)) \<le> MAX_CACHE_ENTRIES"
proof -
  let ?ans = "\<lambda>h p a. a = SocketAddr (V4 1 2 3 4) 1" and ?t = "Warm_Task (lit ''mc'') 1"
  have w: "warm_start (lit ''mc'') 1 = [?t]" by code_simp
  have "dns_step ?ans (dns_empty, []) (dns_empty, [?t])"
    using dns_step.warm [of ?ans dns_empty "[]" "lit ''mc''" 1] by (simp add: w)
  moreover have "dns_step ?ans (dns_empty, [?t])
      (finish_task 0 ?t (Some [SocketAddr (V4 1 2 3 4) 1]) dns_empty, remove1 ?t [?t])"
    by (rule dns_step.finish) auto
  ultimately have "(dns_step ?ans)\<^sup>*\<^sup>* (dns_empty, [])
      (finish_task 0 ?t (Some [SocketAddr (V4 1 2 3 4) 1]) dns_empty, remove1 ?t [?t])"
    by (meson converse_rtranclp_into_rtranclp rtranclp.rtrancl_refl)
  from dns_cache_sound [OF this] show ?thesis by blast
qed

text \<open>An expired failure is still served. A cached failure is returned without a lookup however long
  ago it expired, with only a background refresh started, although the documentation of \<open>resolve\<close>
  says that a call after the expiry awaits a real lookup.\<close>

theorem expired_failure_served:
  assumes "is_ip_literal host port = None"
    and "hm_get (dc_cache c) (dns_key host port) = Some \<lparr>de_result = Inl (DnsResolveError host), de_expires_at = e\<rparr>"
    and "e \<le> now"
  shows "fst (resolve_start now host port c) = Immediate (Inl (DnsResolveError host))"
  using assms by (simp add: resolve_start_def Let_def split: prod.split)

theorem expired_failure_served_witness:
  "fst (resolve_start (from_secs 500) (lit ''mc'') 1
      (finish_task 0 (Lookup_Task (lit ''mc'') 1) None dns_empty)) = Immediate (Inl (DnsResolveError (lit ''mc'')))"
proof (rule expired_failure_served)
  show "is_ip_literal (lit ''mc'') 1 = None" by code_simp
  show "hm_get (dc_cache (finish_task 0 (Lookup_Task (lit ''mc'') 1) None dns_empty)) (dns_key (lit ''mc'') 1)
      = Some \<lparr>de_result = Inl (DnsResolveError (lit ''mc'')), de_expires_at = NEGATIVE_TTL\<rparr>"
    by (simp add: resolve_finish_def do_lookup_def dns_empty_def MAX_CACHE_ENTRIES_def Let_def)
  show "NEGATIVE_TTL \<le> from_secs 500" by (simp add: NEGATIVE_TTL_def from_secs_def)
qed

text \<open>A full cache is frozen. At the cap a successful refresh or warm-up is dropped even for a host
  that is already cached, where replacing its entry would not grow the cache, so its old address is
  served until the entry is evicted.\<close>

theorem full_cache_not_refreshed:
  assumes "length (dc_cache c) = MAX_CACHE_ENTRIES"
  shows "dc_cache (finish_task now (Refresh_Task host port) (Some [addr]) c) = dc_cache c
    \<and> dc_cache (finish_task now (Warm_Task host port) (Some [addr]) c) = dc_cache c"
  using assms by (simp add: refresh_finish_def store_good_def do_lookup_def Let_def)

theorem full_cache_not_refreshed_witness:
  "dc_cache (finish_task 9 (Refresh_Task (lit ''x'') 1) (Some [SocketAddr (V4 1 2 3 4) 1])
      \<lparr>dc_cache = map (\<lambda>n. ([n], \<lparr>de_result = Inl (DnsResolveError [n]), de_expires_at = 0\<rparr>)) [0..<MAX_CACHE_ENTRIES], dc_refreshing = []\<rparr>)
    = map (\<lambda>n. ([n], \<lparr>de_result = Inl (DnsResolveError [n]), de_expires_at = 0\<rparr>)) [0..<MAX_CACHE_ENTRIES]"
  using full_cache_not_refreshed [of "\<lparr>dc_cache = map (\<lambda>n. ([n], \<lparr>de_result = Inl (DnsResolveError [n]), de_expires_at = 0\<rparr>)) [0..<MAX_CACHE_ENTRIES], dc_refreshing = []\<rparr>"
      9 "lit ''x''" 1 "SocketAddr (V4 1 2 3 4) 1"]
  by simp

end
