(* ===== verification/Gate_Config.thy ===== *)
theory Gate_Config
  imports Duration_Parse Host_Pattern Text_Format Dns_Cache
begin

text \<open>
  The configuration of \<open>src/config.rs\<close> and \<open>src/config/messages.rs\<close>: the data, every default, and the
  reading of a parsed YAML document into it, together with the fallback status of
  \<open>src/protocol/status_json.rs\<close>.

  The YAML library is not part of the repository: a document is a \<open>yaml\<close> value, the result of its parser,
  and its printer is part of the environment \<open>externs\<close>, as are the files a favicon names, the host
  resolver, Unicode lowercasing, gradient colours, and the conversion of an integer to a float. A
  float is its 64-bit pattern. A loader error is \<open>Cfg_Error\<close> with its message; \<open>Cfg_Panic\<close> is a panic of
  the text renderer, which is run while a route is read.
\<close>

section \<open>Data\<close>

type_synonym f64 = "64 word"

datatype strategy = Sequential | Random | RoundRobin | LeastConnections | LowestLatency

record version_info =
  vi_name :: str
  vi_protocol :: int

record players_info =
  pi_online :: int
  pi_max :: int

record fallback_status =
  fs_motd :: str
  fs_version :: version_info
  fs_players :: "players_info option"
  fs_favicon_data_uri :: "str option"

record reconnect_config =
  rc_enabled :: bool
  rc_on_mid_session_drop :: bool
  rc_retry_interval_millis :: int
  rc_max_retry_interval_millis :: int
  rc_backoff_multiplier :: f64
  rc_max_wait_millis :: int
  rc_title :: str
  rc_subtitle :: str
  rc_attempt_suffix :: str
  rc_action_bar_frames :: "str list"
  rc_animation_interval_millis :: int

definition reconnect_default :: reconnect_config where
  "reconnect_default =
     \<lparr>rc_enabled = False, rc_on_mid_session_drop = False, rc_retry_interval_millis = 5000,
      rc_max_retry_interval_millis = 30000, rc_backoff_multiplier = 0x4000000000000000,
      rc_max_wait_millis = 600000, rc_title = lit ''&eServer is currently offline.'',
      rc_subtitle = lit ''&7Waiting to reconnect...'', rc_attempt_suffix = lit '' (attempt {attempt})'',
      rc_action_bar_frames = [lit ''&7Reconnecting.'', lit ''&7Reconnecting..'', lit ''&7Reconnecting...''],
      rc_animation_interval_millis = 500\<rparr>"

record route_metric_usage_config =
  mu_enabled :: bool
  mu_limit :: int

definition usage_defaulted :: route_metric_usage_config where
  "usage_defaulted = \<lparr>mu_enabled = False, mu_limit = - 1\<rparr>"

record route_metrics_config =
  rm_file :: "str option"
  rm_upload :: route_metric_usage_config
  rm_download :: route_metric_usage_config
  rm_reset_interval_millis :: int

definition metrics_active :: "route_metrics_config \<Rightarrow> bool" where
  "metrics_active m \<longleftrightarrow> mu_enabled (rm_upload m) \<or> mu_enabled (rm_download m)"

record route =
  rt_host_patterns :: "host_pattern list"
  rt_backend_templates :: "str list"
  rt_strategy :: strategy
  rt_cache_ping_ttl_millis :: int
  rt_fallback :: "fallback_status option"
  rt_modify_virtual_host :: bool
  rt_proxy_protocol :: bool
  rt_priority :: int
  rt_reconnect :: reconnect_config
  rt_kick_message :: str
  rt_voicechat_templates :: "str list"
  rt_metrics :: "route_metrics_config option"

record udp_proxy_config =
  up_bind :: str
  up_backend :: str
  up_log_sessions :: bool

record api_config =
  api_enabled :: bool
  api_bind :: str
  api_token :: "str option"
  api_players_page_limit :: int

definition api_default :: api_config where
  "api_default = \<lparr>api_enabled = False, api_bind = lit ''localhost:8080'', api_token = None, api_players_page_limit = 500\<rparr>"

record connection_throttle_config =
  ct_max_connections :: int
  ct_max_per_ip_per_window :: int
  ct_window_millis :: int

definition connection_throttle_default :: connection_throttle_config where
  "connection_throttle_default = \<lparr>ct_max_connections = 0, ct_max_per_ip_per_window = 8, ct_window_millis = 8000\<rparr>"

record auto_ban_config =
  ab_enabled :: bool
  ab_max_violations :: int
  ab_violation_window_millis :: int
  ab_ban_duration_millis :: int

definition auto_ban_default :: auto_ban_config where
  "auto_ban_default = \<lparr>ab_enabled = True, ab_max_violations = 10, ab_violation_window_millis = 60000, ab_ban_duration_millis = 600000\<rparr>"

record udp_throttle_config =
  ut_max_sessions :: int
  ut_max_sessions_per_ip :: int
  ut_pending_packets_per_session :: int
  ut_idle_timeout_millis :: int
  ut_no_reply_teardown_millis :: int

definition udp_throttle_default :: udp_throttle_config where
  "udp_throttle_default = \<lparr>ut_max_sessions = 8192, ut_max_sessions_per_ip = 64, ut_pending_packets_per_session = 256,
     ut_idle_timeout_millis = 300000, ut_no_reply_teardown_millis = 20000\<rparr>"

record connection_tracking_config =
  tr_enabled :: bool
  tr_db_path :: str
  tr_retention_days :: int
  tr_max_records :: int
  tr_queue_capacity :: int
  tr_batch_size :: int
  tr_flush_interval_millis :: int
  tr_prune_interval_millis :: int

definition connection_tracking_default :: connection_tracking_config where
  "connection_tracking_default = \<lparr>tr_enabled = False, tr_db_path = lit ''data/connections.db'', tr_retention_days = 30,
     tr_max_records = 200000, tr_queue_capacity = 5000, tr_batch_size = 200, tr_flush_interval_millis = 2000,
     tr_prune_interval_millis = 3600000\<rparr>"

record stats_logging_config =
  sl_enabled :: bool
  sl_db_path :: str
  sl_interval_millis :: int
  sl_retention_days :: int
  sl_max_records :: int

definition stats_logging_default :: stats_logging_config where
  "stats_logging_default = \<lparr>sl_enabled = False, sl_db_path = lit ''data/stats.db'', sl_interval_millis = 60000,
     sl_retention_days = 14, sl_max_records = 50000\<rparr>"

record gate_config =
  gc_bind :: str
  gc_routes :: "route list"
  gc_udp_proxy_protocol :: bool
  gc_udp_proxies :: "udp_proxy_config list"
  gc_api :: api_config
  gc_connection_tracking :: connection_tracking_config
  gc_stats_logging :: stats_logging_config
  gc_worker_threads :: int
  gc_log_connections :: bool
  gc_log_level :: str
  gc_proxy_protocol :: bool
  gc_login_timeout_millis :: int
  gc_max_connections_per_ip :: int
  gc_connection_throttle :: connection_throttle_config
  gc_auto_ban :: auto_ban_config
  gc_udp_throttle :: udp_throttle_config
  gc_so_backlog :: int
  gc_max_held_reconnect_sessions :: int

definition gate_config_default :: gate_config where
  "gate_config_default = \<lparr>gc_bind = lit ''0.0.0.0:25565'', gc_routes = [], gc_udp_proxy_protocol = False,
     gc_udp_proxies = [], gc_api = api_default, gc_connection_tracking = connection_tracking_default,
     gc_stats_logging = stats_logging_default, gc_worker_threads = 0, gc_log_connections = False,
     gc_log_level = lit ''INFO'', gc_proxy_protocol = False, gc_login_timeout_millis = 10000,
     gc_max_connections_per_ip = 8, gc_connection_throttle = connection_throttle_default,
     gc_auto_ban = auto_ban_default, gc_udp_throttle = udp_throttle_default, gc_so_backlog = 128,
     gc_max_held_reconnect_sessions = 500\<rparr>"

record reconnect_messages =
  rms_title :: str
  rms_subtitle :: str
  rms_attempt_suffix :: str
  rms_action_bar_frames :: "str list"

definition reconnect_messages_default :: reconnect_messages where
  "reconnect_messages_default =
     \<lparr>rms_title = rc_title reconnect_default, rms_subtitle = rc_subtitle reconnect_default,
      rms_attempt_suffix = rc_attempt_suffix reconnect_default,
      rms_action_bar_frames = rc_action_bar_frames reconnect_default\<rparr>"

record gate_messages =
  gm_kick_message :: str
  gm_metrics_limit_kick_message :: str
  gm_reconnect :: reconnect_messages

definition gate_messages_default :: gate_messages where
  "gate_messages_default =
     \<lparr>gm_kick_message = lit ''&cServer is offline. Please reconnect shortly.'',
      gm_metrics_limit_kick_message =
        lit ''<gradient:#f85032:#e73827><bold>'' @ [0x2726] @ lit '' DATA LIMIT REACHED '' @ [0x2726] @ lit ''</bold></gradient>'' @ [10]
        @ lit ''<gray>This server has used up its data-transfer allowance.</gray>'' @ [10]
        @ lit ''<gradient:#8e9eab:#eef2f3>Please try again later.</gradient>'',
      gm_reconnect = reconnect_messages_default\<rparr>"

section \<open>YAML values\<close>

datatype yaml = Y_Null | Y_Bool bool | Y_Int int | Y_Float f64 | Y_String str | Y_Seq "yaml list"
  | Y_Map "(yaml \<times> yaml) list" | Y_Tagged str yaml

type_synonym mapping = "(yaml \<times> yaml) list"

record externs =
  ex_lc :: "str \<Rightarrow> str"
  ex_interp :: interp
  ex_yaml_text :: "yaml \<Rightarrow> str"
  ex_float_text :: "f64 \<Rightarrow> str"
  ex_int_to_f64 :: "int \<Rightarrow> f64"
  ex_exists :: "str \<Rightarrow> bool"
  ex_read :: "str \<Rightarrow> bytes option"
  ex_resolve :: "str \<Rightarrow> u16 \<Rightarrow> socket_addr list option"

datatype cfg_error = Cfg_Error str | Cfg_Panic

definition of_run :: "'a run \<Rightarrow> cfg_error + 'a" where
  "of_run r = (case r of Panicked \<Rightarrow> Inl Cfg_Panic | Returned x \<Rightarrow> Inr x)"

definition cfg :: "str + 'a \<Rightarrow> cfg_error + 'a" where
  "cfg r = (case r of Inl e \<Rightarrow> Inl (Cfg_Error e) | Inr x \<Rightarrow> Inr x)"

fun collect_results :: "('e + 'a) list \<Rightarrow> 'e + 'a list" where
  "collect_results [] = Inr []"
| "collect_results (r # rs) = bind_result r (\<lambda>x. bind_result (collect_results rs) (\<lambda>xs. Inr (x # xs)))"

fun untag :: "yaml \<Rightarrow> yaml" where
  "untag (Y_Tagged t v) = untag v"
| "untag v = v"

definition as_map :: "yaml \<Rightarrow> mapping option" where
  "as_map v = (case untag v of Y_Map m \<Rightarrow> Some m | _ \<Rightarrow> None)"

definition as_sequence :: "yaml \<Rightarrow> yaml list option" where
  "as_sequence v = (case untag v of Y_Seq s \<Rightarrow> Some s | _ \<Rightarrow> None)"

definition get :: "mapping \<Rightarrow> string \<Rightarrow> yaml option" where
  "get m key = map_of m (Y_String (lit key))"

definition get_str :: "mapping \<Rightarrow> string \<Rightarrow> str option" where
  "get_str m key = Option.bind (get m key) (\<lambda>v. case untag v of Y_String s \<Rightarrow> Some s | _ \<Rightarrow> None)"

definition get_bool :: "mapping \<Rightarrow> string \<Rightarrow> bool option" where
  "get_bool m key = Option.bind (get m key) (\<lambda>v. case untag v of Y_Bool b \<Rightarrow> Some b | _ \<Rightarrow> None)"

definition get_i64 :: "mapping \<Rightarrow> string \<Rightarrow> int option" where
  "get_i64 m key = Option.bind (get m key) (\<lambda>v. case untag v of Y_Int i \<Rightarrow> if is_i64 i then Some i else None | _ \<Rightarrow> None)"

definition get_i32 :: "mapping \<Rightarrow> string \<Rightarrow> int option" where
  "get_i32 m key = map_option wrap_i32 (get_i64 m key)"

definition get_map :: "mapping \<Rightarrow> string \<Rightarrow> mapping option" where
  "get_map m key = Option.bind (get m key) as_map"

definition unwrap_or :: "'a option \<Rightarrow> 'a \<Rightarrow> 'a" where
  "unwrap_or x d = (case x of Some v \<Rightarrow> v | None \<Rightarrow> d)"

definition value_to_string :: "externs \<Rightarrow> yaml \<Rightarrow> str" where
  "value_to_string ex v =
     (case v of
        Y_String s \<Rightarrow> s
      | Y_Int i \<Rightarrow> show_int i
      | Y_Float f \<Rightarrow> ex_float_text ex f
      | Y_Bool b \<Rightarrow> if b then lit ''true'' else lit ''false''
      | _ \<Rightarrow> trim (ex_yaml_text ex v))"

definition string_list :: "externs \<Rightarrow> yaml \<Rightarrow> str list" where
  "string_list ex v =
     (case v of
        Y_Seq s \<Rightarrow> map (value_to_string ex) s
      | Y_String s \<Rightarrow> [s]
      | _ \<Rightarrow> [value_to_string ex v])"

text \<open>A duration under \<open>key\<close>, or the default.\<close>

definition get_duration :: "mapping \<Rightarrow> string \<Rightarrow> int \<Rightarrow> cfg_error + int" where
  "get_duration m key d = (case get_str m key of None \<Rightarrow> Inr d | Some s \<Rightarrow> cfg (parse_duration_millis s))"

section \<open>Sections of the document\<close>

definition strategy_parse :: "(str \<Rightarrow> str) \<Rightarrow> str option \<Rightarrow> cfg_error + strategy" where
  "strategy_parse lc value =
     (case value of
        None \<Rightarrow> Inr Sequential
      | Some v \<Rightarrow>
          let v = to_lowercase lc v in
          if v = lit ''sequential'' then Inr Sequential
          else if v = lit ''random'' then Inr Random
          else if v \<in> {lit ''round-robin'', lit ''round_robin''} then Inr RoundRobin
          else if v \<in> {lit ''least-connections'', lit ''least_connections''} then Inr LeastConnections
          else if v \<in> {lit ''lowest-latency'', lit ''lowest_latency''} then Inr LowestLatency
          else Inl (Cfg_Error (lit ''Unknown load balancing strategy: '' @ v)))"

definition parse_auto_ban :: "mapping option \<Rightarrow> cfg_error + auto_ban_config" where
  "parse_auto_ban c =
     (let d = auto_ban_default in
      case c of
        None \<Rightarrow> Inr d
      | Some c \<Rightarrow>
          bind_result (get_duration c ''violationWindow'' (ab_violation_window_millis d)) (\<lambda>w.
          bind_result (get_duration c ''banDuration'' (ab_ban_duration_millis d)) (\<lambda>b.
          Inr \<lparr>ab_enabled = unwrap_or (get_bool c ''enabled'') (ab_enabled d),
               ab_max_violations = unwrap_or (get_i32 c ''maxViolations'') (ab_max_violations d),
               ab_violation_window_millis = w, ab_ban_duration_millis = b\<rparr>)))"

definition parse_udp_throttle :: "mapping option \<Rightarrow> cfg_error + udp_throttle_config" where
  "parse_udp_throttle c =
     (let d = udp_throttle_default in
      case c of
        None \<Rightarrow> Inr d
      | Some c \<Rightarrow>
          bind_result (get_duration c ''idleTimeout'' (ut_idle_timeout_millis d)) (\<lambda>i.
          bind_result (get_duration c ''noReplyTeardown'' (ut_no_reply_teardown_millis d)) (\<lambda>n.
          Inr \<lparr>ut_max_sessions = unwrap_or (get_i32 c ''maxSessions'') (ut_max_sessions d),
               ut_max_sessions_per_ip = unwrap_or (get_i32 c ''maxSessionsPerIp'') (ut_max_sessions_per_ip d),
               ut_pending_packets_per_session = unwrap_or (get_i32 c ''pendingPacketsPerSession'') (ut_pending_packets_per_session d),
               ut_idle_timeout_millis = i, ut_no_reply_teardown_millis = n\<rparr>)))"

definition parse_connection_throttle :: "mapping option \<Rightarrow> cfg_error + connection_throttle_config" where
  "parse_connection_throttle c =
     (let d = connection_throttle_default in
      case c of
        None \<Rightarrow> Inr d
      | Some c \<Rightarrow>
          bind_result (get_duration c ''window'' (ct_window_millis d)) (\<lambda>w.
          Inr \<lparr>ct_max_connections = unwrap_or (get_i32 c ''maxConnections'') (ct_max_connections d),
               ct_max_per_ip_per_window = unwrap_or (get_i32 c ''maxPerIpPerWindow'') (ct_max_per_ip_per_window d),
               ct_window_millis = w\<rparr>))"

definition parse_udp :: "mapping option \<Rightarrow> bool \<Rightarrow> bool" where
  "parse_udp c default_proxy_protocol =
     (case c of
        None \<Rightarrow> default_proxy_protocol
      | Some c \<Rightarrow> unwrap_or (get_bool c ''proxyProtocol'') default_proxy_protocol)"

definition parse_api :: "mapping option \<Rightarrow> api_config" where
  "parse_api a =
     (let d = api_default in
      case a of
        None \<Rightarrow> d
      | Some a \<Rightarrow>
          \<lparr>api_enabled = unwrap_or (get_bool a ''enabled'') (api_enabled d),
           api_bind = unwrap_or (get_str a ''bind'') (api_bind d),
           api_token = (case get_str a ''token'' of Some s \<Rightarrow> if trim s \<noteq> [] then Some s else api_token d | None \<Rightarrow> api_token d),
           api_players_page_limit = unwrap_or (get_i32 a ''playersPageLimit'') (api_players_page_limit d)\<rparr>)"

definition parse_connection_tracking :: "mapping option \<Rightarrow> cfg_error + connection_tracking_config" where
  "parse_connection_tracking c =
     (let d = connection_tracking_default in
      case c of
        None \<Rightarrow> Inr d
      | Some c \<Rightarrow>
          bind_result (get_duration c ''flushInterval'' (tr_flush_interval_millis d)) (\<lambda>f.
          bind_result (get_duration c ''pruneInterval'' (tr_prune_interval_millis d)) (\<lambda>p.
          Inr \<lparr>tr_enabled = unwrap_or (get_bool c ''enabled'') (tr_enabled d),
               tr_db_path = unwrap_or (get_str c ''dbPath'') (tr_db_path d),
               tr_retention_days = unwrap_or (get_i32 c ''retentionDays'') (tr_retention_days d),
               tr_max_records = unwrap_or (get_i32 c ''maxRecords'') (tr_max_records d),
               tr_queue_capacity = unwrap_or (get_i32 c ''queueCapacity'') (tr_queue_capacity d),
               tr_batch_size = unwrap_or (get_i32 c ''batchSize'') (tr_batch_size d),
               tr_flush_interval_millis = f, tr_prune_interval_millis = p\<rparr>)))"

definition parse_stats_logging :: "mapping option \<Rightarrow> cfg_error + stats_logging_config" where
  "parse_stats_logging c =
     (let d = stats_logging_default in
      case c of
        None \<Rightarrow> Inr d
      | Some c \<Rightarrow>
          bind_result (get_duration c ''interval'' (sl_interval_millis d)) (\<lambda>i.
          Inr \<lparr>sl_enabled = unwrap_or (get_bool c ''enabled'') (sl_enabled d),
               sl_db_path = unwrap_or (get_str c ''dbPath'') (sl_db_path d),
               sl_interval_millis = i,
               sl_retention_days = unwrap_or (get_i32 c ''retentionDays'') (sl_retention_days d),
               sl_max_records = unwrap_or (get_i32 c ''maxRecords'') (sl_max_records d)\<rparr>))"

definition parse_metrics_usage :: "externs \<Rightarrow> mapping \<Rightarrow> nat \<Rightarrow> string \<Rightarrow> cfg_error + route_metric_usage_config" where
  "parse_metrics_usage ex m index key =
     (let bad = Inl (Cfg_Error (lit ''Route #'' @ show_nat index @ lit '' metrics.'' @ lit key @ lit ''.limit is not a byte size'')) in
      case get_map m key of
        None \<Rightarrow> Inr usage_defaulted
      | Some u \<Rightarrow>
          bind_result
            (case get u ''limit'' of
               None \<Rightarrow> Inr (- 1)
             | Some (Y_Int n) \<Rightarrow> if is_i64 n then Inr n else bad
             | Some (Y_Float _) \<Rightarrow> bad
             | Some (Y_String s) \<Rightarrow> cfg (parse_byte_size (ex_lc ex) s)
             | Some _ \<Rightarrow> bad)
            (\<lambda>limit. Inr \<lparr>mu_enabled = unwrap_or (get_bool u ''enabled'') False, mu_limit = limit\<rparr>))"

definition parse_metrics :: "externs \<Rightarrow> mapping option \<Rightarrow> nat \<Rightarrow> cfg_error + route_metrics_config option" where
  "parse_metrics ex m index =
     (case m of
        None \<Rightarrow> Inr None
      | Some m \<Rightarrow>
          bind_result (get_duration m ''resetInterval'' 0) (\<lambda>reset_interval.
          bind_result (parse_metrics_usage ex m index ''upload'') (\<lambda>upload.
          bind_result (parse_metrics_usage ex m index ''download'') (\<lambda>download.
          let config = \<lparr>rm_file = (case get_str m ''file'' of Some s \<Rightarrow> if trim s \<noteq> [] then Some s else None | None \<Rightarrow> None),
                rm_upload = upload, rm_download = download, rm_reset_interval_millis = max reset_interval 0\<rparr> in
          Inr (if metrics_active config then Some config else None)))))"

definition parse_reconnect :: "externs \<Rightarrow> mapping option \<Rightarrow> reconnect_messages \<Rightarrow> cfg_error + reconnect_config" where
  "parse_reconnect ex r message_defaults =
     (let defaults = reconnect_default\<lparr>rc_title := rms_title message_defaults, rc_subtitle := rms_subtitle message_defaults,
            rc_attempt_suffix := rms_attempt_suffix message_defaults,
            rc_action_bar_frames := rms_action_bar_frames message_defaults\<rparr> in
      case r of
        None \<Rightarrow> Inr defaults
      | Some r \<Rightarrow>
          let enabled = unwrap_or (get_bool r ''enabled'') (rc_enabled defaults) in
          bind_result (get_duration r ''retryInterval'' (rc_retry_interval_millis defaults)) (\<lambda>retry.
          bind_result (get_duration r ''maxRetryInterval'' (rc_max_retry_interval_millis defaults)) (\<lambda>max_retry.
          bind_result (get_duration r ''maxWait'' (rc_max_wait_millis defaults)) (\<lambda>max_wait.
          bind_result (get_duration r ''animationInterval'' (rc_animation_interval_millis defaults)) (\<lambda>animation.
          Inr \<lparr>rc_enabled = enabled,
            rc_on_mid_session_drop = unwrap_or (get_bool r ''onMidSessionDrop'') enabled,
            rc_retry_interval_millis = retry, rc_max_retry_interval_millis = max_retry,
            rc_backoff_multiplier = (case Option.bind (get r ''backoffMultiplier'') (\<lambda>v. case untag v of
                 Y_Float f \<Rightarrow> Some f | Y_Int i \<Rightarrow> Some (ex_int_to_f64 ex i) | _ \<Rightarrow> None) of
               Some f \<Rightarrow> f | None \<Rightarrow> rc_backoff_multiplier defaults),
            rc_max_wait_millis = max_wait,
            rc_title = unwrap_or (get_str r ''title'') (rc_title defaults),
            rc_subtitle = unwrap_or (get_str r ''subtitle'') (rc_subtitle defaults),
            rc_attempt_suffix = unwrap_or (get_str r ''attemptSuffix'') (rc_attempt_suffix defaults),
            rc_action_bar_frames = unwrap_or (map_option (string_list ex) (get r ''actionBarFrames'')) (rc_action_bar_frames defaults),
            rc_animation_interval_millis = animation\<rparr>)))))"

fun render_all :: "externs \<Rightarrow> str list \<Rightarrow> str list run" where
  "render_all ex [] = Returned []"
| "render_all ex (f # fs) =
     run_bind (to_legacy_text (ex_interp ex) (ex_lc ex) f) (\<lambda>x. run_bind (render_all ex fs) (\<lambda>xs. Returned (x # xs)))"

definition render_reconnect_text :: "externs \<Rightarrow> reconnect_config \<Rightarrow> reconnect_config run" where
  "render_reconnect_text ex r =
     run_bind (to_legacy_text (ex_interp ex) (ex_lc ex) (rc_title r)) (\<lambda>title.
     run_bind (to_legacy_text (ex_interp ex) (ex_lc ex) (rc_subtitle r)) (\<lambda>subtitle.
     run_bind (to_legacy_text (ex_interp ex) (ex_lc ex) (rc_attempt_suffix r)) (\<lambda>attempt_suffix.
     run_bind (render_all ex (rc_action_bar_frames r)) (\<lambda>frames.
       Returned (r\<lparr>rc_title := title, rc_subtitle := subtitle, rc_attempt_suffix := attempt_suffix,
         rc_action_bar_frames := frames\<rparr>)))))"

section \<open>Favicons\<close>

definition ALPHABET :: string where
  "ALPHABET = ''ABCDEFGHIJKLMNOPQRSTUVWXYZabcdefghijklmnopqrstuvwxyz0123456789+/''"

definition b64 :: "nat \<Rightarrow> nat" where
  "b64 i = of_char (ALPHABET ! i)"

fun base64_encode :: "bytes \<Rightarrow> str" where
  "base64_encode [] = []"
| "base64_encode [b0] = [b64 (unat b0 div 4), b64 (unat b0 mod 4 * 16), ch CHR ''='', ch CHR ''='']"
| "base64_encode [b0, b1] =
     [b64 (unat b0 div 4), b64 (unat b0 mod 4 * 16 + unat b1 div 16), b64 (unat b1 mod 16 * 4), ch CHR ''='']"
| "base64_encode (b0 # b1 # b2 # r) =
     [b64 (unat b0 div 4), b64 (unat b0 mod 4 * 16 + unat b1 div 16),
      b64 (unat b1 mod 16 * 4 + unat b2 div 64), b64 (unat b2 mod 64)] @ base64_encode r"

definition resolve_favicon :: "externs \<Rightarrow> str \<Rightarrow> str option" where
  "resolve_favicon ex value =
     (if take 10 value = lit ''data:image'' then Some value
      else if \<not> ex_exists ex value then None
      else map_option (\<lambda>bytes. lit ''data:image/png;base64,'' @ base64_encode bytes) (ex_read ex value))"

definition parse_fallback :: "externs \<Rightarrow> mapping \<Rightarrow> fallback_status" where
  "parse_fallback ex f =
     (let version_map = get_map f ''version'' in
      \<lparr>fs_motd = unwrap_or (get_str f ''motd'') [],
       fs_version = \<lparr>vi_name = unwrap_or (Option.bind version_map (\<lambda>m. get_str m ''name'')) [],
         vi_protocol = unwrap_or (Option.bind version_map (\<lambda>m. get_i32 m ''protocol'')) (- 1)\<rparr>,
       fs_players = map_option (\<lambda>m. \<lparr>pi_online = unwrap_or (get_i32 m ''online'') 0, pi_max = unwrap_or (get_i32 m ''max'') 0\<rparr>) (get_map f ''players''),
       fs_favicon_data_uri = Option.bind (get_str f ''favicon'') (resolve_favicon ex)\<rparr>)"

definition build_fallback_json :: "interp \<Rightarrow> (str \<Rightarrow> str) \<Rightarrow> fallback_status \<Rightarrow> str run" where
  "build_fallback_json interp lc fallback =
     run_bind (to_json_component interp lc (fs_motd fallback)) (\<lambda>motd.
       Returned (lit ''{'' @ quoted ''version'' @ lit '':{'' @ quoted ''name'' @ lit '':'' @ [34]
         @ escape_json (vi_name (fs_version fallback)) @ [34] @ lit '','' @ quoted ''protocol'' @ lit '':''
         @ show_int (vi_protocol (fs_version fallback)) @ lit ''},''
         @ quoted ''description'' @ lit '':'' @ motd
         @ (case fs_players fallback of None \<Rightarrow> []
            | Some p \<Rightarrow> lit '','' @ quoted ''players'' @ lit '':{'' @ quoted ''online'' @ lit '':'' @ show_int (pi_online p)
                @ lit '','' @ quoted ''max'' @ lit '':'' @ show_int (pi_max p) @ lit ''}'')
         @ (case fs_favicon_data_uri fallback of None \<Rightarrow> []
            | Some f \<Rightarrow> lit '','' @ quoted ''favicon'' @ lit '':'' @ [34] @ escape_json f @ [34])
         @ lit ''}''))"

text \<open>The warnings \<open>validate_params\<close> logs for one list of templates: a reference \<open>$n\<close> to a capture that
  no host pattern of the route has.\<close>

datatype param_warning = No_Wildcards str nat | Beyond_Captures str nat nat

fun param_refs :: "str \<Rightarrow> nat list" where
  "param_refs [] = []"
| "param_refs (c # cs) =
     (let digits = takeWhile is_ascii_digit cs in
      if c = ch CHR ''$'' \<and> digits \<noteq> [] then unwrap_or (parse_usize digits) 0 # param_refs cs else param_refs cs)"

definition max_wildcards :: "(str \<Rightarrow> str) \<Rightarrow> str list \<Rightarrow> nat" where
  "max_wildcards lc hosts = foldr max (map (\<lambda>h. hp_wildcard_count (host_pattern_new lc h)) hosts) 0"

definition validate_params :: "(str \<Rightarrow> str) \<Rightarrow> str list \<Rightarrow> str list \<Rightarrow> param_warning list" where
  "validate_params lc hosts backends =
     (let mx = max_wildcards lc hosts in
      concat (map (\<lambda>backend. concat (map (\<lambda>n.
        if mx = 0 then [No_Wildcards backend n] else if mx < n then [Beyond_Captures backend n mx] else [])
        (param_refs backend))) backends))"

section \<open>Routes and the whole document\<close>

definition parse_route :: "externs \<Rightarrow> mapping \<Rightarrow> nat \<Rightarrow> gate_messages \<Rightarrow> cfg_error + route" where
  "parse_route ex r index messages =
     (case get r ''host'' of
        None \<Rightarrow> Inl (Cfg_Error (lit ''Route #'' @ show_nat index @ lit '' missing host''))
      | Some host_raw \<Rightarrow>
      case get r ''backend'' of
        None \<Rightarrow> Inl (Cfg_Error (lit ''Route #'' @ show_nat index @ lit '' missing backend''))
      | Some backend_raw \<Rightarrow>
          bind_result (strategy_parse (ex_lc ex) (get_str r ''strategy'')) (\<lambda>strategy.
          bind_result (cfg (parse_duration_millis (unwrap_or (get_str r ''cachePingTTL'') (lit ''10s'')))) (\<lambda>ttl.
          bind_result (parse_reconnect ex (get_map r ''reconnect'') (gm_reconnect messages)) (\<lambda>reconnect0.
          bind_result (of_run (render_reconnect_text ex reconnect0)) (\<lambda>reconnect.
          bind_result (parse_metrics ex (get_map r ''metrics'') index) (\<lambda>metrics.
          Inr \<lparr>rt_host_patterns = map (host_pattern_new (ex_lc ex)) (string_list ex host_raw),
            rt_backend_templates = string_list ex backend_raw,
            rt_strategy = strategy,
            rt_cache_ping_ttl_millis = ttl,
            rt_fallback = map_option (parse_fallback ex) (get_map r ''fallback''),
            rt_modify_virtual_host = unwrap_or (get_bool r ''modifyVirtualHost'') False,
            rt_proxy_protocol = unwrap_or (get_bool r ''proxyProtocol'') False,
            rt_priority = unwrap_or (get_i32 r ''priority'') 0,
            rt_reconnect = reconnect,
            rt_kick_message = unwrap_or (get_str r ''kickMessage'') (gm_kick_message messages),
            rt_voicechat_templates = unwrap_or (map_option (string_list ex) (get r ''voicechat'')) [],
            rt_metrics = metrics\<rparr>))))))"

definition parse_routes :: "externs \<Rightarrow> gate_messages \<Rightarrow> yaml list \<Rightarrow> cfg_error + route list" where
  "parse_routes ex messages raw_routes =
     collect_results (map (\<lambda>(index, r). case as_map r of
         None \<Rightarrow> Inl (Cfg_Error (lit ''Route #'' @ show_nat index @ lit '' is not a map''))
       | Some m \<Rightarrow> parse_route ex m index messages) (enumerate 0 raw_routes))"

definition parse_udp_proxy :: "nat \<Rightarrow> yaml \<Rightarrow> cfg_error + udp_proxy_config" where
  "parse_udp_proxy i e =
     (case as_map e of
        None \<Rightarrow> Inl (Cfg_Error (lit ''udpProxy #'' @ show_nat i @ lit '' is not a map''))
      | Some m \<Rightarrow>
      case get_str m ''bind'' of
        None \<Rightarrow> Inl (Cfg_Error (lit ''udpProxy #'' @ show_nat i @ lit '' missing bind''))
      | Some b \<Rightarrow>
      case get_str m ''backend'' of
        None \<Rightarrow> Inl (Cfg_Error (lit ''udpProxy #'' @ show_nat i @ lit '' missing backend''))
      | Some k \<Rightarrow> Inr \<lparr>up_bind = b, up_backend = k, up_log_sessions = unwrap_or (get_bool m ''logSessions'') True\<rparr>)"

definition sort_routes :: "route list \<Rightarrow> route list" where
  "sort_routes routes = sort_key (\<lambda>r. - rt_priority r) routes"

definition load_config :: "externs \<Rightarrow> gate_messages \<Rightarrow> yaml \<Rightarrow> cfg_error + gate_config" where
  "load_config ex messages root =
     (let root_map = unwrap_or (as_map root) [];
          c = unwrap_or (get_map root_map ''config'') root_map;
          d = gate_config_default;
          raw_routes = unwrap_or (Option.bind (get c ''routes'') as_sequence) [];
          proxy_protocol = unwrap_or (get_bool c ''proxyProtocol'') False in
      bind_result (parse_routes ex messages raw_routes) (\<lambda>routes.
      bind_result (case Option.bind (get c ''udpProxy'') as_sequence of
                     None \<Rightarrow> Inr []
                   | Some es \<Rightarrow> collect_results (map (\<lambda>(i, e). parse_udp_proxy i e) (enumerate 0 es))) (\<lambda>udp_proxies.
      bind_result (parse_connection_tracking (get_map c ''connectionTracking'')) (\<lambda>tracking.
      bind_result (parse_stats_logging (get_map c ''statsLogging'')) (\<lambda>stats.
      bind_result (get_duration c ''loginTimeout'' (gc_login_timeout_millis d)) (\<lambda>login_timeout.
      bind_result (parse_connection_throttle (get_map c ''connectionThrottle'')) (\<lambda>throttle.
      bind_result (parse_auto_ban (get_map c ''autoBan'')) (\<lambda>auto_ban.
      bind_result (parse_udp_throttle (get_map c ''udpThrottle'')) (\<lambda>udp_throttle.
      Inr \<lparr>gc_bind = unwrap_or (get_str c ''bind'') (gc_bind d),
        gc_routes = sort_routes routes,
        gc_udp_proxy_protocol = parse_udp (get_map c ''udp'') proxy_protocol,
        gc_udp_proxies = udp_proxies,
        gc_api = parse_api (get_map c ''api''),
        gc_connection_tracking = tracking,
        gc_stats_logging = stats,
        gc_worker_threads = unwrap_or (get_i32 c ''workerThreads'') 0,
        gc_log_connections = unwrap_or (get_bool c ''logConnections'') False,
        gc_log_level = unwrap_or (get_str c ''logLevel'') (gc_log_level d),
        gc_proxy_protocol = proxy_protocol,
        gc_login_timeout_millis = login_timeout,
        gc_max_connections_per_ip = unwrap_or (get_i32 c ''maxConnectionsPerIp'') (gc_max_connections_per_ip d),
        gc_connection_throttle = throttle,
        gc_auto_ban = auto_ban,
        gc_udp_throttle = udp_throttle,
        gc_so_backlog = unwrap_or (get_i32 c ''soBacklog'') (gc_so_backlog d),
        gc_max_held_reconnect_sessions = unwrap_or (get_i32 c ''maxHeldReconnectSessions'') (gc_max_held_reconnect_sessions d)\<rparr>)))))))))"

definition parse_reconnect_messages :: "mapping option \<Rightarrow> reconnect_messages" where
  "parse_reconnect_messages r =
     (let d = reconnect_messages_default in
      case r of
        None \<Rightarrow> d
      | Some r \<Rightarrow>
          \<lparr>rms_title = unwrap_or (get_str r ''title'') (rms_title d),
           rms_subtitle = unwrap_or (get_str r ''subtitle'') (rms_subtitle d),
           rms_attempt_suffix = unwrap_or (get_str r ''attemptSuffix'') (rms_attempt_suffix d),
           rms_action_bar_frames = unwrap_or
             (map_option (List.map_filter (\<lambda>v. case untag v of Y_String s \<Rightarrow> Some s | _ \<Rightarrow> None))
               (Option.bind (get r ''actionBarFrames'') as_sequence)) (rms_action_bar_frames d)\<rparr>)"

definition messages_parse :: "yaml \<Rightarrow> gate_messages" where
  "messages_parse root =
     (let root_map = unwrap_or (as_map root) [];
          m = unwrap_or (get_map root_map ''messages'') root_map;
          d = gate_messages_default in
      \<lparr>gm_kick_message = unwrap_or (get_str m ''kickMessage'') (gm_kick_message d),
       gm_metrics_limit_kick_message = unwrap_or (get_str m ''metricsLimitKickMessage'') (gm_metrics_limit_kick_message d),
       gm_reconnect = parse_reconnect_messages (get_map m ''reconnect'')\<rparr>)"

section \<open>Routing\<close>

definition split_host_port :: "str \<Rightarrow> u16 \<Rightarrow> str \<times> u16" where
  "split_host_port value default_port =
     (case rsplit_once (ch CHR '':'') value of
        Some (h, p) \<Rightarrow> (h, unwrap_or (parse_u16 p) default_port)
      | None \<Rightarrow> (value, default_port))"

definition parse_socket_addr :: "str \<Rightarrow> socket_addr option" where
  "parse_socket_addr s =
     (case rsplit_once (ch CHR '':'') s of
        None \<Rightarrow> None
      | Some (h, p) \<Rightarrow>
          (case (if p \<noteq> [] \<and> list_all is_ascii_digit p then parse_u16 p else None) of
             None \<Rightarrow> None
           | Some port \<Rightarrow>
               (case parse_ipv4 h of
                  Some ip \<Rightarrow> Some (SocketAddr ip port)
                | None \<Rightarrow>
                    if 2 \<le> length h \<and> hd h = ch CHR ''['' \<and> last h = ch CHR '']''
                    then map_option (\<lambda>ip. SocketAddr ip port) (parse_ipv6 (butlast (tl h))) else None)))"

definition parse_host_port :: "externs \<Rightarrow> str \<Rightarrow> u16 \<Rightarrow> str + socket_addr" where
  "parse_host_port ex value default_port =
     bind_result
       (case rsplit_once (ch CHR '':'') value of
          Some (h, p) \<Rightarrow> (case parse_u16 p of None \<Rightarrow> Inl (lit ''invalid port'') | Some p \<Rightarrow> Inr (h, p))
        | None \<Rightarrow> Inr (value, default_port))
       (\<lambda>(host, port).
          let host = (if host = [] then lit ''0.0.0.0'' else host) in
          case parse_socket_addr (host @ lit '':'' @ show_nat (unat port)) of
            Some addr \<Rightarrow> Inr addr
          | None \<Rightarrow>
              (case ex_resolve ex host port of
                 None \<Rightarrow> Inl (lit ''invalid bind address: '' @ value)
               | Some [] \<Rightarrow> Inl (lit ''could not resolve bind address: '' @ value)
               | Some (addr # _) \<Rightarrow> Inr addr))"

definition bind_address :: "externs \<Rightarrow> gate_config \<Rightarrow> str + socket_addr" where
  "bind_address ex c = parse_host_port ex (gc_bind c) 25565"

fun route_match_host :: "(str \<Rightarrow> str) \<Rightarrow> host_pattern list \<Rightarrow> str \<Rightarrow> str list option run" where
  "route_match_host lc [] hostname = Returned None"
| "route_match_host lc (p # ps) hostname =
     run_bind (match_host lc p hostname) (\<lambda>r. case r of Some cs \<Rightarrow> Returned (Some cs) | None \<Rightarrow> route_match_host lc ps hostname)"

text \<open>\<open>resolve\<close> is the answer of the DNS cache for a host and port.\<close>

definition resolve_backend_address :: "(str \<Rightarrow> u16 \<Rightarrow> dns_result) \<Rightarrow> str \<Rightarrow> dns_result" where
  "resolve_backend_address resolve value = (case split_host_port value 25565 of (host, port) \<Rightarrow> resolve host port)"

fun resolve_backends :: "(str \<Rightarrow> u16 \<Rightarrow> dns_result) \<Rightarrow> str list \<Rightarrow> str list \<Rightarrow> (dns_resolve_error + socket_addr list) run" where
  "resolve_backends resolve [] captures = Returned (Inr [])"
| "resolve_backends resolve (t # ts) captures =
     run_bind (substitute_params t captures) (\<lambda>s.
       case resolve_backend_address resolve s of
         Inl e \<Rightarrow> Returned (Inl e)
       | Inr a \<Rightarrow> run_bind (resolve_backends resolve ts captures) (\<lambda>r. Returned (bind_result r (\<lambda>as. Inr (a # as)))))"

definition resolve_voicechat :: "(str \<Rightarrow> u16 \<Rightarrow> dns_result) \<Rightarrow> route \<Rightarrow> str list \<Rightarrow> (dns_resolve_error + socket_addr option) run" where
  "resolve_voicechat resolve r captures =
     (case rt_voicechat_templates r of
        [] \<Rightarrow> Returned (Inr None)
      | t # _ \<Rightarrow> run_bind (substitute_params t captures) (\<lambda>s.
          Returned (bind_result (resolve_backend_address resolve s) (\<lambda>a. Inr (Some a)))))"

definition needs_blocking_resolution :: "dns_cache \<Rightarrow> str \<Rightarrow> bool" where
  "needs_blocking_resolution dns value \<longleftrightarrow>
     (case split_host_port value 25565 of (host, port) \<Rightarrow> \<not> will_resolve_without_blocking host port dns)"

fun backends_need_blocking_resolution :: "dns_cache \<Rightarrow> str list \<Rightarrow> str list \<Rightarrow> bool run" where
  "backends_need_blocking_resolution dns [] captures = Returned False"
| "backends_need_blocking_resolution dns (t # ts) captures =
     run_bind (substitute_params t captures) (\<lambda>s.
       if needs_blocking_resolution dns s then Returned True
       else backends_need_blocking_resolution dns ts captures)"

definition route_eq :: "route \<Rightarrow> route \<Rightarrow> bool" where
  "route_eq a b \<longleftrightarrow> list_all2 host_pattern_eq (rt_host_patterns a) (rt_host_patterns b)
     \<and> rt_backend_templates a = rt_backend_templates b \<and> rt_strategy a = rt_strategy b \<and> rt_priority a = rt_priority b"

definition warm_static_backends :: "route list \<Rightarrow> dns_task list" where
  "warm_static_backends routes =
     concat (map (\<lambda>r. concat (map (\<lambda>t.
       if ch CHR ''$'' \<in> set t then [] else (case split_host_port t 25565 of (host, port) \<Rightarrow> warm_start host port))
       (rt_backend_templates r @ rt_voicechat_templates r))) routes)"

section \<open>Base 64\<close>

text \<open>A reference decoder for padded base 64.\<close>

definition unb64 :: "nat \<Rightarrow> nat" where
  "unb64 c = (if 65 \<le> c \<and> c \<le> 90 then c - 65 else if 97 \<le> c \<and> c \<le> 122 then c - 71
     else if 48 \<le> c \<and> c \<le> 57 then c + 4 else if c = 43 then 62 else 63)"

fun base64_decode :: "str \<Rightarrow> bytes" where
  "base64_decode (a # b # c # d # r) =
     (if c = ch CHR ''='' then [byte_of (unb64 a * 4 + unb64 b div 16)]
      else if d = ch CHR ''='' then [byte_of (unb64 a * 4 + unb64 b div 16), byte_of (unb64 b * 16 + unb64 c div 4)]
      else [byte_of (unb64 a * 4 + unb64 b div 16), byte_of (unb64 b * 16 + unb64 c div 4), byte_of (unb64 c * 64 + unb64 d)]
           @ base64_decode r)"
| "base64_decode _ = []"

lemma b64_table: "map (\<lambda>c. unb64 (of_char c)) ALPHABET = [0..<64]" "list_all (\<lambda>c. of_char c \<noteq> (61 :: nat)) ALPHABET"
  by (simp_all add: ALPHABET_def unb64_def upt_rec [of _ "64"])

lemma unb64_b64 [simp]:
  assumes "i < 64"
  shows "unb64 (b64 i) = i" "b64 i \<noteq> 61"
proof -
  have len: "length ALPHABET = 64" by (simp add: ALPHABET_def)
  then have "unb64 (b64 i) = map (\<lambda>c. unb64 (of_char c)) ALPHABET ! i" using assms by (simp add: b64_def)
  then show "unb64 (b64 i) = i" using assms by (simp add: b64_table(1))
  show "b64 i \<noteq> 61" using b64_table(2) len assms by (simp add: b64_def list_all_length)
qed

lemma byte_lt: "unat (b :: byte) < 256"
proof -
  have "unat b < 2 ^ LENGTH(8)" by (rule unsigned_less)
  then show ?thesis by simp
qed

lemma byte_of_eq: "n mod 256 = unat b \<Longrightarrow> byte_of n = b"
  by (metis unat_byte_of unsigned_word_eqI)

lemma sextets:
  fixes b0 b1 b2 :: byte
  shows "unat b0 div 4 < 64" "unat b0 mod 4 * 16 + unat b1 div 16 < 64" "unat b1 mod 16 * 4 + unat b2 div 64 < 64"
    "unat b2 mod 64 < 64" "unat b0 mod 4 * 16 < 64" "unat b1 mod 16 * 4 < 64"
proof -
  have "unat b0 mod 4 \<le> 3" "unat b1 mod 16 \<le> 15" by (simp_all flip: less_Suc_eq_le)
  moreover have "unat b1 div 16 < 16" "unat b2 div 64 < 4" using byte_lt [of b1] byte_lt [of b2] by (simp_all add: less_mult_imp_div_less)
  ultimately show "unat b0 mod 4 * 16 + unat b1 div 16 < 64" "unat b1 mod 16 * 4 + unat b2 div 64 < 64"
    "unat b0 mod 4 * 16 < 64" "unat b1 mod 16 * 4 < 64" by linarith+
  show "unat b0 div 4 < 64" "unat b2 mod 64 < 64" using byte_lt [of b0] by (simp_all add: less_mult_imp_div_less)
qed

lemma regroup:
  fixes b0 b1 b2 :: byte
  shows "byte_of (unat b0 div 4 * 4 + (unat b0 mod 4 * 16 + unat b1 div 16) div 16) = b0"
    "byte_of ((unat b0 mod 4 * 16 + unat b1 div 16) * 16 + (unat b1 mod 16 * 4 + unat b2 div 64) div 4) = b1"
    "byte_of ((unat b1 mod 16 * 4 + unat b2 div 64) * 64 + unat b2 mod 64) = b2"
proof -
  have d1: "unat b1 div 16 < 16" and d2: "unat b2 div 64 < 4"
    using byte_lt [of b1] byte_lt [of b2] by (simp_all add: less_mult_imp_div_less)
  have "(unat b0 mod 4 * 16 + unat b1 div 16) div 16 = unat b0 mod 4" using d1 by simp
  then show "byte_of (unat b0 div 4 * 4 + (unat b0 mod 4 * 16 + unat b1 div 16) div 16) = b0"
    using byte_lt [of b0] by (intro byte_of_eq) simp
  have "(unat b1 mod 16 * 4 + unat b2 div 64) div 4 = unat b1 mod 16" using d2 by simp
  moreover have "((x * 16 + unat b1 div 16) * 16 + unat b1 mod 16) mod 256 = unat b1" for x
  proof -
    have "(x * 16 + unat b1 div 16) * 16 + unat b1 mod 16 = unat b1 + x * 256"
      by (simp add: algebra_simps)
    then show ?thesis using byte_lt [of b1] by simp
  qed
  ultimately show "byte_of ((unat b0 mod 4 * 16 + unat b1 div 16) * 16 + (unat b1 mod 16 * 4 + unat b2 div 64) div 4) = b1"
    by (intro byte_of_eq) simp
  have "(x * 4 + unat b2 div 64) * 64 + unat b2 mod 64 = unat b2 + x * 256" for x
    by (simp add: algebra_simps)
  then show "byte_of ((unat b1 mod 16 * 4 + unat b2 div 64) * 64 + unat b2 mod 64) = b2"
    using byte_lt [of b2] by (intro byte_of_eq) simp
qed

lemma base64_decode_encode: "base64_decode (base64_encode bs) = bs"
proof (induction bs rule: base64_encode.induct)
  case (2 b0)
  then show ?case using regroup(1) [of b0 0] by (simp add: sextets)
next
  case (3 b0 b1)
  then show ?case using regroup(1) [of b0 b1] regroup(2) [of b0 b1 0] by (simp add: sextets)
next
  case (4 b0 b1 b2 r)
  then show ?case using regroup(1) [of b0 b1] regroup(2) [of b0 b1 b2] regroup(3) [of b1 b2] by (simp add: sextets)
qed simp

section \<open>Lemmas on the loader\<close>

lemma unwrap_or_simps [simp]: "unwrap_or None d = d" "unwrap_or (Some v) d = v"
  by (simp_all add: unwrap_or_def)

text \<open>The section of a document the settings are read from, and its raw route entries.\<close>

definition config_section :: "yaml \<Rightarrow> mapping" where
  "config_section root = (let root_map = unwrap_or (as_map root) [] in unwrap_or (get_map root_map ''config'') root_map)"

definition raw_routes_of :: "mapping \<Rightarrow> yaml list" where
  "raw_routes_of c = unwrap_or (Option.bind (get c ''routes'') as_sequence) []"

lemma load_config_parses:
  "load_config ex ms root = Inr g \<Longrightarrow>
     \<exists>rs. parse_routes ex ms (raw_routes_of (config_section root)) = Inr rs \<and> gc_routes g = sort_routes rs"
  by (auto simp: load_config_def Let_def bind_result_Inr_iff raw_routes_of_def config_section_def)

lemma sort_routes_sorted: "sorted_wrt (\<lambda>a b. rt_priority b \<le> rt_priority a) (sort_routes rs)"
proof -
  have "sorted (map (\<lambda>r. - rt_priority r) (sort_routes rs))" by (simp add: sort_routes_def)
  then show ?thesis by (simp add: sorted_map sorted_wrt_map)
qed

lemma sort_routes_stable: "filter (\<lambda>r. rt_priority r = p) (sort_routes rs) = filter (\<lambda>r. rt_priority r = p) rs"
proof -
  have eq: "(\<lambda>r. rt_priority r = p) = (\<lambda>r. - rt_priority r = - p)" by auto
  have "filter (\<lambda>r. - rt_priority r = - p) (sort_routes rs) = filter (\<lambda>r. - rt_priority r = - p) rs"
    unfolding sort_routes_def by (rule sort_key_stable)
  then show ?thesis by (simp only: eq)
qed

lemma mset_sort_routes [simp]: "mset (sort_routes rs) = mset rs"
  by (simp add: sort_routes_def)

lemma collect_results_length: "collect_results rs = Inr xs \<Longrightarrow> length xs = length rs"
  by (induction rs arbitrary: xs) (auto simp: bind_result_Inr_iff)

lemma get_Nil [simp]: "get [] k = None" "get_str [] k = None" "get_bool [] k = None" "get_i64 [] k = None"
  "get_i32 [] k = None" "get_map [] k = None" "get_duration [] k d = Inr d"
  by (simp_all add: get_def get_str_def get_bool_def get_i64_def get_i32_def get_map_def get_duration_def)

lemma parse_metrics_usage_limit:
  assumes "parse_metrics_usage ex m index key = Inr u"
  shows "is_i64 (mu_limit u)"
proof -
  have size: "parse_byte_size lc s = Inr n \<Longrightarrow> is_i64 n" for lc s n
    by (auto simp: parse_byte_size_def Let_def is_i64_def split: if_splits option.splits)
  show ?thesis
    using assms
    by (auto simp: parse_metrics_usage_def usage_defaulted_def is_i64_def [of "- 1"] Let_def cfg_def bind_result_Inr_iff
        split: option.splits yaml.splits if_splits sum.splits dest: size)
qed

text \<open>The concrete documents of the witnesses.\<close>

definition demo_externs :: externs where
  "demo_externs = \<lparr>ex_lc = (\<lambda>s. s), ex_interp = (\<lambda>_ _ _. Rgb 0 0 0), ex_yaml_text = (\<lambda>_. []), ex_float_text = (\<lambda>_. []),
     ex_int_to_f64 = of_int, ex_exists = (\<lambda>p. p = lit ''icon.png''), ex_read = (\<lambda>p. Some [137, 80, 78, 71]),
     ex_resolve = (\<lambda>_ _. None)\<rparr>"

definition demo_messages :: gate_messages where
  "demo_messages = \<lparr>gm_kick_message = [], gm_metrics_limit_kick_message = [],
     gm_reconnect = \<lparr>rms_title = [], rms_subtitle = [], rms_attempt_suffix = [], rms_action_bar_frames = []\<rparr>\<rparr>"

definition demo_document :: yaml where
  "demo_document = Y_Map [(Y_String (lit ''config''), Y_Map [(Y_String (lit ''routes''), Y_Seq
     [Y_Map [(Y_String (lit ''host''), Y_String (lit ''a'')), (Y_String (lit ''backend''), Y_String (lit ''x''))],
      Y_Map [(Y_String (lit ''host''), Y_String (lit ''b'')), (Y_String (lit ''backend''), Y_String (lit ''y'')),
             (Y_String (lit ''priority''), Y_Int 5)]])])]"

lemma to_legacy_text_Nil [simp]: "to_legacy_text interp lc [] = Returned []"
  by (simp add: to_legacy_text_def parse_runs_def parse_nodes.simps flush_def)

lemma default_ping_ttl: "parse_duration_millis (lit ''10s'') = Inr 10000"
  by (simp add: parse_duration_millis_def lit_def trim_def trim_end_by_def is_whitespace_def is_amount_char_def
      is_ascii_digit_def parse_i64_def parse_signed_def digits_value_def duration_unit_def wrap_i64_def Let_def)

lemma demo_route:
  assumes "get m ''host'' = Some (Y_String h)" and "get m ''backend'' = Some (Y_String b)"
    and "get m ''reconnect'' = None" and "get m ''metrics'' = None" and "get m ''strategy'' = None"
    and "get m ''cachePingTTL'' = None"
  shows "\<exists>r. parse_route demo_externs m i demo_messages = Inr r \<and> rt_priority r = unwrap_or (get_i32 m ''priority'') 0"
  using assms
  by (simp add: parse_route_def strategy_parse_def get_str_def get_map_def parse_reconnect_def demo_messages_def Let_def
      render_reconnect_text_def run_bind_def of_run_def parse_metrics_def cfg_def default_ping_ttl)

lemma demo_loads: "\<exists>c. load_config demo_externs demo_messages demo_document = Inr c \<and> map rt_priority (gc_routes c) = [5, 0]"
proof -
  let ?a = "[(Y_String (lit ''host''), Y_String (lit ''a'')), (Y_String (lit ''backend''), Y_String (lit ''x''))]"
  let ?b = "[(Y_String (lit ''host''), Y_String (lit ''b'')), (Y_String (lit ''backend''), Y_String (lit ''y'')),
             (Y_String (lit ''priority''), Y_Int 5)]"
  obtain ra where ra: "parse_route demo_externs ?a 0 demo_messages = Inr ra" "rt_priority ra = 0"
    using demo_route [of ?a "lit ''a''" "lit ''x''" 0] by (auto simp: get_def lit_def get_i32_def get_i64_def)
  obtain rb where rb: "parse_route demo_externs ?b 1 demo_messages = Inr rb" "rt_priority rb = 5"
    using demo_route [of ?b "lit ''b''" "lit ''y''" 1]
    by (auto simp: get_def lit_def get_i32_def get_i64_def is_i64_def wrap_i32_def)
  have "parse_routes demo_externs demo_messages [Y_Map ?a, Y_Map ?b] = Inr [ra, rb]"
    using ra rb by (simp add: parse_routes_def as_map_def)
  then show ?thesis
    using ra rb
    by (simp add: load_config_def demo_document_def as_map_def as_sequence_def get_map_def get_def lit_def
        get_str_def get_bool_def get_i32_def get_i64_def get_duration_def Let_def parse_udp_def parse_api_def
        parse_connection_tracking_def parse_stats_logging_def parse_connection_throttle_def parse_auto_ban_def
        parse_udp_throttle_def sort_routes_def)
qed

section \<open>Properties\<close>

text \<open>Routing order. After a successful load the routes stand in descending priority, they are
  exactly the routes of the document, and routes of equal priority keep their document order.\<close>

theorem load_config_route_order:
  assumes "load_config ex messages root = Inr c"
  shows "\<exists>routes. parse_routes ex messages (raw_routes_of (config_section root)) = Inr routes
      \<and> length routes = length (raw_routes_of (config_section root))
      \<and> sorted_wrt (\<lambda>a b. rt_priority b \<le> rt_priority a) (gc_routes c)
      \<and> mset (gc_routes c) = mset routes
      \<and> (\<forall>p. filter (\<lambda>r. rt_priority r = p) (gc_routes c) = filter (\<lambda>r. rt_priority r = p) routes)"
proof -
  obtain routes where r: "parse_routes ex messages (raw_routes_of (config_section root)) = Inr routes" "gc_routes c = sort_routes routes"
    using load_config_parses [OF assms] by auto
  have "length routes = length (raw_routes_of (config_section root))"
    using r(1) by (auto simp: parse_routes_def dest: collect_results_length)
  then show ?thesis using r sort_routes_sorted sort_routes_stable by auto
qed

theorem load_config_route_order_witness:
  "\<exists>c. load_config demo_externs demo_messages demo_document = Inr c \<and> map rt_priority (gc_routes c) = [5, 0]
     \<and> sorted_wrt (\<lambda>a b. rt_priority b \<le> rt_priority a) (gc_routes c)"
proof -
  obtain c where c: "load_config demo_externs demo_messages demo_document = Inr c" "map rt_priority (gc_routes c) = [5, 0]"
    using demo_loads by (elim exE conjE)
  have "sorted_wrt (\<lambda>a b. rt_priority b \<le> rt_priority a) (gc_routes c)"
    using load_config_route_order [OF c(1)] by (elim exE conjE)
  then show ?thesis using c by (intro exI [of _ c] conjI)
qed

text \<open>An empty document, or one that is not a mapping, loads to the built-in defaults, and an empty
  messages document to the built-in messages.\<close>

theorem empty_documents_are_defaults:
  "load_config ex messages (Y_Map []) = Inr gate_config_default
   \<and> load_config ex messages Y_Null = Inr gate_config_default
   \<and> messages_parse Y_Null = gate_messages_default"
proof -
  have "load_config ex messages (Y_Map []) = Inr gate_config_default"
    by (simp add: load_config_def as_map_def Let_def parse_routes_def parse_udp_def parse_api_def
        parse_connection_tracking_def parse_stats_logging_def parse_connection_throttle_def parse_auto_ban_def
        parse_udp_throttle_def gate_config_default_def sort_routes_def)
  moreover have "load_config ex messages Y_Null = load_config ex messages (Y_Map [])"
    by (simp add: load_config_def as_map_def)
  moreover have "messages_parse Y_Null = gate_messages_default"
    by (simp add: messages_parse_def as_map_def parse_reconnect_messages_def Let_def gate_messages_default_def)
  ultimately show ?thesis by simp
qed

text \<open>A metrics section that is kept counts something, its limits are 64-bit values and its reset
  interval is never negative, whatever the document says.\<close>

theorem metrics_config_sound:
  assumes "parse_metrics ex m index = Inr (Some c)"
  shows "metrics_active c \<and> 0 \<le> rm_reset_interval_millis c
    \<and> is_i64 (mu_limit (rm_upload c)) \<and> is_i64 (mu_limit (rm_download c)) \<and> rm_file c \<noteq> Some []"
proof -
  obtain m' reset up down where m: "parse_metrics_usage ex m' index ''upload'' = Inr up"
      "parse_metrics_usage ex m' index ''download'' = Inr down" "metrics_active c"
      "c = \<lparr>rm_file = (case get_str m' ''file'' of Some s \<Rightarrow> if trim s \<noteq> [] then Some s else None | None \<Rightarrow> None),
            rm_upload = up, rm_download = down, rm_reset_interval_millis = max reset 0\<rparr>"
    using assms by (auto simp: parse_metrics_def Let_def bind_result_Inr_iff split: option.splits if_splits)
  have "trim [] = []" by (simp add: trim_def trim_end_by_def)
  then have "rm_file c \<noteq> Some []" by (auto simp: m(4) split: option.splits)
  moreover have "is_i64 (mu_limit up)" "is_i64 (mu_limit down)" using m(1,2) parse_metrics_usage_limit by blast+
  ultimately show ?thesis using m(3,4) by simp
qed

theorem metrics_config_sound_witness:
  "\<exists>c. parse_metrics demo_externs
        (Some [(Y_String (lit ''upload''), Y_Map [(Y_String (lit ''enabled''), Y_Bool True)]),
               (Y_String (lit ''resetInterval''), Y_String (lit ''-5s''))]) 0 = Inr (Some c)
     \<and> metrics_active c \<and> 0 \<le> rm_reset_interval_millis c"
proof -
  let ?m = "Some [(Y_String (lit ''upload''), Y_Map [(Y_String (lit ''enabled''), Y_Bool True)]),
               (Y_String (lit ''resetInterval''), Y_String (lit ''-5s''))]"
  have "\<exists>c. parse_metrics demo_externs ?m 0 = Inr (Some c)"
    by (intro exI [where x = "\<lparr>rm_file = None, rm_upload = \<lparr>mu_enabled = True, mu_limit = - 1\<rparr>,
          rm_download = usage_defaulted, rm_reset_interval_millis = 0\<rparr>"]) code_simp
  then show ?thesis using metrics_config_sound [of demo_externs ?m 0] by blast
qed

text \<open>A favicon file is embedded faithfully. Decoding the base 64 part of the data URI of an existing
  file gives the bytes of the file; a missing file gives no favicon.\<close>

theorem favicon_embeds_file:
  assumes "take 10 path \<noteq> lit ''data:image''"
  shows "(ex_exists ex path \<longrightarrow> (\<forall>data. ex_read ex path = Some data \<longrightarrow>
            (\<exists>uri. resolve_favicon ex path = Some (lit ''data:image/png;base64,'' @ uri) \<and> base64_decode uri = data)))
    \<and> (\<not> ex_exists ex path \<longrightarrow> resolve_favicon ex path = None)"
  using assms by (simp add: resolve_favicon_def base64_decode_encode)

theorem favicon_embeds_file_witness:
  "\<exists>uri. resolve_favicon demo_externs (lit ''icon.png'') = Some (lit ''data:image/png;base64,'' @ uri)
     \<and> base64_decode uri = [137, 80, 78, 71]"
proof -
  have "take 10 (lit ''icon.png'') \<noteq> lit ''data:image''" by (simp add: lit_def)
  from favicon_embeds_file [OF this, of demo_externs] show ?thesis by (simp add: demo_externs_def)
qed

text \<open>A backend written as host and port is split back into them, also for a bracketed IPv6 host; a
  host without a colon gets the default port.\<close>

theorem split_host_port_round_trip:
  "split_host_port (host @ lit '':'' @ show_nat (unat port)) d = (host, port)
   \<and> (ch CHR '':'' \<notin> set host \<longrightarrow> split_host_port host d = (host, d))"
proof -
  have "ch CHR '':'' \<notin> set (show_nat (unat port))" by (rule show_nat_not) (simp add: is_ascii_digit_def)
  then have "rsplit_once 58 (host @ 58 # show_nat (unat port)) = Some (host, show_nat (unat port))" by simp
  moreover have "ch CHR '':'' \<notin> set host \<Longrightarrow> rsplit_once 58 host = None" by (simp add: rsplit_once_def)
  ultimately show ?thesis by (simp add: split_host_port_def lit_def)
qed

theorem split_host_port_round_trip_witness:
  "split_host_port (lit ''lobby'') 25565 = (lit ''lobby'', 25565)"
  using split_host_port_round_trip [of "lit ''lobby''" 1 25565] by (simp add: lit_def)

end
