(* ===== verification/Route_State.thy ===== *)
theory Route_State
  imports Gate_Config Minecraft_Protocol "HOL-Library.List_Lexorder"
begin

text \<open>
  The live state of \<open>src/state.rs\<close>, the registry of connected players and the runtime counters of a route,
  and the ordering of a route's backends, \<open>src/net/backend_selector.rs\<close>.

  A hash map's iteration order is the order of its list. Every operation on the runtime is one step
  under its mutex; \<open>Instant::now()\<close> is an argument, read once per ordering. The random shuffle of the
  \<open>rand\<close> library is a parameter. Two sessions of the same player differ in the connection they
  belong to, \<open>ps_conn\<close>, which stands for the identity of the shared pointer.
\<close>

section \<open>Connected players\<close>

datatype session_action = Disconnect | KickWithMessage str | Transfer str u16

record player_session =
  ps_conn :: nat
  ps_name :: str
  ps_uuid :: uuid
  ps_host :: str
  ps_remote_address :: str
  ps_backend :: "socket_addr option"
  ps_connected_at_millis :: int
  ps_protocol_version :: int
  ps_compression_threshold :: int
  ps_encrypted :: bool
  ps_login_attempts :: nat
  ps_packets_sent :: int
  ps_packets_received :: int
  ps_bytes_sent :: int
  ps_bytes_received :: int
  ps_pending_action :: session_action

type_synonym player_sessions = "(uuid, player_session) hmap"

definition sessions_put :: "player_session \<Rightarrow> player_sessions \<Rightarrow> player_sessions" where
  "sessions_put s m = hm_insert (ps_uuid s) s m"

definition sessions_remove :: "uuid \<Rightarrow> player_sessions \<Rightarrow> player_sessions" where
  "sessions_remove u m = hm_remove u m"

definition sessions_all :: "(str \<Rightarrow> str) \<Rightarrow> player_sessions \<Rightarrow> player_session list" where
  "sessions_all lc m = sort_key (\<lambda>s. to_lowercase lc (ps_name s)) (map snd m)"

definition find_by_name :: "str \<Rightarrow> player_sessions \<Rightarrow> player_session option" where
  "find_by_name name m = List.find (\<lambda>s. eq_ignore_ascii_case (ps_name s) name) (map snd m)"

definition online_by_host :: "player_sessions \<Rightarrow> (str, nat) hmap" where
  "online_by_host m =
     fold (\<lambda>s counts. hm_insert (ps_host s) (unwrap_or (hm_get counts (ps_host s)) 0 + 1) counts) (map snd m) []"

definition sessions_len :: "player_sessions \<Rightarrow> nat" where
  "sessions_len m = length m"

section \<open>The runtime of a route\<close>

record route_runtime =
  rr_active_connections :: "(socket_addr, int) hmap"
  rr_latencies :: "(socket_addr, int \<times> instant) hmap"
  rr_round_robin_counter :: int
  rr_status_dials :: "(socket_addr, int) hmap"

definition LATENCY_TTL :: duration where "LATENCY_TTL = from_secs (3 * 60)"

definition MAX_CONCURRENT_STATUS_DIALS :: int where "MAX_CONCURRENT_STATUS_DIALS = 8"

definition runtime_default :: route_runtime where
  "runtime_default = \<lparr>rr_active_connections = [], rr_latencies = [], rr_round_robin_counter = 0, rr_status_dials = []\<rparr>"

definition active_connections_of :: "socket_addr \<Rightarrow> route_runtime \<Rightarrow> int" where
  "active_connections_of addr r = unwrap_or (hm_get (rr_active_connections r) addr) 0"

definition record_connect_opened :: "socket_addr \<Rightarrow> route_runtime \<Rightarrow> route_runtime" where
  "record_connect_opened addr r =
     r\<lparr>rr_active_connections := hm_insert addr (unwrap_or (hm_get (rr_active_connections r) addr) 0 + 1) (rr_active_connections r)\<rparr>"

definition record_connect_closed :: "socket_addr \<Rightarrow> route_runtime \<Rightarrow> route_runtime" where
  "record_connect_closed addr r =
     (case hm_get (rr_active_connections r) addr of
        None \<Rightarrow> r
      | Some n \<Rightarrow>
          r\<lparr>rr_active_connections :=
            if n - 1 \<le> 0 then hm_remove addr (rr_active_connections r)
            else hm_insert addr (n - 1) (rr_active_connections r)\<rparr>)"

definition record_latency :: "instant \<Rightarrow> socket_addr \<Rightarrow> int \<Rightarrow> route_runtime \<Rightarrow> route_runtime" where
  "record_latency now addr millis r =
     r\<lparr>rr_latencies := hm_retain (\<lambda>_ (_, measured_at). now - measured_at \<le> LATENCY_TTL)
         (hm_insert addr (millis, now) (rr_latencies r))\<rparr>"

definition latency_of :: "instant \<Rightarrow> socket_addr \<Rightarrow> route_runtime \<Rightarrow> int option \<times> route_runtime" where
  "latency_of now addr r =
     (case hm_get (rr_latencies r) addr of
        None \<Rightarrow> (None, r)
      | Some (millis, measured_at) \<Rightarrow>
          if now - measured_at > LATENCY_TTL
          then (None, r\<lparr>rr_latencies := hm_remove addr (rr_latencies r)\<rparr>)
          else (Some millis, r))"

definition try_begin_status_dial :: "socket_addr \<Rightarrow> int \<Rightarrow> route_runtime \<Rightarrow> bool \<times> route_runtime" where
  "try_begin_status_dial addr mx r =
     (let dials = rr_status_dials r; n = unwrap_or (hm_get dials addr) 0 + 1 in
      if n > mx then
        let n = n - 1 in
        (False, r\<lparr>rr_status_dials := if n \<le> 0 then hm_remove addr dials else hm_insert addr n dials\<rparr>)
      else (True, r\<lparr>rr_status_dials := hm_insert addr n dials\<rparr>))"

definition end_status_dial :: "socket_addr \<Rightarrow> route_runtime \<Rightarrow> route_runtime" where
  "end_status_dial addr r =
     (let dials = rr_status_dials r in
      case hm_get dials addr of
        None \<Rightarrow> r
      | Some n \<Rightarrow>
          r\<lparr>rr_status_dials := if n - 1 \<le> 0 then hm_remove addr dials else hm_insert addr (n - 1) dials\<rparr>)"

section \<open>Ordering the backends\<close>

definition latency_key :: "instant \<Rightarrow> route_runtime \<Rightarrow> socket_addr \<Rightarrow> int" where
  "latency_key now r addr = unwrap_or (fst (latency_of now addr r)) (2 ^ 63 - 1)"

definition order_backends ::
  "(socket_addr list \<Rightarrow> socket_addr list) \<Rightarrow> instant \<Rightarrow> strategy \<Rightarrow> route_runtime \<Rightarrow> socket_addr list
     \<Rightarrow> socket_addr list \<times> route_runtime" where
  "order_backends shuffle now strategy r backends =
     (if length backends \<le> 1 then (backends, r)
      else case strategy of
        Sequential \<Rightarrow> (backends, r)
      | Random \<Rightarrow> (shuffle backends, r)
      | RoundRobin \<Rightarrow>
          (let counter = rr_round_robin_counter r;
               start = nat (counter mod int (length backends)) in
           (drop start backends @ take start backends, r\<lparr>rr_round_robin_counter := wrap_i64 (counter + 1)\<rparr>))
      | LeastConnections \<Rightarrow> (sort_key (\<lambda>addr. active_connections_of addr r) backends, r)
      | LowestLatency \<Rightarrow>
          (sort_key (latency_key now r) backends, fold (\<lambda>addr r. snd (latency_of now addr r)) backends r))"

section \<open>Status dials as slots\<close>

definition dials_of :: "route_runtime \<Rightarrow> socket_addr \<Rightarrow> int" where
  "dials_of r addr = unwrap_or (hm_get (rr_status_dials r) addr) 0"

definition dials_ok :: "route_runtime \<Rightarrow> bool" where
  "dials_ok r \<longleftrightarrow> (\<forall>addr n. hm_get (rr_status_dials r) addr = Some n \<longrightarrow> 0 < n)"

lemma dials_nonneg: "dials_ok r \<Longrightarrow> 0 \<le> dials_of r addr"
  by (cases "hm_get (rr_status_dials r) addr") (auto simp: dials_ok_def dials_of_def less_imp_le)

lemma try_begin_status_dial_spec:
  assumes "dials_ok r" and "try_begin_status_dial addr mx r = (b, r')"
  shows "dials_ok r' \<and> b = (dials_of r addr < mx) \<and> dials_of r' j = dials_of r j + (if b \<and> j = addr then 1 else 0)"
proof (cases "hm_get (rr_status_dials r) addr")
  case None
  then show ?thesis using assms by (auto simp: try_begin_status_dial_def dials_of_def dials_ok_def Let_def split: if_splits)
next
  case (Some a)
  then have "1 \<le> a" using assms(1) by (fastforce simp: dials_ok_def)
  with Some show ?thesis
    using assms by (auto simp: try_begin_status_dial_def dials_of_def dials_ok_def Let_def split: if_splits)
qed

lemma end_status_dial_spec:
  assumes "dials_ok r" and "0 < dials_of r addr"
  shows "dials_ok (end_status_dial addr r) \<and> dials_of (end_status_dial addr r) j = dials_of r j - (if j = addr then 1 else 0)"
proof (cases "hm_get (rr_status_dials r) addr")
  case (Some a)
  then have "1 \<le> a" using assms(1) by (fastforce simp: dials_ok_def)
  with Some show ?thesis using assms by (auto simp: end_status_dial_def dials_of_def dials_ok_def Let_def)
qed (use assms(2) in \<open>simp add: dials_of_def\<close>)

interpretation status_dials: slot_table dials_of "\<lambda>r addr mx. try_begin_status_dial addr mx r"
    "\<lambda>r addr. end_status_dial addr r" dials_ok
proof
  fix r :: route_runtime and k mx r' j
  assume ok: "dials_ok r"
  show "0 \<le> dials_of r k" using ok by (rule dials_nonneg)
  show "dials_of r k < mx \<and> dials_ok r' \<and> dials_of r' j = dials_of r j + (if j = k then 1 else 0)"
    if "try_begin_status_dial k mx r = (True, r')"
    using try_begin_status_dial_spec [OF ok that] by simp
  show "mx \<le> dials_of r k \<and> dials_ok r' \<and> dials_of r' j = dials_of r j"
    if "try_begin_status_dial k mx r = (False, r')"
    using try_begin_status_dial_spec [OF ok that, of j] by (simp add: not_less)
  show "dials_ok (end_status_dial k r) \<and> dials_of (end_status_dial k r) j = dials_of r j - (if j = k then 1 else 0)"
    if "0 < dials_of r k"
    by (rule end_status_dial_spec [OF ok that])
qed

section \<open>Latency readings\<close>

text \<open>The sweep of \<open>record_latency\<close> and the lazy removal of \<open>latency_of\<close> cannot be observed later.\<close>

definition sweep_latencies :: "instant \<Rightarrow> route_runtime \<Rightarrow> route_runtime" where
  "sweep_latencies now r = r\<lparr>rr_latencies := hm_retain (\<lambda>_ (_, measured_at). now - measured_at \<le> LATENCY_TTL) (rr_latencies r)\<rparr>"

interpretation latency_table: housekeeping "\<lambda>now r addr. fst (latency_of now addr r)" sweep_latencies "\<lambda>r. hm_ok (rr_latencies r)"
proof
  fix r :: route_runtime and now t addr
  assume ok: "hm_ok (rr_latencies r)" and "now \<le> (t :: instant)"
  then have "now - m \<le> t - m" for m by simp
  then have "t - m \<le> LATENCY_TTL \<Longrightarrow> now - m \<le> LATENCY_TTL" for m by (meson order_trans)
  then show "fst (latency_of t addr (sweep_latencies now r)) = fst (latency_of t addr r)"
    using ok by (auto simp: latency_of_def sweep_latencies_def hm_get_retain not_le split: option.splits)
qed (simp add: sweep_latencies_def)

lemma record_latency_sweeps: "record_latency now addr millis r
    = sweep_latencies now (r\<lparr>rr_latencies := hm_insert addr (millis, now) (rr_latencies r)\<rparr>)"
  by (simp add: record_latency_def sweep_latencies_def)

lemma latency_of_after_record:
  assumes "hm_ok (rr_latencies r)" and "now \<le> t"
  shows "fst (latency_of t a (record_latency now addr millis r)) =
    (if a = addr then if t - now \<le> LATENCY_TTL then Some millis else None else fst (latency_of t a r))"
proof -
  let ?r = "r\<lparr>rr_latencies := hm_insert addr (millis, now) (rr_latencies r)\<rparr>"
  have "fst (latency_of t a (record_latency now addr millis r)) = fst (latency_of t a ?r)"
    unfolding record_latency_sweeps using assms by (intro latency_table.tidy_unobservable) simp_all
  then show ?thesis by (auto simp: latency_of_def split: option.splits)
qed

section \<open>Round robin\<close>

fun rr_calls :: "(socket_addr list \<Rightarrow> socket_addr list) \<Rightarrow> instant \<Rightarrow> nat \<Rightarrow> route_runtime \<Rightarrow> socket_addr list \<Rightarrow> socket_addr list" where
  "rr_calls shuffle now 0 r backends = []"
| "rr_calls shuffle now (Suc n) r backends =
     (case order_backends shuffle now RoundRobin r backends of
        (ordered, r') \<Rightarrow> hd ordered # rr_calls shuffle now n r' backends)"

lemma round_robin_step:
  assumes "2 \<le> length backends" and "0 \<le> rr_round_robin_counter r" and "rr_round_robin_counter r + 1 < 2 ^ 63"
  shows "order_backends shuffle now RoundRobin r backends =
    (rotate (nat (rr_round_robin_counter r mod int (length backends))) backends,
     r\<lparr>rr_round_robin_counter := rr_round_robin_counter r + 1\<rparr>)"
proof -
  let ?s = "nat (rr_round_robin_counter r mod int (length backends))"
  have "0 < int (length backends)" using assms(1) by linarith
  then have "?s < length backends" by (simp add: nat_less_iff)
  then have "drop ?s backends @ take ?s backends = rotate ?s backends" by (simp add: rotate_drop_take)
  moreover have "wrap_i64 (rr_round_robin_counter r + 1) = rr_round_robin_counter r + 1"
    using assms(2,3) by (simp add: wrap_i64_def)
  ultimately show ?thesis using assms(1) by (simp add: order_backends_def Let_def)
qed

lemma rr_calls_nth:
  assumes "2 \<le> length backends" and "0 \<le> rr_round_robin_counter r" and "rr_round_robin_counter r + int n < 2 ^ 63"
  shows "rr_calls shuffle now n r backends =
    map (\<lambda>k. backends ! (nat ((rr_round_robin_counter r + int k) mod int (length backends)))) [0..<n]"
  using assms(2,3)
proof (induction n arbitrary: r)
  case (Suc n)
  let ?c = "rr_round_robin_counter r"
  let ?L = "int (length backends)"
  have L: "0 < ?L" using assms(1) by linarith
  then have lt: "nat (?c mod ?L) < length backends" by (simp add: nat_less_iff)
  have ne: "backends \<noteq> []" using assms(1) by auto
  have "hd (rotate (nat (?c mod ?L)) backends) = backends ! nat (?c mod ?L)"
    using lt ne by (simp add: hd_rotate_conv_nth)
  moreover have "rr_calls shuffle now n (r\<lparr>rr_round_robin_counter := ?c + 1\<rparr>) backends =
     map (\<lambda>k. backends ! (nat ((?c + 1 + int k) mod ?L))) [0..<n]"
    using Suc.IH [of "r\<lparr>rr_round_robin_counter := ?c + 1\<rparr>"] Suc.prems by simp
  moreover have "[0..<Suc n] = 0 # map Suc [0..<n]" by (simp add: map_Suc_upt upt_conv_Cons)
  ultimately show ?case using round_robin_step [OF assms(1), of r shuffle now] Suc.prems by (simp add: add.assoc)
qed simp

lemma mod_window: "0 < (L :: nat) \<Longrightarrow> (\<lambda>k. (c + k) mod L) ` {0..<L} = {0..<L}"
proof -
  assume L: "0 < L"
  have "inj_on (\<lambda>k. (c + k) mod L) {0..<L}"
  proof (rule inj_onI)
    fix x y assume "x \<in> {0..<L}" "y \<in> {0..<L}" "(c + x) mod L = (c + y) mod L"
    then have "x mod L = y mod L" unfolding nat_mod_eq_iff by auto
    then show "x = y" using \<open>x \<in> _\<close> \<open>y \<in> _\<close> by simp
  qed
  then show ?thesis using L by (intro card_subset_eq) (auto simp: card_image)
qed

section \<open>The registry\<close>

lemma online_fold:
  assumes "\<And>h. unwrap_or (hm_get counts h) 0 = c h"
  shows "unwrap_or (hm_get (fold (\<lambda>s counts. hm_insert (ps_host s) (unwrap_or (hm_get counts (ps_host s)) 0 + 1) counts) ss counts) h) 0
    = c h + length (filter (\<lambda>s. ps_host s = h) ss)"
  using assms
proof (induction ss arbitrary: counts c)
  case (Cons s ss)
  show ?case
    using Cons.prems Cons.IH [of "hm_insert (ps_host s) (unwrap_or (hm_get counts (ps_host s)) 0 + 1) counts" "c(ps_host s := c (ps_host s) + 1)"]
    by simp
qed simp

section \<open>Active connections\<close>

datatype conn_event = Opened socket_addr | Closed socket_addr

fun conn_event_step :: "conn_event \<Rightarrow> route_runtime \<Rightarrow> route_runtime" where
  "conn_event_step (Opened a) r = record_connect_opened a r"
| "conn_event_step (Closed a) r = record_connect_closed a r"

fun open_count :: "conn_event list \<Rightarrow> socket_addr \<Rightarrow> int" where
  "open_count [] a = 0"
| "open_count (Opened b # es) a = open_count es a + (if a = b then 1 else 0)"
| "open_count (Closed b # es) a = open_count es a - (if a = b then 1 else 0)"

text \<open>A history, newest event first, in which every close follows its open.\<close>

fun balanced :: "conn_event list \<Rightarrow> bool" where
  "balanced [] = True"
| "balanced (Opened a # es) = balanced es"
| "balanced (Closed a # es) = (balanced es \<and> 0 < open_count es a)"

lemma active_history:
  "balanced es \<Longrightarrow> hm_get (rr_active_connections (foldr conn_event_step es runtime_default)) a
     = (if open_count es a = 0 then None else Some (open_count es a)) \<and> 0 \<le> open_count es a"
proof (induction es arbitrary: a)
  case Nil
  then show ?case by (simp add: runtime_default_def)
next
  case (Cons e es)
  show ?case
  proof (cases e)
    case (Opened b)
    have "0 < open_count es b + 1" using Cons.IH [of b] Cons.prems Opened by simp
    then show ?thesis using Cons Opened by (simp add: record_connect_opened_def less_imp_neq [symmetric])
  next
    case (Closed b)
    have "hm_get (rr_active_connections (foldr conn_event_step es runtime_default)) b = Some (open_count es b)"
      using Cons Closed by (simp add: less_imp_neq [symmetric])
    then show ?thesis using Cons Closed by (simp add: record_connect_closed_def)
  qed
qed

section \<open>Properties\<close>

text \<open>C16: ordering never loses or duplicates a backend. For every strategy, and any shuffle that permutes,
  the list that is tried is a rearrangement of the resolved backends.\<close>

theorem order_backends_permutation:
  assumes "\<And>xs. mset (shuffle xs) = mset xs"
  shows "mset (fst (order_backends shuffle now strategy r backends)) = mset backends"
proof -
  have "mset (drop n backends @ take n backends) = mset (take n backends @ drop n backends)" for n
    by (simp only: mset_append add.commute)
  then show ?thesis using assms by (cases strategy) (simp_all add: order_backends_def Let_def)
qed

theorem order_backends_permutation_witness:
  "mset (fst (order_backends rev 0 Random runtime_default [SocketAddr (V4 1 2 3 4) 1, SocketAddr (V4 1 2 3 4) 2]))
     = mset [SocketAddr (V4 1 2 3 4) 1, SocketAddr (V4 1 2 3 4) 2]"
  using order_backends_permutation [of rev 0 Random] by simp

text \<open>The load-aware strategies sort. Least-connections lists backends by their number of active
  connections and lowest-latency by their last valid reading, backends without one last; backends
  that tie keep the configured order.\<close>

theorem order_backends_sorted:
  assumes "2 \<le> length backends"
  shows "sorted (map (\<lambda>a. active_connections_of a r) (fst (order_backends shuffle now LeastConnections r backends)))
    \<and> filter (\<lambda>a. active_connections_of a r = k) (fst (order_backends shuffle now LeastConnections r backends))
        = filter (\<lambda>a. active_connections_of a r = k) backends
    \<and> sorted (map (\<lambda>a. unwrap_or (fst (latency_of now a r)) (2 ^ 63 - 1)) (fst (order_backends shuffle now LowestLatency r backends)))
    \<and> filter (\<lambda>a. unwrap_or (fst (latency_of now a r)) (2 ^ 63 - 1) = l) (fst (order_backends shuffle now LowestLatency r backends))
        = filter (\<lambda>a. unwrap_or (fst (latency_of now a r)) (2 ^ 63 - 1) = l) backends"
proof -
  have "latency_key now r = (\<lambda>a. unwrap_or (fst (latency_of now a r)) (2 ^ 63 - 1))" by (rule ext) (rule latency_key_def)
  then show ?thesis using assms by (simp add: order_backends_def sort_key_stable)
qed

theorem order_backends_sorted_witness:
  "sorted (map (\<lambda>a. active_connections_of a runtime_default)
     (fst (order_backends rev 0 LeastConnections runtime_default [SocketAddr (V4 1 2 3 4) 1, SocketAddr (V4 1 2 3 4) 2])))"
  using order_backends_sorted [of "[SocketAddr (V4 1 2 3 4) 1, SocketAddr (V4 1 2 3 4) 2]" runtime_default rev 0 0 0] by simp

text \<open>C19: round robin is fair. Among any \<open>n\<close> consecutive orderings of a route with \<open>n \<ge> 2\<close> backends every
  backend is tried first exactly once, as long as the 64-bit counter does not overflow in between.\<close>

theorem round_robin_fair:
  assumes "2 \<le> length backends" and "0 \<le> rr_round_robin_counter r"
    and "rr_round_robin_counter r + int (length backends) < 2 ^ 63"
  shows "mset (rr_calls shuffle now (length backends) r backends) = mset backends"
proof -
  let ?L = "length backends"
  let ?c = "nat (rr_round_robin_counter r)"
  have idx: "nat ((rr_round_robin_counter r + int k) mod int ?L) = (?c + k) mod ?L" for k
    using assms(2) by (simp add: nat_mod_distrib nat_add_distrib)
  have "mset (map (\<lambda>k. (?c + k) mod ?L) [0..<?L]) = mset [0..<?L]"
  proof -
    have im: "(\<lambda>k. (?c + k) mod ?L) ` {0..<?L} = {0..<?L}" using assms(1) by (intro mod_window) linarith
    then have "inj_on (\<lambda>k. (?c + k) mod ?L) {0..<?L}" by (intro eq_card_imp_inj_on) simp_all
    then have "distinct (map (\<lambda>k. (?c + k) mod ?L) [0..<?L])" by (simp add: distinct_map)
    then show ?thesis using im by (intro set_eq_iff_mset_eq_distinct [THEN iffD1]) simp_all
  qed
  then have "image_mset (nth backends) (mset (map (\<lambda>k. (?c + k) mod ?L) [0..<?L])) = mset backends"
    by (metis map_nth mset_map)
  then show ?thesis using rr_calls_nth [OF assms, of shuffle now] by (simp add: idx image_mset.compositionality o_def)
qed

theorem round_robin_fair_witness:
  "mset (rr_calls rev 0 2 runtime_default [SocketAddr (V4 1 2 3 4) 1, SocketAddr (V4 1 2 3 4) 2])
     = mset [SocketAddr (V4 1 2 3 4) 1, SocketAddr (V4 1 2 3 4) 2]"
  using round_robin_fair [of "[SocketAddr (V4 1 2 3 4) 1, SocketAddr (V4 1 2 3 4) 2]" runtime_default rev 0]
  by (simp add: runtime_default_def numeral_2_eq_2 [symmetric])

text \<open>At most the configured number of status dials is in flight per backend, in any interleaving of
  attempts and completions, and the table counts exactly the dials in flight.\<close>

theorem status_dials_bounded:
  assumes "slot_run (\<lambda>r a mx. try_begin_status_dial a mx r) (\<lambda>r a. end_status_dial a r)
             MAX_CONCURRENT_STATUS_DIALS (runtime_default, \<lambda>_. 0) es = (r', held)"
  shows "held addr \<le> 8 \<and> dials_of r' addr = held addr"
proof -
  have e: "dials_ok runtime_default" "\<And>k. dials_of runtime_default k = 0"
    by (simp_all add: dials_ok_def dials_of_def runtime_default_def)
  show ?thesis
    using status_dials.run_bounded [OF e(1), of "\<lambda>_. 0" MAX_CONCURRENT_STATUS_DIALS es r' held addr]
      status_dials.run_refines [OF e(1), of "\<lambda>_. 0" MAX_CONCURRENT_STATUS_DIALS es r' held] e(2) assms
    by (simp add: MAX_CONCURRENT_STATUS_DIALS_def)
qed

theorem status_dials_bounded_witness:
  "snd (slot_run (\<lambda>r a mx. try_begin_status_dial a mx r) (\<lambda>r a. end_status_dial a r)
     MAX_CONCURRENT_STATUS_DIALS (runtime_default, \<lambda>_. 0) (replicate 9 (Acquire (SocketAddr (V4 1 2 3 4) 1))))
     (SocketAddr (V4 1 2 3 4) 1) \<le> 8"
  using status_dials_bounded [OF prod.collapse [symmetric]] by blast

text \<open>The active-connection counter of a backend is the number of connections that are open on it: after
  any history in which each close follows its open, it equals opens minus closes, and a backend with
  none has no entry left in the table.\<close>

theorem active_connections_exact:
  assumes "balanced es"
  shows "active_connections_of a (foldr conn_event_step es runtime_default) = open_count es a
    \<and> (open_count es a = 0 \<longrightarrow> hm_get (rr_active_connections (foldr conn_event_step es runtime_default)) a = None)"
  using active_history [OF assms, of a] by (auto simp: active_connections_of_def)

theorem active_connections_exact_witness:
  "active_connections_of (SocketAddr (V4 1 2 3 4) 1)
     (foldr conn_event_step [Closed (SocketAddr (V4 1 2 3 4) 1), Opened (SocketAddr (V4 1 2 3 4) 1), Opened (SocketAddr (V4 1 2 3 4) 1)]
        runtime_default) = 1"
  using active_connections_exact [of "[Closed (SocketAddr (V4 1 2 3 4) 1), Opened (SocketAddr (V4 1 2 3 4) 1), Opened (SocketAddr (V4 1 2 3 4) 1)]"]
  by simp

text \<open>A latency reading is returned for three minutes and no longer, whatever else was recorded or
  swept, and recording one backend never changes the reading of another.\<close>

theorem latency_reading_lifetime:
  assumes "hm_ok (rr_latencies r)" and "now \<le> t"
  shows "fst (latency_of t a (record_latency now addr millis r)) =
    (if a = addr then if t - now \<le> LATENCY_TTL then Some millis else None else fst (latency_of t a r))"
  using assms by (rule latency_of_after_record)

theorem latency_reading_lifetime_witness:
  "fst (latency_of LATENCY_TTL (SocketAddr (V4 1 2 3 4) 1) (record_latency 0 (SocketAddr (V4 1 2 3 4) 1) 40 runtime_default)) = Some 40"
  using latency_reading_lifetime [of runtime_default 0 LATENCY_TTL] by (simp add: runtime_default_def)

text \<open>The player listing is complete and ordered. It has every registered session exactly once, sorted
  by lower-cased name, and the per-host counts are the numbers of sessions on each host.\<close>

theorem player_listing:
  "mset (sessions_all lc m) = mset (map snd m)
   \<and> sorted (map (\<lambda>s. to_lowercase lc (ps_name s)) (sessions_all lc m))
   \<and> unwrap_or (hm_get (online_by_host m) h) 0 = length (filter (\<lambda>s. ps_host s = h) (map snd m))"
  using online_fold [of "[]" "\<lambda>_. 0" "map snd m" h] by (simp add: sessions_all_def online_by_host_def)

text \<open>The end of an old session unregisters a newer one. When a player logs in again before the relay
  of the previous connection has ended, the removal by UUID of the old connection deletes the new
  session: it is live but no longer listed, and cannot be kicked.\<close>

theorem stale_remove_drops_newer_session:
  assumes "ps_uuid new = ps_uuid old" and "ps_conn new \<noteq> ps_conn old"
  shows "hm_get (sessions_put new (sessions_put old m)) (ps_uuid new) = Some new
    \<and> hm_get (sessions_remove (ps_uuid old) (sessions_put new (sessions_put old m))) (ps_uuid new) = None"
  using assms by (simp add: sessions_put_def sessions_remove_def)

definition demo_session :: "nat \<Rightarrow> player_session" where
  "demo_session conn = \<lparr>ps_conn = conn, ps_name = lit ''Steve'', ps_uuid = replicate 16 7, ps_host = lit ''play'', ps_remote_address = [],
     ps_backend = None, ps_connected_at_millis = 0, ps_protocol_version = 763, ps_compression_threshold = - 1,
     ps_encrypted = False, ps_login_attempts = 1, ps_packets_sent = 0, ps_packets_received = 0, ps_bytes_sent = 0,
     ps_bytes_received = 0, ps_pending_action = Disconnect\<rparr>"

theorem stale_remove_drops_newer_session_witness:
  "hm_get (sessions_remove (replicate 16 7) (sessions_put (demo_session 2) (sessions_put (demo_session 1) []))) (replicate 16 7) = None"
  using stale_remove_drops_newer_session [of "demo_session 2" "demo_session 1" "[]"] by (simp add: demo_session_def)

end
