(* ===== verification/Route_Metrics.thy ===== *)
theory Route_Metrics
  imports Route_State
begin

text \<open>
  Traffic accounting per route, \<open>src/state/route_metrics_store.rs\<close>.

  A counter is an \<open>i64\<close> that wraps. The wall clock in milliseconds is an argument. The file system is a
  map from paths to contents; whether a write or a rename succeeds is decided by two functions of the
  environment. A persisted file is the JSON object the code writes, with the fields it reads back, or
  text that is not JSON. Counters are values of the table: a relay that outlives its counter keeps
  counting on a detached copy, which no operation of the store reads again.
\<close>

section \<open>Counters\<close>

record traffic_counter =
  tc_key :: str
  tc_upload_bytes :: int
  tc_download_bytes :: int
  tc_file :: "str option"
  tc_upload_enabled :: bool
  tc_download_enabled :: bool
  tc_upload_limit :: int
  tc_download_limit :: int
  tc_reset_interval_millis :: int
  tc_reset_at :: int
  tc_dirty :: bool

definition counter_new :: "str \<Rightarrow> traffic_counter" where
  "counter_new key = \<lparr>tc_key = key, tc_upload_bytes = 0, tc_download_bytes = 0, tc_file = None, tc_upload_enabled = False,
     tc_download_enabled = False, tc_upload_limit = - 1, tc_download_limit = - 1, tc_reset_interval_millis = 0,
     tc_reset_at = 0, tc_dirty = False\<rparr>"

definition add_upload :: "int \<Rightarrow> traffic_counter \<Rightarrow> traffic_counter" where
  "add_upload n c =
     (if tc_upload_enabled c \<and> n > 0
      then c\<lparr>tc_upload_bytes := wrap_i64 (tc_upload_bytes c + n), tc_dirty := True\<rparr> else c)"

definition add_download :: "int \<Rightarrow> traffic_counter \<Rightarrow> traffic_counter" where
  "add_download n c =
     (if tc_download_enabled c \<and> n > 0
      then c\<lparr>tc_download_bytes := wrap_i64 (tc_download_bytes c + n), tc_dirty := True\<rparr> else c)"

definition upload_exceeded :: "traffic_counter \<Rightarrow> bool" where
  "upload_exceeded c \<longleftrightarrow> tc_upload_enabled c \<and> tc_upload_limit c \<ge> 0 \<and> tc_upload_bytes c \<ge> tc_upload_limit c"

definition download_exceeded :: "traffic_counter \<Rightarrow> bool" where
  "download_exceeded c \<longleftrightarrow> tc_download_enabled c \<and> tc_download_limit c \<ge> 0 \<and> tc_download_bytes c \<ge> tc_download_limit c"

definition exceeded :: "traffic_counter \<Rightarrow> bool" where
  "exceeded c \<longleftrightarrow> upload_exceeded c \<or> download_exceeded c"

section \<open>Files\<close>

record metrics_json =
  mj_upload_bytes :: "int option"
  mj_download_bytes :: "int option"
  mj_upload_limit :: "int option"
  mj_download_limit :: "int option"
  mj_reset_at :: "int option"
  mj_updated_at :: "int option"

datatype file_content = Not_Json | Json metrics_json

record disk =
  dk_files :: "(str, file_content) hmap"
  dk_write_ok :: "str \<Rightarrow> bool"
  dk_rename_ok :: "str \<Rightarrow> bool"

text \<open>\<open>Path::with_extension\<close> on a path whose last component is an ordinary file name.\<close>

definition with_extension :: "str \<Rightarrow> str \<Rightarrow> str" where
  "with_extension ext p =
     (case rsplit_once (ch CHR ''.'') p of
        Some (stem, e) \<Rightarrow>
          if ch CHR ''/'' \<in> set e \<or> stem = [] \<or> last stem = ch CHR ''/'' then p @ lit ''.'' @ ext else stem @ lit ''.'' @ ext
      | None \<Rightarrow> p @ lit ''.'' @ ext)"

definition flush_counter :: "int \<Rightarrow> bool \<Rightarrow> traffic_counter \<Rightarrow> disk \<Rightarrow> traffic_counter \<times> disk" where
  "flush_counter now force c d =
     (case tc_file c of
        None \<Rightarrow> (c, d)
      | Some path \<Rightarrow>
          let was_dirty = tc_dirty c; c = c\<lparr>tc_dirty := False\<rparr> in
          if \<not> force \<and> \<not> was_dirty then (c, d)
          else
            let json = Json \<lparr>mj_upload_bytes = Some (tc_upload_bytes c), mj_download_bytes = Some (tc_download_bytes c),
                  mj_upload_limit = Some (tc_upload_limit c), mj_download_limit = Some (tc_download_limit c),
                  mj_reset_at = Some (tc_reset_at c), mj_updated_at = Some now\<rparr>;
                tmp = with_extension (lit ''tmp'') path in
            if dk_write_ok d tmp then
              let d = d\<lparr>dk_files := hm_insert tmp json (dk_files d)\<rparr> in
              if dk_rename_ok d path
              then (c, d\<lparr>dk_files := hm_insert path json (hm_remove tmp (dk_files d))\<rparr>)
              else (c\<lparr>tc_dirty := True\<rparr>, d)
            else (c\<lparr>tc_dirty := True\<rparr>, d))"

definition load_persisted :: "traffic_counter \<Rightarrow> str option \<Rightarrow> disk \<Rightarrow> traffic_counter" where
  "load_persisted c file d =
     (case file of
        None \<Rightarrow> c
      | Some file \<Rightarrow>
          (case hm_get (dk_files d) file of
             None \<Rightarrow> c
           | Some Not_Json \<Rightarrow> c
           | Some (Json data) \<Rightarrow>
               c\<lparr>tc_upload_bytes := unwrap_or (mj_upload_bytes data) 0,
                 tc_download_bytes := unwrap_or (mj_download_bytes data) 0,
                 tc_reset_at := unwrap_or (mj_reset_at data) 0\<rparr>))"

section \<open>The store\<close>

record metrics_store =
  ms_counters :: "(str, traffic_counter) hmap"
  ms_flush_interval :: duration

fun join_bar :: "str list \<Rightarrow> str" where
  "join_bar [] = []"
| "join_bar [s] = s"
| "join_bar (s # ss) = s @ lit ''|'' @ join_bar ss"

definition key_for :: "route \<Rightarrow> str option" where
  "key_for r =
     (case rt_metrics r of
        None \<Rightarrow> None
      | Some m \<Rightarrow>
          if \<not> metrics_active m then None
          else Some (unwrap_or (rm_file m) (lit ''host:'' @ join_bar (map hp_raw (rt_host_patterns r)))))"

definition metrics_handle :: "route \<Rightarrow> metrics_store \<Rightarrow> traffic_counter option" where
  "metrics_handle r s = Option.bind (key_for r) (hm_get (ms_counters s))"

definition metrics_is_enabled :: "metrics_store \<Rightarrow> bool" where
  "metrics_is_enabled s \<longleftrightarrow> ms_counters s \<noteq> []"

text \<open>The wanted counters: the first route of a key decides.\<close>

definition desired_counters :: "route list \<Rightarrow> (str, route_metrics_config) hmap" where
  "desired_counters routes =
     fold (\<lambda>r desired. case (key_for r, rt_metrics r) of
         (Some key, Some m) \<Rightarrow> if hm_contains desired key then desired else hm_insert key m desired
       | _ \<Rightarrow> desired) routes []"

definition configure_counter :: "int \<Rightarrow> route_metrics_config \<Rightarrow> traffic_counter \<Rightarrow> traffic_counter" where
  "configure_counter now m c =
     (let c = c\<lparr>tc_file := rm_file m, tc_upload_enabled := mu_enabled (rm_upload m),
            tc_download_enabled := mu_enabled (rm_download m), tc_upload_limit := mu_limit (rm_upload m),
            tc_download_limit := mu_limit (rm_download m), tc_reset_interval_millis := rm_reset_interval_millis m\<rparr> in
      if rm_reset_interval_millis m > 0 then
        if tc_reset_at c = 0 \<or> tc_reset_at c > wrap_i64 (now + rm_reset_interval_millis m)
        then c\<lparr>tc_reset_at := wrap_i64 (now + rm_reset_interval_millis m), tc_dirty := True\<rparr> else c
      else if tc_reset_at c \<noteq> 0 then c\<lparr>tc_reset_at := 0, tc_dirty := True\<rparr> else c)"

text \<open>The counters that are no longer wanted are flushed before they are dropped.\<close>

definition flush_dropped :: "int \<Rightarrow> (str, route_metrics_config) hmap \<Rightarrow> (str, traffic_counter) hmap \<Rightarrow> disk \<Rightarrow> disk" where
  "flush_dropped now desired counters d =
     fold (\<lambda>(key, c) d. if hm_contains desired key then d else snd (flush_counter now True c d)) counters d"

definition install_counter :: "int \<Rightarrow> disk \<Rightarrow> str \<times> route_metrics_config \<Rightarrow> (str, traffic_counter) hmap \<Rightarrow> (str, traffic_counter) hmap" where
  "install_counter now d km counters =
     (case km of (key, m) \<Rightarrow>
        let c = (case hm_get counters key of Some c \<Rightarrow> c | None \<Rightarrow> load_persisted (counter_new key) (rm_file m) d) in
        hm_insert key (configure_counter now m c) counters)"

definition metrics_apply_config :: "int \<Rightarrow> route list \<Rightarrow> duration \<Rightarrow> metrics_store \<Rightarrow> disk \<Rightarrow> metrics_store \<times> disk" where
  "metrics_apply_config now routes flush_interval s d =
     (let desired = desired_counters routes;
          d = flush_dropped now desired (ms_counters s) d;
          counters = hm_retain (\<lambda>key _. hm_contains desired key) (ms_counters s) in
      (\<lparr>ms_counters = fold (install_counter now d) desired counters, ms_flush_interval = flush_interval\<rparr>, d))"

definition zero_counter :: "int \<Rightarrow> traffic_counter \<Rightarrow> traffic_counter" where
  "zero_counter now c =
     (let c = c\<lparr>tc_upload_bytes := 0, tc_download_bytes := 0\<rparr>;
          c = (if tc_reset_interval_millis c > 0 then c\<lparr>tc_reset_at := wrap_i64 (now + tc_reset_interval_millis c)\<rparr> else c) in
      c\<lparr>tc_dirty := True\<rparr>)"

definition metrics_reset :: "int \<Rightarrow> route \<Rightarrow> metrics_store \<Rightarrow> disk \<Rightarrow> traffic_counter option \<times> metrics_store \<times> disk" where
  "metrics_reset now r s d =
     (case (key_for r, metrics_handle r s) of
        (Some key, Some c) \<Rightarrow>
          (case flush_counter now True (zero_counter now c) d of
             (c, d) \<Rightarrow> (Some c, s\<lparr>ms_counters := hm_insert key c (ms_counters s)\<rparr>, d))
      | _ \<Rightarrow> (None, s, d))"

fun flush_each :: "int \<Rightarrow> bool \<Rightarrow> (str, traffic_counter) hmap \<Rightarrow> disk \<Rightarrow> (str, traffic_counter) hmap \<times> disk" where
  "flush_each now force [] d = ([], d)"
| "flush_each now force ((key, c) # cs) d =
     (case flush_counter now force c d of (c, d) \<Rightarrow>
      case flush_each now force cs d of (cs, d) \<Rightarrow> ((key, c) # cs, d))"

definition metrics_reset_all :: "int \<Rightarrow> metrics_store \<Rightarrow> disk \<Rightarrow> nat \<times> metrics_store \<times> disk" where
  "metrics_reset_all now s d =
     (case flush_each now True (map (\<lambda>(k, c). (k, zero_counter now c)) (ms_counters s)) d of
        (cs, d) \<Rightarrow> (length cs, s\<lparr>ms_counters := cs\<rparr>, d))"

text \<open>The division truncates towards zero; both of its operands are positive here.\<close>

definition scheduled_reset :: "int \<Rightarrow> traffic_counter \<Rightarrow> traffic_counter" where
  "scheduled_reset now c =
     (let interval = tc_reset_interval_millis c; reset_at = tc_reset_at c in
      if interval \<le> 0 \<or> reset_at \<le> 0 \<or> now < reset_at then c
      else
        let missed = (now - reset_at) div interval in
        c\<lparr>tc_upload_bytes := 0, tc_download_bytes := 0,
          tc_reset_at := wrap_i64 (reset_at + wrap_i64 ((missed + 1) * interval)), tc_dirty := True\<rparr>)"

definition apply_scheduled_resets :: "int \<Rightarrow> metrics_store \<Rightarrow> metrics_store" where
  "apply_scheduled_resets now s = s\<lparr>ms_counters := map (\<lambda>(k, c). (k, scheduled_reset now c)) (ms_counters s)\<rparr>"

text \<open>The first route that matches a host name, as every lookup by host performs it.\<close>

fun find_route :: "(str \<Rightarrow> str) \<Rightarrow> route list \<Rightarrow> str \<Rightarrow> (route \<times> str list) option run" where
  "find_route lc [] host = Returned None"
| "find_route lc (r # rs) host =
     run_bind (route_match_host lc (rt_host_patterns r) host) (\<lambda>m.
       case m of Some captures \<Rightarrow> Returned (Some (r, captures)) | None \<Rightarrow> find_route lc rs host)"

text \<open>The sessions that are told to disconnect.\<close>

fun enforce_limits :: "(str \<Rightarrow> str) \<Rightarrow> metrics_store \<Rightarrow> route list \<Rightarrow> player_session list \<Rightarrow> player_session list run" where
  "enforce_limits lc s routes [] = Returned []"
| "enforce_limits lc s routes (p # ps) =
     run_bind (find_route lc routes (ps_host p)) (\<lambda>m.
     run_bind (enforce_limits lc s routes ps) (\<lambda>kicked.
       Returned (case m of
           None \<Rightarrow> kicked
         | Some (r, _) \<Rightarrow>
             (case metrics_handle r s of None \<Rightarrow> kicked | Some c \<Rightarrow> if exceeded c then p # kicked else kicked))))"

definition metrics_tick ::
  "(str \<Rightarrow> str) \<Rightarrow> int \<Rightarrow> route list \<Rightarrow> player_sessions \<Rightarrow> metrics_store \<Rightarrow> disk \<Rightarrow> metrics_store \<times> disk \<times> player_session list run" where
  "metrics_tick lc now routes sessions s d =
     (let s = apply_scheduled_resets now s in
      case flush_each now False (ms_counters s) d of (cs, d) \<Rightarrow>
        let s = s\<lparr>ms_counters := cs\<rparr> in
        (s, d, enforce_limits lc s routes (sessions_all lc sessions)))"

section \<open>Scheduled resets\<close>

lemma wrap_i64_small: "- (2 ^ 63) \<le> v \<Longrightarrow> v < 2 ^ 63 \<Longrightarrow> wrap_i64 v = v"
  by (simp add: wrap_i64_def)

lemma next_boundary:
  fixes now ra i :: int
  assumes "0 < i" and "ra \<le> now"
  shows "now < ra + ((now - ra) div i + 1) * i" and "ra + ((now - ra) div i + 1) * i \<le> now + i"
proof -
  let ?q = "(now - ra) div i"
  have "?q * i + (now - ra) mod i = now - ra" by (rule div_mult_mod_eq)
  moreover have "0 \<le> (now - ra) mod i" "(now - ra) mod i < i" using assms(1) by simp_all
  moreover have "(?q + 1) * i = ?q * i + i" by (simp add: distrib_right)
  ultimately show "now < ra + (?q + 1) * i" "ra + (?q + 1) * i \<le> now + i" by linarith+
qed

lemma scheduled_reset_due:
  assumes "0 < tc_reset_interval_millis c" and "0 < tc_reset_at c" and "tc_reset_at c \<le> now"
    and "now + tc_reset_interval_millis c < 2 ^ 63"
  shows "tc_reset_at (scheduled_reset now c)
      = tc_reset_at c + ((now - tc_reset_at c) div tc_reset_interval_millis c + 1) * tc_reset_interval_millis c"
proof -
  let ?i = "tc_reset_interval_millis c" and ?ra = "tc_reset_at c"
  let ?k = "((now - ?ra) div ?i + 1) * ?i"
  have b: "now < ?ra + ?k" "?ra + ?k \<le> now + ?i" using next_boundary [OF assms(1,3)] .
  have "wrap_i64 ?k = ?k" using b assms by (intro wrap_i64_small) linarith+
  moreover have "wrap_i64 (?ra + ?k) = ?ra + ?k" using b assms by (intro wrap_i64_small) linarith+
  ultimately show ?thesis using assms by (simp add: scheduled_reset_def Let_def)
qed

section \<open>Applying a configuration\<close>

lemma desired_ok: "hm_ok (desired_counters routes)"
proof -
  have "hm_ok d \<Longrightarrow> hm_ok (fold (\<lambda>r desired. case (key_for r, rt_metrics r) of
         (Some key, Some m) \<Rightarrow> if hm_contains desired key then desired else hm_insert key m desired
       | _ \<Rightarrow> desired) routes d)" for d
    by (induction routes arbitrary: d) (auto split: option.splits)
  then show ?thesis by (simp add: desired_counters_def)
qed

lemma install_get: "hm_get (install_counter now d (k', m) counters) k =
    (if k = k' then Some (configure_counter now m
       (case hm_get counters k' of Some c \<Rightarrow> c | None \<Rightarrow> load_persisted (counter_new k') (rm_file m) d))
     else hm_get counters k)"
  by (simp add: install_counter_def Let_def)

lemma install_all:
  assumes "hm_ok desired"
  shows "hm_get (fold (install_counter now d) desired counters) k =
    (case hm_get desired k of
       None \<Rightarrow> hm_get counters k
     | Some m \<Rightarrow> Some (configure_counter now m
         (case hm_get counters k of Some c \<Rightarrow> c | None \<Rightarrow> load_persisted (counter_new k) (rm_file m) d)))"
  using assms
proof (induction desired arbitrary: counters)
  case (Cons km desired)
  obtain k' m where km: "km = (k', m)" by (cases km)
  have ok: "hm_ok desired" and new: "hm_get desired k' = None"
    using Cons.prems by (auto simp: km hm_ok_def hm_get_def map_of_eq_None_iff)
  have get: "hm_get ((k', m) # desired) j = (if j = k' then Some m else hm_get desired j)" for j by (simp add: hm_get_def)
  show ?case
    using Cons.IH [OF ok, of "install_counter now d (k', m) counters"] new
    by (cases "hm_get desired k") (auto simp: get km install_get)
qed (simp add: hm_get_def)

lemma apply_config_get:
  assumes "hm_ok (ms_counters s)" and "metrics_apply_config now routes iv s d = (s', d')"
  shows "hm_get (ms_counters s') k =
    (case hm_get (desired_counters routes) k of
       None \<Rightarrow> None
     | Some m \<Rightarrow> Some (configure_counter now m
         (case hm_get (ms_counters s) k of Some c \<Rightarrow> c | None \<Rightarrow> load_persisted (counter_new k) (rm_file m) d')))"
  using assms install_all [OF desired_ok]
  by (auto simp: metrics_apply_config_def Let_def hm_get_retain hm_contains_def split: option.splits)

lemma apply_config_ok:
  assumes "hm_ok (ms_counters s)" and "metrics_apply_config now routes iv s d = (s', d')"
  shows "hm_ok (ms_counters s')"
proof -
  have "hm_ok m \<Longrightarrow> hm_ok (fold (install_counter now d1) kms m)" for kms m d1
    by (induction kms arbitrary: m) (auto simp: install_counter_def Let_def)
  then show ?thesis using assms by (auto simp: metrics_apply_config_def Let_def)
qed

lemma configure_idem: "configure_counter now m (configure_counter now m c) = configure_counter now m c"
  by (cases "rm_reset_interval_millis m > 0") (auto simp: configure_counter_def Let_def)

lemma configure_bytes:
  "tc_upload_bytes (configure_counter now m c) = tc_upload_bytes c"
  "tc_download_bytes (configure_counter now m c) = tc_download_bytes c"
  by (simp_all add: configure_counter_def Let_def)

section \<open>Routing\<close>

lemma find_route_first:
  "find_route lc rs host = Returned (Some (r, captures)) \<Longrightarrow>
   \<exists>pre post. rs = pre @ r # post \<and> route_match_host lc (rt_host_patterns r) host = Returned (Some captures)
     \<and> (\<forall>q \<in> set pre. route_match_host lc (rt_host_patterns q) host = Returned None)"
proof (induction rs)
  case (Cons q rs)
  show ?case
  proof (cases "route_match_host lc (rt_host_patterns q) host")
    case (Returned m)
    show ?thesis
    proof (cases m)
      case None
      then obtain pre post where "rs = pre @ r # post" "route_match_host lc (rt_host_patterns r) host = Returned (Some captures)"
          "\<forall>q \<in> set pre. route_match_host lc (rt_host_patterns q) host = Returned None"
        using Cons Returned by auto
      then show ?thesis using Returned None by (intro exI [of _ "q # pre"] exI [of _ post]) auto
    next
      case (Some cs)
      then show ?thesis using Cons.prems Returned by (intro exI [of _ "[]"] exI [of _ rs]) auto
    qed
  qed (use Cons.prems in simp)
qed simp

definition over_limit :: "(str \<Rightarrow> str) \<Rightarrow> metrics_store \<Rightarrow> route list \<Rightarrow> player_session \<Rightarrow> bool" where
  "over_limit lc s routes p \<longleftrightarrow> (case find_route lc routes (ps_host p) of
     Returned (Some (r, _)) \<Rightarrow> (case metrics_handle r s of Some c \<Rightarrow> exceeded c | None \<Rightarrow> False)
   | _ \<Rightarrow> False)"

lemma enforce_limits_filter:
  "enforce_limits lc s routes ps = Returned kicked \<Longrightarrow> kicked = filter (over_limit lc s routes) ps"
proof (induction ps arbitrary: kicked)
  case (Cons p ps)
  obtain m rest where m: "find_route lc routes (ps_host p) = Returned m"
    and rest: "enforce_limits lc s routes ps = Returned rest"
    and kicked: "kicked = (case m of None \<Rightarrow> rest | Some (r, _) \<Rightarrow>
        (case metrics_handle r s of None \<Rightarrow> rest | Some c \<Rightarrow> if exceeded c then p # rest else rest))"
    using Cons.prems by (auto simp: run_bind_Returned_iff)
  show ?case
  proof (cases m)
    case None
    then show ?thesis using m kicked Cons.IH [OF rest] by (simp add: over_limit_def)
  next
    case (Some rc)
    obtain r cs where "rc = (r, cs)" by (cases rc)
    then show ?thesis using Some m kicked Cons.IH [OF rest] by (cases "metrics_handle r s") (simp_all add: over_limit_def)
  qed
qed simp

section \<open>Properties\<close>




definition demo_disk :: disk where
  "demo_disk = \<lparr>dk_files = [], dk_write_ok = (\<lambda>_. True), dk_rename_ok = (\<lambda>_. True)\<rparr>"


text \<open>A reload keeps the accounting. After applying a route set there is a counter for exactly the
  wanted keys; one that existed keeps its totals, a new one starts from its file, and applying the
  same route set again at the same time changes no counter.\<close>

theorem apply_config_keeps_totals:
  assumes "hm_ok (ms_counters s)" and "metrics_apply_config now routes iv s d = (s', d')"
    and "metrics_apply_config now routes iv s' d' = (s'', d'')"
  shows "(hm_get (ms_counters s') k \<noteq> None \<longleftrightarrow> hm_get (desired_counters routes) k \<noteq> None)
    \<and> (\<forall>c c'. hm_get (ms_counters s) k = Some c \<and> hm_get (ms_counters s') k = Some c' \<longrightarrow>
          tc_upload_bytes c' = tc_upload_bytes c \<and> tc_download_bytes c' = tc_download_bytes c)
    \<and> (\<forall>c'. hm_get (ms_counters s) k = None \<and> hm_get (ms_counters s') k = Some c' \<longrightarrow>
          tc_upload_bytes c' = tc_upload_bytes (load_persisted (counter_new k) (tc_file c') d'))
    \<and> hm_get (ms_counters s'') k = hm_get (ms_counters s') k"
proof -
  have 1: "hm_get (ms_counters s') k =
    (case hm_get (desired_counters routes) k of None \<Rightarrow> None
     | Some m \<Rightarrow> Some (configure_counter now m
         (case hm_get (ms_counters s) k of Some c \<Rightarrow> c | None \<Rightarrow> load_persisted (counter_new k) (rm_file m) d')))"
    by (rule apply_config_get [OF assms(1,2)])
  have 2: "hm_get (ms_counters s'') k =
    (case hm_get (desired_counters routes) k of None \<Rightarrow> None
     | Some m \<Rightarrow> Some (configure_counter now m
         (case hm_get (ms_counters s') k of Some c \<Rightarrow> c | None \<Rightarrow> load_persisted (counter_new k) (rm_file m) d'')))"
    by (rule apply_config_get [OF apply_config_ok [OF assms(1,2)] assms(3)])
  have f: "tc_file (configure_counter now m c) = rm_file m" for m c by (simp add: configure_counter_def Let_def)
  show ?thesis
    by (cases "hm_get (desired_counters routes) k"; cases "hm_get (ms_counters s) k")
      (auto simp: 1 2 configure_idem configure_bytes f)
qed

theorem apply_config_keeps_totals_witness:
  "let s = \<lparr>ms_counters = [(lit ''m.json'', (counter_new [])\<lparr>tc_upload_bytes := 42\<rparr>)], ms_flush_interval = 0\<rparr>;
       s' = fst (metrics_apply_config 0 [] 0 s demo_disk) in
   hm_get (ms_counters s') (lit ''m.json'') = None"
proof -
  let ?s = "\<lparr>ms_counters = [(lit ''m.json'', (counter_new [])\<lparr>tc_upload_bytes := 42\<rparr>)], ms_flush_interval = 0\<rparr>"
  let ?s' = "metrics_apply_config 0 [] 0 ?s demo_disk"
  have "hm_ok (ms_counters ?s)" by (simp add: hm_ok_def)
  from apply_config_keeps_totals [OF this prod.collapse [symmetric] prod.collapse [symmetric], of 0 "[]" 0 demo_disk "lit ''m.json''"]
  show ?thesis by (simp add: Let_def desired_counters_def)
qed

text \<open>Limits are enforced exactly and do not un-trip. The sessions told to disconnect are exactly those
  whose first matching route has a counter at its limit, and counting more traffic never clears a
  reached limit before the 64-bit counter overflows.\<close>

theorem limits_enforced:
  "(enforce_limits lc s routes ps = Returned kicked \<longrightarrow> kicked = filter (over_limit lc s routes) ps)
   \<and> (exceeded c \<and> is_i64 (tc_upload_bytes c) \<and> is_i64 (tc_download_bytes c)
      \<and> tc_upload_bytes c + n < 2 ^ 63 \<and> tc_download_bytes c + n < 2 ^ 63
      \<longrightarrow> exceeded (add_upload n c) \<and> exceeded (add_download n c))"
proof -
  have "is_i64 b \<and> b + n < 2 ^ 63 \<and> 0 < n \<longrightarrow> wrap_i64 (b + n) = b + n" for b
    using wrap_i64_small [of "b + n"] by (auto simp: is_i64_def)
  then show ?thesis
    using enforce_limits_filter [of lc s routes ps kicked]
    by (auto simp: exceeded_def upload_exceeded_def download_exceeded_def add_upload_def add_download_def)
qed

theorem limits_enforced_witness:
  "exceeded (add_upload 5 ((counter_new [])\<lparr>tc_upload_enabled := True, tc_upload_limit := 10, tc_upload_bytes := 10\<rparr>))"
  using limits_enforced [of _ _ _ _ _ "(counter_new [])\<lparr>tc_upload_enabled := True, tc_upload_limit := 10, tc_upload_bytes := 10\<rparr>" 5]
  by (simp add: counter_new_def is_i64_def exceeded_def upload_exceeded_def)

end
