(* ===== verification/Admission.thy ===== *)
theory Admission
  imports Connection_Guard Flood_Control Ip_Ban Buffered_Stream Proxy_Protocol Route_Metrics
begin

text \<open>
  The admission pipeline of \<open>src/net/server.rs\<close>, \<open>handle_connection\<close> up to the dispatch on the next state.

  The handler is split where it awaits the socket: \<open>accept_connection\<close> runs up to the first read,
  \<open>read_proxy_header\<close> and \<open>read_login_handshake\<close> take the outcome of a read and run up to the next one. Between
  two segments any other connection may run; the process-wide tables they share are \<open>gate_shared\<close>. Every
  early return of the handler drops the guards it holds, which is \<open>close_conn\<close>. The clock and whether
  the login deadline passes first are arguments of the segments.
\<close>

section \<open>State\<close>

record gate_shared =
  gs_bans :: ip_ban_list
  gs_global :: int
  gs_rates :: connection_rates
  gs_prelogin :: pre_login_connections

datatype conn_phase = Reading_Header | Reading_Handshake | Dispatched nat route "str list" handshake

record conn =
  cn_cfg :: gate_config
  cn_peer :: socket_addr
  cn_addr :: socket_addr
  cn_stream :: buffered_stream
  cn_global :: global_connection_guard
  cn_guard :: "pre_login_guard option"
  cn_phase :: conn_phase

datatype refusal = Banned | At_Global_Cap | Over_Rate | No_Header | Bad_Header | Over_Ip_Limit | Login_Late
  | Client_Left | Bad_Handshake | No_Route | Task_Panicked

datatype progress = Refused refusal | Continue conn

section \<open>Operations\<close>

definition ip_of :: "socket_addr \<Rightarrow> str" where
  "ip_of a = show_ip (addr_ip a)"

definition record_ip_violation :: "gate_config \<Rightarrow> instant \<Rightarrow> str \<Rightarrow> gate_shared \<Rightarrow> gate_shared" where
  "record_ip_violation conf now ip st =
     (let ab = gc_auto_ban conf in
      if \<not> ab_enabled ab then st
      else st\<lparr>gs_bans := snd (record_violation now ip (nat (max (ab_max_violations ab) 1))
             (from_millis (nat (max (ab_violation_window_millis ab) 0)))
             (from_millis (nat (max (ab_ban_duration_millis ab) 0))) (gs_bans st))\<rparr>)"

definition close_conn :: "conn \<Rightarrow> gate_shared \<Rightarrow> gate_shared" where
  "close_conn k st =
     st\<lparr>gs_global := gc_guard_drop (cn_global k) (gs_global st),
       gs_prelogin := (case cn_guard k of None \<Rightarrow> gs_prelogin st | Some g \<Rightarrow> guard_drop g (gs_prelogin st))\<rparr>"

text \<open>\<open>within\<close>: a read that the deadline cuts off returns nothing; without a deadline it is never cut off.\<close>

definition within :: "gate_config \<Rightarrow> bool \<Rightarrow> 'a \<Rightarrow> 'a option" where
  "within conf late out = (if gc_login_timeout_millis conf > 0 \<and> late then None else Some out)"

definition check_ban :: "instant \<Rightarrow> socket_addr \<Rightarrow> gate_shared \<Rightarrow> bool \<times> gate_shared" where
  "check_ban now addr st = (case is_banned now (ip_of addr) (gs_bans st) of (b, bans) \<Rightarrow> (b, st\<lparr>gs_bans := bans\<rparr>))"

definition acquire_prelogin :: "instant \<Rightarrow> conn \<Rightarrow> gate_shared \<Rightarrow> progress \<times> gate_shared" where
  "acquire_prelogin now k st =
     (let ip = ip_of (cn_addr k); per_ip_limit = nat (max (gc_max_connections_per_ip (cn_cfg k)) 0) in
      case guard_acquire (gs_prelogin st) (Some ip) per_ip_limit of
        (None, counts) \<Rightarrow>
          (Refused Over_Ip_Limit, close_conn k (record_ip_violation (cn_cfg k) now ip (st\<lparr>gs_prelogin := counts\<rparr>)))
      | (Some g, counts) \<Rightarrow>
          (Continue (k\<lparr>cn_guard := Some g, cn_phase := Reading_Handshake\<rparr>), st\<lparr>gs_prelogin := counts\<rparr>))"

definition limit_rate :: "instant \<Rightarrow> conn \<Rightarrow> gate_shared \<Rightarrow> progress \<times> gate_shared" where
  "limit_rate now k st =
     (let ct = gc_connection_throttle (cn_cfg k); ip = ip_of (cn_peer k) in
      if ct_max_per_ip_per_window ct > 0 then
        (case rate_try_acquire now ip (nat (ct_max_per_ip_per_window ct))
                (from_millis (nat (max (ct_window_millis ct) 0))) (gs_rates st) of
           (False, rates) \<Rightarrow> (Refused Over_Rate, close_conn k (record_ip_violation (cn_cfg k) now ip (st\<lparr>gs_rates := rates\<rparr>)))
         | (True, rates) \<Rightarrow> acquire_prelogin now k (st\<lparr>gs_rates := rates\<rparr>))
      else acquire_prelogin now k st)"

definition enter_gate :: "gate_config \<Rightarrow> instant \<Rightarrow> socket_addr \<Rightarrow> reader \<Rightarrow> gate_shared \<Rightarrow> progress \<times> gate_shared" where
  "enter_gate conf now peer_addr inner st =
     (case gc_guard_acquire (ct_max_connections (gc_connection_throttle conf)) (gs_global st) of
        (None, n) \<Rightarrow> (Refused At_Global_Cap, st\<lparr>gs_global := n\<rparr>)
      | (Some g, n) \<Rightarrow>
          let k = \<lparr>cn_cfg = conf, cn_peer = peer_addr, cn_addr = peer_addr, cn_stream = bs_new inner,
                   cn_global = g, cn_guard = None, cn_phase = Reading_Header\<rparr> in
          if gc_proxy_protocol conf then (Continue k, st\<lparr>gs_global := n\<rparr>) else limit_rate now k (st\<lparr>gs_global := n\<rparr>))"

definition accept_connection :: "gate_config \<Rightarrow> instant \<Rightarrow> socket_addr \<Rightarrow> reader \<Rightarrow> gate_shared \<Rightarrow> progress \<times> gate_shared" where
  "accept_connection conf now peer_addr inner st =
     (if \<not> gc_proxy_protocol conf \<and> ab_enabled (gc_auto_ban conf) then
        (case check_ban now peer_addr st of
           (True, st) \<Rightarrow> (Refused Banned, st)
         | (False, st) \<Rightarrow> enter_gate conf now peer_addr inner st)
      else enter_gate conf now peer_addr inner st)"

text \<open>The header is read from the raw socket, before the buffered stream exists.\<close>

definition read_proxy_header :: "instant \<Rightarrow> bool \<Rightarrow> conn \<Rightarrow> gate_shared \<Rightarrow> progress \<times> gate_shared" where
  "read_proxy_header now late k st =
     (case read_proxy_protocol_header (bs_inner (cn_stream k)) of
        (header, inner) \<Rightarrow>
          (case within (cn_cfg k) late header of
             None \<Rightarrow> (Refused No_Header, close_conn k st)
           | Some (Inl e) \<Rightarrow> (Refused Bad_Header, close_conn k st)
           | Some (Inr addr) \<Rightarrow>
               let k = k\<lparr>cn_addr := unwrap_or addr (cn_peer k), cn_stream := bs_new inner\<rparr> in
               (case (if ab_enabled (gc_auto_ban (cn_cfg k)) then check_ban now (cn_addr k) st else (False, st)) of
                  (True, st) \<Rightarrow> (Refused Banned, close_conn k st)
                | (False, st) \<Rightarrow> acquire_prelogin now k st)))"

fun match_route :: "(str \<Rightarrow> str) \<Rightarrow> nat \<Rightarrow> route list \<Rightarrow> str \<Rightarrow> (nat \<times> route \<times> str list) option run" where
  "match_route lc i [] host = Returned None"
| "match_route lc i (r # rs) host =
     run_bind (route_match_host lc (rt_host_patterns r) host) (\<lambda>m.
       case m of Some captures \<Rightarrow> Returned (Some (i, r, captures)) | None \<Rightarrow> match_route lc (i + 1) rs host)"

definition read_login_handshake :: "(str \<Rightarrow> str) \<Rightarrow> instant \<Rightarrow> bool \<Rightarrow> conn \<Rightarrow> gate_shared \<Rightarrow> progress \<times> gate_shared" where
  "read_login_handshake lc now late k st =
     (let conf = cn_cfg k; ip = ip_of (cn_addr k) in
      case bs_read_handshake (cn_stream k) of
        (result, stream) \<Rightarrow>
          (case within conf late result of
             None \<Rightarrow> (Refused Login_Late, close_conn k (record_ip_violation conf now ip st))
           | Some (Inl Eof) \<Rightarrow> (Refused Client_Left, close_conn k st)
           | Some (Inl e) \<Rightarrow> (Refused Bad_Handshake, close_conn k (record_ip_violation conf now ip st))
           | Some (Inr h) \<Rightarrow>
               (case match_route lc 0 (gc_routes conf) (hs_host h) of
                  Panicked \<Rightarrow> (Refused Task_Panicked, close_conn k st)
                | Returned None \<Rightarrow> (Refused No_Route, close_conn k st)
                | Returned (Some (i, r, captures)) \<Rightarrow>
                    (Continue (k\<lparr>cn_stream := stream, cn_phase := Dispatched i r captures h\<rparr>), st))))"

text \<open>\<open>guard.done()\<close> of the login handler, once Login Start has arrived.\<close>

definition login_proven :: "conn \<Rightarrow> gate_shared \<Rightarrow> conn \<times> gate_shared" where
  "login_proven k st =
     (case cn_guard k of
        None \<Rightarrow> (k, st)
      | Some g \<Rightarrow> (case guard_done g (gs_prelogin st) of (g, counts) \<Rightarrow> (k\<lparr>cn_guard := Some g\<rparr>, st\<lparr>gs_prelogin := counts\<rparr>)))"

section \<open>Interleaved connections\<close>

type_synonym gate_world = "gate_shared \<times> (nat \<rightharpoonup> conn)"

fun settle :: "nat \<Rightarrow> (nat \<rightharpoonup> conn) \<Rightarrow> progress \<times> gate_shared \<Rightarrow> gate_world" where
  "settle c conns (Refused why, st) = (st, conns(c := None))"
| "settle c conns (Continue k, st) = (st, conns(c \<mapsto> k))"

inductive gate_step :: "(str \<Rightarrow> str) \<Rightarrow> gate_world \<Rightarrow> gate_world \<Rightarrow> bool" for lc where
  accept: "conns c = None \<Longrightarrow> gate_step lc (st, conns) (settle c conns (accept_connection conf now peer inner st))"
| header: "conns c = Some k \<Longrightarrow> cn_phase k = Reading_Header \<Longrightarrow>
    gate_step lc (st, conns) (settle c conns (read_proxy_header now late k st))"
| hello: "conns c = Some k \<Longrightarrow> cn_phase k = Reading_Handshake \<Longrightarrow>
    gate_step lc (st, conns) (settle c conns (read_login_handshake lc now late k st))"
| proven: "conns c = Some k \<Longrightarrow> cn_phase k = Dispatched i r captures h \<Longrightarrow> login_proven k st = (k', st') \<Longrightarrow>
    gate_step lc (st, conns) (st', conns(c \<mapsto> k'))"
| stalled: "conns c = Some k \<Longrightarrow> cn_phase k = Dispatched i r captures h \<Longrightarrow>
    gate_step lc (st, conns) (record_ip_violation conf now (ip_of (cn_addr k)) st, conns)"
| finished: "conns c = Some k \<Longrightarrow> cn_phase k = Dispatched i r captures h \<Longrightarrow>
    gate_step lc (st, conns) (close_conn k st, conns(c := None))"

inductive_cases gate_stepE: "gate_step lc w w'"

definition holds_global :: "conn option \<Rightarrow> bool" where
  "holds_global k \<longleftrightarrow> (\<exists>x. k = Some x \<and> \<not> gcg_released (cn_global x))"

definition guards_of :: "(nat \<rightharpoonup> conn) \<Rightarrow> nat \<rightharpoonup> pre_login_guard" where
  "guards_of conns = (\<lambda>c. Option.bind (conns c) cn_guard)"

definition header_unguarded :: "conn \<Rightarrow> bool" where
  "header_unguarded k \<longleftrightarrow> cn_phase k = Reading_Header \<longrightarrow> cn_guard k = None"

definition gate_inv :: "gate_world \<Rightarrow> bool" where
  "gate_inv w \<longleftrightarrow> finite (dom (snd w)) \<and> gs_global (fst w) = int (card {c. holds_global (snd w c)})
     \<and> prelogin_inv (gs_prelogin (fst w), guards_of (snd w)) \<and> (\<forall>c k. snd w c = Some k \<longrightarrow> header_unguarded k)"

section \<open>Slots of one connection\<close>

text \<open>One connection's move from \<open>old\<close> to \<open>new\<close> accounts for its own slots and for nothing else.\<close>

definition slot_move :: "gate_shared \<Rightarrow> conn option \<Rightarrow> gate_shared \<Rightarrow> conn option \<Rightarrow> bool" where
  "slot_move st old st' new \<longleftrightarrow>
     gs_global st' + (if holds_global old then 1 else 0) = gs_global st + (if holds_global new then 1 else 0)
     \<and> (\<forall>G c. prelogin_inv (gs_prelogin st, G(c := Option.bind old cn_guard)) \<longrightarrow>
           prelogin_inv (gs_prelogin st', G(c := Option.bind new cn_guard)))"

fun kept :: "progress \<Rightarrow> conn option" where
  "kept (Refused why) = None"
| "kept (Continue k) = Some k"

lemma settle_kept: "settle c conns (p, st) = (st, conns(c := kept p))"
  by (cases p) simp_all

lemma holds_global_simps [simp]:
  "\<not> holds_global None" "holds_global (Some k) \<longleftrightarrow> \<not> gcg_released (cn_global k)"
  by (simp_all add: holds_global_def)

lemma record_ip_violation_fields [simp]:
  "gs_global (record_ip_violation conf now ip st) = gs_global st"
  "gs_prelogin (record_ip_violation conf now ip st) = gs_prelogin st"
  "gs_rates (record_ip_violation conf now ip st) = gs_rates st"
  by (simp_all add: record_ip_violation_def Let_def)

lemma check_ban_fields:
  "check_ban now addr st = (b, st') \<Longrightarrow>
   gs_global st' = gs_global st \<and> gs_prelogin st' = gs_prelogin st \<and> gs_rates st' = gs_rates st"
  by (auto simp: check_ban_def split: prod.splits)

lemma slot_move_same:
  "gs_global st' = gs_global st \<Longrightarrow> gs_prelogin st' = gs_prelogin st \<Longrightarrow> slot_move st k st' k"
  by (simp add: slot_move_def)

lemma slot_move_trans: "slot_move st a st' b \<Longrightarrow> slot_move st' b st'' c \<Longrightarrow> slot_move st a st'' c"
  by (fastforce simp: slot_move_def)

lemma slot_move_close: "slot_move st (Some k) (close_conn k st) None"
proof -
  have "prelogin_inv (gs_prelogin (close_conn k st), G(c := None))"
    if inv: "prelogin_inv (gs_prelogin st, G(c := cn_guard k))" for G c
  proof (cases "cn_guard k")
    case (Some g)
    then show ?thesis
      using release_step_inv [OF inv, of c g "fst (guard_release g (gs_prelogin st))" "guard_drop g (gs_prelogin st)" None]
      by (simp add: close_conn_def guard_drop_def)
  qed (use inv in \<open>simp add: close_conn_def\<close>)
  then show ?thesis by (simp add: slot_move_def close_conn_def gc_guard_drop_def gc_fetch_sub_def)
qed

lemma slot_move_refuse:
  assumes "slot_move st old st' (Some k)" and "gs_global st'' = gs_global st'" and "gs_prelogin st'' = gs_prelogin st'"
  shows "slot_move st old (close_conn k st'') None"
  using slot_move_trans [OF slot_move_trans [OF assms(1) slot_move_same [OF assms(2,3)]] slot_move_close] .

lemma slot_move_global:
  assumes "gc_guard_acquire mx (gs_global st) = (g, n)"
  shows "g = None \<Longrightarrow> slot_move st None (st\<lparr>gs_global := n\<rparr>) None"
    and "g = Some x \<Longrightarrow> cn_global k = x \<Longrightarrow> cn_guard k = None \<Longrightarrow> slot_move st None (st\<lparr>gs_global := n\<rparr>) (Some k)"
  using assms
  by (auto simp: slot_move_def gc_guard_acquire_def gc_try_acquire_def gc_fetch_add_def gc_fetch_sub_def
    split: if_splits dest: sym [of _ "cn_global k"])

lemma slot_move_prelogin:
  assumes "acquire_prelogin now k st = (p, st')" and "cn_guard k = None"
  shows "slot_move st (Some k) st' (kept p)"
proof -
  obtain g counts where a: "guard_acquire (gs_prelogin st) (Some (ip_of (cn_addr k))) (nat (max (gc_max_connections_per_ip (cn_cfg k)) 0)) = (g, counts)"
    by (cases "guard_acquire (gs_prelogin st) (Some (ip_of (cn_addr k))) (nat (max (gc_max_connections_per_ip (cn_cfg k)) 0))")
  show ?thesis
  proof (cases g)
    case None
    have "prelogin_inv (counts, G)" if "prelogin_inv (gs_prelogin st, G)" for G
      using prelogin_step_inv [OF prelogin_step.refuse [OF a [unfolded None]] that] .
    then have "slot_move st (Some k) (st\<lparr>gs_prelogin := counts\<rparr>) (Some k)" using assms(2) by (simp add: slot_move_def)
    then have "slot_move st (Some k) (close_conn k (record_ip_violation (cn_cfg k) now (ip_of (cn_addr k)) (st\<lparr>gs_prelogin := counts\<rparr>))) None"
      by (rule slot_move_refuse) simp_all
    then show ?thesis using assms(1) a None by (auto simp: acquire_prelogin_def Let_def)
  next
    case (Some x)
    have "prelogin_inv (counts, G(c \<mapsto> x))" if "prelogin_inv (gs_prelogin st, G(c := None))" for G c
      using admit_step_inv [OF that, of c "Some (ip_of (cn_addr k))" _ x counts] a Some by simp
    then have "slot_move st (Some k) (st\<lparr>gs_prelogin := counts\<rparr>) (Some (k\<lparr>cn_guard := Some x, cn_phase := Reading_Handshake\<rparr>))"
      using assms(2) by (simp add: slot_move_def)
    then show ?thesis using assms(1) a Some by (auto simp: acquire_prelogin_def Let_def)
  qed
qed

lemma prelogin_phase: "acquire_prelogin now k st = (Continue k', st') \<Longrightarrow> cn_phase k' = Reading_Handshake"
  by (auto simp: acquire_prelogin_def Let_def split: prod.splits option.splits)

lemma limit_rate_slot_move:
  assumes "limit_rate now k st = (p, st')" and "cn_guard k = None"
  shows "slot_move st (Some k) st' (kept p) \<and> (\<forall>k'. p = Continue k' \<longrightarrow> cn_phase k' = Reading_Handshake)"
proof -
  have rates: "slot_move st (Some k) (st\<lparr>gs_rates := rs\<rparr>) (Some k)" for rs by (rule slot_move_same) simp_all
  have entered: ?thesis if "slot_move st (Some k) s (Some k)" "acquire_prelogin now k s = (p, st')" for s
    using slot_move_trans [OF that(1) slot_move_prelogin [OF that(2) assms(2)]] prelogin_phase [of now k s _ st'] that(2) by auto
  let ?ct = "gc_connection_throttle (cn_cfg k)"
  obtain ok rs where r: "rate_try_acquire now (ip_of (cn_peer k)) (nat (ct_max_per_ip_per_window ?ct))
      (from_millis (nat (max (ct_window_millis ?ct) 0))) (gs_rates st) = (ok, rs)"
    by (metis prod.exhaust)
  show ?thesis
  proof (cases "ct_max_per_ip_per_window ?ct > 0 \<and> \<not> ok")
    case True
    then show ?thesis using assms(1) r slot_move_refuse [OF rates [of rs]] by (auto simp: limit_rate_def Let_def)
  next
    case False
    then show ?thesis
      using assms(1) r entered [OF rates [of rs]] entered [OF slot_move_same] by (auto simp: limit_rate_def Let_def split: if_splits)
  qed
qed

lemma enter_gate_slot_move:
  assumes "enter_gate conf now peer inner st = (p, st')"
  shows "slot_move st None st' (kept p) \<and> (\<forall>k. p = Continue k \<longrightarrow> header_unguarded k)"
proof -
  obtain g n where g: "gc_guard_acquire (ct_max_connections (gc_connection_throttle conf)) (gs_global st) = (g, n)"
    by (metis prod.exhaust)
  show ?thesis
  proof (cases g)
    case None
    then show ?thesis using assms g slot_move_global(1) [OF g] by (auto simp: enter_gate_def)
  next
    case (Some x)
    define k where "k = \<lparr>cn_cfg = conf, cn_peer = peer, cn_addr = peer, cn_stream = bs_new inner,
                        cn_global = x, cn_guard = None, cn_phase = Reading_Header\<rparr>"
    have opened: "slot_move st None (st\<lparr>gs_global := n\<rparr>) (Some k)"
      using slot_move_global(2) [OF g Some, of k] by (simp add: k_def)
    have guard: "cn_guard k = None" by (simp add: k_def)
    have run: "(if gc_proxy_protocol conf then (Continue k, st\<lparr>gs_global := n\<rparr>) else limit_rate now k (st\<lparr>gs_global := n\<rparr>)) = (p, st')"
      using assms g Some by (auto simp: enter_gate_def Let_def k_def)
    show ?thesis
    proof (cases "gc_proxy_protocol conf")
      case True
      then show ?thesis using run opened by (auto simp: header_unguarded_def guard)
    next
      case False
      then have "slot_move (st\<lparr>gs_global := n\<rparr>) (Some k) st' (kept p) \<and> (\<forall>k'. p = Continue k' \<longrightarrow> cn_phase k' = Reading_Handshake)"
        using run limit_rate_slot_move [of now k "st\<lparr>gs_global := n\<rparr>" p st'] guard by simp
      then show ?thesis using slot_move_trans [OF opened] by (auto simp: header_unguarded_def)
    qed
  qed
qed

lemma accept_slot_move:
  assumes "accept_connection conf now peer inner st = (p, st')"
  shows "slot_move st None st' (kept p) \<and> (\<forall>k. p = Continue k \<longrightarrow> header_unguarded k)"
proof (cases "\<not> gc_proxy_protocol conf \<and> ab_enabled (gc_auto_ban conf)")
  case True
  obtain banned st1 where b: "check_ban now peer st = (banned, st1)" by (metis prod.exhaust)
  then have "slot_move st None st1 None" using check_ban_fields by (intro slot_move_same) auto
  then show ?thesis
    using assms True b enter_gate_slot_move [of conf now peer inner st1 p st'] slot_move_trans [of st None st1 None]
    by (cases banned) (auto simp: accept_connection_def)
next
  case False
  then show ?thesis using assms enter_gate_slot_move [of conf now peer inner st p st'] by (auto simp: accept_connection_def)
qed

lemma header_slot_move:
  assumes "read_proxy_header now late k st = (p, st')" and "cn_guard k = None"
  shows "slot_move st (Some k) st' (kept p) \<and> (\<forall>k'. p = Continue k' \<longrightarrow> cn_phase k' = Reading_Handshake)"
proof -
  obtain header inner where h: "read_proxy_protocol_header (bs_inner (cn_stream k)) = (header, inner)" by (metis prod.exhaust)
  show ?thesis
  proof (cases "within (cn_cfg k) late header")
    case None
    then show ?thesis using assms(1) h slot_move_close by (auto simp: read_proxy_header_def)
  next
    case (Some res)
    show ?thesis
    proof (cases res)
      case (Inl e)
      then show ?thesis using assms(1) h Some slot_move_close by (auto simp: read_proxy_header_def)
    next
      case (Inr addr)
      let ?k = "k\<lparr>cn_addr := unwrap_or addr (cn_peer k), cn_stream := bs_new inner\<rparr>"
      have named: "slot_move s (Some k) s (Some ?k)" for s by (simp add: slot_move_def)
      have entered: ?thesis if "slot_move st (Some k) s (Some ?k)" "acquire_prelogin now ?k s = (p, st')" for s
        using slot_move_trans [OF that(1) slot_move_prelogin [OF that(2)]] assms(2) prelogin_phase [of now ?k s _ st'] that(2) by auto
      obtain banned st1 where b: "check_ban now (cn_addr ?k) st = (banned, st1)" by (metis prod.exhaust)
      have st1: "slot_move st (Some k) st1 (Some ?k)"
        using slot_move_trans [OF named slot_move_same] check_ban_fields [OF b] by simp
      show ?thesis
        using assms(1) h Some Inr b entered [OF named] entered [OF st1] slot_move_trans [OF st1 slot_move_close]
        by (cases "ab_enabled (gc_auto_ban (cn_cfg k))"; cases banned) (auto simp: read_proxy_header_def)
    qed
  qed
qed

lemma hello_slot_move:
  assumes "read_login_handshake lc now late k st = (p, st')"
  shows "slot_move st (Some k) st' (kept p) \<and> (\<forall>k'. p = Continue k' \<longrightarrow> (\<exists>i r cs h. cn_phase k' = Dispatched i r cs h))"
proof -
  obtain result stream where h: "bs_read_handshake (cn_stream k) = (result, stream)" by (metis prod.exhaust)
  have charged: "slot_move st (Some k) (close_conn k (record_ip_violation conf now ip st)) None" for conf ip
    by (rule slot_move_refuse [OF slot_move_same]) simp_all
  have kept: "slot_move st (Some k) st (Some (k\<lparr>cn_stream := stream, cn_phase := ph\<rparr>))" for ph
    by (simp add: slot_move_def)
  show ?thesis
  proof (cases "within (cn_cfg k) late result")
    case None
    then show ?thesis using assms h charged by (auto simp: read_login_handshake_def Let_def)
  next
    case (Some res)
    show ?thesis
    proof (cases res)
      case (Inl e)
      then show ?thesis
        using assms h Some charged slot_move_close by (cases e) (auto simp: read_login_handshake_def Let_def)
    next
      case (Inr hs)
      then show ?thesis
        using assms h Some kept slot_move_close
        by (cases "match_route lc 0 (gc_routes (cn_cfg k)) (hs_host hs)")
          (auto simp: read_login_handshake_def Let_def split: option.splits)
    qed
  qed
qed

lemma proven_slot_move:
  assumes "login_proven k st = (k', st')"
  shows "slot_move st (Some k) st' (Some k') \<and> cn_phase k' = cn_phase k"
proof (cases "cn_guard k")
  case None
  then show ?thesis using assms slot_move_same by (auto simp: login_proven_def)
next
  case (Some g)
  obtain g' counts where r: "guard_release g (gs_prelogin st) = (g', counts)" by (metis prod.exhaust)
  have "\<not> holds_slot (Some g') ip" for ip
    using r by (auto simp: guard_release_def holds_slot_def split: if_splits)
  then have "prelogin_inv (counts, G(c \<mapsto> g'))" if "prelogin_inv (gs_prelogin st, G(c \<mapsto> g))" for G c
    using release_step_inv [OF that _ r, of c "Some g'"] by simp
  then have "slot_move st (Some k) (st\<lparr>gs_prelogin := counts\<rparr>) (Some (k\<lparr>cn_guard := Some g'\<rparr>))"
    using Some by (simp add: slot_move_def)
  then show ?thesis using assms Some r by (auto simp: login_proven_def guard_done_def)
qed

lemma slot_move_inv:
  assumes inv: "gate_inv (st, conns)" and move: "slot_move st (conns c) st' new"
    and new: "\<And>k. new = Some k \<Longrightarrow> header_unguarded k"
  shows "gate_inv (st', conns(c := new))"
proof -
  let ?H = "{d. holds_global (conns d)}" and ?H' = "{d. holds_global ((conns(c := new)) d)}"
  have fin: "finite (dom conns)" using inv by (simp add: gate_inv_def)
  then have finH: "finite ?H" by (rule rev_finite_subset) (auto simp: holds_global_def)
  have "finite (dom (conns(c := new)))" using fin by (auto intro: finite_subset [of _ "insert c (dom conns)"])
  moreover have "int (card ?H') + (if holds_global (conns c) then 1 else 0) = int (card ?H) + (if holds_global new then 1 else 0)"
  proof -
    have "?H' = (if holds_global new then insert c (?H - {c}) else ?H - {c})" by auto
    moreover have "int (card (?H - {c})) + (if holds_global (conns c) then 1 else 0) = int (card ?H)"
      using finH card_Suc_Diff1 [of ?H c] by auto
    ultimately show ?thesis using finH by (auto simp: card_insert_if)
  qed
  then have "gs_global st' = int (card ?H')"
    using inv move unfolding gate_inv_def slot_move_def fst_conv snd_conv by linarith
  moreover have "prelogin_inv (gs_prelogin st', guards_of (conns(c := new)))"
  proof -
    have "guards_of conns = (guards_of conns)(c := Option.bind (conns c) cn_guard)"
      and "guards_of (conns(c := new)) = (guards_of conns)(c := Option.bind new cn_guard)"
      by (auto simp: guards_of_def)
    then show ?thesis using inv move unfolding gate_inv_def slot_move_def fst_conv snd_conv by metis
  qed
  ultimately show ?thesis using inv new by (auto simp: gate_inv_def)
qed

lemma gate_step_inv: "gate_step lc w w' \<Longrightarrow> gate_inv w \<Longrightarrow> gate_inv w'"
proof (induction rule: gate_step.induct)
  case (accept conns c st conf now peer inner)
  obtain p st' where r: "accept_connection conf now peer inner st = (p, st')" by (metis prod.exhaust)
  show ?case
    using accept_slot_move [OF r] accept slot_move_inv [of st conns c st' "kept p"] unfolding r settle_kept
    by (cases p) auto
next
  case (header conns c k st now late)
  obtain p st' where r: "read_proxy_header now late k st = (p, st')" by (metis prod.exhaust)
  have "cn_guard k = None" using header by (auto simp: gate_inv_def header_unguarded_def)
  then show ?case
    using header_slot_move [OF r] header slot_move_inv [of st conns c st' "kept p"] unfolding r settle_kept
    by (cases p) (auto simp: header_unguarded_def)
next
  case (hello conns c k st now late)
  obtain p st' where r: "read_login_handshake lc now late k st = (p, st')" by (metis prod.exhaust)
  show ?case
    using hello_slot_move [OF r] hello slot_move_inv [of st conns c st' "kept p"] unfolding r settle_kept
    by (cases p) (auto simp: header_unguarded_def)
next
  case (proven conns c k i r captures h st k' st')
  then show ?case
    using proven_slot_move [OF proven(3)] slot_move_inv [of st conns c st' "Some k'"] by (auto simp: header_unguarded_def)
next
  case (stalled conns c k i r captures h st conf now)
  then show ?case by (simp add: gate_inv_def)
next
  case (finished conns c k i r captures h st)
  then show ?case using slot_move_inv [of st conns c "close_conn k st" None] slot_move_close by simp
qed

definition gate_start :: gate_shared where
  "gate_start = \<lparr>gs_bans = [], gs_global = 0, gs_rates = [], gs_prelogin = []\<rparr>"

lemma gate_reachable_inv: "(gate_step lc)\<^sup>*\<^sup>* (gate_start, Map.empty) w \<Longrightarrow> gate_inv w"
proof (induction rule: rtranclp_induct)
  case base
  have "prelogin_inv ([], Map.empty)" using prelogin_reachable_inv by blast
  then show ?case by (simp add: gate_inv_def gate_start_def guards_of_def)
qed (rule gate_step_inv)

section \<open>Bans\<close>

lemma close_conn_bans [simp]: "gs_bans (close_conn k st) = gs_bans st"
  by (simp add: close_conn_def)

lemma record_ip_violation_other: "j \<noteq> ip \<Longrightarrow> hm_get (gs_bans (record_ip_violation conf now ip st)) j = hm_get (gs_bans st) j"
  by (auto simp: record_ip_violation_def record_violation_def Let_def)

lemma check_ban_other: "check_ban now addr st = (b, st') \<Longrightarrow> j \<noteq> ip_of addr \<Longrightarrow> hm_get (gs_bans st') j = hm_get (gs_bans st) j"
  by (auto simp: check_ban_def is_banned_def split: prod.splits option.splits if_splits)

lemma check_ban_verdict: "check_ban now addr st = (b, st') \<Longrightarrow> b = banned_at now (gs_bans st) (ip_of addr)"
  using fst_is_banned [of now "ip_of addr" "gs_bans st"] by (auto simp: check_ban_def split: prod.splits)

lemma acquire_prelogin_other:
  "j \<noteq> ip_of (cn_addr k) \<Longrightarrow> hm_get (gs_bans (snd (acquire_prelogin now k st))) j = hm_get (gs_bans st) j"
  by (auto simp: acquire_prelogin_def Let_def record_ip_violation_other split: prod.splits option.splits)

lemma acquire_prelogin_addr:
  "acquire_prelogin now k st = (Continue k', st') \<Longrightarrow> cn_addr k' = cn_addr k \<and> cn_cfg k' = cn_cfg k"
  by (auto simp: acquire_prelogin_def Let_def split: prod.splits option.splits)

lemma limit_rate_other:
  assumes "j \<noteq> ip_of (cn_peer k)" and "cn_addr k = cn_peer k"
  shows "hm_get (gs_bans (snd (limit_rate now k st))) j = hm_get (gs_bans st) j"
proof -
  obtain ok rs where "rate_try_acquire now (ip_of (cn_peer k)) (nat (ct_max_per_ip_per_window (gc_connection_throttle (cn_cfg k))))
      (from_millis (nat (max (ct_window_millis (gc_connection_throttle (cn_cfg k))) 0))) (gs_rates st) = (ok, rs)"
    by (metis prod.exhaust)
  then show ?thesis
    using assms by (cases ok) (auto simp: limit_rate_def Let_def record_ip_violation_other acquire_prelogin_other)
qed

lemma limit_rate_addr: "limit_rate now k st = (Continue k', st') \<Longrightarrow> cn_addr k' = cn_addr k"
  by (auto simp: limit_rate_def Let_def split: if_splits prod.splits bool.splits dest: acquire_prelogin_addr)

lemma enter_gate_other:
  "j \<noteq> ip_of peer \<Longrightarrow> hm_get (gs_bans (snd (enter_gate conf now peer inner st))) j = hm_get (gs_bans st) j"
  by (auto simp: enter_gate_def Let_def limit_rate_other split: prod.splits option.splits)

lemma enter_gate_addr: "enter_gate conf now peer inner st = (Continue k, st') \<Longrightarrow> cn_addr k = peer"
  by (auto simp: enter_gate_def Let_def split: prod.splits option.splits if_splits dest: limit_rate_addr)

text \<open>The address a connection is known under once its header has been read.\<close>

definition announced :: "conn \<Rightarrow> socket_addr" where
  "announced k = (case fst (read_proxy_protocol_header (bs_inner (cn_stream k))) of Inr a \<Rightarrow> unwrap_or a (cn_peer k) | Inl e \<Rightarrow> cn_peer k)"

lemma header_other:
  assumes "j \<noteq> ip_of (announced k)"
  shows "hm_get (gs_bans (snd (read_proxy_header now late k st))) j = hm_get (gs_bans st) j"
proof -
  obtain header inner where h: "read_proxy_protocol_header (bs_inner (cn_stream k)) = (header, inner)" by (metis prod.exhaust)
  show ?thesis
  proof (cases header)
    case (Inr addr)
    let ?k = "k\<lparr>cn_addr := unwrap_or addr (cn_peer k), cn_stream := bs_new inner\<rparr>"
    have a: "announced k = cn_addr ?k" using h Inr by (simp add: announced_def)
    obtain b st1 where c: "check_ban now (cn_addr ?k) st = (b, st1)" by (metis prod.exhaust)
    show ?thesis
      using assms a h Inr c check_ban_other [OF c, of j] acquire_prelogin_other [of j ?k now]
      by (cases b; cases "ab_enabled (gc_auto_ban (cn_cfg k))") (auto simp: read_proxy_header_def within_def)
  qed (use h in \<open>simp add: read_proxy_header_def within_def\<close>)
qed

lemma hello_other:
  assumes "j \<noteq> ip_of (cn_addr k)"
  shows "hm_get (gs_bans (snd (read_login_handshake lc now late k st))) j = hm_get (gs_bans st) j"
proof -
  obtain result stream where h: "bs_read_handshake (cn_stream k) = (result, stream)" by (metis prod.exhaust)
  show ?thesis
  proof (cases result)
    case (Inl e)
    then show ?thesis using assms h by (cases e) (auto simp: read_login_handshake_def Let_def within_def record_ip_violation_other)
  next
    case (Inr hs)
    then show ?thesis using assms h
      by (cases "match_route lc 0 (gc_routes (cn_cfg k)) (hs_host hs)")
        (auto simp: read_login_handshake_def Let_def within_def record_ip_violation_other split: option.splits)
  qed
qed

section \<open>Properties\<close>


definition demo_addr :: socket_addr where
  "demo_addr = SocketAddr (V4 10 0 0 1) 4000"

definition demo_capped :: gate_config where
  "demo_capped = gate_config_default\<lparr>gc_proxy_protocol := True,
     gc_connection_throttle := connection_throttle_default\<lparr>ct_max_connections := 5\<rparr>\<rparr>"




text \<open>Violations are charged to the connection's own address only. Whatever a connection does, the
  only entry of the ban list that it can change is that of the address it is known under, and behind a
  fronting proxy nothing is charged before the header has named the client.\<close>

theorem violations_charge_own_address:
  "(gc_proxy_protocol conf \<longrightarrow> gs_bans (snd (accept_connection conf now peer inner st)) = gs_bans st)
   \<and> (j \<noteq> ip_of peer \<longrightarrow> hm_get (gs_bans (snd (accept_connection conf now peer inner st))) j = hm_get (gs_bans st) j)
   \<and> (j \<noteq> ip_of (announced k) \<longrightarrow> hm_get (gs_bans (snd (read_proxy_header now late k st))) j = hm_get (gs_bans st) j)
   \<and> (j \<noteq> ip_of (cn_addr k) \<longrightarrow> hm_get (gs_bans (snd (read_login_handshake lc now late k st))) j = hm_get (gs_bans st) j)"
proof (intro conjI impI)
  show "gs_bans (snd (accept_connection conf now peer inner st)) = gs_bans st" if "gc_proxy_protocol conf"
    using that by (auto simp: accept_connection_def enter_gate_def Let_def split: prod.splits option.splits)
  show "hm_get (gs_bans (snd (accept_connection conf now peer inner st))) j = hm_get (gs_bans st) j" if j: "j \<noteq> ip_of peer"
  proof -
    obtain b st1 where c: "check_ban now peer st = (b, st1)" by (metis prod.exhaust)
    show ?thesis
      using c check_ban_other [OF c j] enter_gate_other [OF j] by (cases b) (auto simp: accept_connection_def)
  qed
qed (simp_all add: header_other hello_other)

theorem violations_charge_own_address_witness:
  "gs_bans (snd (accept_connection demo_capped 0 demo_addr [] gate_start)) = []"
  using violations_charge_own_address [of demo_capped 0 demo_addr "[]" gate_start]
  by (simp add: demo_capped_def gate_start_def)

text \<open>A connection whose header names no client (LOCAL or UNKNOWN) is known under the fronting proxy's own
  address, so its violations are charged to the proxy.\<close>

theorem unknown_header_charges_proxy:
  assumes "fst (read_proxy_protocol_header (bs_inner (cn_stream k))) = Inr None"
    and "gc_login_timeout_millis (cn_cfg k) > 0" and "read_proxy_header now False k st = (Continue k', st')"
  shows "gs_bans (snd (read_login_handshake lc now' True k' st')) = gs_bans (record_ip_violation (cn_cfg k) now' (ip_of (cn_peer k)) st')"
proof -
  obtain inner where h: "read_proxy_protocol_header (bs_inner (cn_stream k)) = (Inr None, inner)" using assms(1) by (metis prod.collapse)
  let ?k = "k\<lparr>cn_addr := cn_peer k, cn_stream := bs_new inner\<rparr>"
  obtain s where "acquire_prelogin now ?k s = (Continue k', st')"
    using assms(3) h by (auto simp: read_proxy_header_def within_def Let_def split: if_splits prod.splits bool.splits)
  then have "cn_addr k' = cn_peer k" "cn_cfg k' = cn_cfg k"
    using acquire_prelogin_addr [of now ?k s k' st'] by simp_all
  then show ?thesis using assms(2) by (simp add: read_login_handshake_def Let_def within_def split: prod.splits)
qed

end
