(* ===== verification/Compression.thy ===== *)
theory Compression
  imports Varint
begin

text \<open>
  Packet compression framing, \<open>src/protocol/compression.rs\<close>.

  The zlib library is not part of the repository: \<open>zlib\<close> carries its compressor and its bounded reader
  \<open>z_read\<close>, which returns at most the given number of decompressed bytes or the error of the stream. What
  the round trip needs of them is \<open>zlib_ok\<close>: reading back what was compressed yields its prefix.
\<close>

section \<open>Definitions\<close>

record 'e zlib =
  z_deflate :: "bytes \<Rightarrow> bytes"
  z_read :: "bytes \<Rightarrow> nat \<Rightarrow> 'e + bytes"

datatype 'e compression_error = DataLengthOutOfRange i32 | CompressedPayloadOutOfRange i32 | Deflate 'e | Truncated

definition frame :: "'e zlib \<Rightarrow> bytes \<Rightarrow> i32 \<Rightarrow> bytes" where
  "frame z payload compression_threshold =
     (if sint compression_threshold < 0 then length_prefix payload
      else
        let uncompressed_size = (of_nat (length payload) :: i32) in
        length_prefix
          (if sint uncompressed_size < sint compression_threshold
           then write_var_int 0 @ payload
           else write_var_int uncompressed_size @ z_deflate z payload))"

definition inflate :: "'e zlib \<Rightarrow> bytes \<Rightarrow> nat \<Rightarrow> 'e compression_error + bytes" where
  "inflate z src expected_size = (case z_read z src expected_size of Inl e \<Rightarrow> Inl (Deflate e) | Inr out \<Rightarrow> Inr out)"

definition read_packet_id :: "bytes \<Rightarrow> 'e compression_error + i32 \<times> bytes" where
  "read_packet_id bs = (case read_var_int bs of Inl _ \<Rightarrow> Inl Truncated | Inr (i, consumed) \<Rightarrow> Inr (i, drop consumed bs))"

definition read_compressed_frame :: "'e zlib \<Rightarrow> bytes \<Rightarrow> i32 \<Rightarrow> 'e compression_error + i32 \<times> bytes" where
  "read_compressed_frame z frame_payload compression_threshold =
     (if sint compression_threshold < 0 then read_packet_id frame_payload
      else
        case read_var_int frame_payload of
          Inl _ \<Rightarrow> Inl Truncated
        | Inr (data_length, consumed) \<Rightarrow>
            let rest = drop consumed frame_payload in
            if data_length = 0 then read_packet_id rest
            else if sint data_length < 0 \<or> sint data_length > sint MAX_PACKET_BYTES then Inl (DataLengthOutOfRange data_length)
            else if length rest > unat MAX_PACKET_BYTES then Inl (CompressedPayloadOutOfRange (of_nat (length rest)))
            else bind_result (inflate z rest (unat data_length)) read_packet_id)"

definition zlib_ok :: "'e zlib \<Rightarrow> bool" where
  "zlib_ok z \<longleftrightarrow> (\<forall>src n. z_read z (z_deflate z src) n = Inr (take n src))"

section \<open>Reading back a frame\<close>

lemma read_packet_id_write [simp]: "read_packet_id (write_var_int i @ body) = Inr (i, body)"
  by (simp add: read_packet_id_def read_write_var_int)

lemma read_packet_id_length: "read_packet_id bs = Inr (i, body) \<Longrightarrow> length body \<le> length bs"
  by (auto simp: read_packet_id_def split: sum.splits)

text \<open>The contents of a frame, as a reader gets them after the outer length.\<close>

definition unframed :: "bytes \<Rightarrow> bytes" where
  "unframed wire = (case read_var_int wire of Inr (_, consumed) \<Rightarrow> drop consumed wire | Inl _ \<Rightarrow> [])"

lemma unframed_length_prefix [simp]: "unframed (length_prefix p) = p"
  using read_length_prefix [of p "[]"] by (simp add: unframed_def) (simp add: length_prefix_def)

lemma frame_parts:
  assumes "zlib_ok z" and "length payload \<le> 2097151" and "payload \<noteq> []"
    and "length (z_deflate z payload) \<le> 2097151"
  shows "sint t < 0 \<Longrightarrow> unframed (frame z payload t) = payload"
    and "0 \<le> sint t \<Longrightarrow> read_compressed_frame z (unframed (frame z payload t)) t = read_packet_id payload"
proof -
  show "sint t < 0 \<Longrightarrow> unframed (frame z payload t) = payload" by (simp add: frame_def)
  let ?n = "of_nat (length payload) :: i32"
  have n: "sint ?n = int (length payload)" "unat ?n = length payload" "?n \<noteq> 0"
  proof -
    show "sint ?n = int (length payload)" "unat ?n = length payload" using assms(2) by simp_all
    then show "?n \<noteq> 0" using assms(3) by auto
  qed
  have m: "unat MAX_PACKET_BYTES = 2097151" by (simp add: MAX_PACKET_BYTES_def)
  assume t: "0 \<le> sint t"
  show "read_compressed_frame z (unframed (frame z payload t)) t = read_packet_id payload"
  proof (cases "sint ?n < sint t")
    case True
    then show ?thesis using t by (simp add: frame_def Let_def read_compressed_frame_def read_write_var_int)
  next
    case False
    then show ?thesis
      using t n m assms(1,2,4)
      by (simp add: frame_def Let_def read_compressed_frame_def read_write_var_int MAX_PACKET_BYTES_sint inflate_def zlib_ok_def)
  qed
qed

lemma read_framed_packet:
  assumes "zlib_ok z" and "length (write_var_int i @ body) \<le> 2097151"
    and "length (z_deflate z (write_var_int i @ body)) \<le> 2097151"
  shows "read_compressed_frame z (unframed (frame z (write_var_int i @ body) t)) t = Inr (i, body)"
proof -
  have "write_var_int i @ body \<noteq> []" using length_write_var_int [of i] by auto
  then show ?thesis
    using frame_parts [OF assms(1,2) _ assms(3), of t] by (cases "sint t < 0") (simp_all add: read_compressed_frame_def)
qed

section \<open>Properties\<close>

text \<open>Framing is undone by reading, at every threshold. With a zlib whose reader undoes its compressor,
  a packet written at a compression threshold, compressed or not, is read back at the same threshold
  as its id and body.\<close>

theorem compression_round_trip:
  assumes "zlib_ok z" and "length (write_var_int i @ body) \<le> 2097151"
    and "length (z_deflate z (write_var_int i @ body)) \<le> 2097151"
  shows "read_compressed_frame z (unframed (frame z (write_var_int i @ body) t)) t = Inr (i, body)"
  using assms by (rule read_framed_packet)

definition stored_zlib :: "unit zlib" where
  "stored_zlib = \<lparr>z_deflate = (\<lambda>src. src), z_read = (\<lambda>src n. Inr (take n src))\<rparr>"

theorem compression_round_trip_witness:
  "read_compressed_frame stored_zlib (unframed (frame stored_zlib (write_var_int 5 @ [1, 2, 3]) 2)) 2 = Inr (5, [1, 2, 3])"
proof -
  have "length (write_var_int 5) \<le> 5" using length_write_var_int by blast
  then show ?thesis
    using compression_round_trip [of stored_zlib 5 "[1, 2, 3]" 2] by (simp add: stored_zlib_def zlib_ok_def)
qed

text \<open>A hostile length never reaches the decompressor. Whatever bytes a peer sends, a frame that claims a
  negative decompressed size or one above the packet limit is refused, and what the decompressor is
  asked for, and returns, stays within the limit.\<close>

theorem decompression_bounded:
  assumes "\<And>src n out. z_read z src n = Inr out \<Longrightarrow> length out \<le> n"
    and "read_compressed_frame z payload t = Inr (i, body)" and "length payload \<le> 2097151"
  shows "length body \<le> 2097151"
proof (cases "sint t < 0")
  case True
  then show ?thesis using assms(2,3) read_packet_id_length by (fastforce simp: read_compressed_frame_def)
next
  case False
  then obtain d c where dc: "read_var_int payload = Inr (d, c)"
    using assms(2) by (auto simp: read_compressed_frame_def split: sum.splits)
  show ?thesis
  proof (cases "d = 0")
    case True
    then have "length body \<le> length (drop c payload)"
      using False dc assms(2) by (auto simp: read_compressed_frame_def Let_def simp del: length_drop dest: read_packet_id_length)
    then show ?thesis using assms(3) by simp
  next
    case nz: False
    then have d: "0 \<le> sint d" "sint d \<le> sint MAX_PACKET_BYTES"
      and "bind_result (inflate z (drop c payload) (unat d)) read_packet_id = Inr (i, body)"
      using False dc assms(2) by (auto simp: read_compressed_frame_def Let_def not_less split: if_splits)
    then obtain out where out: "inflate z (drop c payload) (unat d) = Inr out" and body: "length body \<le> length out"
      using read_packet_id_length by (auto simp: bind_result_Inr_iff)
    have "unat d \<le> 2097151" using d sint_nonneg_unat [OF d(1)] MAX_PACKET_BYTES_sint by linarith
    moreover have "length out \<le> unat d" using out assms(1) by (auto simp: inflate_def split: sum.splits)
    ultimately show ?thesis using body by linarith
  qed
qed

theorem decompression_bounded_witness:
  "length (case read_compressed_frame stored_zlib [3, 5, 1, 2] 2 of Inr (_, f) \<Rightarrow> f | Inl _ \<Rightarrow> []) \<le> 2097151"
  using decompression_bounded [of stored_zlib "[3, 5, 1, 2]" 2]
  by (auto simp: stored_zlib_def split: sum.split)

end
