(* ===== verification/Nbt.thy ===== *)
theory Nbt
  imports Rust_Std
begin

text \<open>
  The binary NBT writer of \<open>src/protocol/nbt.rs\<close>. A builder method that appends to the output is the bytes it
  appends, and the closure that fills a compound is the list of the fields it writes. Floats are
  their bit patterns.

  The reader below is the reference the writer is checked against: it decodes the network format.
\<close>

section \<open>The writer\<close>

definition NBT_END :: byte where "NBT_END = 0"
definition NBT_BYTE :: byte where "NBT_BYTE = 1"
definition NBT_INT :: byte where "NBT_INT = 3"
definition NBT_FLOAT :: byte where "NBT_FLOAT = 5"
definition NBT_DOUBLE :: byte where "NBT_DOUBLE = 6"
definition NBT_STRING :: byte where "NBT_STRING = 8"
definition NBT_COMPOUND :: byte where "NBT_COMPOUND = 10"

lemmas nbt_tags = NBT_END_def NBT_BYTE_def NBT_INT_def NBT_FLOAT_def NBT_DOUBLE_def NBT_STRING_def NBT_COMPOUND_def

definition write_nbt_string :: "str \<Rightarrow> bytes" where
  "write_nbt_string value = to_be_bytes (of_nat (length (as_bytes value)) :: u16) @ as_bytes value"

definition write_named_tag :: "byte \<Rightarrow> str \<Rightarrow> bytes" where
  "write_named_tag tag_type name = tag_type # write_nbt_string name"

datatype nbt_field = N_Byte str byte | N_Int str i32 | N_Float str "32 word" | N_Double str "64 word"
  | N_String str str | N_Compound str "nbt_field list"

fun write_field :: "nbt_field \<Rightarrow> bytes" where
  "write_field (N_Byte name v) = write_named_tag NBT_BYTE name @ [v]"
| "write_field (N_Int name v) = write_named_tag NBT_INT name @ to_be_bytes v"
| "write_field (N_Float name v) = write_named_tag NBT_FLOAT name @ to_be_bytes v"
| "write_field (N_Double name v) = write_named_tag NBT_DOUBLE name @ to_be_bytes v"
| "write_field (N_String name v) = write_named_tag NBT_STRING name @ write_nbt_string v"
| "write_field (N_Compound name fs) = write_named_tag NBT_COMPOUND name @ concat (map write_field fs) @ [NBT_END]"

definition write_root_compound :: "nbt_field list \<Rightarrow> bytes" where
  "write_root_compound fs = [NBT_COMPOUND] @ concat (map write_field fs) @ [NBT_END]"

section \<open>A reader\<close>

definition read_nbt_string :: "bytes \<Rightarrow> (str \<times> bytes) option" where
  "read_nbt_string bs =
     (let n = unat (from_be_bytes (take 2 bs) :: u16) in
      if 2 + n \<le> length bs then Some (from_utf8_lossy (take n (drop 2 bs)), drop (2 + n) bs) else None)"

text \<open>The fields up to the end tag; every field costs one unit of fuel.\<close>

fun read_fields :: "nat \<Rightarrow> bytes \<Rightarrow> (nbt_field list \<times> bytes) option" where
  "read_fields 0 bs = None"
| "read_fields (Suc fuel) [] = None"
| "read_fields (Suc fuel) (t # bs) =
     (if t = NBT_END then Some ([], bs)
      else Option.bind (read_nbt_string bs) (\<lambda>(name, bs).
        Option.bind
          (if t = NBT_BYTE then (case bs of [] \<Rightarrow> None | v # r \<Rightarrow> Some (N_Byte name v, r))
           else if t = NBT_INT then (if 4 \<le> length bs then Some (N_Int name (from_be_bytes (take 4 bs)), drop 4 bs) else None)
           else if t = NBT_FLOAT then (if 4 \<le> length bs then Some (N_Float name (from_be_bytes (take 4 bs)), drop 4 bs) else None)
           else if t = NBT_DOUBLE then (if 8 \<le> length bs then Some (N_Double name (from_be_bytes (take 8 bs)), drop 8 bs) else None)
           else if t = NBT_STRING then map_option (\<lambda>(v, r). (N_String name v, r)) (read_nbt_string bs)
           else if t = NBT_COMPOUND then map_option (\<lambda>(fs, r). (N_Compound name fs, r)) (read_fields fuel bs)
           else None)
          (\<lambda>(f, r). map_option (\<lambda>(fs, r). (f # fs, r)) (read_fields fuel r))))"

definition read_root_compound :: "bytes \<Rightarrow> (nbt_field list \<times> bytes) option" where
  "read_root_compound bs =
     (case bs of [] \<Rightarrow> None | t # r \<Rightarrow> if t = NBT_COMPOUND then read_fields (length bs) r else None)"

text \<open>The strings the format can carry: text whose encoding fits the 16-bit length.\<close>

definition nbt_text :: "str \<Rightarrow> bool" where
  "nbt_text s \<longleftrightarrow> list_all is_scalar s \<and> length (as_bytes s) < 65536"

fun nbt_ok :: "nbt_field \<Rightarrow> bool" where
  "nbt_ok (N_Byte name v) = nbt_text name"
| "nbt_ok (N_Int name v) = nbt_text name"
| "nbt_ok (N_Float name v) = nbt_text name"
| "nbt_ok (N_Double name v) = nbt_text name"
| "nbt_ok (N_String name v) = (nbt_text name \<and> nbt_text v)"
| "nbt_ok (N_Compound name fs) = (nbt_text name \<and> list_all nbt_ok fs)"

lemma read_write_nbt_string:
  assumes "nbt_text s"
  shows "read_nbt_string (write_nbt_string s @ rest) = Some (s, rest)"
proof -
  have n: "unat (of_nat (length (as_bytes s)) :: u16) = length (as_bytes s)"
    using assms by (simp add: nbt_text_def unat_of_nat)
  have t: "take 2 (write_nbt_string s @ rest) = to_be_bytes (of_nat (length (as_bytes s)) :: u16)"
    by (simp add: write_nbt_string_def)
  have d: "drop 2 (write_nbt_string s @ rest) = as_bytes s @ rest" by (simp add: write_nbt_string_def)
  have "drop (2 + length (as_bytes s)) (write_nbt_string s @ rest) = rest"
    by (metis d add.commute append_eq_conv_conj drop_drop)
  moreover have "2 + length (as_bytes s) \<le> length (write_nbt_string s @ rest)" by (simp add: write_nbt_string_def)
  moreover have "from_utf8_lossy (take (length (as_bytes s)) (as_bytes s @ rest)) = s" using assms by (simp add: nbt_text_def)
  ultimately show ?thesis by (simp only: read_nbt_string_def Let_def t from_to_be_bytes n d if_True)
qed

lemma nbt_float_bytes [simp]:
  "length (to_be_bytes (v :: 32 word)) = 4" "length (to_be_bytes (u :: 64 word)) = 8"
  by simp_all

lemma write_field_nonempty: "0 < length (write_field f)"
  by (cases f) (simp_all add: write_named_tag_def)

lemma read_written_fields:
  "list_all nbt_ok fs \<Longrightarrow> length (concat (map write_field fs)) < fuel \<Longrightarrow>
   read_fields fuel (concat (map write_field fs) @ [NBT_END] @ rest) = Some (fs, rest)"
proof (induction fuel arbitrary: fs rest)
  case (Suc fuel)
  show ?case
  proof (cases fs)
    case Nil
    then show ?thesis by simp
  next
    case (Cons f gs)
    have gs: "read_fields fuel (concat (map write_field gs) @ [NBT_END] @ rest) = Some (gs, rest)"
      using Suc.prems Cons write_field_nonempty [of f] by (intro Suc.IH) (simp, simp del: length_greater_0_conv)
    note str = read_write_nbt_string
    show ?thesis
    proof (cases f)
      case (N_Compound name hs)
      have "read_fields fuel (concat (map write_field hs) @ [NBT_END] @ (concat (map write_field gs) @ [NBT_END] @ rest))
          = Some (hs, concat (map write_field gs) @ [NBT_END] @ rest)"
        using Suc.prems Cons N_Compound by (intro Suc.IH) (auto simp: write_named_tag_def)
      then show ?thesis
        using Suc.prems Cons N_Compound gs by (simp add: write_named_tag_def str nbt_tags)
    qed (use Suc.prems Cons gs in \<open>simp_all add: write_named_tag_def str nbt_tags\<close>)
  qed
qed simp

section \<open>Properties\<close>

text \<open>What the NBT writer writes can be read back. For every tree of fields whose names and strings
  have at most 65535 bytes of UTF-8, decoding the written root compound gives the tree and leaves
  exactly the bytes behind it.\<close>

theorem nbt_round_trip:
  assumes "list_all nbt_ok fs"
  shows "read_root_compound (write_root_compound fs @ rest) = Some (fs, rest)"
  using read_written_fields [OF assms, of "length (write_root_compound fs @ rest)" rest]
  by (simp add: read_root_compound_def write_root_compound_def)

theorem nbt_round_trip_witness:
  "read_root_compound (write_root_compound [N_String (lit ''name'') (lit ''hi''), N_Compound (lit ''nested'') [N_Int (lit ''x'') 42]] @ [7])
     = Some ([N_String (lit ''name'') (lit ''hi''), N_Compound (lit ''nested'') [N_Int (lit ''x'') 42]], [7])"
  by (rule nbt_round_trip)
    (simp add: nbt_text_def lit_def is_scalar_def as_bytes_def utf8_encode_char_def)

text \<open>An NBT string of 65536 bytes or more is corrupted: its length is truncated to 16 bits, so a
  reader takes the text after the first (length modulo 65536) bytes for the fields that follow.\<close>

theorem nbt_length_truncated:
  assumes "65536 \<le> length (as_bytes s)"
  shows "unat (from_be_bytes (take 2 (write_nbt_string s)) :: u16) = length (as_bytes s) mod 65536
    \<and> unat (from_be_bytes (take 2 (write_nbt_string s)) :: u16) \<noteq> length (as_bytes s)"
proof -
  have "unat (from_be_bytes (take 2 (write_nbt_string s)) :: u16) = length (as_bytes s) mod 65536"
    by (simp add: write_nbt_string_def unat_of_nat)
  moreover have "length (as_bytes s) mod 65536 < 65536" by simp
  ultimately show ?thesis using assms by linarith
qed

end
