(* ===== verification/Reconnect_Protocol.thy ===== *)
theory Reconnect_Protocol
  imports Compression Nbt Minecraft_Protocol
begin

text \<open>
  The packets the gateway writes itself into a session, \<open>src/protocol/reconnect_protocol.rs\<close>: the packet-id
  table of the supported protocol versions and one encoder per packet. An encoder that appends to a
  payload is the bytes of the payload; \<open>z\<close> is the zlib library of the framing.
\<close>

section \<open>Packet ids\<close>

record reconnect_packet_ids =
  pid_login_success :: i32
  pid_config_finish_configuration :: i32
  pid_config_keep_alive :: i32
  pid_config_ack_finish_configuration :: i32
  pid_play_login :: i32
  pid_play_keep_alive_clientbound :: i32
  pid_play_keep_alive_serverbound :: i32
  pid_play_set_action_bar_text :: i32
  pid_play_set_title_text :: i32
  pid_play_set_subtitle_text :: i32
  pid_play_set_center_chunk :: i32
  pid_play_chunk_data_and_update_light :: i32
  pid_play_start_configuration :: i32
  pid_play_ack_configuration :: i32
  pid_play_disconnect :: i32
  pid_play_transfer :: i32

definition CURRENT_BRACKET :: reconnect_packet_ids where
  "CURRENT_BRACKET =
     \<lparr>pid_login_success = 0x02, pid_config_finish_configuration = 0x03, pid_config_keep_alive = 0x04,
      pid_config_ack_finish_configuration = 0x03, pid_play_login = 0x31, pid_play_keep_alive_clientbound = 0x2C,
      pid_play_keep_alive_serverbound = 0x1C, pid_play_set_action_bar_text = 0x57, pid_play_set_title_text = 0x72,
      pid_play_set_subtitle_text = 0x70, pid_play_set_center_chunk = 0x5E, pid_play_chunk_data_and_update_light = 0x2D,
      pid_play_start_configuration = 0x76, pid_play_ack_configuration = 0x10, pid_play_disconnect = 0x20,
      pid_play_transfer = 0x81\<rparr>"

definition bracket_for :: "int \<Rightarrow> reconnect_packet_ids option" where
  "bracket_for protocol_version =
     (if protocol_version = 774 \<or> protocol_version = 775 \<or> protocol_version = 776 then Some CURRENT_BRACKET else None)"

definition reconnect_supported :: "int \<Rightarrow> bool" where
  "reconnect_supported protocol_version \<longleftrightarrow> bracket_for protocol_version \<noteq> None"

definition packet_ids :: "int \<Rightarrow> reconnect_packet_ids run" where
  "packet_ids protocol_version = (case bracket_for protocol_version of Some ids \<Rightarrow> Returned ids | None \<Rightarrow> Panicked)"

section \<open>Encoders\<close>

definition encode_login_disconnect :: "'e zlib \<Rightarrow> str \<Rightarrow> bytes" where
  "encode_login_disconnect z rendered_reason_json = frame z (write_var_int 0x00 @ write_string rendered_reason_json) (- 1)"

definition encode_login_success :: "'e zlib \<Rightarrow> reconnect_packet_ids \<Rightarrow> uuid \<Rightarrow> str \<Rightarrow> i32 \<Rightarrow> bytes" where
  "encode_login_success z ids uuid username compression_threshold =
     (case uuid_to_bits uuid of (most, least) \<Rightarrow>
        frame z (write_var_int (pid_login_success ids) @ to_be_bytes most @ to_be_bytes least @ write_string username
          @ write_var_int 0 @ to_be_bytes most @ to_be_bytes least) compression_threshold)"

definition encode_finish_configuration :: "'e zlib \<Rightarrow> reconnect_packet_ids \<Rightarrow> i32 \<Rightarrow> bytes" where
  "encode_finish_configuration z ids compression_threshold =
     frame z (write_var_int (pid_config_finish_configuration ids)) compression_threshold"

definition encode_config_keep_alive :: "'e zlib \<Rightarrow> reconnect_packet_ids \<Rightarrow> i64 \<Rightarrow> i32 \<Rightarrow> bytes" where
  "encode_config_keep_alive z ids i compression_threshold =
     frame z (write_var_int (pid_config_keep_alive ids) @ to_be_bytes i) compression_threshold"

definition encode_play_keep_alive :: "'e zlib \<Rightarrow> reconnect_packet_ids \<Rightarrow> i64 \<Rightarrow> i32 \<Rightarrow> bytes" where
  "encode_play_keep_alive z ids i compression_threshold =
     frame z (write_var_int (pid_play_keep_alive_clientbound ids) @ to_be_bytes i) compression_threshold"

definition encode_start_configuration :: "'e zlib \<Rightarrow> reconnect_packet_ids \<Rightarrow> i32 \<Rightarrow> bytes" where
  "encode_start_configuration z ids compression_threshold =
     frame z (write_var_int (pid_play_start_configuration ids)) compression_threshold"

definition encode_play_disconnect :: "'e zlib \<Rightarrow> reconnect_packet_ids \<Rightarrow> str \<Rightarrow> i32 \<Rightarrow> bytes" where
  "encode_play_disconnect z ids rendered_reason_text compression_threshold =
     frame z (write_var_int (pid_play_disconnect ids) @ [NBT_STRING] @ write_nbt_string rendered_reason_text) compression_threshold"

definition encode_transfer :: "'e zlib \<Rightarrow> reconnect_packet_ids \<Rightarrow> str \<Rightarrow> u16 \<Rightarrow> i32 \<Rightarrow> bytes" where
  "encode_transfer z ids host port compression_threshold =
     frame z (write_var_int (pid_play_transfer ids) @ write_string host @ to_be_bytes port) compression_threshold"

definition OVERWORLD :: str where "OVERWORLD = lit ''minecraft:overworld''"

definition encode_join_game :: "'e zlib \<Rightarrow> reconnect_packet_ids \<Rightarrow> i32 \<Rightarrow> i32 \<Rightarrow> bytes" where
  "encode_join_game z ids entity_id compression_threshold =
     frame z (write_var_int (pid_play_login ids) @ to_be_bytes entity_id @ [0]
       @ write_var_int 1 @ write_string OVERWORLD @ write_var_int 20 @ write_var_int 2 @ write_var_int 2
       @ [0, 0, 0] @ write_string OVERWORLD @ write_string OVERWORLD @ to_be_bytes (0 :: i64)
       @ write_var_int 3 @ [0xFF, 0, 1, 0] @ write_var_int 0 @ write_var_int 0 @ [0]) compression_threshold"

definition encode_set_center_chunk :: "'e zlib \<Rightarrow> reconnect_packet_ids \<Rightarrow> i32 \<Rightarrow> i32 \<Rightarrow> i32 \<Rightarrow> bytes" where
  "encode_set_center_chunk z ids compression_threshold chunk_x chunk_z =
     frame z (write_var_int (pid_play_set_center_chunk ids) @ write_var_int chunk_x @ write_var_int chunk_z) compression_threshold"

definition empty_section :: bytes where
  "empty_section = to_be_bytes (0 :: 16 word) @ [0] @ write_var_int 0 @ write_var_int 0 @ [0] @ write_var_int 0 @ write_var_int 0"

definition encode_empty_chunk :: "'e zlib \<Rightarrow> reconnect_packet_ids \<Rightarrow> i32 \<Rightarrow> i32 \<Rightarrow> i32 \<Rightarrow> bytes" where
  "encode_empty_chunk z ids compression_threshold chunk_x chunk_z =
     frame z (write_var_int (pid_play_chunk_data_and_update_light ids) @ to_be_bytes chunk_x @ to_be_bytes chunk_z
       @ write_root_compound [] @ write_var_int (of_nat (length empty_section)) @ empty_section
       @ write_var_int 0
       @ write_var_int 0 @ write_var_int 0 @ write_var_int 0 @ write_var_int 0 @ write_var_int 0 @ write_var_int 0)
       compression_threshold"

definition encode_action_bar :: "'e zlib \<Rightarrow> reconnect_packet_ids \<Rightarrow> str \<Rightarrow> i32 \<Rightarrow> bytes" where
  "encode_action_bar z ids rendered_text compression_threshold =
     frame z (write_var_int (pid_play_set_action_bar_text ids) @ [NBT_STRING] @ write_nbt_string rendered_text) compression_threshold"

definition encode_set_title_text :: "'e zlib \<Rightarrow> reconnect_packet_ids \<Rightarrow> str \<Rightarrow> i32 \<Rightarrow> bytes" where
  "encode_set_title_text z ids rendered_text compression_threshold =
     frame z (write_var_int (pid_play_set_title_text ids) @ [NBT_STRING] @ write_nbt_string rendered_text) compression_threshold"

definition encode_set_subtitle_text :: "'e zlib \<Rightarrow> reconnect_packet_ids \<Rightarrow> str \<Rightarrow> i32 \<Rightarrow> bytes" where
  "encode_set_subtitle_text z ids rendered_text compression_threshold =
     frame z (write_var_int (pid_play_set_subtitle_text ids) @ [NBT_STRING] @ write_nbt_string rendered_text) compression_threshold"

section \<open>Reading the packets back\<close>

text \<open>How a client reads the two packets the console can inject.\<close>

definition client_reads_kick :: "'e zlib \<Rightarrow> i32 \<Rightarrow> bytes \<Rightarrow> str option" where
  "client_reads_kick z t wire =
     (case read_compressed_frame z (unframed wire) t of
        Inr (i, tag # rest) \<Rightarrow>
          if i = 0x20 \<and> tag = NBT_STRING then map_option fst (read_nbt_string rest) else None
      | _ \<Rightarrow> None)"

definition client_reads_transfer :: "'e zlib \<Rightarrow> i32 \<Rightarrow> bytes \<Rightarrow> (str \<times> u16) option" where
  "client_reads_transfer z t wire =
     (case read_compressed_frame z (unframed wire) t of
        Inr (i, rest) \<Rightarrow>
          if i = 0x81 then (case read_string rest 32767 of Inr (host, n) \<Rightarrow> Some (host, from_be_bytes (drop n rest)) | Inl _ \<Rightarrow> None)
          else None
      | Inl _ \<Rightarrow> None)"

definition fits :: "'e zlib \<Rightarrow> bytes \<Rightarrow> bool" where
  "fits z payload \<longleftrightarrow> zlib_ok z \<and> length payload \<le> 2097151 \<and> length (z_deflate z payload) \<le> 2097151"

lemma read_fitting: "fits z (write_var_int i @ body) \<Longrightarrow>
    read_compressed_frame z (unframed (frame z (write_var_int i @ body) t)) t = Inr (i, body)"
  by (rule read_framed_packet) (simp_all add: fits_def)

lemma kick_understood:
  assumes "nbt_text msg" and "fits z (write_var_int 0x20 @ [NBT_STRING] @ write_nbt_string msg)"
  shows "client_reads_kick z t (encode_play_disconnect z CURRENT_BRACKET msg t) = Some msg"
proof -
  have "read_compressed_frame z (unframed (encode_play_disconnect z CURRENT_BRACKET msg t)) t = Inr (0x20, [NBT_STRING] @ write_nbt_string msg)"
    using read_fitting [OF assms(2), of t] by (simp add: encode_play_disconnect_def CURRENT_BRACKET_def)
  then show ?thesis using read_write_nbt_string [OF assms(1), of "[]"] by (simp add: client_reads_kick_def)
qed

lemma transfer_understood:
  assumes "list_all is_scalar host" and "length (as_bytes host) \<le> 131068"
    and "fits z (write_var_int 0x81 @ write_string host @ to_be_bytes port)"
  shows "client_reads_transfer z t (encode_transfer z CURRENT_BRACKET host port t) = Some (host, port)"
proof -
  have "read_compressed_frame z (unframed (encode_transfer z CURRENT_BRACKET host port t)) t = Inr (0x81, write_string host @ to_be_bytes port)"
    using read_fitting [OF assms(3), of t] by (simp add: encode_transfer_def CURRENT_BRACKET_def)
  moreover have "read_string (write_string host @ to_be_bytes port) 32767 = Inr (host, length (write_string host))"
    using assms(1,2) by (intro write_string_read) (simp_all add: saturating_mul_4_def)
  ultimately show ?thesis by (simp add: client_reads_transfer_def)
qed

section \<open>Properties\<close>

text \<open>Injected packets mean what they say. At any compression threshold a client that understands the
  supported packet table reads back the text of an injected kick and the host and port of an injected
  transfer.\<close>

theorem injected_packets_understood:
  assumes "nbt_text msg" and "fits z (write_var_int 0x20 @ [NBT_STRING] @ write_nbt_string msg)"
    and "list_all is_scalar host" and "length (as_bytes host) \<le> 131068"
    and "fits z (write_var_int 0x81 @ write_string host @ to_be_bytes port)"
  shows "client_reads_kick z t (encode_play_disconnect z CURRENT_BRACKET msg t) = Some msg
    \<and> client_reads_transfer z t (encode_transfer z CURRENT_BRACKET host port t) = Some (host, port)"
  using kick_understood [OF assms(1,2)] transfer_understood [OF assms(3,4,5)] by blast

theorem injected_packets_understood_witness:
  "client_reads_kick stored_zlib 1 (encode_play_disconnect stored_zlib CURRENT_BRACKET (lit ''bye'') 1) = Some (lit ''bye'')"
proof -
  have v: "length (write_var_int i) \<le> 5" for i using length_write_var_int by blast
  have "nbt_text (lit ''bye'')" "list_all is_scalar (lit ''h'')" "length (as_bytes (lit ''h'')) \<le> 131068"
    by (simp_all add: nbt_text_def lit_def is_scalar_def as_bytes_def utf8_encode_char_def)
  moreover have "fits stored_zlib (write_var_int 0x20 @ [NBT_STRING] @ write_nbt_string (lit ''bye''))"
    using v [of "0x20"] by (simp add: fits_def zlib_ok_def stored_zlib_def write_nbt_string_def lit_def as_bytes_def utf8_encode_char_def)
  moreover have "fits stored_zlib (write_var_int 0x81 @ write_string (lit ''h'') @ to_be_bytes (1 :: u16))"
    using v [of "0x81"] v [of 1]
    by (simp add: fits_def zlib_ok_def stored_zlib_def write_string_def lit_def as_bytes_def utf8_encode_char_def)
  ultimately show ?thesis
    using injected_packets_understood [of "lit ''bye''" stored_zlib "lit ''h''" 1 1] by blast
qed

end
