(* ===== verification/Session_Relay.thy ===== *)
theory Session_Relay
  imports Reconnect_Protocol Buffered_Stream Route_Metrics
begin

text \<open>
  The two loops of \<open>src/net/server.rs\<close> that own an established session: \<open>sniff_backend_login\<close>, which forwards the
  login phase frame by frame while it learns the compression threshold, and \<open>relay\<close>, the raw byte splice,
  with the action that ends it from the console.

  Each pass of a loop takes the branch of \<open>select!\<close> that became ready, so a run is a list of events; the
  flag of an event says whether the write it leads to succeeds. A run that has used up its events is
  still waiting. \<open>z\<close> is the zlib library.
\<close>

section \<open>Sniffing the login\<close>

record link =
  ln_client :: buffered_stream
  ln_backend :: buffered_stream
  ln_to_client :: bytes
  ln_to_backend :: bytes

datatype sniff_event = Client_Ready bool | Backend_Ready bool | Backend_Late

datatype sniff_state = Sniffing i32 | Sniffed "(i32 \<times> bool) option"

definition sniff_frame :: "'e zlib \<Rightarrow> bytes \<Rightarrow> i32 \<Rightarrow> sniff_state" where
  "sniff_frame z frame_bytes threshold =
     (case read_var_int frame_bytes of
        Inl _ \<Rightarrow> Sniffed None
      | Inr (_, header_len) \<Rightarrow>
          (case read_compressed_frame z (drop header_len frame_bytes) threshold of
             Inl _ \<Rightarrow> Sniffed (Some (threshold, True))
           | Inr (packet_id, body) \<Rightarrow>
               if packet_id = 0x01 then Sniffed (Some (threshold, True))
               else if packet_id = 0x03 then
                 (case read_var_int body of Inr (new_threshold, _) \<Rightarrow> Sniffing new_threshold | Inl _ \<Rightarrow> Sniffing threshold)
               else if packet_id = 0x02 then Sniffed (Some (threshold, False))
               else if packet_id = 0x00 then Sniffed None
               else Sniffing threshold))"

fun sniff_step :: "'e zlib \<Rightarrow> sniff_event \<Rightarrow> i32 \<Rightarrow> link \<Rightarrow> sniff_state \<times> link" where
  "sniff_step z (Client_Ready write_ok) threshold l =
     (case poll_read 4096 (ln_client l) of
        (Inl e, c) \<Rightarrow> (Sniffed None, l\<lparr>ln_client := c\<rparr>)
      | (Inr bs, c) \<Rightarrow>
          if bs = [] \<or> \<not> write_ok then (Sniffed None, l\<lparr>ln_client := c\<rparr>)
          else (Sniffing threshold, l\<lparr>ln_client := c, ln_to_backend := ln_to_backend l @ bs\<rparr>))"
| "sniff_step z (Backend_Ready write_ok) threshold l =
     (case read_frame MAX_PACKET_BYTES (ln_backend l) of
        (Inl e, b) \<Rightarrow> (Sniffed None, l\<lparr>ln_backend := b\<rparr>)
      | (Inr f, b) \<Rightarrow>
          if \<not> write_ok then (Sniffed None, l\<lparr>ln_backend := b\<rparr>)
          else (sniff_frame z f threshold, l\<lparr>ln_backend := b, ln_to_client := ln_to_client l @ f\<rparr>))"
| "sniff_step z Backend_Late threshold l = (Sniffed None, l)"

fun sniff_backend_login :: "'e zlib \<Rightarrow> sniff_event list \<Rightarrow> i32 \<Rightarrow> link \<Rightarrow> sniff_state \<times> link" where
  "sniff_backend_login z [] threshold l = (Sniffing threshold, l)"
| "sniff_backend_login z (e # es) threshold l =
     (case sniff_step z e threshold l of
        (Sniffing threshold, l) \<Rightarrow> sniff_backend_login z es threshold l
      | (Sniffed res, l) \<Rightarrow> (Sniffed res, l))"

section \<open>Relaying\<close>

definition can_inject_packet :: "player_session \<Rightarrow> bool" where
  "can_inject_packet s \<longleftrightarrow> \<not> ps_encrypted s \<and> reconnect_supported (ps_protocol_version s)"

text \<open>The packet to write before the connection is cut, if any.\<close>

definition handle_pending_action ::
  "interp \<Rightarrow> (str \<Rightarrow> str) \<Rightarrow> 'e zlib \<Rightarrow> player_session \<Rightarrow> bytes option run \<times> player_session" where
  "handle_pending_action interp lc z s =
     (let action = ps_pending_action s; threshold = word_of_int (ps_compression_threshold s) in
      (case action of
         Disconnect \<Rightarrow> Returned None
       | KickWithMessage msg \<Rightarrow>
           if can_inject_packet s then
             run_bind (packet_ids (ps_protocol_version s)) (\<lambda>ids.
             run_bind (to_legacy_text interp lc msg) (\<lambda>rendered.
               Returned (Some (encode_play_disconnect z ids rendered threshold))))
           else Returned None
       | Transfer host port \<Rightarrow>
           if can_inject_packet s then
             run_bind (packet_ids (ps_protocol_version s)) (\<lambda>ids.
               Returned (Some (encode_transfer z ids host port threshold)))
           else Returned None,
       s\<lparr>ps_pending_action := Disconnect\<rparr>))"

datatype relay_event = Upload_Ready bool | Download_Ready bool | Action_Fired bool

datatype relay_status = Relaying | Ended | Crashed

record relay_state =
  rl_link :: link
  rl_session :: "player_session option"
  rl_counter :: "traffic_counter option"

definition count_upload :: "nat \<Rightarrow> relay_state \<Rightarrow> relay_state" where
  "count_upload n r =
     r\<lparr>rl_session := map_option (\<lambda>s. s\<lparr>ps_packets_sent := wrap_i64 (ps_packets_sent s + 1),
         ps_bytes_sent := wrap_i64 (ps_bytes_sent s + int n)\<rparr>) (rl_session r),
       rl_counter := map_option (add_upload (int n)) (rl_counter r)\<rparr>"

definition count_download :: "nat \<Rightarrow> relay_state \<Rightarrow> relay_state" where
  "count_download n r =
     r\<lparr>rl_session := map_option (\<lambda>s. s\<lparr>ps_packets_received := wrap_i64 (ps_packets_received s + 1),
         ps_bytes_received := wrap_i64 (ps_bytes_received s + int n)\<rparr>) (rl_session r),
       rl_counter := map_option (add_download (int n)) (rl_counter r)\<rparr>"

definition set_link :: "(link \<Rightarrow> link) \<Rightarrow> relay_state \<Rightarrow> relay_state" where
  "set_link f r = r\<lparr>rl_link := f (rl_link r)\<rparr>"

fun relay_step :: "interp \<Rightarrow> (str \<Rightarrow> str) \<Rightarrow> 'e zlib \<Rightarrow> relay_event \<Rightarrow> relay_state \<Rightarrow> relay_status \<times> relay_state" where
  "relay_step interp lc z (Upload_Ready write_ok) r =
     (case poll_read 8192 (ln_client (rl_link r)) of
        (Inl e, c) \<Rightarrow> (Ended, set_link (\<lambda>l. l\<lparr>ln_client := c\<rparr>) r)
      | (Inr bs, c) \<Rightarrow>
          if bs = [] then (Ended, set_link (\<lambda>l. l\<lparr>ln_client := c\<rparr>) r)
          else let r = count_upload (length bs) (set_link (\<lambda>l. l\<lparr>ln_client := c\<rparr>) r) in
            if write_ok then (Relaying, set_link (\<lambda>l. l\<lparr>ln_to_backend := ln_to_backend l @ bs\<rparr>) r) else (Ended, r))"
| "relay_step interp lc z (Download_Ready write_ok) r =
     (case poll_read 8192 (ln_backend (rl_link r)) of
        (Inl e, b) \<Rightarrow> (Ended, set_link (\<lambda>l. l\<lparr>ln_backend := b\<rparr>) r)
      | (Inr bs, b) \<Rightarrow>
          if bs = [] then (Ended, set_link (\<lambda>l. l\<lparr>ln_backend := b\<rparr>) r)
          else let r = count_download (length bs) (set_link (\<lambda>l. l\<lparr>ln_backend := b\<rparr>) r) in
            if write_ok then (Relaying, set_link (\<lambda>l. l\<lparr>ln_to_client := ln_to_client l @ bs\<rparr>) r) else (Ended, r))"
| "relay_step interp lc z (Action_Fired write_ok) r =
     (case rl_session r of
        None \<Rightarrow> (Relaying, r)
      | Some s \<Rightarrow>
          (case handle_pending_action interp lc z s of
             (Panicked, s) \<Rightarrow> (Crashed, r\<lparr>rl_session := Some s\<rparr>)
           | (Returned packet, s) \<Rightarrow>
               (Ended, set_link (\<lambda>l. l\<lparr>ln_to_client := ln_to_client l @ (if write_ok then unwrap_or packet [] else [])\<rparr>)
                  (r\<lparr>rl_session := Some s\<rparr>))))"

fun relay :: "interp \<Rightarrow> (str \<Rightarrow> str) \<Rightarrow> 'e zlib \<Rightarrow> relay_event list \<Rightarrow> relay_state \<Rightarrow> relay_status \<times> relay_state" where
  "relay interp lc z [] r = (Relaying, r)"
| "relay interp lc z (e # es) r =
     (case relay_step interp lc z e r of
        (Relaying, r) \<Rightarrow> relay interp lc z es r
      | (status, r) \<Rightarrow> (status, r))"

section \<open>Byte flow\<close>

text \<open>What a link has carried and will carry, in the two directions.\<close>

definition link_ok :: "link \<Rightarrow> bool" where
  "link_ok l \<longleftrightarrow> bs_ok (ln_client l) \<and> bs_ok (ln_backend l)"

definition upward :: "link \<Rightarrow> bytes" where
  "upward l = ln_to_backend l @ contents (ln_client l)"

definition downward :: "link \<Rightarrow> bytes" where
  "downward l = ln_to_client l @ contents (ln_backend l)"

fun sniff_writes :: "sniff_event \<Rightarrow> bool" where
  "sniff_writes (Client_Ready ok) = ok"
| "sniff_writes (Backend_Ready ok) = ok"
| "sniff_writes Backend_Late = True"

fun relay_writes :: "relay_event \<Rightarrow> bool" where
  "relay_writes (Upload_Ready ok) = ok"
| "relay_writes (Download_Ready ok) = ok"
| "relay_writes (Action_Fired ok) = ok"

lemma poll_read_flow:
  assumes "bs_ok st"
  obtains bs st' where "poll_read n st = (Inr bs, st')" and "bs_ok st'" and "contents st = bs @ contents st'"
proof -
  obtain bs st' where "poll_read n st = (Inr bs, st')" "bs_ok st'" using poll_read_healthy [OF assms] by metis
  then show ?thesis using poll_read_contents [of st n bs st'] assms that by (simp add: bs_ok_def)
qed

lemma sniff_step_flow:
  assumes "link_ok l" and "sniff_writes e" and "sniff_step z e t l = (st, l')"
  shows "link_ok l' \<and> upward l' = upward l \<and> downward l' = downward l"
proof (cases e)
  case (Client_Ready ok)
  obtain bs c where "poll_read 4096 (ln_client l) = (Inr bs, c)" "bs_ok c" "contents (ln_client l) = bs @ contents c"
    using poll_read_flow assms(1) link_ok_def by metis
  then show ?thesis using assms Client_Ready by (auto simp: link_ok_def upward_def downward_def split: if_splits)
next
  case (Backend_Ready ok)
  obtain res b where r: "read_frame MAX_PACKET_BYTES (ln_backend l) = (res, b)" by (metis prod.exhaust)
  then show ?thesis
    using assms Backend_Ready read_frame_conserves [OF _ r]
    by (cases res) (auto simp: link_ok_def upward_def downward_def)
qed (use assms in simp)

lemma sniff_flow:
  "link_ok l \<Longrightarrow> list_all sniff_writes es \<Longrightarrow> sniff_backend_login z es t l = (st, l') \<Longrightarrow>
   link_ok l' \<and> upward l' = upward l \<and> downward l' = downward l"
proof (induction es arbitrary: t l)
  case (Cons e es)
  obtain s1 l1 where s: "sniff_step z e t l = (s1, l1)" by (metis prod.exhaust)
  note f = sniff_step_flow [OF Cons.prems(1) _ s]
  show ?case
  proof (cases s1)
    case (Sniffing t')
    then show ?thesis using Cons f s by auto
  next
    case (Sniffed r)
    then show ?thesis using Cons.prems f s by auto
  qed
qed simp

text \<open>One run of the relay: what it moved, and how it counted it.\<close>

definition counts_ok :: "relay_state \<Rightarrow> bool" where
  "counts_ok r \<longleftrightarrow>
     pred_option (\<lambda>s. is_i64 (ps_bytes_sent s) \<and> is_i64 (ps_bytes_received s)) (rl_session r)
     \<and> pred_option (\<lambda>c. is_i64 (tc_upload_bytes c) \<and> is_i64 (tc_download_bytes c)) (rl_counter r)"

definition session_counted :: "bytes \<Rightarrow> bytes \<Rightarrow> player_session \<Rightarrow> player_session \<Rightarrow> bool" where
  "session_counted up down s s' \<longleftrightarrow>
     ps_bytes_sent s' = wrap_i64 (ps_bytes_sent s + int (length up))
     \<and> ps_bytes_received s' = wrap_i64 (ps_bytes_received s + int (length down)) \<and> ps_uuid s' = ps_uuid s"

definition counter_counted :: "bytes \<Rightarrow> bytes \<Rightarrow> traffic_counter \<Rightarrow> traffic_counter \<Rightarrow> bool" where
  "counter_counted up down c c' \<longleftrightarrow>
     tc_upload_enabled c' = tc_upload_enabled c \<and> tc_download_enabled c' = tc_download_enabled c
     \<and> tc_upload_bytes c' = (if tc_upload_enabled c then wrap_i64 (tc_upload_bytes c + int (length up)) else tc_upload_bytes c)
     \<and> tc_download_bytes c' = (if tc_download_enabled c then wrap_i64 (tc_download_bytes c + int (length down)) else tc_download_bytes c)"

definition moved :: "relay_state \<Rightarrow> bytes \<Rightarrow> bytes \<Rightarrow> bytes \<Rightarrow> relay_state \<Rightarrow> bool" where
  "moved r up down injected r' \<longleftrightarrow>
     ln_to_backend (rl_link r') = ln_to_backend (rl_link r) @ up
     \<and> contents (ln_client (rl_link r)) = up @ contents (ln_client (rl_link r'))
     \<and> ln_to_client (rl_link r') = ln_to_client (rl_link r) @ down @ injected
     \<and> contents (ln_backend (rl_link r)) = down @ contents (ln_backend (rl_link r'))
     \<and> rel_option (session_counted up down) (rl_session r) (rl_session r')
     \<and> rel_option (counter_counted up down) (rl_counter r) (rl_counter r')"

lemma wrap_i64_add [simp]: "wrap_i64 (wrap_i64 a + b) = wrap_i64 (a + b)"
  by (simp add: wrap_i64_def mod_simps algebra_simps)

lemma moved_refl: "counts_ok r \<Longrightarrow> moved r [] [] [] r"
  by (cases "rl_session r"; cases "rl_counter r") (auto simp: moved_def counts_ok_def session_counted_def counter_counted_def)

lemma moved_counts_ok: "moved r up down extra r' \<Longrightarrow> counts_ok r \<Longrightarrow> counts_ok r'"
  by (cases "rl_session r"; cases "rl_session r'"; cases "rl_counter r"; cases "rl_counter r'")
    (auto simp: moved_def counts_ok_def session_counted_def counter_counted_def is_i64_wrap)

lemma moved_trans:
  assumes "moved r u1 d1 [] r1" and "moved r1 u2 d2 extra r2"
  shows "moved r (u1 @ u2) (d1 @ d2) extra r2"
  using assms
  by (cases "rl_session r"; cases "rl_session r1"; cases "rl_session r2"; cases "rl_counter r"; cases "rl_counter r1"; cases "rl_counter r2")
    (auto simp: moved_def session_counted_def counter_counted_def add.assoc)

lemma rel_option_map_same: "rel_option R x (map_option f x) \<longleftrightarrow> pred_option (\<lambda>a. R a (f a)) x"
  by (cases x) simp_all

lemma upload_step_moved:
  assumes ok: "link_ok (rl_link r)" "counts_ok r" and run: "relay_step interp lc z (Upload_Ready True) r = (st, r')"
  shows "\<exists>up. moved r up [] [] r' \<and> link_ok (rl_link r')"
proof -
  obtain bs c where p: "poll_read 8192 (ln_client (rl_link r)) = (Inr bs, c)" "bs_ok c"
    and f: "contents (ln_client (rl_link r)) = bs @ contents c"
    using poll_read_flow ok(1) link_ok_def by metis
  have "moved r bs [] [] r' \<and> link_ok (rl_link r')"
  proof (cases "bs = []")
    case True
    then show ?thesis using run p f moved_refl [OF ok(2)] ok(1) by (auto simp: set_link_def moved_def link_ok_def)
  next
    case False
    then show ?thesis using run p f ok
      by (auto simp: set_link_def moved_def link_ok_def count_upload_def rel_option_map_same counts_ok_def option.pred_set
        session_counted_def counter_counted_def add_upload_def)
  qed
  then show ?thesis by blast
qed

lemma download_step_moved:
  assumes ok: "link_ok (rl_link r)" "counts_ok r" and run: "relay_step interp lc z (Download_Ready True) r = (st, r')"
  shows "\<exists>down. moved r [] down [] r' \<and> link_ok (rl_link r')"
proof -
  obtain bs c where p: "poll_read 8192 (ln_backend (rl_link r)) = (Inr bs, c)" "bs_ok c"
    and f: "contents (ln_backend (rl_link r)) = bs @ contents c"
    using poll_read_flow ok(1) link_ok_def by metis
  have "moved r [] bs [] r' \<and> link_ok (rl_link r')"
  proof (cases "bs = []")
    case True
    then show ?thesis using run p f moved_refl [OF ok(2)] ok(1) by (auto simp: set_link_def moved_def link_ok_def)
  next
    case False
    then show ?thesis using run p f ok
      by (auto simp: set_link_def moved_def link_ok_def count_download_def rel_option_map_same counts_ok_def option.pred_set
        session_counted_def counter_counted_def add_download_def)
  qed
  then show ?thesis by blast
qed

text \<open>What the gateway may add to the client's stream: one injected packet, where the relay ends.\<close>

definition gateway_packet :: "interp \<Rightarrow> (str \<Rightarrow> str) \<Rightarrow> 'e zlib \<Rightarrow> relay_status \<Rightarrow> bytes \<Rightarrow> bool" where
  "gateway_packet interp lc z st extra \<longleftrightarrow>
     extra = [] \<or> st = Ended \<and> (\<exists>s s'. handle_pending_action interp lc z s = (Returned (Some extra), s'))"

lemma gateway_packet_simps [simp]: "gateway_packet interp lc z st []" "gateway_packet interp lc z Relaying extra \<longleftrightarrow> extra = []"
  by (simp_all add: gateway_packet_def)

lemma action_session: "handle_pending_action interp lc z s = (res, s') \<Longrightarrow> s' = s\<lparr>ps_pending_action := Disconnect\<rparr>"
  by (simp add: handle_pending_action_def Let_def)

lemma action_step_moved:
  assumes ok: "link_ok (rl_link r)" "counts_ok r" and run: "relay_step interp lc z (Action_Fired True) r = (st, r')"
  shows "\<exists>extra. moved r [] [] extra r' \<and> link_ok (rl_link r') \<and> gateway_packet interp lc z st extra"
proof (cases "rl_session r")
  case None
  then show ?thesis using run moved_refl [OF ok(2)] ok(1) by auto
next
  case (Some s)
  obtain res s' where a: "handle_pending_action interp lc z s = (res, s')" by (metis prod.exhaust)
  have s': "session_counted [] [] s s'"
    using action_session [OF a] ok(2) Some by (simp add: session_counted_def counts_ok_def)
  have c: "rel_option (counter_counted [] []) (rl_counter r) (rl_counter r)"
    using ok(2) by (cases "rl_counter r") (auto simp: counts_ok_def counter_counted_def)
  show ?thesis
  proof (cases res)
    case Panicked
    then show ?thesis using run Some a s' c ok(1) by (auto simp: moved_def intro!: exI [of _ "[]"])
  next
    case (Returned packet)
    then show ?thesis using run Some a s' c ok(1)
      by (intro exI [of _ "unwrap_or packet []"]) (cases packet, auto simp: moved_def set_link_def link_ok_def gateway_packet_def)
  qed
qed

lemma relay_step_moved:
  assumes "link_ok (rl_link r)" "counts_ok r" "relay_writes e" "relay_step interp lc z e r = (st, r')"
  shows "\<exists>up down extra. moved r up down extra r' \<and> link_ok (rl_link r') \<and> gateway_packet interp lc z st extra"
proof (cases e)
  case (Upload_Ready ok)
  then show ?thesis using upload_step_moved [OF assms(1,2)] assms(3,4) by fastforce
next
  case (Download_Ready ok)
  then show ?thesis using download_step_moved [OF assms(1,2)] assms(3,4) by fastforce
next
  case (Action_Fired ok)
  then show ?thesis using action_step_moved [OF assms(1,2)] assms(3,4) by fastforce
qed

lemma relay_moved:
  "link_ok (rl_link r) \<Longrightarrow> counts_ok r \<Longrightarrow> list_all relay_writes es \<Longrightarrow> relay interp lc z es r = (st, r') \<Longrightarrow>
   \<exists>up down extra. moved r up down extra r' \<and> gateway_packet interp lc z st extra"
proof (induction es arbitrary: r)
  case Nil
  then show ?case using moved_refl [of r'] by auto
next
  case (Cons e es)
  obtain s1 r1 where s: "relay_step interp lc z e r = (s1, r1)" by (metis prod.exhaust)
  obtain up down extra where m: "moved r up down extra r1" "link_ok (rl_link r1)" "gateway_packet interp lc z s1 extra"
    using relay_step_moved [OF Cons.prems(1,2) _ s] Cons.prems(3) by auto
  show ?case
  proof (cases "s1 = Relaying")
    case True
    then have run: "relay interp lc z es r1 = (st, r')" using Cons.prems(4) s by simp
    obtain up' down' extra' where m': "moved r1 up' down' extra' r'" "gateway_packet interp lc z st extra'"
      using Cons.IH [OF m(2) moved_counts_ok [OF m(1) Cons.prems(2)] _ run] Cons.prems(3) by auto
    have "moved r (up @ up') (down @ down') extra' r'" using moved_trans m(1,3) m'(1) True by simp
    then show ?thesis using m'(2) by blast
  next
    case False
    then have "st = s1" "r' = r1" using Cons.prems(4) s by (cases s1; simp)+
    then show ?thesis using m False by blast
  qed
qed

section \<open>Login transcripts\<close>

text \<open>What a backend sends in the login phase: plugin requests and compression changes, then Login Success or
  an Encryption Request, each framed at the threshold in force.\<close>

datatype login_packet = Plugin i32 bytes | SetCompression i32

fun packet_payload :: "login_packet \<Rightarrow> bytes" where
  "packet_payload (Plugin i body) = write_var_int i @ body"
| "packet_payload (SetCompression n) = write_var_int 3 @ write_var_int n"

fun threshold_after :: "login_packet \<Rightarrow> i32 \<Rightarrow> i32" where
  "threshold_after (Plugin i body) t = t"
| "threshold_after (SetCompression n) t = n"

fun login_wire :: "'e zlib \<Rightarrow> i32 \<Rightarrow> login_packet list \<Rightarrow> bytes \<Rightarrow> bytes" where
  "login_wire z t [] final = frame z final t"
| "login_wire z t (p # ps) final = frame z (packet_payload p) t @ login_wire z (threshold_after p t) ps final"

text \<open>Payloads that stay within the packet limit on the wire, with the data-length field of five bytes at most.\<close>

definition frameable :: "'e zlib \<Rightarrow> bytes \<Rightarrow> bool" where
  "frameable z payload \<longleftrightarrow> zlib_ok z \<and> length payload + 5 \<le> 2097151 \<and> length (z_deflate z payload) + 5 \<le> 2097151"

fun login_packet_ok :: "login_packet \<Rightarrow> bool" where
  "login_packet_ok (Plugin i body) \<longleftrightarrow> i \<notin> {0, 1, 2, 3}"
| "login_packet_ok (SetCompression n) \<longleftrightarrow> True"

lemma frame_is_prefixed:
  assumes "frameable z payload"
  obtains inner where "frame z payload t = length_prefix inner" and "length inner \<le> 2097151"
proof -
  have v: "length (write_var_int i) \<le> 5" for i using length_write_var_int by blast
  consider "sint t < 0" | "\<not> sint t < 0" "sint (of_nat (length payload) :: i32) < sint t" | "\<not> sint t < 0" "\<not> sint (of_nat (length payload) :: i32) < sint t"
    by blast
  then show ?thesis
  proof cases
    case 1
    then show ?thesis using assms that by (simp add: frame_def frameable_def)
  next
    case 2
    then show ?thesis using assms that [of "write_var_int 0 @ payload"] v [of 0] by (simp add: frame_def frameable_def Let_def)
  next
    case 3
    then show ?thesis using assms that [of "write_var_int (of_nat (length payload)) @ z_deflate z payload"] v [of "of_nat (length payload)"]
      by (simp add: frame_def frameable_def Let_def)
  qed
qed

lemma sniff_frame_payload:
  assumes "frameable z (write_var_int i @ body)"
  shows "sniff_frame z (frame z (write_var_int i @ body) t) t =
     (if i = 1 then Sniffed (Some (t, True))
      else if i = 3 then (case read_var_int body of Inr (n, _) \<Rightarrow> Sniffing n | Inl _ \<Rightarrow> Sniffing t)
      else if i = 2 then Sniffed (Some (t, False)) else if i = 0 then Sniffed None else Sniffing t)"
proof -
  let ?w = "frame z (write_var_int i @ body) t"
  obtain inner where w: "?w = length_prefix inner" "length inner \<le> 2097151" by (rule frame_is_prefixed [OF assms, of t])
  obtain n h where h: "read_var_int ?w = Inr (n, h)"
    using read_length_prefix [of inner "[]"] w by auto
  moreover have "read_compressed_frame z (unframed ?w) t = Inr (i, body)"
    using assms by (intro read_framed_packet) (auto simp: frameable_def)
  ultimately show ?thesis by (simp add: sniff_frame_def unframed_def)
qed

lemma sniff_packet:
  assumes "bs_ok (ln_backend l)" and "contents (ln_backend l) = frame z payload t @ rest" and "frameable z payload"
  shows "\<exists>b. bs_ok b \<and> contents b = rest \<and> sniff_step z (Backend_Ready True) t l =
    (sniff_frame z (frame z payload t) t, l\<lparr>ln_backend := b, ln_to_client := ln_to_client l @ frame z payload t\<rparr>)"
proof -
  obtain inner where w: "frame z payload t = length_prefix inner" "length inner \<le> 2097151" by (rule frame_is_prefixed [OF assms(3), of t])
  have "int (length inner) \<le> sint MAX_PACKET_BYTES" using w(2) MAX_PACKET_BYTES_sint by simp
  then obtain b where "read_frame MAX_PACKET_BYTES (ln_backend l) = (Inr (frame z payload t), b)" "bs_ok b" "contents b = rest"
    using read_frame_delivers [OF assms(1), of inner rest] assms(2) w(1) by metis
  then show ?thesis by auto
qed

lemma sniff_transcript:
  assumes "bs_ok (ln_backend l)" and "contents (ln_backend l) = login_wire z t ps (write_var_int i @ body) @ rest"
    and "list_all login_packet_ok ps" and "list_all (\<lambda>p. frameable z (packet_payload p)) ps"
    and "frameable z (write_var_int i @ body)" and "i = 1 \<or> i = 2"
  shows "\<exists>l'. sniff_backend_login z (replicate (Suc (length ps)) (Backend_Ready True)) t l
      = (Sniffed (Some (fold threshold_after ps t, i = 1)), l')
    \<and> contents (ln_backend l') = rest \<and> ln_to_client l' = ln_to_client l @ login_wire z t ps (write_var_int i @ body)"
  using assms(1-4)
proof (induction ps arbitrary: t l)
  case Nil
  then show ?case
    using sniff_packet [of l z "write_var_int i @ body" t rest] sniff_frame_payload [OF assms(5), of t] assms(5,6)
    by (auto split: prod.splits)
next
  case (Cons p ps)
  let ?t = "threshold_after p t" and ?w = "frame z (packet_payload p) t"
  obtain b where b: "bs_ok b" "contents b = login_wire z ?t ps (write_var_int i @ body) @ rest"
    and st: "sniff_step z (Backend_Ready True) t l = (sniff_frame z ?w t, l\<lparr>ln_backend := b, ln_to_client := ln_to_client l @ ?w\<rparr>)"
    using sniff_packet [of l z "packet_payload p" t "login_wire z ?t ps (write_var_int i @ body) @ rest"] Cons.prems by auto
  have f: "sniff_frame z ?w t = Sniffing ?t"
  proof (cases p)
    case (Plugin j pb)
    then show ?thesis using sniff_frame_payload [of z j pb t] Cons.prems by auto
  next
    case (SetCompression n)
    then show ?thesis
      using sniff_frame_payload [of z 3 "write_var_int n" t] Cons.prems read_write_var_int [of n "[]"] by auto
  qed
  let ?l = "l\<lparr>ln_backend := b, ln_to_client := ln_to_client l @ ?w\<rparr>"
  obtain l' where "sniff_backend_login z (replicate (Suc (length ps)) (Backend_Ready True)) ?t ?l
      = (Sniffed (Some (fold threshold_after ps ?t, i = 1)), l')"
    and "contents (ln_backend l') = rest" "ln_to_client l' = ln_to_client ?l @ login_wire z ?t ps (write_var_int i @ body)"
    using Cons.IH [of ?l ?t] b Cons.prems by auto
  then show ?case using st f by (intro exI [of _ l']) simp
qed

section \<open>Properties\<close>

text \<open>C6: the relay is transparent. Whatever order the two sides become ready in, over the login phase and
  the splice after it and whatever the sniffer concludes, the backend receives exactly the client's bytes
  in order and the client exactly the backend's, apart from one packet of the gateway's own at the
  very end of a session that was cut by a console action; nothing is lost, duplicated or reordered.\<close>

theorem session_transparent:
  assumes "link_ok l" and "list_all sniff_writes es" and "sniff_backend_login z es t l = (verdict, l1)"
    and "counts_ok (r\<lparr>rl_link := l1\<rparr>)" and "list_all relay_writes rs" and "relay interp lc z rs (r\<lparr>rl_link := l1\<rparr>) = (status, r')"
  shows "ln_to_backend (rl_link r') @ contents (ln_client (rl_link r')) = ln_to_backend l @ contents (ln_client l)
    \<and> (\<exists>down extra. ln_to_client (rl_link r') = down @ extra
        \<and> down @ contents (ln_backend (rl_link r')) = ln_to_client l @ contents (ln_backend l)
        \<and> gateway_packet interp lc z status extra)"
proof -
  have f: "link_ok l1" "upward l1 = upward l" "downward l1 = downward l" using sniff_flow [OF assms(1-3)] by simp_all
  then obtain up down extra where m: "moved (r\<lparr>rl_link := l1\<rparr>) up down extra r'" "gateway_packet interp lc z status extra"
    using relay_moved [OF _ assms(4,5,6)] by auto
  have "ln_to_client (rl_link r') = (ln_to_client l1 @ down) @ extra"
    and "(ln_to_client l1 @ down) @ contents (ln_backend (rl_link r')) = ln_to_client l @ contents (ln_backend l)"
    using m f(3) by (simp_all add: moved_def downward_def)
  moreover have "ln_to_backend (rl_link r') @ contents (ln_client (rl_link r')) = ln_to_backend l @ contents (ln_client l)"
    using m f(2) by (simp add: moved_def upward_def)
  ultimately show ?thesis using m(2) by blast
qed

definition demo_relay :: relay_state where
  "demo_relay = \<lparr>rl_link = \<lparr>ln_client = bs_new [Data [1, 2]], ln_backend = bs_new [Data [9]], ln_to_client = [], ln_to_backend = []\<rparr>,
     rl_session = Some (demo_session 0), rl_counter = None\<rparr>"

theorem session_transparent_witness:
  "ln_to_backend (rl_link (snd (relay (\<lambda>stops _ _. hd stops) (\<lambda>x. x) stored_zlib [Upload_Ready True] demo_relay)))
     @ contents (ln_client (rl_link (snd (relay (\<lambda>stops _ _. hd stops) (\<lambda>x. x) stored_zlib [Upload_Ready True] demo_relay)))) = [1, 2]"
  using session_transparent [of "rl_link demo_relay" "[]" stored_zlib "- 1" "Sniffing (- 1)" "rl_link demo_relay" demo_relay
      "[Upload_Ready True]" "\<lambda>stops _ _. hd stops" "\<lambda>x. x"]
  by (auto simp: demo_relay_def link_ok_def counts_ok_def demo_session_def is_i64_def prod_eq_iff)

text \<open>The relay counts what it moves. Over any run, the bytes added to a session's and to a route's counters
  in each direction are the bytes delivered in that direction, up to the wrap-around of the counters;
  an injected packet is not counted.\<close>

theorem relay_accounting:
  assumes "link_ok (rl_link r)" and "counts_ok r" and "list_all relay_writes rs" and "relay interp lc z rs r = (status, r')"
  shows "\<exists>up down extra. ln_to_backend (rl_link r') = ln_to_backend (rl_link r) @ up
    \<and> ln_to_client (rl_link r') = ln_to_client (rl_link r) @ down @ extra
    \<and> rel_option (session_counted up down) (rl_session r) (rl_session r')
    \<and> rel_option (counter_counted up down) (rl_counter r) (rl_counter r')"
  using relay_moved [OF assms] by (auto simp: moved_def)

theorem relay_accounting_witness:
  "\<exists>up down extra. ln_to_backend (rl_link (snd (relay (\<lambda>stops _ _. hd stops) (\<lambda>x. x) stored_zlib [Upload_Ready True] demo_relay))) = up
     \<and> ln_to_client (rl_link (snd (relay (\<lambda>stops _ _. hd stops) (\<lambda>x. x) stored_zlib [Upload_Ready True] demo_relay))) = down @ extra
     \<and> rel_option (session_counted up down) (Some (demo_session 0))
         (rl_session (snd (relay (\<lambda>stops _ _. hd stops) (\<lambda>x. x) stored_zlib [Upload_Ready True] demo_relay)))"
  using relay_accounting [of demo_relay "[Upload_Ready True]" "\<lambda>stops _ _. hd stops" "\<lambda>x. x" stored_zlib]
  by (auto simp: demo_relay_def link_ok_def counts_ok_def demo_session_def is_i64_def prod_eq_iff)

text \<open>C30: the sniffer learns the session's framing. When the backend's login phase consists of plugin requests
  and compression changes followed by Login Success or an Encryption Request, each framed at the
  threshold then in force and fragmented in any way, the sniffer reports the last threshold and
  whether encryption was requested, after forwarding exactly these bytes.\<close>

theorem sniff_reports_framing:
  assumes "bs_ok (ln_backend l)" and "contents (ln_backend l) = login_wire z (- 1) ps (write_var_int i @ body) @ rest"
    and "list_all login_packet_ok ps" and "list_all (\<lambda>p. frameable z (packet_payload p)) ps"
    and "frameable z (write_var_int i @ body)" and "i = 1 \<or> i = 2"
  shows "\<exists>l'. sniff_backend_login z (replicate (Suc (length ps)) (Backend_Ready True)) (- 1) l
      = (Sniffed (Some (fold threshold_after ps (- 1), i = 1)), l')
    \<and> contents (ln_backend l') = rest \<and> ln_to_client l' = ln_to_client l @ login_wire z (- 1) ps (write_var_int i @ body)"
  using assms by (rule sniff_transcript)

theorem sniff_reports_framing_witness:
  "fst (sniff_backend_login stored_zlib (replicate 2 (Backend_Ready True)) (- 1)
     \<lparr>ln_client = bs_new [], ln_backend = bs_new [Data (login_wire stored_zlib (- 1) [SetCompression 256] (write_var_int 2 @ [7]))],
      ln_to_client = [], ln_to_backend = []\<rparr>) = Sniffed (Some (256, False))"
proof -
  have v: "1 \<le> length (write_var_int i)" "length (write_var_int i) \<le> 5" for i using length_write_var_int by blast+
  let ?w = "login_wire stored_zlib (- 1) [SetCompression 256] (write_var_int 2 @ [7])"
  have "length_prefix p \<noteq> []" for p using v(1) [of "of_nat (length p)"] by (auto simp: length_prefix_def)
  then have "?w \<noteq> []" by (simp add: frame_def)
  moreover have "frameable stored_zlib (packet_payload (SetCompression 256))" "frameable stored_zlib (write_var_int 2 @ [7])"
    using v(2) [of 3] v(2) [of 256] v(2) [of 2] by (simp_all add: frameable_def zlib_ok_def stored_zlib_def)
  ultimately show ?thesis
    using sniff_reports_framing [of "\<lparr>ln_client = bs_new [], ln_backend = bs_new [Data ?w], ln_to_client = [], ln_to_backend = []\<rparr>"
        stored_zlib "[SetCompression 256]" 2 "[7]" "[]"]
    by (auto simp: numeral_2_eq_2)
qed

text \<open>Packets are injected only where they are safe, and then they are understood. A session that is
  encrypted or of an unsupported version gets no packet, with no panic on the way; otherwise the
  client reads the kick text or the transfer target back at the session's own threshold. The pending
  action is consumed either way.\<close>

theorem injection_safe:
  assumes "handle_pending_action interp lc z s = (res, s')"
  shows "ps_pending_action s' = Disconnect
    \<and> (\<not> can_inject_packet s \<longrightarrow> res = Returned None)
    \<and> (can_inject_packet s \<longrightarrow> ps_pending_action s = Transfer host port \<longrightarrow> list_all is_scalar host \<longrightarrow>
        length (as_bytes host) \<le> 131068 \<longrightarrow> fits z (write_var_int 0x81 @ write_string host @ to_be_bytes port) \<longrightarrow>
        (\<exists>w. res = Returned (Some w) \<and> client_reads_transfer z (word_of_int (ps_compression_threshold s)) w = Some (host, port)))
    \<and> (can_inject_packet s \<longrightarrow> ps_pending_action s = KickWithMessage msg \<longrightarrow> to_legacy_text interp lc msg = Returned shown \<longrightarrow>
        nbt_text shown \<longrightarrow> fits z (write_var_int 0x20 @ [NBT_STRING] @ write_nbt_string shown) \<longrightarrow>
        (\<exists>w. res = Returned (Some w) \<and> client_reads_kick z (word_of_int (ps_compression_threshold s)) w = Some shown))"
proof -
  have ids: "packet_ids (ps_protocol_version s) = Returned CURRENT_BRACKET" if "can_inject_packet s"
    using that by (auto simp: can_inject_packet_def reconnect_supported_def bracket_for_def packet_ids_def split: if_splits)
  have refused: "\<not> can_inject_packet s \<Longrightarrow> res = Returned None"
    using assms by (auto simp: handle_pending_action_def Let_def split: session_action.splits)
  show ?thesis
    using assms action_session [OF assms] ids refused
      transfer_understood [of host z port "word_of_int (ps_compression_threshold s)"]
      kick_understood [of shown z "word_of_int (ps_compression_threshold s)"]
    by (auto simp: handle_pending_action_def Let_def)
qed

theorem injection_safe_witness:
  "\<exists>w. fst (handle_pending_action (\<lambda>stops _ _. hd stops) (\<lambda>x. x) stored_zlib
       (demo_session 0\<lparr>ps_protocol_version := 776, ps_pending_action := Transfer (lit ''h'') 1\<rparr>)) = Returned (Some w)
     \<and> client_reads_transfer stored_zlib (- 1) w = Some (lit ''h'', 1)"
proof -
  have v: "length (write_var_int i) \<le> 5" for i using length_write_var_int by blast
  have "list_all is_scalar (lit ''h'')" "length (as_bytes (lit ''h'')) \<le> 131068"
    by (simp_all add: lit_def is_scalar_def as_bytes_def utf8_encode_char_def)
  moreover have "fits stored_zlib (write_var_int 0x81 @ write_string (lit ''h'') @ to_be_bytes (1 :: u16))"
    using v [of "0x81"] v [of 1]
    by (simp add: fits_def zlib_ok_def stored_zlib_def write_string_def lit_def as_bytes_def utf8_encode_char_def)
  ultimately show ?thesis
    using injection_safe [of "\<lambda>stops _ _. hd stops" "\<lambda>x. x" stored_zlib
        "demo_session 0\<lparr>ps_protocol_version := 776, ps_pending_action := Transfer (lit ''h'') 1\<rparr>" _ _ "lit ''h''" 1]
    by (simp add: can_inject_packet_def demo_session_def reconnect_supported_def bracket_for_def prod_eq_iff)
qed

end
