(* ===== verification/Ping_Cache.thy ===== *)
theory Ping_Cache
  imports Rust_Std
begin

text \<open>
  The status-response cache of \<open>src/net/ping_cache.rs\<close>: responses with a time to live, a short
  memory of failed dials, a sweep and a hard cap with eviction of the entries that expire first.
\<close>

section \<open>Definitions\<close>

definition FAILURE_TTL :: duration where
  "FAILURE_TTL = from_secs 5"

definition MAX_ENTRIES :: nat where
  "MAX_ENTRIES = 10000"

record ping_entry =
  pe_json :: str
  pe_expires_at :: instant

record ping_cache =
  pc_entries :: "(str, ping_entry) hmap"
  pc_down_until :: "(str, instant) hmap"

definition ping_get :: "instant \<Rightarrow> str \<Rightarrow> ping_cache \<Rightarrow> str option \<times> ping_cache" where
  "ping_get now key c =
     (case hm_get (pc_entries c) key of
        None \<Rightarrow> (None, c)
      | Some e \<Rightarrow>
          if now > pe_expires_at e then (None, c\<lparr>pc_entries := hm_remove key (pc_entries c)\<rparr>)
          else (Some (pe_json e), c))"

definition evict_overflow :: "(str, ping_entry) hmap \<Rightarrow> (str, ping_entry) hmap" where
  "evict_overflow entries =
     (let target = MAX_ENTRIES * 9 div 10; over_by = length entries - target in
      if over_by = 0 then entries
      else let by_expiry = sort_key snd (map (\<lambda>(k, v). (k, pe_expires_at v)) entries) in
        fold (\<lambda>(key, _) es. hm_remove key es) (take over_by by_expiry) entries)"

definition ping_put :: "instant \<Rightarrow> str \<Rightarrow> str \<Rightarrow> int \<Rightarrow> ping_cache \<Rightarrow> ping_cache" where
  "ping_put now key json ttl_millis c =
     (let c = c\<lparr>pc_down_until := hm_remove key (pc_down_until c)\<rparr> in
      if ttl_millis < 0 then c
      else let entries = hm_insert key \<lparr>pe_json = json, pe_expires_at = now + from_millis (nat ttl_millis)\<rparr> (pc_entries c) in
        c\<lparr>pc_entries := if length entries > MAX_ENTRIES then evict_overflow entries else entries\<rparr>)"

definition is_known_down :: "instant \<Rightarrow> str \<Rightarrow> ping_cache \<Rightarrow> bool \<times> ping_cache" where
  "is_known_down now key c =
     (case hm_get (pc_down_until c) key of
        None \<Rightarrow> (False, c)
      | Some until \<Rightarrow>
          if now > until then (False, c\<lparr>pc_down_until := hm_remove key (pc_down_until c)\<rparr>)
          else (True, c))"

definition mark_down :: "instant \<Rightarrow> str \<Rightarrow> ping_cache \<Rightarrow> ping_cache" where
  "mark_down now key c = c\<lparr>pc_down_until := hm_insert key (now + FAILURE_TTL) (pc_down_until c)\<rparr>"

definition ping_sweep :: "instant \<Rightarrow> ping_cache \<Rightarrow> ping_cache" where
  "ping_sweep now c =
     c\<lparr>pc_entries := hm_retain (\<lambda>_ e. pe_expires_at e \<ge> now) (pc_entries c),
       pc_down_until := hm_retain (\<lambda>_ until. until \<ge> now) (pc_down_until c)\<rparr>"

section \<open>Invariant and observations\<close>

definition ping_ok :: "ping_cache \<Rightarrow> bool" where
  "ping_ok c \<longleftrightarrow> hm_ok (pc_entries c) \<and> hm_ok (pc_down_until c) \<and> length (pc_entries c) \<le> MAX_ENTRIES"

text \<open>What a lookup at time \<open>t\<close> answers: the cached response, and whether the key is known down.\<close>

definition ping_observe :: "instant \<Rightarrow> ping_cache \<Rightarrow> str \<Rightarrow> str option \<times> bool" where
  "ping_observe t c key = (fst (ping_get t key c), fst (is_known_down t key c))"

lemma ping_observe_def2:
  "ping_observe t c key =
   (case hm_get (pc_entries c) key of None \<Rightarrow> None | Some e \<Rightarrow> if t > pe_expires_at e then None else Some (pe_json e),
    case hm_get (pc_down_until c) key of None \<Rightarrow> False | Some until \<Rightarrow> \<not> t > until)"
  by (auto simp: ping_observe_def ping_get_def is_known_down_def split: option.splits)

interpretation ping_house: housekeeping ping_observe ping_sweep ping_ok
proof
  fix s :: ping_cache and now t k
  assume ok: "ping_ok s"
  then show "ping_ok (ping_sweep now s)"
    using length_hm_retain [of "\<lambda>_ e. pe_expires_at e \<ge> now" "pc_entries s"]
    by (simp add: ping_ok_def ping_sweep_def)
  assume "now \<le> t"
  then show "ping_observe t (ping_sweep now s) k = ping_observe t s k"
    using ok by (auto simp: ping_observe_def2 ping_ok_def ping_sweep_def hm_get_retain split: option.splits)
qed

lemma ping_get_later: "now \<le> t \<Longrightarrow> ping_observe t (snd (ping_get now key c)) k = ping_observe t c k"
  by (auto simp: ping_observe_def2 ping_get_def split: option.splits)

lemma is_known_down_later: "now \<le> t \<Longrightarrow> ping_observe t (snd (is_known_down now key c)) k = ping_observe t c k"
  by (auto simp: ping_observe_def2 is_known_down_def split: option.splits)

section \<open>Eviction\<close>

lemma fold_remove:
  "hm_get (fold (\<lambda>(key, _) es. hm_remove key es) ks m) k = (if k \<in> fst ` set ks then None else hm_get m k)"
  by (induction ks arbitrary: m) (auto split: prod.splits)

lemma fold_remove_ok: "hm_ok m \<Longrightarrow> hm_ok (fold (\<lambda>(key, _) es. hm_remove key es) ks m)"
  by (induction ks arbitrary: m) (auto split: prod.splits)

lemma fold_remove_length:
  assumes "hm_ok m" and "distinct (map fst ks)" and "fst ` set ks \<subseteq> fst ` set m"
  shows "length (fold (\<lambda>(key, _) es. hm_remove key es) ks m) + length ks = length m"
  using assms
proof (induction ks arbitrary: m)
  case (Cons p ks)
  obtain k v where p: "p = (k, v)" by (cases p)
  have c: "hm_contains m k" using Cons.prems(3) p hm_get_None_iff [of m k] by (auto simp: hm_contains_def)
  have "fst ` set ks \<subseteq> fst ` set (hm_remove k m)"
  proof
    fix x assume x: "x \<in> fst ` set ks"
    moreover have "k \<notin> fst ` set ks" using Cons.prems(2) p by simp
    ultimately have "x \<noteq> k" "x \<in> fst ` set m" using Cons.prems(3) by auto
    then show "x \<in> fst ` set (hm_remove k m)"
      using hm_get_None_iff [of "hm_remove k m" x] hm_get_None_iff [of m x] by simp
  qed
  then have "length (fold (\<lambda>(key, _) es. hm_remove key es) ks (hm_remove k m)) + length ks = length (hm_remove k m)"
    using Cons by simp
  then show ?case using length_hm_remove_present [OF Cons.prems(1) c] p by simp
qed simp

lemma sorted_key_split:
  assumes "sorted (map f xs)" and "a \<in> set (take n xs)" and "b \<in> set (drop n xs)"
  shows "f a \<le> f b"
proof -
  have "sorted (map f (take n xs) @ map f (drop n xs))"
    using assms(1) by (metis append_take_drop_id map_append)
  then show ?thesis using assms(2,3) by (auto simp: sorted_append)
qed

lemma evict_overflow_spec:
  assumes ok: "hm_ok m" and over: "MAX_ENTRIES < length m"
  shows "hm_ok (evict_overflow m) \<and> length (evict_overflow m) = 9000
    \<and> (\<forall>k e. hm_get (evict_overflow m) k = Some e \<longrightarrow> hm_get m k = Some e)
    \<and> (\<forall>k e k' e'. hm_get m k = Some e \<and> hm_get (evict_overflow m) k = None \<and> hm_get (evict_overflow m) k' = Some e'
          \<longrightarrow> pe_expires_at e \<le> pe_expires_at e')"
proof -
  define by_expiry where "by_expiry = sort_key snd (map (\<lambda>(k, v). (k, pe_expires_at v)) m)"
  define ks where "ks = take (length m - 9000) by_expiry"
  have e: "evict_overflow m = fold (\<lambda>(key, _) es. hm_remove key es) ks m"
    using over by (simp add: evict_overflow_def MAX_ENTRIES_def Let_def ks_def by_expiry_def)
  have "mset (map fst by_expiry) = mset (map fst m)"
    unfolding by_expiry_def mset_map mset_sort by (simp add: image_mset.compositionality comp_def case_prod_unfold)
  then have dk: "distinct (map fst by_expiry)"
    using ok mset_eq_imp_distinct_iff by (metis hm_ok_def)
  have sb: "set by_expiry = (\<lambda>(k, v). (k, pe_expires_at v)) ` set m" by (simp add: by_expiry_def)
  have lb: "length by_expiry = length m" by (simp add: by_expiry_def)
  have d: "distinct (map fst ks)" using dk unfolding ks_def by (metis distinct_take take_map)
  have sub: "set ks \<subseteq> (\<lambda>(k, v). (k, pe_expires_at v)) ` set m"
    unfolding ks_def sb [symmetric] by (rule set_take_subset)
  then have "fst ` set ks \<subseteq> fst ` (\<lambda>(k, v). (k, pe_expires_at v)) ` set m" by (rule image_mono)
  then have s: "fst ` set ks \<subseteq> fst ` set m" by (simp add: image_image case_prod_unfold)
  have l: "length ks = length m - 9000" by (simp add: ks_def lb)
  have srt: "sorted (map snd by_expiry)" by (simp add: by_expiry_def)
  have len: "length (evict_overflow m) = 9000"
    using fold_remove_length [OF ok d s] l over by (simp add: e MAX_ENTRIES_def)
  have order: "pe_expires_at x \<le> pe_expires_at x'"
    if "hm_get m k = Some x" "hm_get (evict_overflow m) k = None" "hm_get (evict_overflow m) k' = Some x'" for k x k' x'
  proof -
    have "k \<in> fst ` set ks" using that(1,2) by (auto simp: e fold_remove split: if_splits)
    then obtain a where a: "(k, a) \<in> set ks" by auto
    have "hm_get m k' = Some x'" "k' \<notin> fst ` set ks" using that(3) by (auto simp: e fold_remove split: if_splits)
    then have m': "(k', pe_expires_at x') \<in> set by_expiry" "(k', pe_expires_at x') \<notin> set ks"
      using ok by (force simp: sb hm_get_in_set)+
    then have "(k', pe_expires_at x') \<in> set (drop (length m - 9000) by_expiry)"
      unfolding ks_def by (metis Un_iff append_take_drop_id set_append)
    then have "a \<le> pe_expires_at x'"
      using sorted_key_split [OF srt, of "(k, a)"] a by (fastforce simp: ks_def)
    moreover have "(k, a) \<in> (\<lambda>(k, v). (k, pe_expires_at v)) ` set m"
      using a sub by (rule subsetD [rotated])
    then have "a = pe_expires_at x" using that(1) ok by (auto simp: hm_get_in_set [symmetric])
    ultimately show ?thesis by simp
  qed
  have same: "hm_get m k = Some x" if "hm_get (evict_overflow m) k = Some x" for k x
    using that by (simp add: e fold_remove split: if_splits)
  have "hm_ok (evict_overflow m)" unfolding e by (rule fold_remove_ok [OF ok])
  then show ?thesis using len order same by blast
qed

lemma ping_put_ok: "ping_ok c \<Longrightarrow> ping_ok (ping_put now key json ttl c)"
  using evict_overflow_spec [of "hm_insert key \<lparr>pe_json = json, pe_expires_at = now + from_millis (nat ttl)\<rparr> (pc_entries c)"]
  by (auto simp: ping_put_def ping_ok_def Let_def) (simp add: MAX_ENTRIES_def)

section \<open>Properties\<close>

text \<open>The cache never grows past its cap and evicts in the right order. Storing a response keeps the
  table within the cap; when it overflows, exactly 9000 entries survive, each unchanged, and no
  evicted entry would have lived longer than a surviving one.\<close>

theorem ping_cache_bounded:
  assumes "ping_ok c"
  shows "ping_ok (ping_put now key json ttl c)
    \<and> (\<forall>m. hm_ok m \<longrightarrow> MAX_ENTRIES < length m \<longrightarrow> length (evict_overflow m) = 9000
        \<and> (\<forall>k e k' e'. hm_get m k = Some e \<and> hm_get (evict_overflow m) k = None
             \<and> hm_get (evict_overflow m) k' = Some e' \<longrightarrow> pe_expires_at e \<le> pe_expires_at e'))"
  using ping_put_ok [OF assms] evict_overflow_spec by blast

theorem ping_cache_bounded_witness:
  "ping_ok (ping_put 5 (lit ''a'') (lit ''j'') 100 \<lparr>pc_entries = [], pc_down_until = []\<rparr>)"
  using ping_cache_bounded [of "\<lparr>pc_entries = [], pc_down_until = []\<rparr>" 5 "lit ''a''" "lit ''j''" 100]
  by (simp add: ping_ok_def)

text \<open>A stored response is served until it expires and no longer. While the table is below its cap,
  a response stored with a time to live is returned by every lookup up to its expiry, by none
  after it, and the failure mark of the key is gone; other keys answer as before.\<close>

theorem ping_put_get:
  assumes "ping_ok c" and "0 \<le> ttl" and "length (pc_entries c) < MAX_ENTRIES"
  shows "ping_observe t (ping_put now key json ttl c) k =
    (if k = key then (if t \<le> now + from_millis (nat ttl) then Some json else None, False)
     else ping_observe t c k)"
proof -
  have "length (hm_insert key \<lparr>pe_json = json, pe_expires_at = now + from_millis (nat ttl)\<rparr> (pc_entries c)) \<le> MAX_ENTRIES"
    using assms(3) by (rule hm.upd_new_below_cap)
  then show ?thesis using assms(2) by (auto simp: ping_observe_def2 ping_put_def Let_def)
qed

theorem ping_put_get_witness:
  "ping_observe 100 (ping_put 5 (lit ''a'') (lit ''j'') 1 (mark_down 0 (lit ''a'') \<lparr>pc_entries = [], pc_down_until = []\<rparr>)) (lit ''a'')
    = (Some (lit ''j''), False)"
  using ping_put_get [of "mark_down 0 (lit ''a'') \<lparr>pc_entries = [], pc_down_until = []\<rparr>" 1 100 5 "lit ''a''" "lit ''j''" "lit ''a''"]
  by (simp add: ping_ok_def mark_down_def MAX_ENTRIES_def from_millis_def)

text \<open>Clean-up is invisible. Any number of sweeps, and the lazy removals done by lookups, never change
  what a later lookup of any key answers.\<close>

theorem ping_cleanup_invisible:
  assumes "ping_ok c" and "\<forall>n \<in> set nows. n \<le> t" and "now \<le> t"
  shows "ping_observe t (fold ping_sweep nows c) k = ping_observe t c k
    \<and> ping_observe t (snd (ping_get now key c)) k = ping_observe t c k
    \<and> ping_observe t (snd (is_known_down now key c)) k = ping_observe t c k"
  using ping_house.tidies_unobservable [OF assms(1,2)] ping_get_later [OF assms(3)] is_known_down_later [OF assms(3)]
  by blast

theorem ping_cleanup_invisible_witness:
  "ping_observe 9 (fold ping_sweep [3, 7] \<lparr>pc_entries = [(lit ''a'', \<lparr>pe_json = [], pe_expires_at = 5\<rparr>)], pc_down_until = []\<rparr>) (lit ''a'')
    = ping_observe 9 \<lparr>pc_entries = [(lit ''a'', \<lparr>pe_json = [], pe_expires_at = 5\<rparr>)], pc_down_until = []\<rparr> (lit ''a'')"
  using ping_cleanup_invisible [of "\<lparr>pc_entries = [(lit ''a'', \<lparr>pe_json = [], pe_expires_at = 5\<rparr>)], pc_down_until = []\<rparr>" "[3, 7]" 9 9]
  by (simp add: ping_ok_def hm_ok_def MAX_ENTRIES_def)

end
