(* ===== verification/Status_Handler.thy ===== *)
theory Status_Handler
  imports Ping_Cache Buffered_Stream Route_Metrics
begin

text \<open>
  Server-list pings, \<open>handle_status\<close> of \<open>src/net/server.rs\<close> and what it calls.

  \<open>status_world\<close> holds the two tables the handler shares with other connections. The environment of one
  run, \<open>status_env\<close>, numbers the points where the handler awaits something: \<open>se_clock n\<close> is the time after the
  \<open>n\<close>-th of them, \<open>se_others n\<close> what other connections did to the tables meanwhile and \<open>se_dial n\<close> how a
  connection attempt made there ends. The JSON parser of serde is the argument \<open>parse\<close>; the DNS cache, the
  shuffle and the colour interpolation are arguments as in the other theories.
\<close>

section \<open>Definitions\<close>

record status_world =
  sw_cache :: ping_cache
  sw_runtime :: route_runtime

text \<open>A connected backend: what it will send, whether the writes succeed, and whether its answer is late.\<close>

record backend_dial =
  bd_reader :: reader
  bd_writes_ok :: bool
  bd_late :: bool

record status_env =
  se_clock :: "nat \<Rightarrow> instant"
  se_others :: "nat \<Rightarrow> status_world \<Rightarrow> status_world"
  se_dial :: "nat \<Rightarrow> socket_addr \<Rightarrow> backend_dial option"

datatype json = J_Null | J_Bool bool | J_Int int | J_Float "64 word" | J_String str | J_Array "json list" | J_Object "(str \<times> json) list"

fun json_get :: "str \<Rightarrow> json \<Rightarrow> json option" where
  "json_get key (J_Object kvs) = hm_get kvs key"
| "json_get key _ = None"

fun json_as_i64 :: "json \<Rightarrow> int option" where
  "json_as_i64 (J_Int n) = (if is_i64 n then Some n else None)"
| "json_as_i64 _ = None"

fun json_is_number :: "json \<Rightarrow> bool" where
  "json_is_number (J_Int n) = True"
| "json_is_number (J_Float w) = True"
| "json_is_number _ = False"

definition status_protocol :: "(str \<Rightarrow> json option) \<Rightarrow> str \<Rightarrow> int option" where
  "status_protocol parse j =
     Option.bind (parse j) (\<lambda>v. Option.bind (json_get (lit ''version'') v) (\<lambda>v.
       Option.bind (json_get (lit ''protocol'') v) json_as_i64))"

definition is_valid_status_json :: "(str \<Rightarrow> json option) \<Rightarrow> str \<Rightarrow> bool" where
  "is_valid_status_json parse j =
     (case parse j of
        None \<Rightarrow> False
      | Some v \<Rightarrow>
          unwrap_or (map_option json_is_number
            (Option.bind (json_get (lit ''version'') v) (json_get (lit ''protocol'')))) False)"

definition status_cache_key :: "str \<Rightarrow> str \<Rightarrow> i32 \<Rightarrow> str" where
  "status_cache_key backend_key host protocol_version =
     backend_key @ lit ''|'' @ map to_ascii_lowercase host @ lit ''|'' @ show_int (sint protocol_version)"

definition down_key :: "socket_addr \<Rightarrow> str" where
  "down_key addr = show_ip (addr_ip addr) @ lit '':'' @ show_nat (unat (addr_port addr))"

fun is_unspecified :: "ip_addr \<Rightarrow> bool" where
  "is_unspecified (V4 a b c d) \<longleftrightarrow> a = 0 \<and> b = 0 \<and> c = 0 \<and> d = 0"
| "is_unspecified (V6 o6) \<longleftrightarrow> o6 = replicate 16 0"

fun is_loopback :: "ip_addr \<Rightarrow> bool" where
  "is_loopback (V4 a b c d) \<longleftrightarrow> a = 127"
| "is_loopback (V6 o6) \<longleftrightarrow> o6 = replicate 15 0 @ [1]"

definition should_forward_proxy_protocol :: "socket_addr \<Rightarrow> bool" where
  "should_forward_proxy_protocol client_addr \<longleftrightarrow>
     addr_port client_addr \<noteq> 0 \<and> \<not> is_unspecified (addr_ip client_addr) \<and> \<not> is_loopback (addr_ip client_addr)"

definition proxy_header_bytes :: "route \<Rightarrow> socket_addr \<Rightarrow> socket_addr \<Rightarrow> bytes" where
  "proxy_header_bytes route client_addr addr =
     (if rt_proxy_protocol route \<and> should_forward_proxy_protocol client_addr
      then encode_proxy_protocol_header client_addr addr else [])"

text \<open>The request a status dial sends.\<close>

definition status_request_bytes :: "route \<Rightarrow> socket_addr \<Rightarrow> handshake \<Rightarrow> socket_addr \<Rightarrow> bytes" where
  "status_request_bytes route addr hs client_addr =
     proxy_header_bytes route client_addr addr
     @ encode_handshake (hs_protocol_version hs) (hs_host hs) (hs_port hs) 1
     @ write_var_int 1 @ write_var_int 0x00"

definition fetch_backend_status :: "(str \<Rightarrow> json option) \<Rightarrow> backend_dial option \<Rightarrow> str option" where
  "fetch_backend_status parse dial =
     Option.bind dial (\<lambda>backend.
       if \<not> bd_writes_ok backend \<or> bd_late backend then None
       else case fst (read_frame 262144 (bs_new (bd_reader backend))) of
         Inl _ \<Rightarrow> None
       | Inr f \<Rightarrow>
           (case read_var_int f of
              Inl _ \<Rightarrow> None
            | Inr (_, header_len) \<Rightarrow>
                (case read_var_int (drop header_len f) of
                   Inl _ \<Rightarrow> None
                 | Inr (packet_id, consumed) \<Rightarrow>
                     if packet_id \<noteq> 0x00 then None
                     else (case read_string (drop (header_len + consumed) f) 262144 of
                             Inl _ \<Rightarrow> None
                           | Inr (j, _) \<Rightarrow> if is_valid_status_json parse j then Some j else None))))"

datatype status_slot = Cached str | Acquired | TimedOut

definition STATUS_SLOT_WAIT :: duration where "STATUS_SLOT_WAIT = from_secs 3"

text \<open>Every pass sleeps once; \<open>fuel\<close> bounds the passes.\<close>

fun wait_for_status_slot ::
  "status_env \<Rightarrow> nat \<Rightarrow> instant \<Rightarrow> socket_addr \<Rightarrow> str \<Rightarrow> nat \<Rightarrow> status_world \<Rightarrow> (status_slot \<times> nat \<times> status_world) option" where
  "wait_for_status_slot env 0 deadline addr response_key n w = None"
| "wait_for_status_slot env (Suc fuel) deadline addr response_key n w =
     (if \<not> se_clock env n < deadline then Some (TimedOut, n, w)
      else
        let n = n + 1; w = se_others env n w in
        case ping_get (se_clock env n) response_key (sw_cache w) of
          (Some j, c) \<Rightarrow> Some (Cached j, n, w\<lparr>sw_cache := c\<rparr>)
        | (None, c) \<Rightarrow>
            (case try_begin_status_dial addr MAX_CONCURRENT_STATUS_DIALS (sw_runtime w) of
               (True, r) \<Rightarrow> Some (Acquired, n, w\<lparr>sw_cache := c, sw_runtime := r\<rparr>)
             | (False, r) \<Rightarrow> wait_for_status_slot env fuel deadline addr response_key n (w\<lparr>sw_cache := c, sw_runtime := r\<rparr>)))"

definition SLOT_WAIT_PASSES :: nat where "SLOT_WAIT_PASSES = 61"

text \<open>A dial with the slot held: fetch, give the slot back, record the outcome.\<close>

definition status_dial ::
  "(str \<Rightarrow> json option) \<Rightarrow> status_env \<Rightarrow> route \<Rightarrow> socket_addr \<Rightarrow> str \<Rightarrow> nat \<Rightarrow> status_world \<Rightarrow> str option \<times> nat \<times> status_world" where
  "status_dial parse env route addr response_key n w =
     (let start = se_clock env n; n = n + 1; result = fetch_backend_status parse (se_dial env n addr);
          w = se_others env n w; now = se_clock env n; r = end_status_dial addr (sw_runtime w) in
      case result of
        Some j \<Rightarrow>
          (Some j, n,
           w\<lparr>sw_runtime := record_latency now addr (int (as_millis (now - start))) r,
             sw_cache := ping_put now (down_key addr) j (rt_cache_ping_ttl_millis route)
               (ping_put now response_key j (rt_cache_ping_ttl_millis route) (sw_cache w))\<rparr>)
      | None \<Rightarrow> (None, n, w\<lparr>sw_runtime := r, sw_cache := mark_down now (down_key addr) (sw_cache w)\<rparr>))"

datatype status_attempt = Answer str | Next_Backend

definition dial_attempt ::
  "(str \<Rightarrow> json option) \<Rightarrow> status_env \<Rightarrow> route \<Rightarrow> socket_addr \<Rightarrow> str \<Rightarrow> nat \<Rightarrow> status_world
     \<Rightarrow> (status_attempt \<times> nat \<times> status_world) option" where
  "dial_attempt parse env route addr response_key n w =
     (case status_dial parse env route addr response_key n w of
        (Some j, n, w) \<Rightarrow> Some (Answer j, n, w)
      | (None, n, w) \<Rightarrow> Some (Next_Backend, n, w))"

text \<open>At the dial cap: the last-known response if it is of the client's own protocol, or a wait for a slot.\<close>

definition saturated_attempt ::
  "(str \<Rightarrow> json option) \<Rightarrow> status_env \<Rightarrow> route \<Rightarrow> handshake \<Rightarrow> socket_addr \<Rightarrow> str \<Rightarrow> nat \<Rightarrow> status_world
     \<Rightarrow> (status_attempt \<times> nat \<times> status_world) option" where
  "saturated_attempt parse env route hs addr response_key n w =
     (case ping_get (se_clock env n) (down_key addr) (sw_cache w) of
        (last_known, c) \<Rightarrow>
          if (case last_known of Some j \<Rightarrow> status_protocol parse j = Some (sint (hs_protocol_version hs)) | None \<Rightarrow> False)
          then Some (Answer (the last_known), n, w\<lparr>sw_cache := c\<rparr>)
          else
            (case wait_for_status_slot env SLOT_WAIT_PASSES (se_clock env n + STATUS_SLOT_WAIT) addr response_key n (w\<lparr>sw_cache := c\<rparr>) of
               None \<Rightarrow> None
             | Some (Cached j, n, w) \<Rightarrow> Some (Answer j, n, w)
             | Some (Acquired, n, w) \<Rightarrow> dial_attempt parse env route addr response_key n w
             | Some (TimedOut, n, w) \<Rightarrow> Some (Next_Backend, n, w)))"

text \<open>One backend of the loop.\<close>

definition try_backend ::
  "(str \<Rightarrow> json option) \<Rightarrow> status_env \<Rightarrow> route \<Rightarrow> handshake \<Rightarrow> socket_addr \<Rightarrow> nat \<Rightarrow> status_world
     \<Rightarrow> (status_attempt \<times> nat \<times> status_world) option" where
  "try_backend parse env route hs addr n w =
     (let now = se_clock env n; response_key = status_cache_key (down_key addr) (hs_host hs) (hs_protocol_version hs) in
      case ping_get now response_key (sw_cache w) of
        (Some j, c) \<Rightarrow> Some (Answer j, n, w\<lparr>sw_cache := c\<rparr>)
      | (None, c) \<Rightarrow>
          (case is_known_down now (down_key addr) c of
             (True, c) \<Rightarrow> Some (Next_Backend, n, w\<lparr>sw_cache := c\<rparr>)
           | (False, c) \<Rightarrow>
               (case try_begin_status_dial addr MAX_CONCURRENT_STATUS_DIALS (sw_runtime w) of
                  (True, r) \<Rightarrow> dial_attempt parse env route addr response_key n (w\<lparr>sw_cache := c, sw_runtime := r\<rparr>)
                | (False, r) \<Rightarrow> saturated_attempt parse env route hs addr response_key n (w\<lparr>sw_cache := c, sw_runtime := r\<rparr>))))"

fun status_loop ::
  "(str \<Rightarrow> json option) \<Rightarrow> status_env \<Rightarrow> route \<Rightarrow> handshake \<Rightarrow> socket_addr list \<Rightarrow> nat \<Rightarrow> status_world
     \<Rightarrow> (str option \<times> nat \<times> status_world) option" where
  "status_loop parse env route hs [] n w = Some (None, n, w)"
| "status_loop parse env route hs (addr # addrs) n w =
     (case try_backend parse env route hs addr n w of
        None \<Rightarrow> None
      | Some (Answer j, n, w) \<Rightarrow> Some (Some j, n, w)
      | Some (Next_Backend, n, w) \<Rightarrow> status_loop parse env route hs addrs n w)"

text \<open>The optional ping after the response: the pong written, if any.\<close>

definition handle_ping :: "bool \<Rightarrow> buffered_stream \<Rightarrow> bytes" where
  "handle_ping late st =
     (case (if late then None else Some (fst (read_frame 64 st))) of
        Some (Inr f) \<Rightarrow>
          (case read_var_int f of
             Inl _ \<Rightarrow> []
           | Inr (_, header_len) \<Rightarrow>
               (case read_var_int (drop header_len f) of
                  Inl _ \<Rightarrow> []
                | Inr (packet_id, consumed) \<Rightarrow>
                    if packet_id \<noteq> 0x01 then []
                    else let payload_start = header_len + consumed in
                      if length f - payload_start < 8 then []
                      else encode_pong (from_be_bytes (slice payload_start (payload_start + 8) f))))
      | _ \<Rightarrow> [])"

definition resolve_ordered_backends ::
  "(socket_addr list \<Rightarrow> socket_addr list) \<Rightarrow> (str \<Rightarrow> u16 \<Rightarrow> dns_result) \<Rightarrow> instant \<Rightarrow> route \<Rightarrow> str list \<Rightarrow> route_runtime
     \<Rightarrow> (dns_resolve_error + socket_addr list) run \<times> route_runtime" where
  "resolve_ordered_backends shuffle resolve now route captures r =
     (case resolve_backends resolve (rt_backend_templates route) captures of
        Panicked \<Rightarrow> (Panicked, r)
      | Returned (Inl e) \<Rightarrow> (Returned (Inl e), r)
      | Returned (Inr addrs) \<Rightarrow>
          (case order_backends shuffle now (rt_strategy route) r addrs of (ordered, r) \<Rightarrow> (Returned (Inr ordered), r)))"

text \<open>The bytes written to the client and the tables afterwards; nothing while a backend is still awaited.\<close>

definition handle_status ::
  "interp \<Rightarrow> (str \<Rightarrow> str) \<Rightarrow> (str \<Rightarrow> json option) \<Rightarrow> (socket_addr list \<Rightarrow> socket_addr list) \<Rightarrow> (str \<Rightarrow> u16 \<Rightarrow> dns_result)
     \<Rightarrow> status_env \<Rightarrow> bool \<Rightarrow> bool \<Rightarrow> buffered_stream \<Rightarrow> route \<Rightarrow> str list \<Rightarrow> handshake \<Rightarrow> status_world
     \<Rightarrow> (bytes run \<times> status_world) option" where
  "handle_status interp lc parse shuffle resolve env request_late ping_late stream route captures hs w =
     (case (if request_late then (Inl [], stream) else read_frame MAX_PACKET_BYTES stream) of
        (Inl _, _) \<Rightarrow> Some (Returned [], w)
      | (Inr request, stream) \<Rightarrow>
          (case read_var_int request of
             Inl _ \<Rightarrow> Some (Panicked, w)
           | Inr (_, header_len) \<Rightarrow>
               (case read_var_int (drop header_len request) of
                  Inl _ \<Rightarrow> Some (Returned [], w)
                | Inr (packet_id, _) \<Rightarrow>
                    if packet_id \<noteq> 0x00 then Some (Returned [], w)
                    else
                      (case resolve_ordered_backends shuffle resolve (se_clock env 0) route captures (sw_runtime w) of
                         (Panicked, r) \<Rightarrow> Some (Panicked, w\<lparr>sw_runtime := r\<rparr>)
                       | (Returned (Inl e), r) \<Rightarrow> Some (Returned [], w\<lparr>sw_runtime := r\<rparr>)
                       | (Returned (Inr backends), r) \<Rightarrow>
                           (case status_loop parse env route hs backends 0 (w\<lparr>sw_runtime := r\<rparr>) of
                              None \<Rightarrow> None
                            | Some (Some j, _, w) \<Rightarrow> Some (Returned (encode_status_response j @ handle_ping ping_late stream), w)
                            | Some (None, _, w) \<Rightarrow>
                                (case rt_fallback route of
                                   None \<Rightarrow> Some (Returned [], w)
                                 | Some fallback \<Rightarrow>
                                     Some (run_bind (build_fallback_json interp lc fallback) (\<lambda>j.
                                       Returned (encode_status_response j @ handle_ping ping_late stream)), w)))))))"

section \<open>Cache keys\<close>

lemma bar_split:
  assumes "(124 :: nat) \<notin> set b1" "124 \<notin> set b2" and "b1 @ 124 # x1 = b2 @ 124 # x2"
  shows "b1 = b2 \<and> x1 = x2"
  using assms
proof (induction b1 arbitrary: b2)
  case Nil
  then show ?case by (cases b2) auto
next
  case (Cons c b1)
  then show ?case by (cases b2) auto
qed

lemma bar_rsplit:
  assumes "(124 :: nat) \<notin> set p1" "124 \<notin> set p2" and "x1 @ 124 # p1 = x2 @ 124 # p2"
  shows "x1 = x2 \<and> p1 = p2"
proof -
  have "rev p1 @ 124 # rev x1 = rev p2 @ 124 # rev x2"
    using arg_cong [OF assms(3), of rev] by simp
  then show ?thesis using bar_split [of "rev p1" "rev p2" "rev x1" "rev x2"] assms(1,2) by simp
qed

lemma show_int_no_bar: "124 \<notin> set (show_int i)"
  using show_nat_not [of 124] by (simp add: show_int_def is_ascii_digit_def)

lemma show_int_inj: "show_int (sint (v :: i32)) = show_int (sint w) \<Longrightarrow> v = w"
proof -
  assume e: "show_int (sint v) = show_int (sint w)"
  have "is_i64 (sint u)" for u :: i32
    using sint_ge [of u] sint_lt [of u] by (simp add: is_i64_def)
  then have "sint v = sint w" using e by (metis option.inject parse_i64_show)
  then have "word_of_int (sint v) = (word_of_int (sint w) :: i32)" by simp
  then show "v = w" by simp
qed

section \<open>Termination\<close>

definition sleeps :: "status_env \<Rightarrow> bool" where
  "sleeps env \<longleftrightarrow> (\<forall>n. se_clock env n + from_millis 50 \<le> se_clock env (n + 1))"

lemma wait_returns:
  assumes "sleeps env"
  shows "deadline \<le> se_clock env n + from_millis (50 * fuel) \<Longrightarrow> wait_for_status_slot env (Suc fuel) deadline addr key n w \<noteq> None"
proof (induction fuel arbitrary: n w)
  case 0
  then show ?case by (simp add: from_millis_def)
next
  case (Suc fuel)
  have "deadline \<le> se_clock env (n + 1) + from_millis (50 * fuel)"
    using Suc.prems assms [unfolded sleeps_def, rule_format, of n] by (simp add: from_millis_def)
  then have IH: "wait_for_status_slot env (Suc fuel) deadline addr key (n + 1) w \<noteq> None" for w by (rule Suc.IH)
  obtain j c where g: "ping_get (se_clock env (n + 1)) key (sw_cache (se_others env (n + 1) w)) = (j, c)" by (metis prod.exhaust)
  obtain b r where t: "try_begin_status_dial addr MAX_CONCURRENT_STATUS_DIALS (sw_runtime (se_others env (n + 1) w)) = (b, r)"
    by (metis prod.exhaust)
  show ?case
    using g t IH [of "se_others env (n + 1) w\<lparr>sw_cache := c, sw_runtime := r\<rparr>"]
    by (subst wait_for_status_slot.simps) (auto simp: Let_def simp del: wait_for_status_slot.simps split: option.splits bool.splits)
qed

lemma saturated_returns:
  assumes "sleeps env"
  shows "saturated_attempt parse env route hs addr key n w \<noteq> None"
proof -
  have "wait_for_status_slot env SLOT_WAIT_PASSES (se_clock env n + STATUS_SLOT_WAIT) addr key n w \<noteq> None" for w
    using wait_returns [OF assms, of "se_clock env n + STATUS_SLOT_WAIT" n 60 addr key w]
    by (simp add: SLOT_WAIT_PASSES_def STATUS_SLOT_WAIT_def from_secs_def from_millis_def del: wait_for_status_slot.simps)
  moreover obtain j c where g: "ping_get (se_clock env n) (down_key addr) (sw_cache w) = (j, c)" by (metis prod.exhaust)
  ultimately obtain slot m w' where "wait_for_status_slot env SLOT_WAIT_PASSES (se_clock env n + STATUS_SLOT_WAIT) addr key n (w\<lparr>sw_cache := c\<rparr>) = Some (slot, m, w')"
    by (metis not_Some_eq prod_cases3)
  then show ?thesis using g
    by (cases slot) (auto simp: saturated_attempt_def dial_attempt_def split: prod.splits option.splits)
qed

lemma try_backend_returns:
  assumes "sleeps env"
  shows "try_backend parse env route hs addr n w \<noteq> None"
  using saturated_returns [OF assms]
  by (auto simp: try_backend_def dial_attempt_def Let_def split: prod.splits option.splits bool.splits)

lemma status_loop_returns: "sleeps env \<Longrightarrow> status_loop parse env route hs addrs n w \<noteq> None"
proof (induction addrs arbitrary: n w)
  case (Cons a addrs)
  then show ?case using try_backend_returns [OF Cons.prems, of parse route hs a n w]
    by (auto split: status_attempt.splits)
qed simp

lemma read_frame_prefix:
  assumes "bs_ok st" and "read_frame m st = (Inr f, st')"
  obtains len h where "read_var_int f = Inr (len, h)"
proof -
  have "n \<le> length b" if "decide_frame m b = Some (Inr (a, n))" for a b n
    using that by (auto simp: decide_frame_def split: sum.splits if_splits)
  then obtain b n where "decide_frame m b = Some (Inr (f, n))"
    using frame_loop.loop_conserves [OF assms(1), of m "Inr f" st'] assms(2) by (auto simp: sum.case)
  then obtain len h where "read_var_int b = Inr (len, h)" "f = take (h + unat len) b" "h + unat len \<le> length b"
    by (auto simp: decide_frame_def split: sum.splits if_splits)
  then have "read_var_int f = Inr (len, h)"
    using read_var_int_take [of f "drop (h + unat len) b" len h] by simp
  then show ?thesis by (rule that)
qed

section \<open>Dial slots\<close>

text \<open>Other connections keep the dial table well-formed and give back what they take while this one awaits.\<close>

definition quiet :: "status_env \<Rightarrow> bool" where
  "quiet env \<longleftrightarrow> (\<forall>n w. dials_ok (sw_runtime w) \<longrightarrow>
     dials_ok (sw_runtime (se_others env n w)) \<and> dials_of (sw_runtime (se_others env n w)) = dials_of (sw_runtime w))"

definition dials_with :: "(socket_addr \<Rightarrow> int) \<Rightarrow> status_world \<Rightarrow> bool" where
  "dials_with held w \<longleftrightarrow> dials_ok (sw_runtime w) \<and> (\<forall>a. dials_of (sw_runtime w) a = held a)"

lemma dials_with_cache [simp]: "dials_with held (w\<lparr>sw_cache := c\<rparr>) = dials_with held w"
  by (simp add: dials_with_def)

lemma dials_record_latency [simp]:
  "dials_of (record_latency now addr ms r) = dials_of r" "dials_ok (record_latency now addr ms r) = dials_ok r"
  by (simp_all add: record_latency_def dials_of_def dials_ok_def fun_eq_iff)

lemma quiet_with: "quiet env \<Longrightarrow> dials_with held w \<Longrightarrow> dials_with held (se_others env n w)"
  by (simp add: quiet_def dials_with_def)

lemma try_begin_with:
  assumes "dials_with held w" and "try_begin_status_dial addr mx (sw_runtime w) = (b, r)"
  shows "dials_with (if b then held(addr := held addr + 1) else held) (w\<lparr>sw_runtime := r\<rparr>)"
  using try_begin_status_dial_spec [OF _ assms(2)] assms(1) by (auto simp: dials_with_def)

lemma status_dial_with:
  assumes "quiet env" and "dials_with (held(addr := held addr + 1)) w" and "0 \<le> held addr"
    and "status_dial parse env route addr key n w = (res, n', w')"
  shows "dials_with held w'"
proof -
  let ?r = "sw_runtime (se_others env (n + 1) w)"
  have o: "dials_with (held(addr := held addr + 1)) (se_others env (n + 1) w)" using quiet_with assms(1,2) by blast
  then have "0 < dials_of ?r addr" using assms(3) by (simp add: dials_with_def)
  then have "dials_ok (end_status_dial addr ?r) \<and> (\<forall>a. dials_of (end_status_dial addr ?r) a = held a)"
    using end_status_dial_spec [of ?r addr] o by (auto simp: dials_with_def)
  then show ?thesis using assms(4) by (auto simp: status_dial_def Let_def dials_with_def split: option.splits)
qed

lemma wait_with:
  assumes "quiet env" and "dials_with held w" and "wait_for_status_slot env fuel deadline addr key n w = Some (slot, n', w')"
  shows "dials_with (if slot = Acquired then held(addr := held addr + 1) else held) w'"
  using assms(2,3)
proof (induction fuel arbitrary: n w)
  case (Suc fuel)
  let ?w = "se_others env (n + 1) w"
  obtain j c where g: "ping_get (se_clock env (n + 1)) key (sw_cache ?w) = (j, c)" by (metis prod.exhaust)
  obtain b r where t: "try_begin_status_dial addr MAX_CONCURRENT_STATUS_DIALS (sw_runtime ?w) = (b, r)" by (metis prod.exhaust)
  have o: "dials_with held ?w" using quiet_with assms(1) Suc.prems(1) by blast
  have "dials_with (if b then held(addr := held addr + 1) else held) ((?w\<lparr>sw_cache := c\<rparr>)\<lparr>sw_runtime := r\<rparr>)"
    by (rule try_begin_with) (use o t in simp_all)
  then have "dials_with (if b then held(addr := held addr + 1) else held) (?w\<lparr>sw_cache := c, sw_runtime := r\<rparr>)" by simp
  then show ?case
    using Suc.prems(2) g t o Suc.prems(1) Suc.IH [of "?w\<lparr>sw_cache := c, sw_runtime := r\<rparr>" "n + 1"]
    by (cases j; cases b; cases "se_clock env n < deadline") (auto simp: fun_upd_def)
qed simp

lemma dial_attempt_with:
  assumes "quiet env" and "dials_with (held(addr := held addr + 1)) w" and "0 \<le> held addr"
    and "dial_attempt parse env route addr key n w = Some (a, n', w')"
  shows "dials_with held w'"
  using assms(4) status_dial_with [OF assms(1-3), of parse route key n] by (auto simp: dial_attempt_def split: prod.splits option.splits)

lemma saturated_with:
  assumes "quiet env" and "dials_with held w" and "0 \<le> held addr"
    and "saturated_attempt parse env route hs addr key n w = Some (a, n', w')"
  shows "dials_with held w'"
proof -
  obtain j c where g: "ping_get (se_clock env n) (down_key addr) (sw_cache w) = (j, c)" by (metis prod.exhaust)
  show ?thesis
  proof (cases "case j of Some j \<Rightarrow> status_protocol parse j = Some (sint (hs_protocol_version hs)) | None \<Rightarrow> False")
    case True
    then show ?thesis using assms(2,4) g by (auto simp: saturated_attempt_def)
  next
    case False
    then obtain slot m w1 where w: "wait_for_status_slot env SLOT_WAIT_PASSES (se_clock env n + STATUS_SLOT_WAIT) addr key n (w\<lparr>sw_cache := c\<rparr>) = Some (slot, m, w1)"
      using assms(4) g by (auto simp: saturated_attempt_def split: option.splits)
    then have d: "dials_with (if slot = Acquired then held(addr := held addr + 1) else held) w1"
      using wait_with [OF assms(1) _ w] assms(2) by simp
    show ?thesis
    proof (cases slot)
      case Acquired
      then have "dial_attempt parse env route addr key m w1 = Some (a, n', w')" using assms(4) g False w by (simp add: saturated_attempt_def)
      then show ?thesis using dial_attempt_with [where held = held, OF assms(1) _ assms(3)] d Acquired by simp
    qed (use assms(4) g False w d in \<open>auto simp: saturated_attempt_def\<close>)
  qed
qed

lemma try_backend_with:
  assumes "quiet env" and "dials_with held w" and "0 \<le> held addr" and "try_backend parse env route hs addr n w = Some (a, n', w')"
  shows "dials_with held w'"
proof -
  define key where "key = status_cache_key (down_key addr) (hs_host hs) (hs_protocol_version hs)"
  obtain j c where g: "ping_get (se_clock env n) key (sw_cache w) = (j, c)" by (metis prod.exhaust)
  obtain d c' where k: "is_known_down (se_clock env n) (down_key addr) c = (d, c')" by (metis prod.exhaust)
  obtain b r where t: "try_begin_status_dial addr MAX_CONCURRENT_STATUS_DIALS (sw_runtime w) = (b, r)" by (metis prod.exhaust)
  have "dials_with (if b then held(addr := held addr + 1) else held) ((w\<lparr>sw_cache := c'\<rparr>)\<lparr>sw_runtime := r\<rparr>)"
    by (rule try_begin_with) (use assms(2) t in simp_all)
  then have s: "dials_with (if b then held(addr := held addr + 1) else held) (w\<lparr>sw_cache := c', sw_runtime := r\<rparr>)" by simp
  show ?thesis
    using assms(2,4) g k t s saturated_with [where held = held, OF assms(1) _ assms(3), of "w\<lparr>sw_cache := c', sw_runtime := r\<rparr>"]
      dial_attempt_with [where held = held, OF assms(1) _ assms(3), of "w\<lparr>sw_cache := c', sw_runtime := r\<rparr>"]
    by (cases j; cases d; cases b) (auto simp: try_backend_def Let_def key_def [symmetric])
qed

lemma status_loop_with:
  "quiet env \<Longrightarrow> dials_with held w \<Longrightarrow> (\<And>a. 0 \<le> held a) \<Longrightarrow> status_loop parse env route hs addrs n w = Some (res, n', w') \<Longrightarrow>
   dials_with held w'"
proof (induction addrs arbitrary: n w)
  case (Cons addr addrs)
  obtain a m w1 where t: "try_backend parse env route hs addr n w = Some (a, m, w1)"
    using Cons.prems(4) by (auto split: option.splits)
  have "dials_with held w1" using try_backend_with [OF Cons.prems(1,2,3) t] .
  then show ?case using Cons.IH Cons.prems t by (cases a) auto
qed simp

section \<open>Where answers come from\<close>

text \<open>\<open>P key j\<close> reads: some backend gave the answer \<open>j\<close> for the cache key.\<close>

definition cache_good :: "(str \<Rightarrow> str \<Rightarrow> bool) \<Rightarrow> status_world \<Rightarrow> bool" where
  "cache_good P w \<longleftrightarrow> hm_ok (pc_entries (sw_cache w)) \<and> (\<forall>k e. hm_get (pc_entries (sw_cache w)) k = Some e \<longrightarrow> P k (pe_json e))"

lemma cache_good_runtime [simp]: "cache_good P (w\<lparr>sw_runtime := r\<rparr>) = cache_good P w"
  by (simp add: cache_good_def)

lemma ping_get_good:
  assumes "cache_good P w" and "ping_get now key (sw_cache w) = (j, c)"
  shows "cache_good P (w\<lparr>sw_cache := c\<rparr>) \<and> (\<forall>x. j = Some x \<longrightarrow> P key x)"
  using assms by (auto simp: cache_good_def ping_get_def split: option.splits if_splits)

lemma known_down_good:
  "cache_good P w \<Longrightarrow> is_known_down now key (sw_cache w) = (b, c) \<Longrightarrow> cache_good P (w\<lparr>sw_cache := c\<rparr>)"
  by (auto simp: cache_good_def is_known_down_def split: option.splits if_splits)

lemma ping_put_good:
  assumes "cache_good P w" and "P key j"
  shows "cache_good P (w\<lparr>sw_cache := ping_put now key j ttl (sw_cache w)\<rparr>)"
proof -
  let ?m = "hm_insert key \<lparr>pe_json = j, pe_expires_at = now + from_millis (nat ttl)\<rparr> (pc_entries (sw_cache w))"
  have m: "hm_ok ?m" "hm_get ?m k = Some e \<Longrightarrow> P k (pe_json e)" for k e
    using assms by (auto simp: cache_good_def split: if_splits)
  then show ?thesis
    using assms(1) evict_overflow_spec [OF m(1)] by (auto simp: cache_good_def ping_put_def Let_def)
qed

lemma mark_down_good: "cache_good P w \<Longrightarrow> cache_good P (w\<lparr>sw_cache := mark_down now key (sw_cache w)\<rparr>)"
  by (simp add: cache_good_def mark_down_def)

text \<open>The assumptions on a run: the others keep the cache good and what a dial brings is good.\<close>

definition answers_good :: "(str \<Rightarrow> json option) \<Rightarrow> status_env \<Rightarrow> handshake \<Rightarrow> (str \<Rightarrow> str \<Rightarrow> bool) \<Rightarrow> bool" where
  "answers_good parse env hs P \<longleftrightarrow>
     (\<forall>n w. cache_good P w \<longrightarrow> cache_good P (se_others env n w))
     \<and> (\<forall>n addr j. fetch_backend_status parse (se_dial env n addr) = Some j \<longrightarrow>
          P (down_key addr) j \<and> P (status_cache_key (down_key addr) (hs_host hs) (hs_protocol_version hs)) j)"

abbreviation own_key :: "handshake \<Rightarrow> socket_addr \<Rightarrow> str" where
  "own_key hs addr \<equiv> status_cache_key (down_key addr) (hs_host hs) (hs_protocol_version hs)"

definition answer_right :: "(str \<Rightarrow> json option) \<Rightarrow> handshake \<Rightarrow> (str \<Rightarrow> str \<Rightarrow> bool) \<Rightarrow> socket_addr \<Rightarrow> str \<Rightarrow> bool" where
  "answer_right parse hs P addr j \<longleftrightarrow>
     P (own_key hs addr) j \<or> P (down_key addr) j \<and> status_protocol parse j = Some (sint (hs_protocol_version hs))"

lemma status_dial_good:
  assumes "answers_good parse env hs P" and "cache_good P w" and "status_dial parse env route addr (own_key hs addr) n w = (res, n', w')"
  shows "cache_good P w' \<and> (\<forall>j. res = Some j \<longrightarrow> answer_right parse hs P addr j)"
proof -
  let ?now = "se_clock env (n + 1)" and ?ttl = "rt_cache_ping_ttl_millis route"
  define w1 where "w1 = se_others env (n + 1) w"
  have o: "cache_good P w1" using assms(1,2) by (simp add: answers_good_def w1_def)
  show ?thesis
  proof (cases "fetch_backend_status parse (se_dial env (n + 1) addr)")
    case None
    then show ?thesis
      using assms(3) mark_down_good [OF o, of ?now "down_key addr"] by (auto simp: status_dial_def Let_def w1_def cache_good_def)
  next
    case (Some j)
    have p: "P (down_key addr) j" "P (own_key hs addr) j" using assms(1) Some by (auto simp: answers_good_def)
    define w2 where "w2 = w1\<lparr>sw_cache := ping_put ?now (own_key hs addr) j ?ttl (sw_cache w1)\<rparr>"
    have "cache_good P (w2\<lparr>sw_cache := ping_put ?now (down_key addr) j ?ttl (sw_cache w2)\<rparr>)"
      unfolding w2_def by (intro ping_put_good o p)
    then show ?thesis
      using assms(3) Some p by (auto simp: status_dial_def Let_def w1_def w2_def cache_good_def answer_right_def)
  qed
qed

lemma dial_attempt_good:
  assumes "answers_good parse env hs P" and "cache_good P w" and "dial_attempt parse env route addr (own_key hs addr) n w = Some (a, n', w')"
  shows "cache_good P w' \<and> (\<forall>j. a = Answer j \<longrightarrow> answer_right parse hs P addr j)"
proof -
  obtain res m w1 where d: "status_dial parse env route addr (own_key hs addr) n w = (res, m, w1)" by (metis prod_cases3)
  then show ?thesis using assms(3) status_dial_good [OF assms(1,2) d] by (cases res) (auto simp: dial_attempt_def)
qed

lemma wait_good:
  assumes "answers_good parse env hs P" and "cache_good P w" and "wait_for_status_slot env fuel deadline addr key n w = Some (slot, n', w')"
  shows "cache_good P w' \<and> (\<forall>j. slot = Cached j \<longrightarrow> P key j)"
  using assms(2,3)
proof (induction fuel arbitrary: n w)
  case (Suc fuel)
  let ?w = "se_others env (n + 1) w"
  obtain j c where g: "ping_get (se_clock env (n + 1)) key (sw_cache ?w) = (j, c)" by (metis prod.exhaust)
  obtain b r where t: "try_begin_status_dial addr MAX_CONCURRENT_STATUS_DIALS (sw_runtime ?w) = (b, r)" by (metis prod.exhaust)
  have "cache_good P ?w" using assms(1) Suc.prems(1) by (simp add: answers_good_def)
  then have o: "cache_good P (?w\<lparr>sw_cache := c\<rparr>) \<and> (\<forall>x. j = Some x \<longrightarrow> P key x)" using g by (rule ping_get_good)
  then have "cache_good P (?w\<lparr>sw_cache := c, sw_runtime := r\<rparr>)" by (simp add: cache_good_def)
  then show ?case
    using Suc.prems g t o Suc.IH [of "?w\<lparr>sw_cache := c, sw_runtime := r\<rparr>" "n + 1"]
    by (cases j; cases b; cases "se_clock env n < deadline") auto
qed simp

lemma saturated_good:
  assumes "answers_good parse env hs P" and "cache_good P w"
    and "saturated_attempt parse env route hs addr (own_key hs addr) n w = Some (a, n', w')"
  shows "cache_good P w' \<and> (\<forall>j. a = Answer j \<longrightarrow> answer_right parse hs P addr j)"
proof -
  obtain j c where g: "ping_get (se_clock env n) (down_key addr) (sw_cache w) = (j, c)" by (metis prod.exhaust)
  have o: "cache_good P (w\<lparr>sw_cache := c\<rparr>)" "j = Some x \<Longrightarrow> P (down_key addr) x" for x
    using ping_get_good [OF assms(2) g] by auto
  show ?thesis
  proof (cases "case j of Some j \<Rightarrow> status_protocol parse j = Some (sint (hs_protocol_version hs)) | None \<Rightarrow> False")
    case True
    then show ?thesis using assms(3) g o by (auto simp: saturated_attempt_def answer_right_def split: option.splits)
  next
    case False
    then obtain slot m w1 where w: "wait_for_status_slot env SLOT_WAIT_PASSES (se_clock env n + STATUS_SLOT_WAIT) addr (own_key hs addr) n (w\<lparr>sw_cache := c\<rparr>) = Some (slot, m, w1)"
      using assms(3) g by (auto simp: saturated_attempt_def split: option.splits)
    note d = wait_good [OF assms(1) o(1) w]
    show ?thesis
    proof (cases slot)
      case Acquired
      then have "dial_attempt parse env route addr (own_key hs addr) m w1 = Some (a, n', w')" using assms(3) g False w by (simp add: saturated_attempt_def)
      then show ?thesis using dial_attempt_good [OF assms(1)] d by blast
    qed (use assms(3) g False w d in \<open>auto simp: saturated_attempt_def answer_right_def\<close>)
  qed
qed

lemma try_backend_good:
  assumes "answers_good parse env hs P" and "cache_good P w" and "try_backend parse env route hs addr n w = Some (a, n', w')"
  shows "cache_good P w' \<and> (\<forall>j. a = Answer j \<longrightarrow> answer_right parse hs P addr j)"
proof -
  obtain j c where g: "ping_get (se_clock env n) (own_key hs addr) (sw_cache w) = (j, c)" by (metis prod.exhaust)
  obtain d c' where k: "is_known_down (se_clock env n) (down_key addr) c = (d, c')" by (metis prod.exhaust)
  obtain b r where t: "try_begin_status_dial addr MAX_CONCURRENT_STATUS_DIALS (sw_runtime w) = (b, r)" by (metis prod.exhaust)
  have o: "cache_good P (w\<lparr>sw_cache := c\<rparr>)" "j = Some x \<Longrightarrow> P (own_key hs addr) x" for x
    using ping_get_good [OF assms(2) g] by auto
  have o': "cache_good P (w\<lparr>sw_cache := c'\<rparr>)" "cache_good P (w\<lparr>sw_cache := c', sw_runtime := r\<rparr>)"
    using known_down_good [OF o(1), of "se_clock env n" "down_key addr" d c'] k by (simp_all add: cache_good_def)
  show ?thesis
    using assms(3) g k t o o'(1) saturated_good [OF assms(1) o'(2)] dial_attempt_good [OF assms(1) o'(2)]
    by (cases j; cases d; cases b) (auto simp: try_backend_def Let_def answer_right_def)
qed

lemma status_loop_good:
  "answers_good parse env hs P \<Longrightarrow> cache_good P w \<Longrightarrow> status_loop parse env route hs addrs n w = Some (res, n', w') \<Longrightarrow>
   cache_good P w' \<and> (\<forall>j. res = Some j \<longrightarrow> (\<exists>addr \<in> set addrs. answer_right parse hs P addr j))"
proof (induction addrs arbitrary: n w)
  case (Cons addr addrs)
  obtain a m w1 where t: "try_backend parse env route hs addr n w = Some (a, m, w1)"
    using Cons.prems(3) by (auto split: option.splits)
  note d = try_backend_good [OF Cons.prems(1,2) t]
  show ?case
  proof (cases a)
    case (Answer j)
    then show ?thesis using Cons.prems(3) t d by auto
  next
    case Next_Backend
    then show ?thesis using Cons.IH [OF Cons.prems(1), of w1 m] Cons.prems(3) t d by auto
  qed
qed simp

lemma show_hex_no_bar: "124 \<notin> set (show_hex n)"
proof (induction n rule: show_hex.induct)
  case (1 n)
  have "hex_digit m \<noteq> 124" if "m < 16" for m using that by (auto simp: hex_digit_def)
  then show ?case using 1 by (subst show_hex.simps) auto
qed

lemma join_hex_no_bar: "124 \<notin> set (join_hex ss)"
  by (induction ss rule: join_hex.induct) (auto simp: show_hex_no_bar lit_def simp del: show_hex.simps)

lemma show_ipv4_no_bar: "124 \<notin> set (show_ipv4 a b c d)"
  using show_nat_not [of 124] by (auto simp: show_ipv4_def show_octet_def lit_def is_ascii_digit_def)

lemma down_key_no_bar: "124 \<notin> set (down_key addr)"
proof -
  have "124 \<notin> set (show_ip ip)" for ip
    by (cases ip) (auto simp: show_ipv4_no_bar show_ipv6_def Let_def join_hex_no_bar lit_def split: prod.splits)
  then show ?thesis using show_nat_not [of 124] by (auto simp: down_key_def lit_def is_ascii_digit_def simp del: show_ip.simps)
qed

lemma handle_ping_echoes:
  assumes "bs_ok stream" and "contents stream = length_prefix (write_var_int 1 @ to_be_bytes (payload :: i64)) @ rest"
  shows "handle_ping False stream = encode_pong payload"
proof -
  let ?p = "write_var_int 1 @ to_be_bytes payload"
  have "length (write_var_int 1) \<le> 5" using length_write_var_int by blast
  then have l: "int (length ?p) \<le> sint (64 :: i32)" by simp
  obtain st' where r: "read_frame 64 stream = (Inr (length_prefix ?p), st')"
    using read_frame_delivers [OF assms l] by blast
  define f h c where "f = length_prefix ?p" and "h = length (write_var_int (of_nat (length ?p)))" and "c = length (write_var_int 1)"
  have "read_var_int f = Inr (of_nat (length ?p), h)" unfolding f_def h_def length_prefix_def by (rule read_write_var_int)
  moreover have "read_var_int (drop h f) = Inr (1, c)"
    using read_write_var_int [of 1 "to_be_bytes payload"] by (simp add: f_def h_def c_def length_prefix_def)
  moreover have "length f - (h + c) = 8" "slice (h + c) (h + c + 8) f = to_be_bytes payload"
    by (simp_all add: f_def h_def c_def slice_def length_prefix_def)
  ultimately show ?thesis using r by (simp add: handle_ping_def f_def [symmetric] Let_def)
qed

lemma status_handler_returns:
  assumes "sleeps env" and "bs_ok stream" and "resolve_backends resolve (rt_backend_templates route) captures \<noteq> Panicked"
    and "\<And>f. rt_fallback route = Some f \<Longrightarrow> build_fallback_json interp lc f \<noteq> Panicked"
  shows "\<exists>out w'. handle_status interp lc parse shuffle resolve env request_late ping_late stream route captures hs w = Some (Returned out, w')"
proof -
  obtain req st where rq: "(if request_late then (Inl [], stream) else read_frame MAX_PACKET_BYTES stream) = (req, st)" by (metis prod.exhaust)
  show ?thesis
  proof (cases req)
    case (Inl e)
    then show ?thesis using rq by (auto simp: handle_status_def)
  next
    case (Inr f)
    obtain len h where h: "read_var_int f = Inr (len, h)"
      using rq Inr read_frame_prefix [OF assms(2), of MAX_PACKET_BYTES f st] by (auto split: if_splits)
    show ?thesis
    proof (cases "\<exists>c. read_var_int (drop h f) = Inr (0, c)")
      case False
      then show ?thesis using rq Inr h by (auto simp: handle_status_def split: sum.splits)
    next
      case True
      then obtain c where c: "read_var_int (drop h f) = Inr (0, c)" by blast
      obtain res where res: "resolve_backends resolve (rt_backend_templates route) captures = Returned res"
        using assms(3) by (cases "resolve_backends resolve (rt_backend_templates route) captures") auto
      show ?thesis
      proof (cases res)
        case (Inl e)
        then show ?thesis using rq Inr h c res by (auto simp: handle_status_def resolve_ordered_backends_def)
      next
        case Addrs: (Inr addrs)
        obtain bs r where b: "order_backends shuffle (se_clock env 0) (rt_strategy route) (sw_runtime w) addrs = (bs, r)" by (metis prod.exhaust)
        obtain ans n w' where l: "status_loop parse env route hs bs 0 (w\<lparr>sw_runtime := r\<rparr>) = Some (ans, n, w')"
          using status_loop_returns [OF assms(1), of parse route hs bs 0 "w\<lparr>sw_runtime := r\<rparr>"] by (metis not_None_eq prod_cases3)
        have fb: "\<exists>j. build_fallback_json interp lc f = Returned j" if "rt_fallback route = Some f" for f
          using assms(4) [OF that] by (cases "build_fallback_json interp lc f") auto
        show ?thesis
          using rq Inr h c res Addrs b l fb
          by (cases ans; cases "rt_fallback route") (fastforce simp: handle_status_def resolve_ordered_backends_def)+
      qed
    qed
  qed
qed

section \<open>Properties\<close>


definition demo_route :: route where
  "demo_route = \<lparr>rt_host_patterns = [], rt_backend_templates = [], rt_strategy = Sequential, rt_cache_ping_ttl_millis = 1000,
     rt_fallback = None, rt_modify_virtual_host = False, rt_proxy_protocol = False, rt_priority = 0, rt_reconnect = reconnect_default,
     rt_kick_message = lit ''down'', rt_voicechat_templates = [], rt_metrics = None\<rparr>"

definition demo_env :: status_env where
  "demo_env = \<lparr>se_clock = (\<lambda>n. from_millis (50 * n)), se_others = (\<lambda>_ w. w), se_dial = (\<lambda>_ _. None)\<rparr>"

definition demo_hs :: handshake where
  "demo_hs = \<lparr>hs_protocol_version = 767, hs_host = lit ''play'', hs_port = 25565, hs_next_state = 1, hs_raw_frame = []\<rparr>"

definition demo_backend :: socket_addr where
  "demo_backend = SocketAddr (V4 10 0 0 9) 25565"

definition demo_world :: status_world where
  "demo_world = \<lparr>sw_cache = \<lparr>pc_entries = [(own_key demo_hs demo_backend, \<lparr>pe_json = lit ''ok'', pe_expires_at = 100\<rparr>)], pc_down_until = []\<rparr>,
     sw_runtime = runtime_default\<rparr>"

lemma demo_status_hit:
  "\<exists>n' w'. status_loop (\<lambda>_. None) demo_env demo_route demo_hs [demo_backend] 0 demo_world = Some (Some (lit ''ok''), n', w')"
  by (simp add: try_backend_def demo_world_def demo_env_def ping_get_def hm_get_def Let_def from_millis_def)


text \<open>C28: a client is only shown answers for its own protocol and host. If every cached answer was given for its
  key and every dial brings an answer for this client's keys, then the answer the loop returns, under
  any interference, was given for this client's host and protocol, or is a backend's last-known answer
  that reports exactly this client's protocol; and the cache stays correct.\<close>

theorem status_answers_own_version:
  assumes "answers_good parse env hs P" and "cache_good P w"
    and "status_loop parse env route hs addrs n w = Some (res, n', w')"
  shows "cache_good P w' \<and> (\<forall>j. res = Some j \<longrightarrow> (\<exists>addr \<in> set addrs.
    P (status_cache_key (down_key addr) (hs_host hs) (hs_protocol_version hs)) j
    \<or> P (down_key addr) j \<and> status_protocol parse j = Some (sint (hs_protocol_version hs))))"
  using status_loop_good [OF assms] by (simp add: answer_right_def)

theorem status_answers_own_version_witness:
  "\<exists>n' w'. status_loop (\<lambda>_. None) demo_env demo_route demo_hs [demo_backend] 0 demo_world = Some (Some (lit ''ok''), n', w')
     \<and> cache_good (\<lambda>k j. j = lit ''ok'') w'"
proof -
  have "answers_good (\<lambda>_. None) demo_env demo_hs (\<lambda>k j. j = lit ''ok'')"
    by (simp add: answers_good_def demo_env_def fetch_backend_status_def)
  moreover have "cache_good (\<lambda>k j. j = lit ''ok'') demo_world"
    by (auto simp: cache_good_def demo_world_def hm_ok_def hm_get_def split: if_splits)
  ultimately show ?thesis using status_answers_own_version [of "\<lambda>_. None" demo_env demo_hs "\<lambda>k j. j = lit ''ok''" demo_world] demo_status_hit by metis
qed

text \<open>A status ping gives its dial slots back. Whichever way each backend of the loop ends, cached, known
  down, answered, failed, or waited for, no dial is left counted against a backend, as long as the
  other connections keep their own balance meanwhile.\<close>

theorem status_slots_returned:
  assumes "quiet env" and "dials_ok (sw_runtime w)" and "status_loop parse env route hs addrs n w = Some (res, n', w')"
  shows "dials_ok (sw_runtime w') \<and> dials_of (sw_runtime w') addr = dials_of (sw_runtime w) addr"
  using status_loop_with [of env "dials_of (sw_runtime w)" w parse route hs addrs n res n' w'] dials_nonneg assms
  by (simp add: dials_with_def)

theorem status_slots_returned_witness:
  "\<exists>n' w'. status_loop (\<lambda>_. None) demo_env demo_route demo_hs [demo_backend] 0 demo_world = Some (Some (lit ''ok''), n', w')
     \<and> dials_of (sw_runtime w') demo_backend = 0"
proof -
  have "quiet demo_env" "dials_ok (sw_runtime demo_world)" "dials_of (sw_runtime demo_world) demo_backend = 0"
    by (simp_all add: quiet_def demo_env_def demo_world_def dials_ok_def dials_of_def runtime_default_def)
  then show ?thesis using status_slots_returned [of demo_env demo_world] demo_status_hit by metis
qed

text \<open>Cache keys never collide. Two clients share a cached answer exactly when they ask the same backend key
  for the same host, up to ASCII case, with the same protocol, even if a host contains the separator;
  and no answer key is the plain key of a backend.\<close>

theorem status_keys_unambiguous:
  "(status_cache_key (down_key a1) h1 v1 = status_cache_key (down_key a2) h2 v2 \<longleftrightarrow>
     down_key a1 = down_key a2 \<and> map to_ascii_lowercase h1 = map to_ascii_lowercase h2 \<and> v1 = v2)
   \<and> status_cache_key (down_key a1) h1 v1 \<noteq> down_key a2"
proof -
  have bar: "lit ''|'' = [124]" by (simp add: lit_def)
  have "down_key a1 = down_key a2 \<and> map to_ascii_lowercase h1 = map to_ascii_lowercase h2 \<and> v1 = v2"
    if e: "status_cache_key (down_key a1) h1 v1 = status_cache_key (down_key a2) h2 v2"
  proof -
    have "down_key a1 = down_key a2"
      and x: "map to_ascii_lowercase h1 @ 124 # show_int (sint v1) = map to_ascii_lowercase h2 @ 124 # show_int (sint v2)"
      using bar_split [OF down_key_no_bar down_key_no_bar, of a1 _ a2] e by (auto simp: status_cache_key_def bar)
    then show ?thesis using bar_rsplit [OF show_int_no_bar show_int_no_bar x] show_int_inj by blast
  qed
  moreover have "status_cache_key (down_key a1) h1 v1 = status_cache_key (down_key a2) h2 v2"
    if "down_key a1 = down_key a2 \<and> map to_ascii_lowercase h1 = map to_ascii_lowercase h2 \<and> v1 = v2"
    using that by (simp add: status_cache_key_def)
  moreover have "124 \<in> set (status_cache_key (down_key a1) h1 v1)" by (simp add: status_cache_key_def bar)
  ultimately show ?thesis using down_key_no_bar [of a2] by metis
qed

text \<open>A ping is answered with its own payload, whatever else is buffered behind it.\<close>

theorem ping_echoed:
  assumes "bs_ok stream" and "contents stream = length_prefix (write_var_int 1 @ to_be_bytes (payload :: i64)) @ rest"
  shows "handle_ping False stream = encode_pong payload"
  by (rule handle_ping_echoes [OF assms])

theorem ping_echoed_witness:
  "handle_ping False (bs_new [Data (length_prefix (write_var_int 1 @ to_be_bytes (5 :: i64)) @ [9])]) = encode_pong 5"
  by (rule ping_echoed [where rest = "[9]"]) simp_all

end
