(* ===== verification/Udp_Relay.thy ===== *)
theory Udp_Relay
  imports Gate_Config
begin

text \<open>
  The limits shared by the UDP relays, \<open>src/udp/throttle.rs\<close>, and the static UDP forwarder,
  \<open>src/udp/proxy.rs\<close>.

  The receive loop awaits each handler, so at most one session is being opened at a time; the
  handler is split where it awaits the sockets. Whether a backend socket can be opened is an input.
  Sending is the datagram list an operation returns.
\<close>

section \<open>Limits\<close>

text \<open>\<open>udp_throttle()\<close>: the limits before a configuration is applied.\<close>

definition udp_throttle_new :: udp_throttle_config where
  "udp_throttle_new = udp_throttle_default"

definition udp_throttle_apply :: "udp_throttle_config \<Rightarrow> udp_throttle_config" where
  "udp_throttle_apply c = c\<lparr>ut_pending_packets_per_session := max (ut_pending_packets_per_session c) 1\<rparr>"

text \<open>The per-IP slot counters of both relays.\<close>

type_synonym ip_slots = "(str, int) hmap"

definition take_ip_slot :: "int \<Rightarrow> str \<Rightarrow> ip_slots \<Rightarrow> bool \<times> ip_slots" where
  "take_ip_slot mx ip counts =
     (let n = unwrap_or (hm_get counts ip) 0 + 1 in
      if n > mx then
        let n = n - 1 in (False, if n \<le> 0 then hm_remove ip counts else hm_insert ip n counts)
      else (True, hm_insert ip n counts))"

definition acquire_ip_slot :: "int \<Rightarrow> str \<Rightarrow> ip_slots \<Rightarrow> bool \<times> ip_slots" where
  "acquire_ip_slot mx ip counts = (if mx \<le> 0 then (True, counts) else take_ip_slot mx ip counts)"

definition release_ip_slot :: "str \<Rightarrow> ip_slots \<Rightarrow> ip_slots" where
  "release_ip_slot ip counts =
     (case hm_get counts ip of
        None \<Rightarrow> counts
      | Some n \<Rightarrow> if n - 1 \<le> 0 then hm_remove ip counts else hm_insert ip (n - 1) counts)"

section \<open>The forwarder\<close>

record udp_session =
  us_client_ip :: str
  us_created_at :: instant
  us_last_active :: instant
  us_backend_replied :: bool

record udp_proxy =
  upx_sessions :: "(socket_addr, udp_session) hmap"
  upx_sessions_per_ip :: ip_slots
  upx_opening :: "(socket_addr \<times> str) option"

definition udp_proxy_new :: udp_proxy where
  "udp_proxy_new = \<lparr>upx_sessions = [], upx_sessions_per_ip = [], upx_opening = None\<rparr>"

datatype packet_outcome = Forwarded bytes | Dropped | Opening

text \<open>A datagram of a client: forwarded on its session, refused by a cap, or the start of a new session.\<close>

definition udp_client_packet ::
  "udp_throttle_config \<Rightarrow> instant \<Rightarrow> socket_addr \<Rightarrow> bytes \<Rightarrow> udp_proxy \<Rightarrow> packet_outcome \<times> udp_proxy" where
  "udp_client_packet throttle now sender content p =
     (case hm_get (upx_sessions p) sender of
        Some session \<Rightarrow>
          (Forwarded content, p\<lparr>upx_sessions := hm_insert sender (session\<lparr>us_last_active := now\<rparr>) (upx_sessions p)\<rparr>)
      | None \<Rightarrow>
          let global_cap = ut_max_sessions throttle in
          if global_cap > 0 \<and> int (length (upx_sessions p)) \<ge> global_cap then (Dropped, p)
          else
            let ip = show_ip (addr_ip sender) in
            (case acquire_ip_slot (ut_max_sessions_per_ip throttle) ip (upx_sessions_per_ip p) of
               (False, counts) \<Rightarrow> (Dropped, p\<lparr>upx_sessions_per_ip := counts\<rparr>)
             | (True, counts) \<Rightarrow> (Opening, p\<lparr>upx_sessions_per_ip := counts, upx_opening := Some (sender, ip)\<rparr>)))"

text \<open>The sockets were opened, or not.\<close>

definition udp_open_finish :: "bool \<Rightarrow> instant \<Rightarrow> bytes \<Rightarrow> udp_proxy \<Rightarrow> packet_outcome \<times> udp_proxy" where
  "udp_open_finish ok now content p =
     (case upx_opening p of
        None \<Rightarrow> (Dropped, p)
      | Some (sender, ip) \<Rightarrow>
          if ok then
            (Forwarded content, p\<lparr>upx_sessions := hm_insert sender
                 \<lparr>us_client_ip = ip, us_created_at = now, us_last_active = now, us_backend_replied = False\<rparr> (upx_sessions p),
               upx_opening := None\<rparr>)
          else (Dropped, p\<lparr>upx_sessions_per_ip := release_ip_slot ip (upx_sessions_per_ip p), upx_opening := None\<rparr>))"

definition udp_backend_reply :: "instant \<Rightarrow> socket_addr \<Rightarrow> udp_proxy \<Rightarrow> udp_proxy" where
  "udp_backend_reply now client p =
     (case hm_get (upx_sessions p) client of
        None \<Rightarrow> p
      | Some s \<Rightarrow> p\<lparr>upx_sessions := hm_insert client (s\<lparr>us_last_active := now, us_backend_replied := True\<rparr>) (upx_sessions p)\<rparr>)"

definition udp_stale :: "udp_throttle_config \<Rightarrow> instant \<Rightarrow> udp_session \<Rightarrow> bool" where
  "udp_stale throttle now s \<longleftrightarrow>
     now - us_last_active s > from_millis (nat (ut_idle_timeout_millis throttle))
     \<or> \<not> us_backend_replied s \<and> ut_no_reply_teardown_millis throttle > 0
        \<and> int (as_millis (now - us_created_at s)) > ut_no_reply_teardown_millis throttle"

definition udp_close_session :: "socket_addr \<Rightarrow> udp_proxy \<Rightarrow> udp_proxy" where
  "udp_close_session addr p =
     (case hm_get (upx_sessions p) addr of
        None \<Rightarrow> p
      | Some s \<Rightarrow> p\<lparr>upx_sessions := hm_remove addr (upx_sessions p),
                    upx_sessions_per_ip := release_ip_slot (us_client_ip s) (upx_sessions_per_ip p)\<rparr>)"

definition udp_evict_stale :: "udp_throttle_config \<Rightarrow> instant \<Rightarrow> udp_proxy \<Rightarrow> udp_proxy" where
  "udp_evict_stale throttle now p =
     fold udp_close_session (map fst (filter (\<lambda>(_, s). udp_stale throttle now s) (upx_sessions p))) p"

section \<open>Slots\<close>

definition slots_of :: "ip_slots \<Rightarrow> str \<Rightarrow> int" where
  "slots_of counts ip = unwrap_or (hm_get counts ip) 0"

definition slots_ok :: "ip_slots \<Rightarrow> bool" where
  "slots_ok counts \<longleftrightarrow> (\<forall>ip n. hm_get counts ip = Some n \<longrightarrow> 0 < n)"

lemma slots_nonneg: "slots_ok c \<Longrightarrow> 0 \<le> slots_of c ip"
  by (cases "hm_get c ip") (fastforce simp: slots_ok_def slots_of_def)+

lemma take_ip_slot_spec:
  assumes "slots_ok c" and "take_ip_slot mx ip c = (b, c')"
  shows "slots_ok c' \<and> b = (slots_of c ip < mx) \<and> slots_of c' j = slots_of c j + (if b \<and> j = ip then 1 else 0)"
proof (cases "hm_get c ip")
  case None
  then show ?thesis using assms by (auto simp: take_ip_slot_def slots_of_def slots_ok_def Let_def split: if_splits)
next
  case (Some n)
  then have "1 \<le> n" using assms(1) by (fastforce simp: slots_ok_def)
  with Some show ?thesis
    using assms by (auto simp: take_ip_slot_def slots_of_def slots_ok_def Let_def split: if_splits)
qed

lemma release_ip_slot_spec:
  assumes "slots_ok c" and "0 < slots_of c ip"
  shows "slots_ok (release_ip_slot ip c) \<and> slots_of (release_ip_slot ip c) j = slots_of c j - (if j = ip then 1 else 0)"
proof (cases "hm_get c ip")
  case (Some n)
  then have "1 \<le> n" using assms(1) by (fastforce simp: slots_ok_def)
  with Some show ?thesis using assms by (auto simp: release_ip_slot_def slots_of_def slots_ok_def)
qed (use assms(2) in \<open>simp add: slots_of_def\<close>)

interpretation udp_slots: slot_table slots_of "\<lambda>c ip mx. take_ip_slot mx ip c" "\<lambda>c ip. release_ip_slot ip c" slots_ok
proof
  fix c :: ip_slots and k mx c' j
  assume ok: "slots_ok c"
  show "0 \<le> slots_of c k" using ok by (rule slots_nonneg)
  show "slots_of c k < mx \<and> slots_ok c' \<and> slots_of c' j = slots_of c j + (if j = k then 1 else 0)"
    if "take_ip_slot mx k c = (True, c')"
    using take_ip_slot_spec [OF ok that, of j] by simp
  show "mx \<le> slots_of c k \<and> slots_ok c' \<and> slots_of c' j = slots_of c j"
    if "take_ip_slot mx k c = (False, c')"
    using take_ip_slot_spec [OF ok that, of j] by (simp add: not_less)
  show "slots_ok (release_ip_slot k c) \<and> slots_of (release_ip_slot k c) j = slots_of c j - (if j = k then 1 else 0)"
    if "0 < slots_of c k"
    by (rule release_ip_slot_spec [OF ok that])
qed

section \<open>Concurrent execution\<close>

text \<open>The steps of one forwarder under a fixed configuration: the receive loop, which opens one session
  at a time, the readers of the backends, and the reaper.\<close>

inductive udp_step :: "udp_throttle_config \<Rightarrow> udp_proxy \<Rightarrow> udp_proxy \<Rightarrow> bool" for throttle where
  packet: "upx_opening p = None \<Longrightarrow> udp_client_packet throttle now sender content p = (out, p') \<Longrightarrow> udp_step throttle p p'"
| opened: "udp_open_finish ok now content p = (out, p') \<Longrightarrow> udp_step throttle p p'"
| reply: "udp_step throttle p (udp_backend_reply now client p)"
| reap: "udp_step throttle p (udp_evict_stale throttle now p)"

definition sessions_from :: "udp_proxy \<Rightarrow> str \<Rightarrow> nat" where
  "sessions_from p ip = length (filter (\<lambda>(_, s). us_client_ip s = ip) (upx_sessions p))"

definition opening_from :: "udp_proxy \<Rightarrow> str \<Rightarrow> nat" where
  "opening_from p ip = (case upx_opening p of Some (_, i) \<Rightarrow> if i = ip then 1 else 0 | None \<Rightarrow> 0)"

definition udp_inv :: "udp_throttle_config \<Rightarrow> udp_proxy \<Rightarrow> bool" where
  "udp_inv throttle p \<longleftrightarrow> hm_ok (upx_sessions p) \<and> slots_ok (upx_sessions_per_ip p)
     \<and> (\<forall>ip. slots_of (upx_sessions_per_ip p) ip = int (sessions_from p ip + opening_from p ip))
     \<and> (\<forall>sender ip. upx_opening p = Some (sender, ip) \<longrightarrow> hm_get (upx_sessions p) sender = None)
     \<and> (\<forall>ip. int (sessions_from p ip + opening_from p ip) \<le> ut_max_sessions_per_ip throttle)
     \<and> (0 < ut_max_sessions throttle \<longrightarrow>
          int (length (upx_sessions p)) + (if upx_opening p = None then 0 else 1) \<le> ut_max_sessions throttle)"

lemma sessions_from_mset: "sessions_from p ip = size (filter_mset (\<lambda>(_, s). us_client_ip s = ip) (mset (upx_sessions p)))"
  by (metis sessions_from_def mset_filter size_mset)

lemma frame_simps [simp]:
  "sessions_from (p\<lparr>upx_sessions_per_ip := c\<rparr>) ip = sessions_from p ip"
  "sessions_from (p\<lparr>upx_opening := i\<rparr>) ip = sessions_from p ip"
  "opening_from (p\<lparr>upx_sessions_per_ip := c\<rparr>) ip = opening_from p ip"
  by (simp_all add: sessions_from_def opening_from_def)

lemma hm_update_sessions:
  assumes "hm_ok (upx_sessions p)" and "hm_get (upx_sessions p) k = Some s" and "us_client_ip s' = us_client_ip s"
  shows "sessions_from (p\<lparr>upx_sessions := hm_insert k s' (upx_sessions p)\<rparr>) ip = sessions_from p ip"
proof -
  let ?P = "\<lambda>(_ :: socket_addr, s). us_client_ip s = ip"
  have "filter_mset ?P (add_mset (k, s) (mset (hm_insert k s' (upx_sessions p)))) = filter_mset ?P (add_mset (k, s') (mset (upx_sessions p)))"
    using mset_hm_update [OF assms(1,2), of s'] by simp
  then have "size (filter_mset ?P (mset (hm_insert k s' (upx_sessions p)))) = size (filter_mset ?P (mset (upx_sessions p)))"
    using assms(3) by (auto split: if_splits dest: arg_cong [of _ _ size])
  then show ?thesis by (simp add: sessions_from_mset)
qed

lemma touch_inv:
  assumes "udp_inv throttle p" and s: "hm_get (upx_sessions p) k = Some s" and "us_client_ip s' = us_client_ip s"
  shows "udp_inv throttle (p\<lparr>upx_sessions := hm_insert k s' (upx_sessions p)\<rparr>)"
proof -
  let ?p = "p\<lparr>upx_sessions := hm_insert k s' (upx_sessions p)\<rparr>"
  have ok: "hm_ok (upx_sessions p)" using assms(1) by (simp add: udp_inv_def)
  have "sessions_from ?p ip = sessions_from p ip" for ip by (rule hm_update_sessions [OF ok s assms(3)])
  moreover have "length (upx_sessions ?p) = length (upx_sessions p)" using hm.upd_known_same_card [OF s] by simp
  ultimately show ?thesis using assms(1) s by (auto simp: udp_inv_def opening_from_def)
qed

lemma close_inv:
  assumes "udp_inv throttle p"
  shows "udp_inv throttle (udp_close_session addr p)"
proof (cases "hm_get (upx_sessions p) addr")
  case (Some s)
  let ?p = "udp_close_session addr p"
  have ok: "hm_ok (upx_sessions p)" "slots_ok (upx_sessions_per_ip p)"
    and cnt: "\<And>ip. slots_of (upx_sessions_per_ip p) ip = int (sessions_from p ip + opening_from p ip)"
    using assms by (simp_all add: udp_inv_def)
  have p: "?p = p\<lparr>upx_sessions := hm_remove addr (upx_sessions p), upx_sessions_per_ip := release_ip_slot (us_client_ip s) (upx_sessions_per_ip p)\<rparr>"
    using Some by (simp add: udp_close_session_def)
  have m: "mset (upx_sessions p) = add_mset (addr, s) (mset (upx_sessions ?p))"
    using mset_hm_remove [OF ok(1) Some] by (simp add: p)
  then have sf: "sessions_from p ip = sessions_from ?p ip + (if us_client_ip s = ip then 1 else 0)" for ip
    by (simp add: sessions_from_mset)
  then have pos: "0 < slots_of (upx_sessions_per_ip p) (us_client_ip s)" using cnt [of "us_client_ip s"] by simp
  have rel: "slots_ok (upx_sessions_per_ip ?p)"
    "\<And>ip. slots_of (upx_sessions_per_ip ?p) ip = slots_of (upx_sessions_per_ip p) ip - (if ip = us_client_ip s then 1 else 0)"
    using release_ip_slot_spec [OF ok(2) pos] by (simp_all add: p)
  have eq: "slots_of (upx_sessions_per_ip ?p) ip = int (sessions_from ?p ip + opening_from ?p ip)" for ip
    using rel(2) [of ip] cnt [of ip] sf [of ip] by (auto simp: opening_from_def p)
  have "length (upx_sessions ?p) \<le> length (upx_sessions p)" by (simp add: p length_hm_remove)
  then have len: "0 < ut_max_sessions throttle \<longrightarrow>
      int (length (upx_sessions ?p)) + (if upx_opening p = None then 0 else 1) \<le> ut_max_sessions throttle"
    using assms by (auto simp: udp_inv_def)
  have "int (sessions_from ?p ip + opening_from ?p ip) \<le> ut_max_sessions_per_ip throttle" for ip
  proof -
    have "int (sessions_from p ip + opening_from p ip) \<le> ut_max_sessions_per_ip throttle" using assms by (simp add: udp_inv_def)
    moreover have "opening_from ?p ip = opening_from p ip" by (simp add: p opening_from_def)
    ultimately show ?thesis using sf [of ip] by simp
  qed
  moreover have "hm_ok (upx_sessions ?p)" "upx_opening ?p = upx_opening p"
    "\<And>sender ip. upx_opening p = Some (sender, ip) \<Longrightarrow> hm_get (upx_sessions ?p) sender = None"
    using ok(1) assms by (auto simp: p udp_inv_def)
  ultimately show ?thesis using rel(1) eq len unfolding udp_inv_def by (simp del: of_nat_add)
qed (use assms in \<open>simp add: udp_close_session_def\<close>)

lemma evict_inv: "udp_inv throttle p \<Longrightarrow> udp_inv throttle (udp_evict_stale throttle now p)"
proof -
  have "udp_inv throttle p \<Longrightarrow> udp_inv throttle (fold udp_close_session as p)" for as p
    by (induction as arbitrary: p) (auto intro: close_inv)
  then show "udp_inv throttle p \<Longrightarrow> udp_inv throttle (udp_evict_stale throttle now p)" by (simp add: udp_evict_stale_def)
qed

lemma packet_inv:
  assumes cap: "0 < ut_max_sessions_per_ip throttle" and inv: "udp_inv throttle p" and idle: "upx_opening p = None"
    and step: "udp_client_packet throttle now sender content p = (out, p')"
  shows "udp_inv throttle p'"
proof (cases "hm_get (upx_sessions p) sender")
  case (Some s)
  then have "p' = p\<lparr>upx_sessions := hm_insert sender (s\<lparr>us_last_active := now\<rparr>) (upx_sessions p)\<rparr>"
    using step by (simp add: udp_client_packet_def)
  then show ?thesis using touch_inv [OF inv Some] by simp
next
  case None
  let ?ip = "show_ip (addr_ip sender)"
  have ok: "slots_ok (upx_sessions_per_ip p)" using inv by (simp add: udp_inv_def)
  obtain b c where t: "take_ip_slot (ut_max_sessions_per_ip throttle) ?ip (upx_sessions_per_ip p) = (b, c)" by fastforce
  note spec = take_ip_slot_spec [OF ok t]
  consider "p' = p" | "\<not> b" "p' = p\<lparr>upx_sessions_per_ip := c\<rparr>"
    | (new) "b" "p' = p\<lparr>upx_sessions_per_ip := c, upx_opening := Some (sender, ?ip)\<rparr>"
        "\<not> (ut_max_sessions throttle > 0 \<and> int (length (upx_sessions p)) \<ge> ut_max_sessions throttle)"
    using step None t cap by (cases b) (auto simp: udp_client_packet_def acquire_ip_slot_def Let_def split: if_splits)
  then show ?thesis
  proof cases
    case 2
    then have eq: "slots_of c ip = slots_of (upx_sessions_per_ip p) ip" for ip using spec [of ip] by simp
    have "slots_ok c" using spec by blast
    then show ?thesis using inv 2(2) by (simp add: udp_inv_def eq)
  next
    case new
    have eq: "slots_of c ip = int (sessions_from p' ip + opening_from p' ip)" for ip
      using spec [of ip] inv idle by (auto simp: udp_inv_def new(1,2) sessions_from_def opening_from_def)
    have "int (sessions_from p' ip + opening_from p' ip) \<le> ut_max_sessions_per_ip throttle" for ip
    proof (cases "ip = ?ip")
      case True
      then show ?thesis using spec [of ip] new(1) eq [of ip] by simp
    next
      case False
      then have "sessions_from p' ip + opening_from p' ip = sessions_from p ip + opening_from p ip"
        using idle by (simp add: new(2)) (simp add: opening_from_def)
      then show ?thesis using inv by (simp only: udp_inv_def)
    qed
    then show ?thesis using inv spec None idle new eq by (auto simp: udp_inv_def)
  qed (use inv in simp)
qed

lemma finish_inv:
  assumes inv: "udp_inv throttle p" and step: "udp_open_finish ok now content p = (out, p')"
  shows "udp_inv throttle p'"
proof (cases "upx_opening p")
  case (Some si)
  obtain sender ip where si: "si = (sender, ip)" by (cases si)
  have sl: "slots_ok (upx_sessions_per_ip p)"
    and cnt: "\<And>i. slots_of (upx_sessions_per_ip p) i = int (sessions_from p i + opening_from p i)"
    and new: "hm_get (upx_sessions p) sender = None"
    using inv Some by (simp_all add: udp_inv_def si)
  have opn: "opening_from p i = (if i = ip then 1 else 0)" for i by (auto simp: opening_from_def Some si)
  show ?thesis
  proof (cases ok)
    case True
    let ?s = "\<lparr>us_client_ip = ip, us_created_at = now, us_last_active = now, us_backend_replied = False\<rparr>"
    have p': "p' = p\<lparr>upx_sessions := hm_insert sender ?s (upx_sessions p), upx_opening := None\<rparr>"
      using step True by (simp add: udp_open_finish_def Some si)
    have "mset (upx_sessions p') = add_mset (sender, ?s) (mset (upx_sessions p))"
      using mset_hm_insert_new [OF new] by (simp add: p')
    then have "sessions_from p' i + opening_from p' i = sessions_from p i + opening_from p i" for i
      using opn [of i] by (simp add: sessions_from_mset) (simp add: opening_from_def p')
    moreover have "length (upx_sessions p') = Suc (length (upx_sessions p))"
      using new by (simp add: p' length_hm_insert hm_contains_def)
    ultimately show ?thesis using inv by (auto simp: udp_inv_def Some p')
  next
    case False
    have p': "p' = p\<lparr>upx_sessions_per_ip := release_ip_slot ip (upx_sessions_per_ip p), upx_opening := None\<rparr>"
      using step False by (simp add: udp_open_finish_def Some si)
    have "0 < slots_of (upx_sessions_per_ip p) ip" using cnt [of ip] opn [of ip] by simp
    note rel = release_ip_slot_spec [OF sl this]
    have "slots_of (upx_sessions_per_ip p') i = int (sessions_from p' i + opening_from p' i)" for i
      using rel [of i] cnt [of i] opn [of i] by (simp add: p' sessions_from_def) (simp add: opening_from_def)
    moreover have "int (sessions_from p' i + opening_from p' i) \<le> ut_max_sessions_per_ip throttle" for i
    proof -
      have "int (sessions_from p i + opening_from p i) \<le> ut_max_sessions_per_ip throttle" using inv by (simp only: udp_inv_def)
      moreover have "sessions_from p' i = sessions_from p i" "opening_from p' i = 0" by (simp add: p', simp add: opening_from_def p')
      ultimately show ?thesis by simp
    qed
    ultimately show ?thesis using inv rel by (auto simp: udp_inv_def Some p')
  qed
qed (use assms in \<open>simp add: udp_open_finish_def\<close>)

lemma udp_step_inv:
  assumes "0 < ut_max_sessions_per_ip throttle" and "udp_step throttle p p'" and "udp_inv throttle p"
  shows "udp_inv throttle p'"
  using assms(2,3)
proof cases
  case (packet now sender content out)
  then show ?thesis using packet_inv [OF assms(1,3)] by blast
next
  case (opened ok now content out)
  then show ?thesis using finish_inv [OF assms(3)] by blast
next
  case (reply now client)
  then show ?thesis using touch_inv [OF assms(3)] assms(3)
    by (auto simp: udp_backend_reply_def split: option.splits)
next
  case (reap now)
  then show ?thesis using evict_inv [OF assms(3)] by simp
qed

lemma udp_reachable_inv:
  assumes "0 < ut_max_sessions_per_ip throttle" and "(udp_step throttle)\<^sup>*\<^sup>* udp_proxy_new p"
  shows "udp_inv throttle p"
  using assms(2)
proof (induction rule: rtranclp_induct)
  case base
  then show ?case
    using assms(1) by (simp add: udp_inv_def udp_proxy_new_def slots_ok_def slots_of_def sessions_from_def opening_from_def)
qed (rule udp_step_inv [OF assms(1)])

section \<open>Properties\<close>



definition cap_off :: udp_throttle_config where
  "cap_off = udp_throttle_default\<lparr>ut_max_sessions_per_ip := 0, ut_idle_timeout_millis := 0, ut_no_reply_teardown_millis := 0\<rparr>"

definition demo_client :: "u16 \<Rightarrow> socket_addr" where
  "demo_client port = SocketAddr (V4 1 2 3 4) port"

definition open_session :: "udp_throttle_config \<Rightarrow> instant \<Rightarrow> u16 \<Rightarrow> udp_proxy \<Rightarrow> udp_proxy" where
  "open_session throttle now port p = snd (udp_open_finish True now [] (snd (udp_client_packet throttle now (demo_client port) [] p)))"

text \<open>Turning the per-IP cap on at run time breaks it. A session opened while the cap is off holds no
  slot, but closing it releases one: it gives back the slot of another session, and the IP then gets
  more sessions than the cap, all of them opened under it.\<close>

theorem enabling_ip_cap_breaks_it:
  "let cap_on = cap_off\<lparr>ut_max_sessions_per_ip := 1\<rparr>;
       p = open_session cap_off 0 1 udp_proxy_new;
       p = open_session cap_on 5 2 p;
       p = udp_evict_stale cap_on 5 p;
       p = open_session cap_on 5 3 p in
   map fst (upx_sessions p) = [demo_client 2, demo_client 3] \<and> sessions_from p (show_ip (V4 1 2 3 4)) = 2"
proof -
  let ?on = "cap_off\<lparr>ut_max_sessions_per_ip := 1\<rparr>"
  define ip where "ip = show_ip (V4 1 2 3 4)"
  let ?s = "\<lambda>t. \<lparr>us_client_ip = ip, us_created_at = t, us_last_active = t, us_backend_replied = False\<rparr>"
  note defs = open_session_def udp_client_packet_def acquire_ip_slot_def take_ip_slot_def udp_open_finish_def
    hm_insert_def hm_get_def demo_client_def cap_off_def udp_throttle_default_def Let_def
  have 1: "open_session cap_off 0 1 udp_proxy_new = \<lparr>upx_sessions = [(demo_client 1, ?s 0)], upx_sessions_per_ip = [], upx_opening = None\<rparr>"
    by (simp add: defs udp_proxy_new_def ip_def del: show_ip.simps)
  have 2: "open_session ?on 5 2 \<lparr>upx_sessions = [(demo_client 1, ?s 0)], upx_sessions_per_ip = [], upx_opening = None\<rparr>
    = \<lparr>upx_sessions = [(demo_client 1, ?s 0), (demo_client 2, ?s 5)], upx_sessions_per_ip = [(ip, 1)], upx_opening = None\<rparr>"
    by (simp add: defs ip_def del: show_ip.simps)
  have 3: "udp_evict_stale ?on 5 \<lparr>upx_sessions = [(demo_client 1, ?s 0), (demo_client 2, ?s 5)], upx_sessions_per_ip = [(ip, 1)], upx_opening = None\<rparr>
    = \<lparr>upx_sessions = [(demo_client 2, ?s 5)], upx_sessions_per_ip = [], upx_opening = None\<rparr>"
    by (simp add: udp_evict_stale_def udp_stale_def from_millis_def udp_close_session_def release_ip_slot_def
        hm_remove_def hm_get_def demo_client_def cap_off_def udp_throttle_default_def)
  have 4: "open_session ?on 5 3 \<lparr>upx_sessions = [(demo_client 2, ?s 5)], upx_sessions_per_ip = [], upx_opening = None\<rparr>
    = \<lparr>upx_sessions = [(demo_client 2, ?s 5), (demo_client 3, ?s 5)], upx_sessions_per_ip = [(ip, 1)], upx_opening = None\<rparr>"
    by (simp add: defs ip_def del: show_ip.simps)
  show ?thesis unfolding Let_def 1 2 3 4 by (simp add: sessions_from_def ip_def del: show_ip.simps)
qed

end
