(* ===== verification/Voice_Relay.thy ===== *)
theory Voice_Relay
  imports Udp_Relay Proxy_Protocol
begin

text \<open>
  Voice chat: the routing table of \<open>src/udp/voice_routing.rs\<close> and the relay of
  \<open>src/udp/voice_relay.rs\<close>.

  The relay reaches a session both by client address and by the address of the fronting proxy its
  datagrams arrive from, so sessions live in an explicit store and both indexes hold their
  identifiers. As in the static forwarder the receive loop opens one session at a time, and the
  handler is split where it awaits the sockets.
\<close>

section \<open>The routing table\<close>

definition VOICE_ENTRY_IDLE_EVICT :: duration where "VOICE_ENTRY_IDLE_EVICT = from_secs 600"

record voice_entry =
  ve_host :: str
  ve_backend :: socket_addr
  ve_last_seen :: instant
  ve_refs :: nat

type_synonym voice_routing = "(str, voice_entry) hmap"

definition voice_register :: "instant \<Rightarrow> str \<Rightarrow> str \<Rightarrow> socket_addr \<Rightarrow> voice_routing \<Rightarrow> voice_routing" where
  "voice_register now client_ip host backend m =
     (let refs = (case hm_get m client_ip of None \<Rightarrow> 0 | Some e \<Rightarrow> ve_refs e) + 1 in
      hm_insert client_ip \<lparr>ve_host = host, ve_backend = backend, ve_last_seen = now, ve_refs = refs\<rparr> m)"

definition voice_resolve :: "instant \<Rightarrow> str \<Rightarrow> voice_routing \<Rightarrow> voice_entry option \<times> voice_routing" where
  "voice_resolve now client_ip m =
     (case hm_get m client_ip of
        None \<Rightarrow> (None, m)
      | Some e \<Rightarrow> let e = e\<lparr>ve_last_seen := now\<rparr> in (Some e, hm_insert client_ip e m))"

text \<open>The flag says that the relay is told to close the sessions of the address.\<close>

definition voice_unregister :: "str \<Rightarrow> voice_routing \<Rightarrow> bool \<times> voice_routing" where
  "voice_unregister client_ip m =
     (case hm_get m client_ip of
        Some e \<Rightarrow>
          if ve_refs e > 1 then (False, hm_insert client_ip (e\<lparr>ve_refs := ve_refs e - 1\<rparr>) m)
          else (True, hm_remove client_ip m)
      | None \<Rightarrow> (True, hm_remove client_ip m))"

definition voice_evict_idle :: "instant \<Rightarrow> voice_routing \<Rightarrow> voice_routing" where
  "voice_evict_idle now m =
     (case checked_sub now VOICE_ENTRY_IDLE_EVICT of
        None \<Rightarrow> m
      | Some cutoff \<Rightarrow> hm_retain (\<lambda>_ e. ve_last_seen e \<ge> cutoff) m)"

section \<open>The relay\<close>

definition DROP_LOG_INTERVAL_MILLIS :: int where "DROP_LOG_INTERVAL_MILLIS = 5000"

record voice_session =
  vs_client_ip :: str
  vs_host :: str
  vs_backend :: socket_addr
  vs_created_at :: instant
  vs_last_active :: instant
  vs_via :: socket_addr
  vs_backend_replied :: bool
  vs_dead :: bool

record voice_opening =
  vo_client :: socket_addr
  vo_via :: socket_addr
  vo_client_ip :: str
  vo_route :: voice_entry
  vo_content :: bytes

record voice_relay =
  vr_store :: "(nat, voice_session) hmap"
  vr_next :: nat
  vr_sessions :: "(socket_addr, nat) hmap"
  vr_by_via :: "(socket_addr, nat) hmap"
  vr_sessions_per_ip :: ip_slots
  vr_last_drop_log_at :: int
  vr_opening :: "voice_opening option"

definition voice_relay_new :: voice_relay where
  "voice_relay_new = \<lparr>vr_store = [], vr_next = 0, vr_sessions = [], vr_by_via = [], vr_sessions_per_ip = [],
     vr_last_drop_log_at = 0, vr_opening = None\<rparr>"

datatype voice_outcome = Voice_Forwarded nat bytes | Voice_Dropped | Voice_Opening | Voice_Ignored

definition log_drop :: "int \<Rightarrow> voice_relay \<Rightarrow> voice_relay" where
  "log_drop millis r =
     (if millis - vr_last_drop_log_at r < DROP_LOG_INTERVAL_MILLIS then r else r\<lparr>vr_last_drop_log_at := millis\<rparr>)"

definition update_session :: "nat \<Rightarrow> (voice_session \<Rightarrow> voice_session) \<Rightarrow> voice_relay \<Rightarrow> voice_relay" where
  "update_session sid f r =
     (case hm_get (vr_store r) sid of None \<Rightarrow> r | Some s \<Rightarrow> r\<lparr>vr_store := hm_insert sid (f s) (vr_store r)\<rparr>)"

definition repoint_via :: "bool \<Rightarrow> nat \<Rightarrow> socket_addr \<Rightarrow> voice_relay \<Rightarrow> voice_relay" where
  "repoint_via expect sid new_via r =
     (case hm_get (vr_store r) sid of
        None \<Rightarrow> r
      | Some s \<Rightarrow>
          if \<not> expect then update_session sid (\<lambda>s. s\<lparr>vs_via := new_via\<rparr>) r
          else if vs_via s = new_via then r
          else
            (let r = r\<lparr>vr_by_via := hm_remove (vs_via s) (vr_by_via r)\<rparr>;
                 r = update_session sid (\<lambda>s. s\<lparr>vs_via := new_via\<rparr>) r in
             r\<lparr>vr_by_via := hm_insert new_via sid (vr_by_via r)\<rparr>))"

definition voice_forward :: "nat \<Rightarrow> bytes \<Rightarrow> voice_relay \<Rightarrow> voice_outcome" where
  "voice_forward sid content r =
     (case hm_get (vr_store r) sid of
        Some s \<Rightarrow> if vs_dead s then Voice_Dropped else Voice_Forwarded sid content
      | None \<Rightarrow> Voice_Dropped)"

definition touch :: "instant \<Rightarrow> nat \<Rightarrow> voice_relay \<Rightarrow> voice_relay" where
  "touch now sid r = update_session sid (\<lambda>s. s\<lparr>vs_last_active := now\<rparr>) r"

definition handle_for_client ::
  "bool \<Rightarrow> udp_throttle_config \<Rightarrow> instant \<Rightarrow> int \<Rightarrow> socket_addr \<Rightarrow> socket_addr \<Rightarrow> bytes \<Rightarrow> voice_routing \<Rightarrow> voice_relay
     \<Rightarrow> voice_outcome \<times> voice_routing \<times> voice_relay" where
  "handle_for_client expect throttle now millis client_addr via content m r =
     (case hm_get (vr_sessions r) client_addr of
        Some sid \<Rightarrow>
          let r = repoint_via expect sid via (touch now sid r) in (voice_forward sid content r, m, r)
      | None \<Rightarrow>
          let client_ip = show_ip (addr_ip client_addr) in
          (case voice_resolve now client_ip m of
             (None, m) \<Rightarrow> (Voice_Dropped, m, log_drop millis r)
           | (Some route, m) \<Rightarrow>
               if ut_max_sessions throttle > 0 \<and> int (length (vr_sessions r)) \<ge> ut_max_sessions throttle
               then (Voice_Dropped, m, log_drop millis r)
               else
                 (case acquire_ip_slot (ut_max_sessions_per_ip throttle) client_ip (vr_sessions_per_ip r) of
                    (False, counts) \<Rightarrow> (Voice_Dropped, m, log_drop millis (r\<lparr>vr_sessions_per_ip := counts\<rparr>))
                  | (True, counts) \<Rightarrow>
                      (Voice_Opening, m, r\<lparr>vr_sessions_per_ip := counts,
                         vr_opening := Some \<lparr>vo_client = client_addr, vo_via = via, vo_client_ip = client_ip,
                           vo_route = route, vo_content = content\<rparr>\<rparr>))))"

definition voice_open_finish :: "bool \<Rightarrow> bool \<Rightarrow> instant \<Rightarrow> voice_relay \<Rightarrow> voice_outcome \<times> voice_relay" where
  "voice_open_finish expect ok now r =
     (case vr_opening r of
        None \<Rightarrow> (Voice_Ignored, r)
      | Some q \<Rightarrow>
          let r = r\<lparr>vr_opening := None\<rparr> in
          if ok then
            let sid = vr_next r;
                s = \<lparr>vs_client_ip = vo_client_ip q, vs_host = ve_host (vo_route q), vs_backend = ve_backend (vo_route q),
                     vs_created_at = now, vs_last_active = now, vs_via = vo_via q, vs_backend_replied = False, vs_dead = False\<rparr>;
                r = r\<lparr>vr_store := hm_insert sid s (vr_store r), vr_next := sid + 1,
                      vr_sessions := hm_insert (vo_client q) sid (vr_sessions r),
                      vr_by_via := if expect then hm_insert (vo_via q) sid (vr_by_via r) else vr_by_via r\<rparr> in
            (voice_forward sid (vo_content q) r, r)
          else (Voice_Dropped, r\<lparr>vr_sessions_per_ip := release_ip_slot (vo_client_ip q) (vr_sessions_per_ip r)\<rparr>))"

definition route_headered_datagram ::
  "bool \<Rightarrow> udp_throttle_config \<Rightarrow> instant \<Rightarrow> int \<Rightarrow> socket_addr \<Rightarrow> socket_addr \<Rightarrow> bytes \<Rightarrow> voice_routing \<Rightarrow> voice_relay
     \<Rightarrow> voice_outcome \<times> voice_routing \<times> voice_relay" where
  "route_headered_datagram expect throttle now millis client_addr via content m r =
     (case hm_get (vr_sessions r) client_addr of
        Some sid \<Rightarrow>
          let r = repoint_via expect sid via (touch now sid r) in (voice_forward sid content r, m, r)
      | None \<Rightarrow> handle_for_client expect throttle now millis client_addr via content m r)"

lemma route_headered_datagram_eq [simp]: "route_headered_datagram = handle_for_client"
  by (intro ext) (simp add: route_headered_datagram_def handle_for_client_def split: option.split)

definition voice_client_packet ::
  "bool \<Rightarrow> udp_throttle_config \<Rightarrow> instant \<Rightarrow> int \<Rightarrow> socket_addr \<Rightarrow> bytes \<Rightarrow> voice_routing \<Rightarrow> voice_relay
     \<Rightarrow> voice_outcome \<times> voice_routing \<times> voice_relay" where
  "voice_client_packet expect throttle now millis via content m r =
     (if expect then
        case parse_proxy_protocol_header content of
          Inr (Some addr, header_len) \<Rightarrow> route_headered_datagram expect throttle now millis addr via (drop header_len content) m r
        | Inr (None, _) \<Rightarrow> (Voice_Ignored, m, r)
        | Inl _ \<Rightarrow>
            (case hm_get (vr_by_via r) via of
               Some sid \<Rightarrow>
                 (case hm_get (vr_store r) sid of
                    Some s \<Rightarrow>
                      if \<not> vs_dead s then let r = touch now sid r in (voice_forward sid content r, m, r)
                      else (Voice_Dropped, m, log_drop millis r)
                  | None \<Rightarrow> (Voice_Dropped, m, log_drop millis r))
             | None \<Rightarrow> (Voice_Dropped, m, log_drop millis r))
      else handle_for_client expect throttle now millis via via content m r)"

text \<open>A datagram of the backend goes to the session's current \<open>via\<close>; \<open>None\<close> ends the reader.\<close>

definition voice_backend_reply :: "instant \<Rightarrow> nat \<Rightarrow> voice_relay \<Rightarrow> socket_addr option \<times> voice_relay" where
  "voice_backend_reply now sid r =
     (case hm_get (vr_store r) sid of
        None \<Rightarrow> (None, r)
      | Some s \<Rightarrow>
          if vs_dead s then (None, r)
          else (Some (vs_via s), update_session sid (\<lambda>s. s\<lparr>vs_last_active := now, vs_backend_replied := True\<rparr>) r))"

definition voice_close_session :: "nat \<Rightarrow> voice_relay \<Rightarrow> voice_relay" where
  "voice_close_session sid r =
     (case hm_get (vr_store r) sid of
        None \<Rightarrow> r
      | Some s \<Rightarrow>
          (let r = r\<lparr>vr_by_via := hm_retain (\<lambda>_ i. i \<noteq> sid) (vr_by_via r)\<rparr>;
               r = update_session sid (\<lambda>s. s\<lparr>vs_dead := True\<rparr>) r in
           r\<lparr>vr_sessions_per_ip := release_ip_slot (vs_client_ip s) (vr_sessions_per_ip r)\<rparr>))"

definition voice_remove :: "socket_addr \<Rightarrow> voice_relay \<Rightarrow> voice_relay" where
  "voice_remove addr r =
     (case hm_get (vr_sessions r) addr of
        None \<Rightarrow> r
      | Some sid \<Rightarrow> voice_close_session sid (r\<lparr>vr_sessions := hm_remove addr (vr_sessions r)\<rparr>))"

definition disconnect_client :: "str \<Rightarrow> voice_relay \<Rightarrow> voice_relay" where
  "disconnect_client client_ip r =
     fold voice_remove (filter (\<lambda>addr. show_ip (addr_ip addr) = client_ip) (map fst (vr_sessions r))) r"

definition voice_stale :: "udp_throttle_config \<Rightarrow> instant \<Rightarrow> voice_session \<Rightarrow> bool" where
  "voice_stale throttle now s \<longleftrightarrow>
     now - vs_last_active s > from_millis (nat (ut_idle_timeout_millis throttle))
     \<or> \<not> vs_backend_replied s \<and> ut_no_reply_teardown_millis throttle > 0
        \<and> int (as_millis (now - vs_created_at s)) > ut_no_reply_teardown_millis throttle"

definition voice_evict_stale :: "udp_throttle_config \<Rightarrow> instant \<Rightarrow> voice_relay \<Rightarrow> voice_relay" where
  "voice_evict_stale throttle now r =
     fold voice_remove (map fst (filter (\<lambda>(_, sid). case hm_get (vr_store r) sid of
         Some s \<Rightarrow> voice_stale throttle now s | None \<Rightarrow> False) (vr_sessions r))) r"

section \<open>The indexes\<close>

text \<open>What the indexes depend on of a session: whether it is closed, whose it is and its current flow.\<close>

definition view :: "voice_relay \<Rightarrow> nat \<Rightarrow> (bool \<times> str \<times> socket_addr) option" where
  "view r sid = map_option (\<lambda>s. (vs_dead s, vs_client_ip s, vs_via s)) (hm_get (vr_store r) sid)"

text \<open>Every registered session is live, belongs to the address it is registered under and has an
  identifier of its own; every entry of the flow index points to a registered session whose current
  flow it is.\<close>

definition voice_inv :: "voice_relay \<Rightarrow> bool" where
  "voice_inv r \<longleftrightarrow> hm_ok (vr_sessions r) \<and> hm_ok (vr_by_via r)
     \<and> (\<forall>a sid. hm_get (vr_sessions r) a = Some sid \<longrightarrow> (\<exists>v. view r sid = Some (False, show_ip (addr_ip a), v)))
     \<and> (\<forall>a b sid. hm_get (vr_sessions r) a = Some sid \<and> hm_get (vr_sessions r) b = Some sid \<longrightarrow> a = b)
     \<and> (\<forall>v sid. hm_get (vr_by_via r) v = Some sid \<longrightarrow>
          (\<exists>a ip. hm_get (vr_sessions r) a = Some sid \<and> view r sid = Some (False, ip, v)))
     \<and> (\<forall>sid. view r sid \<noteq> None \<longrightarrow> sid < vr_next r)
     \<and> (\<forall>q. vr_opening r = Some q \<longrightarrow> vo_client_ip q = show_ip (addr_ip (vo_client q))
          \<and> hm_get (vr_sessions r) (vo_client q) = None)"

lemma voice_invI:
  assumes "hm_ok (vr_sessions r)" and "hm_ok (vr_by_via r)"
    and "\<And>a sid. hm_get (vr_sessions r) a = Some sid \<Longrightarrow> \<exists>v. view r sid = Some (False, show_ip (addr_ip a), v)"
    and "\<And>a b sid. hm_get (vr_sessions r) a = Some sid \<Longrightarrow> hm_get (vr_sessions r) b = Some sid \<Longrightarrow> a = b"
    and "\<And>v sid. hm_get (vr_by_via r) v = Some sid \<Longrightarrow> \<exists>a ip. hm_get (vr_sessions r) a = Some sid \<and> view r sid = Some (False, ip, v)"
    and "\<And>sid. view r sid \<noteq> None \<Longrightarrow> sid < vr_next r"
    and "\<And>q. vr_opening r = Some q \<Longrightarrow> vo_client_ip q = show_ip (addr_ip (vo_client q)) \<and> hm_get (vr_sessions r) (vo_client q) = None"
  shows "voice_inv r"
  unfolding voice_inv_def using assms by (intro conjI) (simp_all only:, blast+)

lemma voice_inv_flow:
  "voice_inv r \<Longrightarrow> hm_get (vr_by_via r) v = Some sid \<Longrightarrow>
   \<exists>a ip. hm_get (vr_sessions r) a = Some sid \<and> view r sid = Some (False, ip, v)"
  by (simp only: voice_inv_def)

lemma voice_inv_session:
  "voice_inv r \<Longrightarrow> hm_get (vr_sessions r) a = Some sid \<Longrightarrow> \<exists>v. view r sid = Some (False, show_ip (addr_ip a), v)"
  by (simp only: voice_inv_def)

lemma view_update_session [simp]:
  "view (update_session sid f r) i =
     (if i = sid then map_option (\<lambda>s. (vs_dead (f s), vs_client_ip (f s), vs_via (f s))) (hm_get (vr_store r) sid) else view r i)"
  by (auto simp: update_session_def view_def split: option.splits)

lemma view_frame [simp]:
  "view (r\<lparr>vr_sessions := x1\<rparr>) = view r" "view (r\<lparr>vr_by_via := x2\<rparr>) = view r" "view (r\<lparr>vr_opening := x3\<rparr>) = view r"
  "view (r\<lparr>vr_sessions_per_ip := x4\<rparr>) = view r" "view (r\<lparr>vr_last_drop_log_at := x5\<rparr>) = view r"
  by (simp_all add: view_def fun_eq_iff)

lemma update_session_frame [simp]:
  "vr_sessions (update_session sid f r) = vr_sessions r"
  "vr_by_via (update_session sid f r) = vr_by_via r"
  "vr_next (update_session sid f r) = vr_next r"
  "vr_opening (update_session sid f r) = vr_opening r"
  "vr_sessions_per_ip (update_session sid f r) = vr_sessions_per_ip r"
  by (simp_all add: update_session_def split: option.splits)

lemma same_view_inv:
  assumes "view r' = view r" and "vr_sessions r' = vr_sessions r" and "vr_by_via r' = vr_by_via r"
    and "vr_next r' = vr_next r" and "vr_opening r' = vr_opening r"
  shows "voice_inv r' = voice_inv r"
  by (simp only: voice_inv_def assms)

lemma log_drop_inv [simp]: "voice_inv (log_drop millis r) = voice_inv r"
  by (rule same_view_inv) (simp_all add: log_drop_def)

lemma slots_inv [simp]: "voice_inv (r\<lparr>vr_sessions_per_ip := c\<rparr>) = voice_inv r"
  by (rule same_view_inv) simp_all

lemma update_same_inv:
  assumes "\<And>s. vs_dead (f s) = vs_dead s \<and> vs_client_ip (f s) = vs_client_ip s \<and> vs_via (f s) = vs_via s"
  shows "voice_inv (update_session sid f r) = voice_inv r"
proof (rule same_view_inv)
  show "view (update_session sid f r) = view r"
    using assms by (intro ext) (simp add: view_def [of r sid])
qed simp_all

lemma touch_voice_inv [simp]: "voice_inv (touch now sid r) = voice_inv r"
  unfolding touch_def by (rule update_same_inv) simp

lemma touch_sessions [simp]: "vr_sessions (touch now sid r) = vr_sessions r"
  by (simp add: touch_def)

lemma reply_voice_inv: "voice_inv (snd (voice_backend_reply now sid r)) = voice_inv r"
proof -
  have "voice_inv (update_session sid (\<lambda>s. s\<lparr>vs_last_active := now, vs_backend_replied := True\<rparr>) r) = voice_inv r"
    by (rule update_same_inv) simp
  then show ?thesis by (simp add: voice_backend_reply_def split: option.split)
qed

lemma repoint_inv:
  assumes inv: "voice_inv r" and a: "hm_get (vr_sessions r) a = Some sid"
  shows "voice_inv (repoint_via True sid v r)"
proof (cases "hm_get (vr_store r) sid")
  case (Some s)
  show ?thesis
  proof (cases "vs_via s = v")
    case False
    let ?r = "repoint_via True sid v r"
    have s: "\<not> vs_dead s" "vs_client_ip s = show_ip (addr_ip a)"
      using inv a Some by (fastforce simp: voice_inv_def view_def)+
    have r: "vr_sessions ?r = vr_sessions r" "vr_next ?r = vr_next r" "vr_opening ?r = vr_opening r"
      "vr_by_via ?r = hm_insert v sid (hm_remove (vs_via s) (vr_by_via r))"
      "view ?r = (view r)(sid := Some (False, show_ip (addr_ip a), v))"
      using Some False s by (auto simp: repoint_via_def Let_def fun_eq_iff)
    have flow: "i = sid \<Longrightarrow> w = vs_via s" if "hm_get (vr_by_via r) w = Some i" for i w
      using inv that Some by (fastforce simp: voice_inv_def view_def)
    have "\<exists>b ip. hm_get (vr_sessions r) b = Some i \<and> view ?r i = Some (False, ip, w)"
      if "hm_get (vr_by_via ?r) w = Some i" for w i
    proof (cases "w = v")
      case True
      then have "i = sid" using that by (simp add: r)
      then show ?thesis using True a unfolding r(5) by auto
    next
      case False
      then have g: "w \<noteq> vs_via s" "hm_get (vr_by_via r) w = Some i" using that by (auto simp: r split: if_splits)
      then have "i \<noteq> sid" using flow by blast
      then show ?thesis using inv g(2) by (simp add: voice_inv_def r)
    qed
    moreover have "\<exists>w. view ?r i = Some (False, show_ip (addr_ip b), w)" if "hm_get (vr_sessions r) b = Some i" for b i
    proof (cases "i = sid")
      case True
      then have "b = a" using inv that a by (simp add: voice_inv_def)
      then show ?thesis using True by (simp add: r)
    qed (use inv that in \<open>simp add: voice_inv_def r\<close>)
    moreover have "sid < vr_next r" using inv Some by (simp add: voice_inv_def view_def)
    ultimately show ?thesis using inv unfolding voice_inv_def by (simp add: r)
  qed (use inv Some in \<open>simp add: repoint_via_def\<close>)
qed (use inv in \<open>simp add: repoint_via_def\<close>)

lemma repoint_plain_inv: "voice_inv r \<Longrightarrow> vr_by_via r = [] \<Longrightarrow> voice_inv (repoint_via False sid v r) \<and> vr_by_via (repoint_via False sid v r) = []"
proof (cases "hm_get (vr_store r) sid")
  case (Some s)
  assume inv: "voice_inv r" and e: "vr_by_via r = []"
  let ?r = "repoint_via False sid v r"
  have r: "vr_sessions ?r = vr_sessions r" "vr_by_via ?r = []" "vr_next ?r = vr_next r" "vr_opening ?r = vr_opening r"
    "view ?r = (view r)(sid := Some (vs_dead s, vs_client_ip s, v))"
    using Some e by (auto simp: repoint_via_def fun_eq_iff)
  have "\<exists>w. view ?r i = Some (False, show_ip (addr_ip b), w)" if "hm_get (vr_sessions r) b = Some i" for b i
    using inv that Some by (fastforce simp: voice_inv_def r view_def [of r sid])
  moreover have "sid < vr_next r" using inv Some by (simp add: voice_inv_def view_def)
  ultimately show ?thesis using inv r(2) unfolding voice_inv_def by (simp add: r)
qed (simp add: repoint_via_def)

text \<open>Taking a session out of the table and closing it.\<close>

lemma remove_inv:
  assumes inv: "voice_inv r"
  shows "voice_inv (voice_remove addr r)"
proof (cases "hm_get (vr_sessions r) addr")
  case (Some sid)
  then obtain s where s: "hm_get (vr_store r) sid = Some s" using inv by (fastforce simp: voice_inv_def view_def)
  let ?r = "voice_remove addr r"
  have r: "vr_sessions ?r = hm_remove addr (vr_sessions r)" "vr_next ?r = vr_next r" "vr_opening ?r = vr_opening r"
    "vr_by_via ?r = hm_retain (\<lambda>_ i. i \<noteq> sid) (vr_by_via r)"
    "view ?r = (view r)(sid := Some (True, vs_client_ip s, vs_via s))"
    using Some s by (auto simp: voice_remove_def voice_close_session_def Let_def fun_eq_iff)
  have ok: "hm_ok (vr_by_via r)" using inv by (simp add: voice_inv_def)
  have other: "i \<noteq> sid" if "hm_get (vr_sessions r) b = Some i" "b \<noteq> addr" for b i
    using inv Some that by (auto simp: voice_inv_def)
  have "\<exists>b ip. hm_get (vr_sessions ?r) b = Some i \<and> view ?r i = Some (False, ip, v)"
    if "hm_get (vr_by_via ?r) v = Some i" for v i
  proof -
    have g: "hm_get (vr_by_via r) v = Some i" "i \<noteq> sid" using that hm.keep_lookup_Some [OF ok] by (simp_all add: r)
    then obtain b ip where b: "hm_get (vr_sessions r) b = Some i" "view r i = Some (False, ip, v)"
      using voice_inv_flow [OF inv] by blast
    then have "b \<noteq> addr" using Some g(2) by auto
    then show ?thesis using b g(2) by (auto simp: r)
  qed
  moreover have "\<exists>v. view ?r i = Some (False, show_ip (addr_ip b), v)" if "hm_get (vr_sessions ?r) b = Some i" for b i
    using that inv other [of b i] by (auto simp: r voice_inv_def split: if_splits)
  moreover have "sid < vr_next r" using inv s by (simp add: voice_inv_def view_def)
  ultimately show ?thesis using inv ok unfolding voice_inv_def by (simp add: r)
qed (use inv in \<open>simp add: voice_remove_def\<close>)

lemma fold_remove_inv: "voice_inv r \<Longrightarrow> voice_inv (fold voice_remove as r)"
  by (induction as arbitrary: r) (auto intro: remove_inv)

lemma finish_voice_inv:
  assumes inv: "voice_inv r" and step: "voice_open_finish True ok now r = (out, r')"
  shows "voice_inv r'"
proof (cases "vr_opening r")
  case (Some q)
  have q: "vo_client_ip q = show_ip (addr_ip (vo_client q))" "hm_get (vr_sessions r) (vo_client q) = None"
    using inv Some by (auto simp: voice_inv_def)
  show ?thesis
  proof (cases ok)
    case True
    have r: "vr_sessions r' = hm_insert (vo_client q) (vr_next r) (vr_sessions r)" "vr_next r' = Suc (vr_next r)"
      "vr_opening r' = None" "vr_by_via r' = hm_insert (vo_via q) (vr_next r) (vr_by_via r)"
      "view r' = (view r)(vr_next r := Some (False, vo_client_ip q, vo_via q))"
      using step Some True by (auto simp: voice_open_finish_def Let_def view_def fun_eq_iff)
    have lt: "sid < vr_next r" if "hm_get (vr_sessions r) a = Some sid" for a sid
      using inv that by (fastforce simp: voice_inv_def)
    have flows: "\<exists>a ip. hm_get (vr_sessions r') a = Some sid \<and> view r' sid = Some (False, ip, v)"
      if "hm_get (vr_by_via r') v = Some sid" for v sid
    proof (cases "v = vo_via q")
      case False
      then have "hm_get (vr_by_via r) v = Some sid" using that by (simp add: r)
      then obtain a ip where a: "hm_get (vr_sessions r) a = Some sid" "view r sid = Some (False, ip, v)"
        using voice_inv_flow [OF inv] by blast
      then have "a \<noteq> vo_client q" "sid \<noteq> vr_next r" using q(2) lt by auto
      then show ?thesis using a by (intro exI [of _ a] exI [of _ ip]) (simp add: r)
    qed (use that in \<open>auto simp: r\<close>)
    have sess: "\<exists>v. view r' sid = Some (False, show_ip (addr_ip a), v)" if "hm_get (vr_sessions r') a = Some sid" for a sid
    proof (cases "a = vo_client q")
      case False
      then have "hm_get (vr_sessions r) a = Some sid" "sid \<noteq> vr_next r" using that lt by (auto simp: r)
      then show ?thesis using inv by (simp add: voice_inv_def r)
    qed (use that q in \<open>auto simp: r\<close>)
    have inj: "a = b" if "hm_get (vr_sessions r') a = Some sid" "hm_get (vr_sessions r') b = Some sid" for a b sid
    proof -
      have old: "a = b" if "hm_get (vr_sessions r) a = Some sid" "hm_get (vr_sessions r) b = Some sid"
        using that inv unfolding voice_inv_def by blast
      show ?thesis using that lt old by (auto simp: r split: if_splits)
    qed
    have lt': "sid < vr_next r'" if "view r' sid \<noteq> None" for sid
    proof -
      have "view r sid \<noteq> None \<Longrightarrow> sid < vr_next r" using inv unfolding voice_inv_def by blast
      then show ?thesis using that by (auto simp: r split: if_splits)
    qed
    have ok: "hm_ok (vr_sessions r')" "hm_ok (vr_by_via r')" using inv by (simp_all add: voice_inv_def r)
    show ?thesis by (rule voice_invI [OF ok sess inj flows lt']) (simp_all add: r(3))
  next
    case False
    then have "r' = r\<lparr>vr_opening := None, vr_sessions_per_ip := release_ip_slot (vo_client_ip q) (vr_sessions_per_ip r)\<rparr>"
      using step Some by (simp add: voice_open_finish_def Let_def)
    then show ?thesis using inv by (simp add: voice_inv_def)
  qed
qed (use inv step in \<open>simp add: voice_open_finish_def\<close>)

lemma handle_inv:
  assumes inv: "voice_inv r"
    and step: "handle_for_client True throttle now millis addr via content m r = (out, m', r')"
  shows "voice_inv r'"
proof (cases "hm_get (vr_sessions r) addr")
  case (Some sid)
  then have "r' = repoint_via True sid via (touch now sid r)" using step by (simp add: handle_for_client_def Let_def)
  then show ?thesis using repoint_inv [of "touch now sid r" addr sid] inv Some by simp
next
  case None
  have opn: "voice_inv (r\<lparr>vr_sessions_per_ip := c, vr_opening := Some q\<rparr>)"
    if "vo_client q = addr" "vo_client_ip q = show_ip (addr_ip addr)" for c q
    using inv None that by (simp add: voice_inv_def)
  show ?thesis
    using step None inv
    by (auto simp: handle_for_client_def Let_def opn split: prod.splits option.splits if_splits bool.splits)
qed

section \<open>Concurrent execution\<close>

text \<open>The steps of the relay behind a fronting proxy: the receive loop, with whatever the routing table
  holds at that moment, the backend readers, the logouts reported by the TCP side and the reaper.\<close>

inductive voice_step :: "voice_relay \<Rightarrow> voice_relay \<Rightarrow> bool" where
  packet: "vr_opening r = None \<Longrightarrow> voice_client_packet True throttle now millis via content m r = (out, m', r') \<Longrightarrow> voice_step r r'"
| opened: "voice_open_finish True ok now r = (out, r') \<Longrightarrow> voice_step r r'"
| reply: "voice_step r (snd (voice_backend_reply now sid r))"
| logout: "voice_step r (disconnect_client ip r)"
| reap: "voice_step r (voice_evict_stale throttle now r)"

lemma packet_voice_inv:
  assumes inv: "voice_inv r" and step: "voice_client_packet True throttle now millis via content m r = (out, m', r')"
  shows "voice_inv r'"
  using step inv
  by (auto simp: voice_client_packet_def Let_def intro: handle_inv
      split: sum.splits prod.splits option.splits if_splits)

lemma voice_step_inv: "voice_step r r' \<Longrightarrow> voice_inv r \<Longrightarrow> voice_inv r'"
proof (induction rule: voice_step.induct)
  case (packet r throttle now millis via content m out m' r')
  then show ?case using packet_voice_inv by blast
next
  case (opened ok now r out r')
  then show ?case using finish_voice_inv by blast
next
  case (reply r now sid)
  then show ?case by (simp only: reply_voice_inv)
qed (simp_all add: disconnect_client_def voice_evict_stale_def fold_remove_inv)

lemma voice_reachable_inv: "voice_step\<^sup>*\<^sup>* voice_relay_new r \<Longrightarrow> voice_inv r"
proof (induction rule: rtranclp_induct)
  case base
  then show ?case by (simp add: voice_inv_def voice_relay_new_def view_def)
qed (rule voice_step_inv)

lemma sessions_after_remove:
  "hm_get (vr_sessions (voice_remove addr r)) b = (if b = addr then None else hm_get (vr_sessions r) b)"
  by (auto simp: voice_remove_def voice_close_session_def Let_def split: option.splits)

lemma sessions_after_removes:
  "hm_get (vr_sessions (fold voice_remove as r)) b = (if b \<in> set as then None else hm_get (vr_sessions r) b)"
  by (induction as arbitrary: r) (auto simp: sessions_after_remove)

lemma sessions_after_disconnect:
  "hm_get (vr_sessions (disconnect_client ip r)) b = (if show_ip (addr_ip b) = ip then None else hm_get (vr_sessions r) b)"
  by (auto simp: disconnect_client_def sessions_after_removes hm_get_None_iff image_iff intro: sym)

section \<open>Holders of a routing entry\<close>

datatype voice_event = Login instant str socket_addr | Logout

fun voice_apply :: "str \<Rightarrow> voice_event \<Rightarrow> voice_routing \<Rightarrow> voice_routing" where
  "voice_apply ip (Login now host backend) m = voice_register now ip host backend m"
| "voice_apply ip Logout m = snd (voice_unregister ip m)"

text \<open>The connections of one address after a history, newest event first, in which every logout follows its
  login.\<close>

fun voice_holders :: "voice_event list \<Rightarrow> nat" where
  "voice_holders [] = 0"
| "voice_holders (Login now host backend # es) = voice_holders es + 1"
| "voice_holders (Logout # es) = voice_holders es - 1"

fun voice_balanced :: "voice_event list \<Rightarrow> bool" where
  "voice_balanced [] = True"
| "voice_balanced (Login now host backend # es) = voice_balanced es"
| "voice_balanced (Logout # es) = (voice_balanced es \<and> 0 < voice_holders es)"

lemma voice_refs:
  "voice_balanced es \<Longrightarrow>
   map_option ve_refs (hm_get (foldr (voice_apply ip) es []) ip) = (if voice_holders es = 0 then None else Some (voice_holders es))"
proof (induction es)
  case (Cons e es)
  show ?case
  proof (cases e)
    case (Login now host backend)
    then show ?thesis using Cons by (auto simp: voice_register_def Let_def split: option.splits if_splits)
  next
    case Logout
    then show ?thesis using Cons by (auto simp: voice_unregister_def split: option.splits if_splits)
  qed
qed simp

section \<open>Properties\<close>

text \<open>C27: flows never mix. In every state the relay can reach behind a fronting proxy, a datagram without a
  PROXY header is forwarded, unchanged, only on a registered live session whose current flow is the
  address it came from; a closed session is never used.\<close>

theorem voice_flow_isolation:
  assumes "voice_step\<^sup>*\<^sup>* voice_relay_new r" and "parse_proxy_protocol_header content = Inl e"
    and "voice_client_packet True throttle now millis via content m r = (Voice_Forwarded sid data, m', r')"
  shows "data = content \<and> (\<exists>a s. hm_get (vr_sessions r) a = Some sid \<and> hm_get (vr_store r) sid = Some s
    \<and> \<not> vs_dead s \<and> vs_via s = via)"
proof -
  have flow: "hm_get (vr_by_via r) via = Some sid" and "data = content"
    using assms(2,3)
    by (auto simp: voice_client_packet_def voice_forward_def Let_def split: option.splits if_splits)
  moreover obtain a ip where "hm_get (vr_sessions r) a = Some sid" "view r sid = Some (False, ip, via)"
    using voice_inv_flow [OF voice_reachable_inv [OF assms(1)] flow] by blast
  ultimately show ?thesis by (auto simp: view_def)
qed

definition demo_route :: voice_entry where
  "demo_route = \<lparr>ve_host = lit ''play'', ve_backend = SocketAddr (V4 9 9 9 9) 24454, ve_last_seen = 0, ve_refs = 1\<rparr>"

text \<open>A client whose first datagram, with its header, came through the fronting proxy and was admitted.\<close>

definition demo_relay :: voice_relay where
  "demo_relay = snd (voice_open_finish True True 0 (snd (snd (voice_client_packet True
     (udp_throttle_default\<lparr>ut_max_sessions_per_ip := 0\<rparr>) 0 0 (SocketAddr (V4 5 5 5 5) 7)
     (encode_proxy_protocol_header (SocketAddr (V4 1 2 3 4) 1) (SocketAddr (V4 5 5 5 5) 2)) [(show_ip (V4 1 2 3 4), demo_route)]
     voice_relay_new))))"

lemma demo_relay_reachable: "voice_step\<^sup>*\<^sup>* voice_relay_new demo_relay"
proof -
  let ?p = "voice_client_packet True (udp_throttle_default\<lparr>ut_max_sessions_per_ip := 0\<rparr>) 0 0 (SocketAddr (V4 5 5 5 5) 7)
     (encode_proxy_protocol_header (SocketAddr (V4 1 2 3 4) 1) (SocketAddr (V4 5 5 5 5) 2)) [(show_ip (V4 1 2 3 4), demo_route)] voice_relay_new"
  have "voice_step voice_relay_new (snd (snd ?p))"
    by (rule voice_step.packet [OF _ surjective_pairing [THEN trans, OF arg_cong2 [OF refl surjective_pairing, of Pair]]])
      (simp add: voice_relay_new_def)
  moreover have "voice_step (snd (snd ?p)) demo_relay"
    unfolding demo_relay_def by (rule voice_step.opened [OF surjective_pairing])
  ultimately show ?thesis by (meson rtranclp.simps)
qed

lemma demo_relay_flow:
  "hm_get (vr_by_via demo_relay) (SocketAddr (V4 5 5 5 5) 7) = Some 0"
  "\<exists>s. hm_get (vr_store demo_relay) 0 = Some s \<and> \<not> vs_dead s"
proof -
  have "parse_proxy_protocol_header (encode_proxy_protocol_header (SocketAddr (V4 1 2 3 4) 1) (SocketAddr (V4 5 5 5 5) 2) @ [])
    = Inr (Some (SocketAddr (V4 1 2 3 4) 1), length (encode_proxy_protocol_header (SocketAddr (V4 1 2 3 4) 1) (SocketAddr (V4 5 5 5 5) 2)))"
    by (rule parse_encoded_header) simp_all
  then show "hm_get (vr_by_via demo_relay) (SocketAddr (V4 5 5 5 5) 7) = Some 0"
    "\<exists>s. hm_get (vr_store demo_relay) 0 = Some s \<and> \<not> vs_dead s"
    by (simp_all add: demo_relay_def voice_client_packet_def handle_for_client_def voice_resolve_def acquire_ip_slot_def
        voice_open_finish_def voice_relay_new_def udp_throttle_default_def Let_def hm_get_def [of "[_]"] del: show_ip.simps)
qed

theorem voice_flow_isolation_witness:
  "fst (voice_client_packet True udp_throttle_default 1 1 (SocketAddr (V4 5 5 5 5) 7) [1] [] demo_relay) = Voice_Forwarded 0 [1]
   \<and> (\<exists>a s. hm_get (vr_sessions demo_relay) a = Some 0 \<and> hm_get (vr_store demo_relay) 0 = Some s
        \<and> \<not> vs_dead s \<and> vs_via s = SocketAddr (V4 5 5 5 5) 7)"
proof -
  let ?p = "voice_client_packet True udp_throttle_default 1 1 (SocketAddr (V4 5 5 5 5) 7) [1] [] demo_relay"
  obtain e where e: "parse_proxy_protocol_header [1] = Inl e"
    by (auto simp: parse_proxy_protocol_header_def starts_with_def V2_SIGNATURE_def V1_PREFIX_def as_bytes_def lit_def
        utf8_encode_char_def byte_of_def)
  have f: "fst ?p = Voice_Forwarded 0 [1]"
    using demo_relay_flow e
    by (auto simp: voice_client_packet_def voice_forward_def touch_def update_session_def Let_def)
  then have "?p = (Voice_Forwarded 0 [1], fst (snd ?p), snd (snd ?p))" by (metis prod.collapse)
  from voice_flow_isolation [OF demo_relay_reachable e this] f show ?thesis by blast
qed

text \<open>A logout closes voice. After the TCP side reports the last logout from an address no session of it
  is registered, no flow leads to one, and the sessions of all other addresses are untouched.\<close>

theorem voice_logout_closes:
  assumes "voice_step\<^sup>*\<^sup>* voice_relay_new r"
  shows "hm_get (vr_sessions (disconnect_client ip r)) a
      = (if show_ip (addr_ip a) = ip then None else hm_get (vr_sessions r) a)
    \<and> (hm_get (vr_by_via (disconnect_client ip r)) v = Some sid \<longrightarrow>
        (\<exists>s. hm_get (vr_store (disconnect_client ip r)) sid = Some s \<and> \<not> vs_dead s \<and> vs_client_ip s \<noteq> ip))"
proof -
  let ?r = "disconnect_client ip r"
  have inv: "voice_inv ?r"
    using voice_reachable_inv [OF assms] by (simp add: disconnect_client_def fold_remove_inv)
  have "\<exists>s. hm_get (vr_store ?r) sid = Some s \<and> \<not> vs_dead s \<and> vs_client_ip s \<noteq> ip"
    if flow: "hm_get (vr_by_via ?r) v = Some sid"
  proof -
    obtain b where b: "hm_get (vr_sessions ?r) b = Some sid" using voice_inv_flow [OF inv flow] by blast
    then have "show_ip (addr_ip b) \<noteq> ip" by (auto simp: sessions_after_disconnect split: if_splits)
    then show ?thesis using voice_inv_session [OF inv b] by (auto simp: view_def)
  qed
  then show ?thesis by (simp add: sessions_after_disconnect)
qed

theorem voice_logout_closes_witness:
  "hm_get (vr_sessions (disconnect_client (show_ip (V4 1 2 3 4)) demo_relay)) (SocketAddr (V4 1 2 3 4) 1) = None"
  using voice_logout_closes [OF demo_relay_reachable, of "show_ip (V4 1 2 3 4)" "SocketAddr (V4 1 2 3 4) 1"] by simp

text \<open>A routing entry lives as long as its holders. Without idle eviction, after any history of logins and
  logouts of an address the entry exists exactly while a connection from it is open, and counts
  the open connections.\<close>

theorem voice_entry_refcount:
  assumes "voice_balanced es"
  shows "map_option ve_refs (hm_get (foldr (voice_apply ip) es []) ip)
    = (if voice_holders es = 0 then None else Some (voice_holders es))"
  using assms by (rule voice_refs)

theorem voice_entry_refcount_witness:
  "map_option ve_refs (hm_get (foldr (voice_apply (lit ''1.2.3.4''))
     [Logout, Login 5 (lit ''b'') (SocketAddr (V4 9 9 9 9) 1), Login 3 (lit ''a'') (SocketAddr (V4 9 9 9 9) 1)] []) (lit ''1.2.3.4''))
   = Some 1"
  using voice_entry_refcount [of "[Logout, Login 5 (lit ''b'') (SocketAddr (V4 9 9 9 9) 1), Login 3 (lit ''a'') (SocketAddr (V4 9 9 9 9) 1)]"]
  by simp

text \<open>Idle eviction forgets the holders. An entry that is not looked up for ten minutes is dropped though
  its player is still connected; after a second player of the same address has logged in, the first
  one's logout removes the second one's entry and closes the address's voice sessions.\<close>

theorem voice_eviction_forgets_holders:
  "let m = voice_register 0 ip host1 backend [];
       m = voice_evict_idle (from_secs 601) m;
       m = voice_register (from_secs 601) ip host2 backend m in
   map_option ve_refs (hm_get m ip) = Some 1 \<and> fst (voice_unregister ip m) \<and> hm_get (snd (voice_unregister ip m)) ip = None"
  by (simp add: voice_register_def voice_evict_idle_def checked_sub_def VOICE_ENTRY_IDLE_EVICT_def from_secs_def Let_def
      hm_retain_def hm_insert_def hm_remove_def voice_unregister_def hm_get_def)

text \<open>Moving a flow can cut off another player. When the fronting proxy reuses the source address of
  session 0 for session 1, a later headered datagram of session 0 from a new source removes the index
  entry that belongs to session 1, whose header-less datagrams are then dropped.\<close>

theorem repoint_cuts_other_flow:
  assumes "hm_get (vr_store r) i = Some s" and "vs_via s = shared" and "hm_get (vr_by_via r) shared = Some j"
    and "i \<noteq> j" and "shared \<noteq> new" and "parse_proxy_protocol_header content = Inl e"
  shows "hm_get (vr_by_via (repoint_via True i new r)) shared = None
    \<and> fst (voice_client_packet True throttle now millis shared content m (repoint_via True i new r)) = Voice_Dropped"
  using assms by (simp add: repoint_via_def Let_def voice_client_packet_def)

end
