(* ===== verification/Connection_Tracker.thy ===== *)
theory Connection_Tracker
  imports Gate_Config Minecraft_Protocol "HOL-Library.Sublist"
begin

text \<open>
  Persistence of finished sessions, \<open>src/state/connection_tracker.rs\<close>.

  The bounded channel between \<open>record\<close> and the writer thread is the list \<open>tk_queue\<close>. SQLite is not part of the
  repository: a database file is a table of rows in the order of their ids, on which the statements of
  the source act as their SQL says, and whether opening a file or committing a transaction succeeds is
  an argument. One pass of the writer's loop is \<open>writer_receive\<close> or \<open>tracker_prune\<close>; the loop's timing is
  not modelled.
\<close>

section \<open>Definitions\<close>

record connection_record =
  cr_uuid :: uuid
  cr_name :: str
  cr_ip :: str
  cr_host :: str
  cr_protocol_version :: int
  cr_login_attempts :: int
  cr_packets_sent :: int
  cr_packets_received :: int
  cr_bytes_sent :: int
  cr_bytes_received :: int
  cr_compression_threshold :: int
  cr_encrypted :: bool
  cr_connected_at :: int
  cr_disconnected_at :: int

record db_table =
  db_rows :: "(nat \<times> connection_record) list"
  db_next_id :: nat

definition db_empty :: db_table where
  "db_empty = \<lparr>db_rows = [], db_next_id = 1\<rparr>"

record tracker =
  tk_running :: bool
  tk_config :: connection_tracking_config
  tk_dropped_since_start :: nat
  tk_queued_hint :: int
  tk_queue :: "connection_record list"
  tk_files :: "(str, db_table) hmap"

definition tracker_default :: tracker where
  "tracker_default = \<lparr>tk_running = False, tk_config = connection_tracking_default, tk_dropped_since_start = 0,
     tk_queued_hint = 0, tk_queue = [], tk_files = []\<rparr>"

definition is_enabled :: "tracker \<Rightarrow> bool" where
  "is_enabled t = tk_running t"

definition dropped_records_total :: "tracker \<Rightarrow> int" where
  "dropped_records_total t = wrap_i64 (int (tk_dropped_since_start t))"

definition queued_records :: "tracker \<Rightarrow> int" where
  "queued_records t = max (tk_queued_hint t) 0"

definition queue_capacity :: "tracker \<Rightarrow> nat" where
  "queue_capacity t = nat (max (tr_queue_capacity (tk_config t)) 1)"

definition tracker_record :: "connection_record \<Rightarrow> tracker \<Rightarrow> tracker" where
  "tracker_record rec t =
     (if \<not> tk_running t then t
      else if queue_capacity t \<le> length (tk_queue t)
      then t\<lparr>tk_dropped_since_start := (tk_dropped_since_start t + 1) mod 2 ^ 64\<rparr>
      else t\<lparr>tk_queue := tk_queue t @ [rec], tk_queued_hint := wrap_i64 (tk_queued_hint t + 1)\<rparr>)"

definition table_of :: "tracker \<Rightarrow> db_table" where
  "table_of t = unwrap_or (hm_get (tk_files t) (tr_db_path (tk_config t))) db_empty"

definition set_table :: "db_table \<Rightarrow> tracker \<Rightarrow> tracker" where
  "set_table d t = t\<lparr>tk_files := hm_insert (tr_db_path (tk_config t)) d (tk_files t)\<rparr>"

definition insert_rows :: "connection_record list \<Rightarrow> db_table \<Rightarrow> db_table" where
  "insert_rows batch d = \<lparr>db_rows = db_rows d @ enumerate (db_next_id d) batch, db_next_id = db_next_id d + length batch\<rparr>"

definition write_batch :: "bool \<Rightarrow> connection_record list \<Rightarrow> tracker \<Rightarrow> tracker" where
  "write_batch committed batch t = (if batch = [] \<or> \<not> committed then t else set_table (insert_rows batch (table_of t)) t)"

text \<open>One message and what else is already queued, up to the batch size, in one transaction.\<close>

definition writer_receive :: "bool \<Rightarrow> tracker \<Rightarrow> tracker" where
  "writer_receive committed t =
     (if \<not> tk_running t \<or> tk_queue t = [] then t
      else
        let size = nat (max (tr_batch_size (tk_config t)) 1); batch = take size (tk_queue t);
            t = write_batch committed batch (t\<lparr>tk_queue := drop size (tk_queue t)\<rparr>) in
        t\<lparr>tk_queued_hint := wrap_i64 (tk_queued_hint t - int (length batch))\<rparr>)"

definition tracker_prune :: "int \<Rightarrow> tracker \<Rightarrow> tracker" where
  "tracker_prune now t =
     (let cutoff = now - tr_retention_days (tk_config t) * 86400000; d = table_of t;
          recent = filter (\<lambda>(_, rec). \<not> cr_connected_at rec < cutoff) (db_rows d);
          over = length recent - nat (tr_max_records (tk_config t)) in
      if tk_running t then set_table (d\<lparr>db_rows := drop over recent\<rparr>) t else t)"

text \<open>Stopping the writer: it flushes what is still queued in one last transaction.\<close>

definition stop_internal :: "bool \<Rightarrow> tracker \<Rightarrow> tracker" where
  "stop_internal committed t =
     (if \<not> tk_running t then t
      else (write_batch committed (tk_queue t) t)\<lparr>tk_queue := [], tk_running := False\<rparr>)"

definition start_internal :: "bool \<Rightarrow> tracker \<Rightarrow> tracker" where
  "start_internal opened t =
     (let t = t\<lparr>tk_dropped_since_start := 0, tk_queued_hint := 0\<rparr> in
      if opened then (set_table (table_of t) t)\<lparr>tk_running := True, tk_queue := []\<rparr> else t)"

definition tracker_apply_config :: "bool \<Rightarrow> bool \<Rightarrow> connection_tracking_config \<Rightarrow> tracker \<Rightarrow> tracker" where
  "tracker_apply_config opened committed new_config t =
     (if tk_config t = new_config then t
      else let t = (stop_internal committed t)\<lparr>tk_config := new_config\<rparr> in
        if tr_enabled new_config then start_internal opened t else t)"

definition tracker_shutdown :: "bool \<Rightarrow> tracker \<Rightarrow> tracker" where
  "tracker_shutdown committed t = stop_internal committed t"

section \<open>Invariant\<close>

definition persisted :: "tracker \<Rightarrow> connection_record list" where
  "persisted t = map snd (db_rows (table_of t))"

definition tracker_ok :: "tracker \<Rightarrow> bool" where
  "tracker_ok t \<longleftrightarrow> (tk_running t \<longrightarrow> tk_queued_hint t = int (length (tk_queue t)) \<and> length (tk_queue t) \<le> queue_capacity t)
     \<and> (\<not> tk_running t \<longrightarrow> tk_queue t = [])"

definition capacity_ok :: "tracker \<Rightarrow> bool" where
  "capacity_ok t \<longleftrightarrow> tr_queue_capacity (tk_config t) < 2 ^ 31"

lemma table_of_set [simp]: "table_of (set_table d t) = d"
  by (simp add: table_of_def set_table_def unwrap_or_def)

lemma table_of_fields [simp]:
  "table_of (t\<lparr>tk_queue := q\<rparr>) = table_of t" "table_of (t\<lparr>tk_queued_hint := h\<rparr>) = table_of t"
  "table_of (t\<lparr>tk_running := b\<rparr>) = table_of t" "table_of (t\<lparr>tk_dropped_since_start := n\<rparr>) = table_of t"
  by (simp_all add: table_of_def)

lemma set_table_fields [simp]:
  "tk_queue (set_table d t) = tk_queue t" "tk_queued_hint (set_table d t) = tk_queued_hint t"
  "tk_running (set_table d t) = tk_running t" "tk_config (set_table d t) = tk_config t"
  by (simp_all add: set_table_def)

lemma write_batch_fields [simp]:
  "tk_queue (write_batch ok b t) = tk_queue t" "tk_queued_hint (write_batch ok b t) = tk_queued_hint t"
  "tk_running (write_batch ok b t) = tk_running t" "tk_config (write_batch ok b t) = tk_config t"
  by (simp_all add: write_batch_def)

lemma persisted_fields [simp]:
  "persisted (t\<lparr>tk_queue := q\<rparr>) = persisted t" "persisted (t\<lparr>tk_queued_hint := h\<rparr>) = persisted t"
  "persisted (t\<lparr>tk_running := b\<rparr>) = persisted t" "persisted (t\<lparr>tk_dropped_since_start := n\<rparr>) = persisted t"
  "persisted (t\<lparr>tk_queue := q, tk_queued_hint := h\<rparr>) = persisted t" "persisted (t\<lparr>tk_queue := q, tk_running := b\<rparr>) = persisted t"
  by (simp_all add: persisted_def table_of_def)

lemma persisted_write_batch [simp]: "persisted (write_batch ok b t) = persisted t @ (if ok then b else [])"
  by (simp add: persisted_def write_batch_def insert_rows_def)

datatype tracker_event = Offer connection_record | Receive bool | Prune int

fun tracker_step :: "tracker_event \<Rightarrow> tracker \<Rightarrow> tracker" where
  "tracker_step (Offer rec) t = tracker_record rec t"
| "tracker_step (Receive committed) t = writer_receive committed t"
| "tracker_step (Prune now) t = tracker_prune now t"

lemma hint_wrap: "capacity_ok t \<Longrightarrow> n \<le> queue_capacity t \<Longrightarrow> wrap_i64 (int n) = int n"
  by (rule wrap_i64_id) (auto simp: is_i64_def capacity_ok_def queue_capacity_def)

lemma tracker_step_ok:
  assumes "tracker_ok t" and "capacity_ok t"
  shows "tracker_ok (tracker_step e t) \<and> capacity_ok (tracker_step e t)"
proof (cases e)
  case (Offer rec)
  have "tk_running t \<Longrightarrow> length (tk_queue t) < queue_capacity t \<Longrightarrow> wrap_i64 (int (length (tk_queue t)) + 1) = int (length (tk_queue t)) + 1"
    using hint_wrap [OF assms(2), of "Suc (length (tk_queue t))"] by (simp add: add.commute)
  then show ?thesis using assms Offer by (auto simp: tracker_ok_def capacity_ok_def tracker_record_def queue_capacity_def not_le)
next
  case (Receive ok)
  define size where "size = nat (max (tr_batch_size (tk_config t)) 1)"
  show ?thesis
  proof (cases "tk_running t \<and> tk_queue t \<noteq> []")
    case True
    have d: "length (drop size (tk_queue t)) \<le> queue_capacity t" "tk_queued_hint t = int (length (tk_queue t))"
      using assms(1) True by (auto simp: tracker_ok_def)
    have "int (length (tk_queue t)) - int (length (take size (tk_queue t))) = int (length (drop size (tk_queue t)))"
      by (simp add: min_def of_nat_diff)
    then have h: "wrap_i64 (tk_queued_hint t - int (length (take size (tk_queue t)))) = int (length (drop size (tk_queue t)))"
      using hint_wrap [OF assms(2) d(1)] d(2) by simp
    have "tracker_step e t = (write_batch ok (take size (tk_queue t)) (t\<lparr>tk_queue := drop size (tk_queue t)\<rparr>))
        \<lparr>tk_queued_hint := int (length (drop size (tk_queue t)))\<rparr>"
      using True Receive h by (simp add: writer_receive_def Let_def size_def [symmetric])
    then show ?thesis using True assms(2) d(1) by (simp add: tracker_ok_def capacity_ok_def queue_capacity_def)
  next
    case False
    then show ?thesis using assms Receive by (auto simp: writer_receive_def)
  qed
next
  case (Prune now)
  then show ?thesis using assms by (auto simp: tracker_ok_def capacity_ok_def tracker_prune_def Let_def queue_capacity_def)
qed

lemma tracker_run_ok: "tracker_ok t \<Longrightarrow> capacity_ok t \<Longrightarrow> tracker_ok (fold tracker_step es t) \<and> capacity_ok (fold tracker_step es t)"
  using tracker_step_ok by (induction es arbitrary: t) auto

section \<open>The queue in order\<close>

fun offers :: "tracker_event list \<Rightarrow> connection_record list" where
  "offers [] = []"
| "offers (Offer rec # es) = rec # offers es"
| "offers (e # es) = offers es"

fun commits :: "tracker_event \<Rightarrow> bool" where
  "commits (Offer rec) = True"
| "commits (Receive committed) = committed"
| "commits (Prune now) = False"

lemma receive_conserves: "persisted (writer_receive True t) @ tk_queue (writer_receive True t) = persisted t @ tk_queue t"
  by (simp add: writer_receive_def Let_def)

lemma receive_fields [simp]:
  "tk_dropped_since_start (writer_receive ok t) = tk_dropped_since_start t" "tk_running (writer_receive ok t) = tk_running t"
  by (simp_all add: writer_receive_def Let_def write_batch_def set_table_def)

lemma tracker_run_fifo:
  assumes "list_all commits es" and "tk_running t" and "tk_dropped_since_start t + length (offers es) < 2 ^ 64"
  shows "\<exists>acc. subseq acc (offers es)
    \<and> persisted (fold tracker_step es t) @ tk_queue (fold tracker_step es t) = persisted t @ tk_queue t @ acc
    \<and> tk_dropped_since_start (fold tracker_step es t) + length acc = tk_dropped_since_start t + length (offers es)
    \<and> tk_running (fold tracker_step es t)"
  using assms
proof (induction es arbitrary: t)
  case Nil
  then show ?case by auto
next
  case (Cons e es)
  show ?case
  proof (cases e)
    case (Offer rec)
    show ?thesis
    proof (cases "queue_capacity t \<le> length (tk_queue t)")
      case True
      let ?t = "t\<lparr>tk_dropped_since_start := tk_dropped_since_start t + 1\<rparr>"
      have t: "tracker_step e t = ?t" using True Offer Cons.prems by (simp add: tracker_record_def)
      obtain acc where "subseq acc (offers es)" "tk_running (fold tracker_step es ?t)"
        "persisted (fold tracker_step es ?t) @ tk_queue (fold tracker_step es ?t) = persisted ?t @ tk_queue ?t @ acc"
        "tk_dropped_since_start (fold tracker_step es ?t) + length acc = tk_dropped_since_start ?t + length (offers es)"
        using Cons.IH [of ?t] Cons.prems Offer by auto
      then show ?thesis using Offer t by (intro exI [of _ acc]) auto
    next
      case False
      let ?t = "t\<lparr>tk_queue := tk_queue t @ [rec], tk_queued_hint := wrap_i64 (tk_queued_hint t + 1)\<rparr>"
      have t: "tracker_step e t = ?t" using False Offer Cons.prems by (simp add: tracker_record_def)
      obtain acc where "subseq acc (offers es)" "tk_running (fold tracker_step es ?t)"
        "persisted (fold tracker_step es ?t) @ tk_queue (fold tracker_step es ?t) = persisted ?t @ tk_queue ?t @ acc"
        "tk_dropped_since_start (fold tracker_step es ?t) + length acc = tk_dropped_since_start ?t + length (offers es)"
        using Cons.IH [of ?t] Cons.prems Offer by auto
      then show ?thesis using Offer t by (intro exI [of _ "rec # acc"]) auto
    qed
  next
    case (Receive ok)
    then show ?thesis using Cons.IH [of "writer_receive True t"] Cons.prems receive_conserves [of t] by auto
  next
    case (Prune now)
    then show ?thesis using Cons.prems by simp
  qed
qed

section \<open>Properties\<close>

text \<open>Finished sessions are persisted once each and in order, or counted as dropped. Over any run of records
  and committed batches, the rows written and the records still queued are those from before followed
  by a subsequence of the records offered, and the records missing from it are exactly the increase of
  the dropped counter; stopping the writer then persists everything that was still queued.\<close>

theorem tracker_exactly_once:
  assumes "list_all commits es" and "tk_running t" and "tk_dropped_since_start t + length (offers es) < 2 ^ 64"
  shows "\<exists>acc. subseq acc (offers es)
    \<and> persisted (stop_internal True (fold tracker_step es t)) = persisted t @ tk_queue t @ acc
    \<and> tk_dropped_since_start (fold tracker_step es t) + length acc = tk_dropped_since_start t + length (offers es)"
proof -
  let ?t = "fold tracker_step es t"
  obtain acc where a: "subseq acc (offers es)" "tk_running ?t"
    "tk_dropped_since_start ?t + length acc = tk_dropped_since_start t + length (offers es)"
    "persisted ?t @ tk_queue ?t = persisted t @ tk_queue t @ acc"
    using tracker_run_fifo [OF assms] by blast
  have "persisted (stop_internal True ?t) = persisted ?t @ tk_queue ?t"
    using a(2) by (simp add: stop_internal_def)
  then show ?thesis using a by metis
qed

definition demo_record :: connection_record where
  "demo_record = \<lparr>cr_uuid = replicate 16 7, cr_name = lit ''Steve'', cr_ip = [], cr_host = lit ''play'', cr_protocol_version = 767,
     cr_login_attempts = 1, cr_packets_sent = 0, cr_packets_received = 0, cr_bytes_sent = 0, cr_bytes_received = 0,
     cr_compression_threshold = - 1, cr_encrypted = False, cr_connected_at = 0, cr_disconnected_at = 5\<rparr>"

theorem tracker_exactly_once_witness:
  "\<exists>acc. subseq acc [demo_record]
     \<and> persisted (stop_internal True (fold tracker_step [Offer demo_record, Receive True] (tracker_default\<lparr>tk_running := True\<rparr>))) = acc"
  using tracker_exactly_once [of "[Offer demo_record, Receive True]" "tracker_default\<lparr>tk_running := True\<rparr>"]
  by (auto simp: tracker_default_def persisted_def table_of_def db_empty_def simp del: fold_simps)

text \<open>The tracking queue is bounded and its gauge exact. From a tracker in a consistent state, any run of
  records, batches, committed or lost, and prunes keeps at most the configured number of records in
  memory and the number reported as queued equal to the number really queued.\<close>

theorem tracker_queue_bounded:
  assumes "tracker_ok t" and "capacity_ok t" and "tk_running (fold tracker_step es t)"
  shows "length (tk_queue (fold tracker_step es t)) \<le> queue_capacity (fold tracker_step es t)
    \<and> queued_records (fold tracker_step es t) = int (length (tk_queue (fold tracker_step es t)))"
  using tracker_run_ok [OF assms(1,2), of es] assms(3) by (auto simp: tracker_ok_def queued_records_def)

theorem tracker_queue_bounded_witness:
  "queued_records (fold tracker_step [Offer demo_record, Offer demo_record] (tracker_default\<lparr>tk_running := True\<rparr>))
     = int (length (tk_queue (fold tracker_step [Offer demo_record, Offer demo_record] (tracker_default\<lparr>tk_running := True\<rparr>))))"
  using tracker_queue_bounded [of "tracker_default\<lparr>tk_running := True\<rparr>" "[Offer demo_record, Offer demo_record]"]
  by (simp add: tracker_ok_def capacity_ok_def tracker_default_def connection_tracking_default_def tracker_record_def queue_capacity_def)

text \<open>Pruning keeps exactly the newest records. What remains after a prune are the last rows, at most the
  configured number of them, among those connected within the retention period.\<close>

theorem prune_keeps_newest:
  assumes "tk_running t" and "0 \<le> tr_max_records (tk_config t)"
  shows "\<exists>removed. filter (\<lambda>(_, rec). now - tr_retention_days (tk_config t) * 86400000 \<le> cr_connected_at rec) (db_rows (table_of t))
      = removed @ db_rows (table_of (tracker_prune now t))
    \<and> int (length (db_rows (table_of (tracker_prune now t)))) \<le> tr_max_records (tk_config t)
    \<and> (removed \<noteq> [] \<longrightarrow> int (length (db_rows (table_of (tracker_prune now t)))) = tr_max_records (tk_config t))"
proof -
  let ?recent = "filter (\<lambda>(_, rec). now - tr_retention_days (tk_config t) * 86400000 \<le> cr_connected_at rec) (db_rows (table_of t))"
  let ?over = "length ?recent - nat (tr_max_records (tk_config t))"
  have "db_rows (table_of (tracker_prune now t)) = drop ?over ?recent"
    using assms(1) by (simp add: tracker_prune_def Let_def not_less case_prod_unfold)
  then show ?thesis using assms(2) by (intro exI [of _ "take ?over ?recent"]) auto
qed

theorem prune_keeps_newest_witness:
  "int (length (db_rows (table_of (tracker_prune 0 (tracker_default\<lparr>tk_running := True\<rparr>))))) \<le> 200000"
  using prune_keeps_newest [of "tracker_default\<lparr>tk_running := True\<rparr>" 0]
  by (auto simp: tracker_default_def connection_tracking_default_def)

text \<open>After tracking is switched off, the gauge still shows the records that the final flush has written.\<close>

theorem queued_gauge_stale:
  assumes "tracker_ok t" and "tk_running t"
  shows "tk_queue (tracker_shutdown True t) = [] \<and> queued_records (tracker_shutdown True t) = int (length (tk_queue t))"
  using assms by (simp add: tracker_shutdown_def stop_internal_def tracker_ok_def queued_records_def)

end
