(* ===== verification/Login_Handler.thy ===== *)
theory Login_Handler
  imports Admission Session_Relay Status_Handler Voice_Relay Connection_Tracker
begin

text \<open>
  Logins, \<open>handle_login\<close> of \<open>src/net/server.rs\<close> and what it calls.

  \<open>login_world\<close> collects the process-wide tables a login touches. How a backend behaves, in what order the
  two sides of its session become ready, the clocks, and what other connections do to the tables while
  the session lasts are given by the \<open>backend_conn\<close> of a dial. A login ends in an outcome; \<open>Login_Pending\<close> is
  a session that still runs when its events are used up.
\<close>

section \<open>Definitions\<close>

record login_world =
  lw_gate :: gate_shared
  lw_runtime :: route_runtime
  lw_sessions :: player_sessions
  lw_voice :: voice_routing
  lw_metrics :: metrics_store
  lw_tracker :: tracker

record backend_conn =
  bc_reader :: reader
  bc_dialled :: bool
  bc_start_forwarded :: bool
  bc_dial_start :: instant
  bc_dial_end :: instant
  bc_conn :: nat
  bc_connected_at :: int
  bc_disconnected_at :: int
  bc_sniff :: "sniff_event list"
  bc_relay :: "relay_event list"
  bc_others :: "login_world \<Rightarrow> login_world"

datatype login_outcome = Login_Dropped | Login_Kicked bytes | Login_Relayed socket_addr link | Login_Pending | Login_Crashed

definition kick :: "interp \<Rightarrow> (str \<Rightarrow> str) \<Rightarrow> 'e zlib \<Rightarrow> str \<Rightarrow> login_outcome" where
  "kick interp lc z message =
     (case to_json_component interp lc message of
        Panicked \<Rightarrow> Login_Crashed
      | Returned rendered \<Rightarrow> Login_Kicked (encode_login_disconnect z rendered))"

text \<open>What a login dial writes before the client's Login Start.\<close>

definition dial_bytes :: "route \<Rightarrow> socket_addr \<Rightarrow> handshake \<Rightarrow> socket_addr \<Rightarrow> bytes" where
  "dial_bytes route addr hs client_addr =
     proxy_header_bytes route client_addr addr
     @ (if rt_modify_virtual_host route
        then encode_handshake (hs_protocol_version hs) (show_ip (addr_ip addr)) (hs_port hs) 2
        else hs_raw_frame hs)"

definition register_voicechat_route ::
  "(str \<Rightarrow> u16 \<Rightarrow> dns_result) \<Rightarrow> instant \<Rightarrow> route \<Rightarrow> str list \<Rightarrow> socket_addr \<Rightarrow> str \<Rightarrow> voice_routing \<Rightarrow> (bool \<times> voice_routing) run" where
  "register_voicechat_route resolve now route captures client_addr host v =
     (if rt_voicechat_templates route = [] then Returned (False, v)
      else run_bind (resolve_voicechat resolve route captures) (\<lambda>res.
        Returned (case res of
            Inr (Some voice_backend) \<Rightarrow> (True, voice_register now (ip_of client_addr) host voice_backend v)
          | Inr None \<Rightarrow> (False, v)
          | Inl e \<Rightarrow> (False, v))))"

definition new_session ::
  "backend_conn \<Rightarrow> (str \<times> uuid option) option \<Rightarrow> handshake \<Rightarrow> socket_addr \<Rightarrow> socket_addr \<Rightarrow> i32 \<times> bool \<Rightarrow> player_session option" where
  "new_session b parsed_login hs client_addr addr sniffed =
     (case parsed_login of
        Some (name, Some uuid) \<Rightarrow>
          Some \<lparr>ps_conn = bc_conn b, ps_name = name, ps_uuid = uuid, ps_host = hs_host hs,
            ps_remote_address = show_socket_addr client_addr, ps_backend = Some addr,
            ps_connected_at_millis = bc_connected_at b, ps_protocol_version = sint (hs_protocol_version hs),
            ps_compression_threshold = sint (fst sniffed), ps_encrypted = snd sniffed, ps_login_attempts = 1,
            ps_packets_sent = 0, ps_packets_received = 0, ps_bytes_sent = 0, ps_bytes_received = 0,
            ps_pending_action = Disconnect\<rparr>
      | _ \<Rightarrow> None)"

definition record_of :: "int \<Rightarrow> player_session \<Rightarrow> connection_record" where
  "record_of disconnected_at s =
     \<lparr>cr_uuid = ps_uuid s, cr_name = ps_name s, cr_ip = ps_remote_address s, cr_host = ps_host s,
      cr_protocol_version = ps_protocol_version s, cr_login_attempts = int (ps_login_attempts s),
      cr_packets_sent = ps_packets_sent s, cr_packets_received = ps_packets_received s,
      cr_bytes_sent = ps_bytes_sent s, cr_bytes_received = ps_bytes_received s,
      cr_compression_threshold = ps_compression_threshold s, cr_encrypted = ps_encrypted s,
      cr_connected_at = ps_connected_at_millis s, cr_disconnected_at = disconnected_at\<rparr>"

text \<open>The route's counter is shared with the store.\<close>

definition put_counter :: "route \<Rightarrow> traffic_counter option \<Rightarrow> metrics_store \<Rightarrow> metrics_store" where
  "put_counter route c s =
     (case (key_for route, c) of
        (Some key, Some c) \<Rightarrow> s\<lparr>ms_counters := hm_insert key c (ms_counters s)\<rparr>
      | _ \<Rightarrow> s)"

text \<open>What runs after the relay returns.\<close>

definition session_over :: "backend_conn \<Rightarrow> socket_addr \<Rightarrow> socket_addr \<Rightarrow> bool \<Rightarrow> player_session option \<Rightarrow> login_world \<Rightarrow> login_world" where
  "session_over b addr client_addr voice_registered session w =
     w\<lparr>lw_runtime := record_connect_closed addr (lw_runtime w),
       lw_sessions := (case session of None \<Rightarrow> lw_sessions w | Some s \<Rightarrow> sessions_remove (ps_uuid s) (lw_sessions w)),
       lw_tracker := (case session of None \<Rightarrow> lw_tracker w
         | Some s \<Rightarrow> tracker_record (record_of (bc_disconnected_at b) s) (lw_tracker w)),
       lw_voice := (if voice_registered then snd (voice_unregister (ip_of client_addr) (lw_voice w)) else lw_voice w)\<rparr>"

definition begin_session :: "backend_conn \<Rightarrow> socket_addr \<Rightarrow> login_world \<Rightarrow> login_world" where
  "begin_session b addr w =
     w\<lparr>lw_runtime := record_latency (bc_dial_end b) addr (int (as_millis (bc_dial_end b - bc_dial_start b)))
         (record_connect_opened addr (lw_runtime w))\<rparr>"

text \<open>The session on one connected backend, from the forwarded Login Start to the end of the relay.\<close>

definition run_session ::
  "interp \<Rightarrow> (str \<Rightarrow> str) \<Rightarrow> 'e zlib \<Rightarrow> (str \<Rightarrow> u16 \<Rightarrow> dns_result) \<Rightarrow> backend_conn \<Rightarrow> socket_addr \<Rightarrow> route \<Rightarrow> str list \<Rightarrow> handshake
     \<Rightarrow> conn \<Rightarrow> bytes \<Rightarrow> login_world \<Rightarrow> login_outcome \<times> login_world" where
  "run_session interp lc z resolve b addr route captures hs k login_start_frame w =
     (let client_addr = cn_addr k; w = begin_session b addr w in
      case register_voicechat_route resolve (bc_dial_end b) route captures client_addr (hs_host hs) (lw_voice w) of
        Panicked \<Rightarrow> (Login_Crashed, w)
      | Returned (voice_registered, v) \<Rightarrow>
          let w = w\<lparr>lw_voice := v\<rparr>;
              l = \<lparr>ln_client = cn_stream k, ln_backend = bs_new (bc_reader b), ln_to_client = [],
                   ln_to_backend = dial_bytes route addr hs client_addr @ login_start_frame\<rparr> in
          case sniff_backend_login z (bc_sniff b) (- 1) l of
            (Sniffing t, l) \<Rightarrow> (Login_Pending, w)
          | (Sniffed verdict, l) \<Rightarrow>
              let session = new_session b (parse_login_start login_start_frame) hs client_addr addr (unwrap_or verdict (- 1, False));
                  w = (case session of None \<Rightarrow> w | Some s \<Rightarrow> w\<lparr>lw_sessions := sessions_put s (lw_sessions w)\<rparr>) in
              case relay interp lc z (bc_relay b) \<lparr>rl_link = l, rl_session = session, rl_counter = metrics_handle route (lw_metrics w)\<rparr> of
                (status, r) \<Rightarrow>
                  let w = bc_others b (w\<lparr>lw_metrics := put_counter route (rl_counter r) (lw_metrics w)\<rparr>) in
                  (case status of
                     Relaying \<Rightarrow> (Login_Pending, w)
                   | Crashed \<Rightarrow> (Login_Crashed, w)
                   | Ended \<Rightarrow> (Login_Relayed addr (rl_link r), session_over b addr client_addr voice_registered (rl_session r) w)))"

fun login_loop ::
  "interp \<Rightarrow> (str \<Rightarrow> str) \<Rightarrow> 'e zlib \<Rightarrow> (str \<Rightarrow> u16 \<Rightarrow> dns_result) \<Rightarrow> (socket_addr \<Rightarrow> backend_conn option) \<Rightarrow> socket_addr list \<Rightarrow> route
     \<Rightarrow> str list \<Rightarrow> handshake \<Rightarrow> conn \<Rightarrow> bytes \<Rightarrow> login_world \<Rightarrow> login_outcome \<times> login_world" where
  "login_loop interp lc z resolve dial [] route captures hs k frame_bytes w = (kick interp lc z (rt_kick_message route), w)"
| "login_loop interp lc z resolve dial (addr # addrs) route captures hs k frame_bytes w =
     (case dial addr of
        None \<Rightarrow> login_loop interp lc z resolve dial addrs route captures hs k frame_bytes w
      | Some b \<Rightarrow>
          if \<not> bc_dialled b \<or> \<not> bc_start_forwarded b
          then login_loop interp lc z resolve dial addrs route captures hs k frame_bytes w
          else run_session interp lc z resolve b addr route captures hs k frame_bytes w)"

definition handle_login ::
  "interp \<Rightarrow> (str \<Rightarrow> str) \<Rightarrow> 'e zlib \<Rightarrow> (socket_addr list \<Rightarrow> socket_addr list) \<Rightarrow> (str \<Rightarrow> u16 \<Rightarrow> dns_result)
     \<Rightarrow> (socket_addr \<Rightarrow> backend_conn option) \<Rightarrow> gate_config \<Rightarrow> str \<Rightarrow> instant \<Rightarrow> bool \<Rightarrow> route \<Rightarrow> str list \<Rightarrow> handshake
     \<Rightarrow> conn \<Rightarrow> login_world \<Rightarrow> login_outcome \<times> conn \<times> login_world" where
  "handle_login interp lc z shuffle resolve dial conf metrics_limit_kick_message now late route captures hs k w =
     (if (case metrics_handle route (lw_metrics w) of Some c \<Rightarrow> exceeded c | None \<Rightarrow> False)
      then (kick interp lc z metrics_limit_kick_message, k, w)
      else
        case read_frame MAX_PACKET_BYTES (cn_stream k) of
          (result, stream) \<Rightarrow>
            (case within (cn_cfg k) late result of
               None \<Rightarrow> (Login_Dropped, k, w\<lparr>lw_gate := record_ip_violation conf now (ip_of (cn_addr k)) (lw_gate w)\<rparr>)
             | Some (Inl e) \<Rightarrow> (Login_Dropped, k, w)
             | Some (Inr login_start_frame) \<Rightarrow>
                 (case login_proven (k\<lparr>cn_stream := stream\<rparr>) (lw_gate w) of
                    (k, gate) \<Rightarrow>
                      let w = w\<lparr>lw_gate := gate\<rparr> in
                      case resolve_ordered_backends shuffle resolve now route captures (lw_runtime w) of
                        (Panicked, r) \<Rightarrow> (Login_Crashed, k, w\<lparr>lw_runtime := r\<rparr>)
                      | (Returned (Inl e), r) \<Rightarrow> (kick interp lc z (rt_kick_message route), k, w\<lparr>lw_runtime := r\<rparr>)
                      | (Returned (Inr backends), r) \<Rightarrow>
                          (case login_loop interp lc z resolve dial backends route captures hs k login_start_frame (w\<lparr>lw_runtime := r\<rparr>) of
                             (outcome, w) \<Rightarrow> (outcome, k, w)))))"

section \<open>A session that ended\<close>

text \<open>The intermediate results of a session whose relay returned.\<close>

lemma run_session_relayed:
  assumes "run_session interp lc z resolve b addr route captures hs k f w = (Login_Relayed a l, w')"
  obtains registered v verdict l1 r session w1
  where "register_voicechat_route resolve (bc_dial_end b) route captures (cn_addr k) (hs_host hs) (lw_voice w) = Returned (registered, v)"
    and "sniff_backend_login z (bc_sniff b) (- 1) \<lparr>ln_client = cn_stream k, ln_backend = bs_new (bc_reader b), ln_to_client = [],
           ln_to_backend = dial_bytes route addr hs (cn_addr k) @ f\<rparr> = (Sniffed verdict, l1)"
    and "session = new_session b (parse_login_start f) hs (cn_addr k) addr (unwrap_or verdict (- 1, False))"
    and "w1 = (case session of None \<Rightarrow> (begin_session b addr w)\<lparr>lw_voice := v\<rparr>
           | Some s \<Rightarrow> (begin_session b addr w)\<lparr>lw_voice := v, lw_sessions := sessions_put s (lw_sessions w)\<rparr>)"
    and "relay interp lc z (bc_relay b) \<lparr>rl_link = l1, rl_session = session, rl_counter = metrics_handle route (lw_metrics w)\<rparr> = (Ended, r)"
    and "a = addr" and "l = rl_link r"
    and "w' = session_over b addr (cn_addr k) registered (rl_session r)
           (bc_others b (w1\<lparr>lw_metrics := put_counter route (rl_counter r) (lw_metrics w)\<rparr>))"
proof -
  have o: "lw_voice (begin_session b addr w) = lw_voice w" "lw_sessions (begin_session b addr w) = lw_sessions w"
    "lw_metrics (begin_session b addr w) = lw_metrics w" by (simp_all add: begin_session_def)
  obtain registered v where v: "register_voicechat_route resolve (bc_dial_end b) route captures (cn_addr k) (hs_host hs) (lw_voice w) = Returned (registered, v)"
    using assms by (cases "register_voicechat_route resolve (bc_dial_end b) route captures (cn_addr k) (hs_host hs) (lw_voice w)")
      (auto simp: run_session_def Let_def o)
  let ?l = "\<lparr>ln_client = cn_stream k, ln_backend = bs_new (bc_reader b), ln_to_client = [],
           ln_to_backend = dial_bytes route addr hs (cn_addr k) @ f\<rparr>"
  obtain st l1 where s: "sniff_backend_login z (bc_sniff b) (- 1) ?l = (st, l1)" by (metis prod.exhaust)
  then obtain verdict where st: "st = Sniffed verdict"
    using assms v by (cases st) (auto simp: run_session_def Let_def o)
  define session where "session = new_session b (parse_login_start f) hs (cn_addr k) addr (unwrap_or verdict (- 1, False))"
  obtain status r where r: "relay interp lc z (bc_relay b) \<lparr>rl_link = l1, rl_session = session, rl_counter = metrics_handle route (lw_metrics w)\<rparr> = (status, r)"
    by (metis prod.exhaust)
  have "status = Ended" "a = addr" "l = rl_link r"
    using assms v s st r by (cases session; cases status; auto simp: run_session_def Let_def o session_def [symmetric])+
  moreover have "w' = session_over b addr (cn_addr k) registered (rl_session r)
      (bc_others b ((case session of None \<Rightarrow> (begin_session b addr w)\<lparr>lw_voice := v\<rparr>
           | Some s \<Rightarrow> (begin_session b addr w)\<lparr>lw_voice := v, lw_sessions := sessions_put s (lw_sessions w)\<rparr>)
         \<lparr>lw_metrics := put_counter route (rl_counter r) (lw_metrics w)\<rparr>))"
    using assms v s st r by (cases session; cases status; auto simp: run_session_def Let_def o session_def [symmetric])
  ultimately show ?thesis using that [OF v s [unfolded st] session_def refl] r by blast
qed

definition counter_ok :: "traffic_counter option \<Rightarrow> bool" where
  "counter_ok c \<longleftrightarrow> pred_option (\<lambda>c. is_i64 (tc_upload_bytes c) \<and> is_i64 (tc_download_bytes c)) c"

text \<open>A backend that stays healthy and to which, as to the client, every write succeeds.\<close>

definition healthy_conn :: "backend_conn \<Rightarrow> bool" where
  "healthy_conn b \<longleftrightarrow> healthy (bc_reader b) \<and> list_all sniff_writes (bc_sniff b) \<and> list_all relay_writes (bc_relay b)"

lemma run_session_stream:
  assumes run: "run_session interp lc z resolve b addr route captures hs k f w = (Login_Relayed a l, w')"
    and ok: "bs_ok (cn_stream k)" "healthy_conn b" "counter_ok (metrics_handle route (lw_metrics w))"
  shows "a = addr \<and> ln_to_backend l @ contents (ln_client l) = dial_bytes route addr hs (cn_addr k) @ f @ contents (cn_stream k)
    \<and> (\<exists>down extra. ln_to_client l = down @ extra \<and> down @ contents (ln_backend l) = incoming (bc_reader b)
        \<and> gateway_packet interp lc z Ended extra)"
  using run
proof (rule run_session_relayed)
  fix registered v verdict l1 r session w1
  let ?l = "\<lparr>ln_client = cn_stream k, ln_backend = bs_new (bc_reader b), ln_to_client = [],
           ln_to_backend = dial_bytes route addr hs (cn_addr k) @ f\<rparr>"
  assume s: "sniff_backend_login z (bc_sniff b) (- 1) ?l = (Sniffed verdict, l1)"
    and session: "session = new_session b (parse_login_start f) hs (cn_addr k) addr (unwrap_or verdict (- 1, False))"
    and r: "relay interp lc z (bc_relay b) \<lparr>rl_link = l1, rl_session = session, rl_counter = metrics_handle route (lw_metrics w)\<rparr> = (Ended, r)"
    and a: "a = addr" "l = rl_link r"
  have "link_ok ?l" using ok by (simp add: link_ok_def healthy_conn_def)
  then have f: "link_ok l1" "upward l1 = upward ?l" "downward l1 = downward ?l"
    using sniff_flow [OF _ _ s] ok(2) by (simp_all add: healthy_conn_def)
  let ?r = "\<lparr>rl_link = l1, rl_session = session, rl_counter = metrics_handle route (lw_metrics w)\<rparr>"
  have "counts_ok ?r"
    using ok(3) by (auto simp: counts_ok_def counter_ok_def session new_session_def is_i64_def split: option.splits)
  then obtain up down extra where m: "moved ?r up down extra r" "gateway_packet interp lc z Ended extra"
    using relay_moved [of ?r "bc_relay b" interp lc z Ended r] f(1) ok(2) r by (auto simp: healthy_conn_def)
  have "ln_to_client l = (ln_to_client l1 @ down) @ extra"
    and "(ln_to_client l1 @ down) @ contents (ln_backend l) = incoming (bc_reader b)"
    using m f(3) a by (simp_all add: moved_def downward_def)
  moreover have "ln_to_backend l @ contents (ln_client l) = dial_bytes route addr hs (cn_addr k) @ f @ contents (cn_stream k)"
    using m f(2) a by (simp add: moved_def upward_def)
  ultimately show ?thesis using a(1) m(2) by blast
qed

lemma login_loop_session:
  assumes "login_loop interp lc z resolve dial addrs route captures hs k f w = (Login_Relayed a l, w')"
  obtains b where "a \<in> set addrs" and "dial a = Some b"
    and "run_session interp lc z resolve b a route captures hs k f w = (Login_Relayed a l, w')"
  using assms
proof (induction addrs arbitrary: thesis)
  case Nil
  then show ?case by (auto simp: kick_def split: run.splits)
next
  case (Cons addr addrs)
  show ?case
  proof (cases "\<exists>b. dial addr = Some b \<and> bc_dialled b \<and> bc_start_forwarded b")
    case True
    then obtain b where b: "dial addr = Some b" "bc_dialled b" "bc_start_forwarded b" by blast
    then have "run_session interp lc z resolve b addr route captures hs k f w = (Login_Relayed a l, w')" using Cons.prems(2) by simp
    moreover from this have "a = addr" by (rule run_session_relayed) blast
    ultimately show ?thesis using Cons.prems(1) [of b] b(1) by auto
  next
    case False
    then have "login_loop interp lc z resolve dial addrs route captures hs k f w = (Login_Relayed a l, w')"
      using Cons.prems(2) by (auto split: option.splits if_splits)
    then show ?thesis using Cons.IH [of thesis] Cons.prems(1) by auto
  qed
qed

lemma login_proven_fields [simp]:
  "cn_stream (fst (login_proven k st)) = cn_stream k" "cn_addr (fst (login_proven k st)) = cn_addr k"
  by (auto simp: login_proven_def split: option.splits prod.splits)

text \<open>The parts of a login that reached a backend.\<close>

lemma handle_login_relayed:
  assumes "handle_login interp lc z shuffle resolve dial conf msg now late route captures hs k w = (Login_Relayed a l, k', w')"
  obtains f stream addrs r b where "read_frame MAX_PACKET_BYTES (cn_stream k) = (Inr f, stream)"
    and "k' = fst (login_proven (k\<lparr>cn_stream := stream\<rparr>) (lw_gate w))"
    and "resolve_ordered_backends shuffle resolve now route captures (lw_runtime w) = (Returned (Inr addrs), r)"
    and "a \<in> set addrs" and "dial a = Some b"
    and "run_session interp lc z resolve b a route captures hs k' f
      (w\<lparr>lw_gate := snd (login_proven (k\<lparr>cn_stream := stream\<rparr>) (lw_gate w)), lw_runtime := r\<rparr>) = (Login_Relayed a l, w')"
proof -
  have nk: "kick interp lc z m \<noteq> Login_Relayed a l" for m by (auto simp: kick_def split: run.splits)
  obtain res stream where rd: "read_frame MAX_PACKET_BYTES (cn_stream k) = (res, stream)" by (metis prod.exhaust)
  have lim: "\<not> (case metrics_handle route (lw_metrics w) of Some c \<Rightarrow> exceeded c | None \<Rightarrow> False)"
    using assms nk by (auto simp: handle_login_def)
  obtain f where f: "res = Inr f" "within (cn_cfg k) late res = Some (Inr f)"
    using assms lim rd by (cases res) (auto simp: handle_login_def within_def split: if_splits)
  obtain k1 gate where p: "login_proven (k\<lparr>cn_stream := stream\<rparr>) (lw_gate w) = (k1, gate)" by (metis prod.exhaust)
  obtain rs r where rs: "resolve_ordered_backends shuffle resolve now route captures (lw_runtime w) = (rs, r)" by (metis prod.exhaust)
  obtain addrs where addrs: "rs = Returned (Inr addrs)"
    using assms lim rd f p rs nk by (cases rs) (auto simp: handle_login_def Let_def split: sum.splits)
  have "login_loop interp lc z resolve dial addrs route captures hs k1 f (w\<lparr>lw_gate := gate, lw_runtime := r\<rparr>) = (Login_Relayed a l, w')" and "k' = k1"
    using assms lim rd f p rs addrs by (auto simp: handle_login_def Let_def split: prod.splits)
  then show ?thesis
    using login_loop_session [of interp lc z resolve dial addrs route captures hs k1 f "w\<lparr>lw_gate := gate, lw_runtime := r\<rparr>" a l w']
      that [of f stream addrs r] rd f p rs addrs by auto
qed

section \<open>Bookkeeping of a session\<close>

definition actives_pos :: "route_runtime \<Rightarrow> bool" where
  "actives_pos r \<longleftrightarrow> (\<forall>a n. hm_get (rr_active_connections r) a = Some n \<longrightarrow> 0 < n)"

definition voice_refs_of :: "str \<Rightarrow> voice_routing \<Rightarrow> nat" where
  "voice_refs_of ip v = (case hm_get v ip of None \<Rightarrow> 0 | Some e \<Rightarrow> ve_refs e)"

text \<open>Others keep their own balance while a session lasts.\<close>

definition polite :: "backend_conn \<Rightarrow> bool" where
  "polite b \<longleftrightarrow> (\<forall>w. (actives_pos (lw_runtime w) \<longrightarrow> actives_pos (lw_runtime (bc_others b w)))
     \<and> (\<forall>x. active_connections_of x (lw_runtime (bc_others b w)) = active_connections_of x (lw_runtime w))
     \<and> (\<forall>ip. voice_refs_of ip (lw_voice (bc_others b w)) = voice_refs_of ip (lw_voice w)))"

lemma opened_active:
  assumes "actives_pos r"
  shows "actives_pos (record_connect_opened a r)"
    and "active_connections_of x (record_connect_opened a r) = active_connections_of x r + (if x = a then 1 else 0)"
proof -
  show "actives_pos (record_connect_opened a r)"
    using assms by (cases "hm_get (rr_active_connections r) a") (force simp: actives_pos_def record_connect_opened_def unwrap_or_def split: if_splits)+
  show "active_connections_of x (record_connect_opened a r) = active_connections_of x r + (if x = a then 1 else 0)"
    by (simp add: active_connections_of_def record_connect_opened_def unwrap_or_def)
qed

lemma closed_active:
  assumes "actives_pos r" and "0 < active_connections_of a r"
  shows "active_connections_of x (record_connect_closed a r) = active_connections_of x r - (if x = a then 1 else 0)"
proof (cases "hm_get (rr_active_connections r) a")
  case (Some n)
  then have "1 \<le> n" using assms(1) by (fastforce simp: actives_pos_def)
  then show ?thesis using Some by (auto simp: active_connections_of_def record_connect_closed_def unwrap_or_def)
qed (use assms(2) in \<open>simp add: active_connections_of_def unwrap_or_def\<close>)

lemma latency_active [simp]:
  "rr_active_connections (record_latency now a ms r) = rr_active_connections r"
  by (simp add: record_latency_def)

lemma latency_of_active: "rr_active_connections (snd (latency_of now a r)) = rr_active_connections r"
  by (auto simp: latency_of_def split: option.splits)

lemma order_backends_active: "rr_active_connections (snd (order_backends shuffle now s r bs)) = rr_active_connections r"
proof -
  have "rr_active_connections (fold (\<lambda>a r. snd (latency_of now a r)) bs r) = rr_active_connections r" for r
    by (induction bs arbitrary: r) (simp_all add: latency_of_active)
  then show ?thesis by (cases s) (auto simp: order_backends_def Let_def)
qed

lemma resolve_active:
  "resolve_ordered_backends shuffle resolve now route captures r = (res, r') \<Longrightarrow> rr_active_connections r' = rr_active_connections r"
proof (cases "resolve_backends resolve (rt_backend_templates route) captures")
  case (Returned x)
  show "resolve_ordered_backends shuffle resolve now route captures r = (res, r') \<Longrightarrow> ?thesis"
    using Returned order_backends_active [of shuffle now "rt_strategy route" r]
    by (cases x) (auto simp: resolve_ordered_backends_def split: prod.splits, metis snd_conv)
qed (simp add: resolve_ordered_backends_def)

lemma voice_register_refs:
  "voice_refs_of ip (voice_register now j host backend v) = voice_refs_of ip v + (if ip = j then 1 else 0)"
  by (auto simp: voice_refs_of_def voice_register_def Let_def split: option.splits)

lemma voice_unregister_refs:
  "voice_refs_of ip (snd (voice_unregister j v)) = voice_refs_of ip v - (if ip = j then 1 else 0)"
  by (auto simp: voice_refs_of_def voice_unregister_def split: option.splits)

lemma register_route_refs:
  assumes "register_voicechat_route resolve now route captures client host v = Returned (registered, v')"
  shows "voice_refs_of ip v' = voice_refs_of ip v + (if registered \<and> ip = ip_of client then 1 else 0)"
proof (cases "rt_voicechat_templates route = []")
  case True
  then show ?thesis using assms by (simp add: register_voicechat_route_def)
next
  case False
  then obtain res where res: "resolve_voicechat resolve route captures = Returned res"
    using assms by (cases "resolve_voicechat resolve route captures") (auto simp: register_voicechat_route_def)
  show ?thesis
  proof (cases res)
    case (Inr backend)
    then show ?thesis using assms False res by (cases backend) (auto simp: register_voicechat_route_def voice_register_refs)
  qed (use assms False res in \<open>auto simp: register_voicechat_route_def\<close>)
qed

lemma relay_step_uuid: "relay_step interp lc z e r = (st, r') \<Longrightarrow> map_option ps_uuid (rl_session r') = map_option ps_uuid (rl_session r)"
proof (cases e)
  case (Action_Fired ok)
  show "relay_step interp lc z e r = (st, r') \<Longrightarrow> ?thesis"
  proof (cases "rl_session r")
    case (Some s)
    obtain res s' where a: "handle_pending_action interp lc z s = (res, s')" by (metis prod.exhaust)
    then show "relay_step interp lc z e r = (st, r') \<Longrightarrow> ?thesis"
      using Action_Fired Some action_session [OF a] by (cases res) (auto simp: set_link_def)
  qed (simp add: Action_Fired)
qed (auto simp: set_link_def count_upload_def count_download_def Let_def option.map_comp comp_def split: prod.splits sum.splits if_splits)

lemma relay_uuid: "relay interp lc z es r = (st, r') \<Longrightarrow> map_option ps_uuid (rl_session r') = map_option ps_uuid (rl_session r)"
proof (induction es arbitrary: r)
  case (Cons e es)
  obtain s1 r1 where s: "relay_step interp lc z e r = (s1, r1)" by (metis prod.exhaust)
  then show ?case using Cons relay_step_uuid [OF s] by (cases s1) auto
qed simp

lemma run_session_bookkeeping:
  assumes run: "run_session interp lc z resolve b addr route captures hs k f w = (Login_Relayed a l, w')"
    and ok: "polite b" "actives_pos (lw_runtime w)"
  shows "active_connections_of x (lw_runtime w') = active_connections_of x (lw_runtime w)
    \<and> voice_refs_of ip (lw_voice w') = voice_refs_of ip (lw_voice w)
    \<and> (parse_login_start f = Some (name, Some u) \<longrightarrow> hm_get (lw_sessions w') u = None)"
  using run
proof (rule run_session_relayed)
  fix registered v verdict l1 session and r :: relay_state and w1 :: login_world
  let ?w = "w1\<lparr>lw_metrics := put_counter route (rl_counter r) (lw_metrics w)\<rparr>" and ?ob = "bc_others b"
  assume v: "register_voicechat_route resolve (bc_dial_end b) route captures (cn_addr k) (hs_host hs) (lw_voice w) = Returned (registered, v)"
    and session: "session = new_session b (parse_login_start f) hs (cn_addr k) addr (unwrap_or verdict (- 1, False))"
    and w1: "w1 = (case session of None \<Rightarrow> (begin_session b addr w)\<lparr>lw_voice := v\<rparr>
           | Some s \<Rightarrow> (begin_session b addr w)\<lparr>lw_voice := v, lw_sessions := sessions_put s (lw_sessions w)\<rparr>)"
    and r: "relay interp lc z (bc_relay b) \<lparr>rl_link = l1, rl_session = session, rl_counter = metrics_handle route (lw_metrics w)\<rparr> = (Ended, r)"
    and w': "w' = session_over b addr (cn_addr k) registered (rl_session r) (?ob ?w)"
  have "rr_active_connections (lw_runtime ?w) = rr_active_connections (record_connect_opened addr (lw_runtime w))" and lv: "lw_voice ?w = v"
    by (auto simp: w1 begin_session_def split: option.splits)
  then have o: "actives_pos (lw_runtime ?w)" "active_connections_of y (lw_runtime ?w) = active_connections_of y (lw_runtime w) + (if y = addr then 1 else 0)" for y
    using opened_active(1) [OF ok(2), of addr] opened_active(2) [OF ok(2)] by (simp_all add: actives_pos_def active_connections_of_def)
  have p: "actives_pos (lw_runtime (?ob ?w))" "active_connections_of y (lw_runtime (?ob ?w)) = active_connections_of y (lw_runtime ?w)"
    "voice_refs_of j (lw_voice (?ob ?w)) = voice_refs_of j (lw_voice ?w)" for y j
    using ok(1) o(1) unfolding polite_def by blast+
  have "0 \<le> active_connections_of addr (lw_runtime w)"
    using ok(2) by (cases "hm_get (rr_active_connections (lw_runtime w)) addr") (fastforce simp: actives_pos_def active_connections_of_def unwrap_or_def)+
  then have "active_connections_of x (lw_runtime w') = active_connections_of x (lw_runtime w)"
    using closed_active [OF p(1), of addr x] p(2) o(2) by (simp add: w' session_over_def)
  moreover have "voice_refs_of ip (lw_voice w') = voice_refs_of ip (lw_voice w)"
    using register_route_refs [OF v, of ip] p(3) [of ip] lv by (simp add: w' session_over_def voice_unregister_refs)
  moreover have "hm_get (lw_sessions w') u = None" if "parse_login_start f = Some (name, Some u)"
  proof -
    have "map_option ps_uuid (rl_session r) = Some u"
      using relay_uuid [OF r] session that by (simp add: new_session_def)
    then show ?thesis by (auto simp: w' session_over_def sessions_remove_def)
  qed
  ultimately show ?thesis by blast
qed

text \<open>A login reaches the backend byte for byte. When a login was relayed, the backend has received the
  route's optional PROXY header, the handshake, rewritten only where the route says so, and then the
  client's own bytes from its Login Start on, in order and complete up to what the client's stream
  still holds; and the client has received the backend's bytes, and after them at most one packet of
  the gateway.\<close>

lemma handle_login_stream:
  assumes "handle_login interp lc z shuffle resolve dial conf msg now late route captures hs k w = (Login_Relayed a l, k', w')"
    and "bs_ok (cn_stream k)" and "\<And>b. dial a = Some b \<Longrightarrow> healthy_conn b" and "counter_ok (metrics_handle route (lw_metrics w))"
  shows "ln_to_backend l @ contents (ln_client l) = dial_bytes route a hs (cn_addr k) @ contents (cn_stream k)
    \<and> (\<exists>b down extra. dial a = Some b \<and> ln_to_client l = down @ extra \<and> down @ contents (ln_backend l) = incoming (bc_reader b)
        \<and> gateway_packet interp lc z Ended extra)"
  using assms(1)
proof (rule handle_login_relayed)
  fix f stream addrs r b
  assume rd: "read_frame MAX_PACKET_BYTES (cn_stream k) = (Inr f, stream)"
    and k': "k' = fst (login_proven (k\<lparr>cn_stream := stream\<rparr>) (lw_gate w))" and b: "dial a = Some b"
    and run: "run_session interp lc z resolve b a route captures hs k' f
      (w\<lparr>lw_gate := snd (login_proven (k\<lparr>cn_stream := stream\<rparr>) (lw_gate w)), lw_runtime := r\<rparr>) = (Login_Relayed a l, w')"
  have s: "bs_ok stream" "contents (cn_stream k) = f @ contents stream" using read_frame_conserves [OF assms(2) rd] by simp_all
  have "cn_stream k' = stream" "cn_addr k' = cn_addr k" by (simp_all add: k')
  then show ?thesis using run_session_stream [OF run] assms(3) [OF b] assms(4) s b by auto
qed

section \<open>Properties\<close>

definition demo_login_route :: route where
  "demo_login_route = Status_Handler.demo_route\<lparr>rt_backend_templates := [lit ''b'']\<rparr>"

definition demo_backend_conn :: backend_conn where
  "demo_backend_conn = \<lparr>bc_reader = [], bc_dialled = True, bc_start_forwarded = True, bc_dial_start = 0, bc_dial_end = 5, bc_conn = 1,
     bc_connected_at = 0, bc_disconnected_at = 9, bc_sniff = [Backend_Late], bc_relay = [Upload_Ready True], bc_others = (\<lambda>w. w)\<rparr>"

definition demo_conn :: conn where
  "demo_conn = \<lparr>cn_cfg = gate_config_default, cn_peer = demo_addr, cn_addr = demo_addr, cn_stream = bs_new [Data (length_prefix [0, 0])],
     cn_global = \<lparr>gcg_released = True\<rparr>, cn_guard = None, cn_phase = Reading_Handshake\<rparr>"

definition demo_login_world :: login_world where
  "demo_login_world = \<lparr>lw_gate = gate_start, lw_runtime = runtime_default, lw_sessions = [], lw_voice = [],
     lw_metrics = \<lparr>ms_counters = [], ms_flush_interval = 0\<rparr>, lw_tracker = tracker_default\<rparr>"

lemma demo_resolved:
  "resolve_ordered_backends (\<lambda>as. as) (\<lambda>_ _. Inr demo_backend) 0 (demo_login_route\<lparr>rt_host_patterns := ps\<rparr>) caps runtime_default = (Returned (Inr [demo_backend]), runtime_default)"
proof -
  have "substitute_params (lit ''b'') caps = Returned (lit ''b'')" by (simp add: substitute_params_def lit_def)
  then show ?thesis
    by (simp add: resolve_ordered_backends_def demo_login_route_def Status_Handler.demo_route_def resolve_backend_address_def order_backends_def split: prod.splits)
qed

lemma login_runs:
  assumes ok: "bs_ok (cn_stream k)" "contents (cn_stream k) = length_prefix [0, 0]"
    and fresh: "lw_runtime w = runtime_default" "lw_metrics w = \<lparr>ms_counters = [], ms_flush_interval = 0\<rparr>"
  shows "\<exists>l k' w'. handle_login (\<lambda>stops _ _. hd stops) (\<lambda>s. s) stored_zlib (\<lambda>as. as) (\<lambda>_ _. Inr demo_backend) (\<lambda>_. Some demo_backend_conn)
     conf [] 0 False (demo_login_route\<lparr>rt_host_patterns := ps\<rparr>) caps hs k w = (Login_Relayed demo_backend l, k', w')"
proof -
  obtain st where rd: "read_frame MAX_PACKET_BYTES (cn_stream k) = (Inr (length_prefix [0, 0]), st)" "bs_ok st" "contents st = []"
    using read_frame_delivers [of "cn_stream k" "[0, 0]" "[]" MAX_PACKET_BYTES] MAX_PACKET_BYTES_sint ok by auto
  obtain c where p: "poll_read 8192 st = (Inr [], c)" using poll_read_flow [OF rd(2), of 8192] rd(3) by (metis append_is_Nil_conv)
  note r = demo_resolved [of ps caps]
  have rel: "relay interp lc stored_zlib [Upload_Ready True] R = (Ended, set_link (\<lambda>l. l\<lparr>ln_client := c\<rparr>) R)"
    if "ln_client (rl_link R) = st" for interp lc R using p that by simp
  obtain k1 g where k1: "login_proven (k\<lparr>cn_stream := st\<rparr>) (lw_gate w) = (k1, g)" by (metis prod.exhaust)
  then have "cn_stream k1 = st" by (auto simp: login_proven_def split: option.splits prod.splits)
  then show ?thesis
    using rd(1) r k1 fresh
    by (auto simp: handle_login_def metrics_handle_def key_for_def demo_login_route_def Status_Handler.demo_route_def within_def
      demo_backend_conn_def run_session_def register_voicechat_route_def Let_def begin_session_def rel
      simp del: relay.simps split: option.splits)
qed

lemma demo_login_runs:
  "\<exists>l k' w'. handle_login (\<lambda>stops _ _. hd stops) (\<lambda>s. s) stored_zlib (\<lambda>as. as) (\<lambda>_ _. Inr demo_backend) (\<lambda>_. Some demo_backend_conn)
     gate_config_default [] 0 False demo_login_route [] demo_hs demo_conn demo_login_world = (Login_Relayed demo_backend l, k', w')"
  using login_runs [of demo_conn demo_login_world gate_config_default "rt_host_patterns demo_login_route" "[]" demo_hs]
  by (simp add: demo_conn_def demo_login_world_def length_prefix_def)

text \<open>C20: a finished login leaves nothing behind. After a relayed login the connection counts of all backends and
  the voice references of all addresses are what they were, the player's session is gone from the
  registry and the pre-login slot has been released, provided the other connections keep their own
  balance meanwhile.\<close>

theorem login_leaves_nothing:
  assumes "handle_login interp lc z shuffle resolve dial conf msg now late route captures hs k w = (Login_Relayed a l, k', w')"
    and "\<And>b. dial a = Some b \<Longrightarrow> polite b" and "actives_pos (lw_runtime w)"
  shows "active_connections_of x (lw_runtime w') = active_connections_of x (lw_runtime w)
    \<and> voice_refs_of ip (lw_voice w') = voice_refs_of ip (lw_voice w)
    \<and> (\<forall>f stream name u. read_frame MAX_PACKET_BYTES (cn_stream k) = (Inr f, stream) \<longrightarrow>
         parse_login_start f = Some (name, Some u) \<longrightarrow> hm_get (lw_sessions w') u = None)
    \<and> (\<forall>g. cn_guard k' = Some g \<longrightarrow> pg_released g)"
  using assms(1)
proof (rule handle_login_relayed)
  fix f stream addrs r b
  let ?w = "w\<lparr>lw_gate := snd (login_proven (k\<lparr>cn_stream := stream\<rparr>) (lw_gate w)), lw_runtime := r\<rparr>"
  assume rd: "read_frame MAX_PACKET_BYTES (cn_stream k) = (Inr f, stream)"
    and k': "k' = fst (login_proven (k\<lparr>cn_stream := stream\<rparr>) (lw_gate w))" and b: "dial a = Some b"
    and rs: "resolve_ordered_backends shuffle resolve now route captures (lw_runtime w) = (Returned (Inr addrs), r)"
    and run: "run_session interp lc z resolve b a route captures hs k' f ?w = (Login_Relayed a l, w')"
  have r: "rr_active_connections r = rr_active_connections (lw_runtime w)" using resolve_active [OF rs] .
  then have "actives_pos (lw_runtime ?w)" using assms(3) by (simp add: actives_pos_def)
  note run_session_bookkeeping [OF run assms(2) [OF b] this]
  moreover have "pg_released g" if "cn_guard k' = Some g" for g
    using that by (auto simp: k' login_proven_def guard_done_def guard_release_def split: option.splits prod.splits if_splits)
  ultimately show ?thesis using rd r by (auto simp: active_connections_of_def)
qed

theorem login_leaves_nothing_witness:
  "\<exists>l k' w'. handle_login (\<lambda>stops _ _. hd stops) (\<lambda>s. s) stored_zlib (\<lambda>as. as) (\<lambda>_ _. Inr demo_backend) (\<lambda>_. Some demo_backend_conn)
       gate_config_default [] 0 False demo_login_route [] demo_hs demo_conn demo_login_world = (Login_Relayed demo_backend l, k', w')
     \<and> active_connections_of demo_backend (lw_runtime w') = 0"
proof -
  have ok: "polite demo_backend_conn" "actives_pos (lw_runtime demo_login_world)" "active_connections_of demo_backend (lw_runtime demo_login_world) = 0"
    by (simp_all add: polite_def demo_backend_conn_def actives_pos_def demo_login_world_def runtime_default_def active_connections_of_def unwrap_or_def)
  obtain l k' w' where run: "handle_login (\<lambda>stops _ _. hd stops) (\<lambda>s. s) stored_zlib (\<lambda>as. as) (\<lambda>_ _. Inr demo_backend) (\<lambda>_. Some demo_backend_conn)
       gate_config_default [] 0 False demo_login_route [] demo_hs demo_conn demo_login_world = (Login_Relayed demo_backend l, k', w')"
    using demo_login_runs by blast
  have "active_connections_of demo_backend (lw_runtime w') = active_connections_of demo_backend (lw_runtime demo_login_world)"
    using login_leaves_nothing [OF run _ ok(2)] ok(1) by auto
  then show ?thesis using run ok(3) by auto
qed



text \<open>A kick whose text makes the renderer panic ends the task before the bookkeeping: the connection stays
  counted and the player stays registered.\<close>

theorem panicking_kick_leaks_session:
  assumes "register_voicechat_route resolve (bc_dial_end b) route captures (cn_addr k) (hs_host hs) (lw_voice w) = Returned (registered, v)"
    and "sniff_backend_login z (bc_sniff b) (- 1) \<lparr>ln_client = cn_stream k, ln_backend = bs_new (bc_reader b), ln_to_client = [],
           ln_to_backend = dial_bytes route addr hs (cn_addr k) @ f\<rparr> = (Sniffed verdict, l1)"
    and "new_session b (parse_login_start f) hs (cn_addr k) addr (unwrap_or verdict (- 1, False)) = Some s"
    and "relay interp lc z (bc_relay b) \<lparr>rl_link = l1, rl_session = Some s, rl_counter = metrics_handle route (lw_metrics w)\<rparr> = (Crashed, r)"
    and "bc_others b = (\<lambda>w. w)"
  shows "\<exists>w'. run_session interp lc z resolve b addr route captures hs k f w = (Login_Crashed, w')
    \<and> active_connections_of addr (lw_runtime w') = active_connections_of addr (lw_runtime w) + 1
    \<and> hm_get (lw_sessions w') (ps_uuid s) = Some s"
  using assms
  by (simp add: run_session_def Let_def begin_session_def active_connections_of_def record_connect_opened_def unwrap_or_def sessions_put_def)

text \<open>A backend that is silent for ten seconds during the login leaves the session marked as uncompressed and
  unencrypted, and packets may be injected into it on that guess.\<close>

theorem silent_backend_guessed_plain:
  assumes "new_session b (Some (name, Some u)) hs client addr (unwrap_or verdict (- 1, False)) = Some s"
    and "sniff_backend_login z [Backend_Late] (- 1) l = (Sniffed verdict, l1)" and "hs_protocol_version hs = 776"
  shows "ps_compression_threshold s = - 1 \<and> can_inject_packet s"
proof -
  have "verdict = None" using assms(2) by simp
  moreover have "sint (776 :: i32) = 776" "sint (- 1 :: i32) = - 1" by simp_all
  ultimately show ?thesis
    using assms(1,3) by (auto simp: new_session_def unwrap_or_def can_inject_packet_def reconnect_supported_def bracket_for_def)
qed

end
