(* ===== verification/Gate_Server.thy ===== *)
theory Gate_Server
  imports Login_Handler
begin

text \<open>
  A connection from end to end, \<open>run\<close> and \<open>handle_connection\<close> of \<open>src/net/server.rs\<close>: admission
  (\<open>Admission\<close>), the choice of the route and of its runtime, and the status (\<open>Status_Handler\<close>) or login
  handler (\<open>Login_Handler\<close>), over all the tables they share.

  What the network, the clock and the libraries do is in two records: \<open>server_env\<close> for the process,
  \<open>conn_script\<close> for one connection, which also has the configuration in force when a login is late. The guards are dropped when the handler returns or panics.

  Shown: the handler of one connection is a run of the interleaved steps of \<open>Admission\<close> and leaves the
  counters of all ceilings as they were.
\<close>

section \<open>The connection handler\<close>

record 'e server_env =
  sn_interp :: interp
  sn_lc :: "str \<Rightarrow> str"
  sn_zlib :: "'e zlib"
  sn_parse :: "str \<Rightarrow> json option"
  sn_shuffle :: "socket_addr list \<Rightarrow> socket_addr list"
  sn_resolve :: "str \<Rightarrow> u16 \<Rightarrow> dns_result"
  sn_limit_message :: str

record conn_script =
  cs_accepted_at :: instant
  cs_header_at :: instant
  cs_header_late :: bool
  cs_hello_at :: instant
  cs_hello_late :: bool
  cs_request_at :: instant
  cs_request_late :: bool
  cs_ping_late :: bool
  cs_status :: status_env
  cs_dial :: "socket_addr \<Rightarrow> backend_conn option"
  cs_live_config :: gate_config

text \<open>\<open>srv_runtimes\<close> are the runtimes of the configured routes by their index.\<close>

record server_world =
  srv_gate :: gate_shared
  srv_runtimes :: "(nat, route_runtime) hmap"
  srv_cache :: ping_cache
  srv_sessions :: player_sessions
  srv_voice :: voice_routing
  srv_metrics :: metrics_store
  srv_tracker :: tracker

datatype conn_result = Conn_Refused refusal | Status_Served "bytes run" | Login_Ended login_outcome | Conn_Waiting

definition runtime_of :: "nat \<Rightarrow> server_world \<Rightarrow> route_runtime" where
  "runtime_of i w = unwrap_or (hm_get (srv_runtimes w) i) runtime_default"

text \<open>A runtime that is not in the table is a fresh one of the connection's own, and is lost with it.\<close>

definition put_runtime :: "nat \<Rightarrow> route_runtime \<Rightarrow> server_world \<Rightarrow> server_world" where
  "put_runtime i r w = (case hm_get (srv_runtimes w) i of None \<Rightarrow> w | Some _ \<Rightarrow> w\<lparr>srv_runtimes := hm_insert i r (srv_runtimes w)\<rparr>)"

definition login_view :: "nat \<Rightarrow> server_world \<Rightarrow> login_world" where
  "login_view i w = \<lparr>lw_gate = srv_gate w, lw_runtime = runtime_of i w, lw_sessions = srv_sessions w, lw_voice = srv_voice w,
     lw_metrics = srv_metrics w, lw_tracker = srv_tracker w\<rparr>"

definition put_login :: "nat \<Rightarrow> login_world \<Rightarrow> server_world \<Rightarrow> server_world" where
  "put_login i l w = (put_runtime i (lw_runtime l) w)\<lparr>srv_gate := lw_gate l, srv_sessions := lw_sessions l, srv_voice := lw_voice l,
     srv_metrics := lw_metrics l, srv_tracker := lw_tracker l\<rparr>"

definition conn_over :: "conn \<Rightarrow> server_world \<Rightarrow> server_world" where
  "conn_over k w = w\<lparr>srv_gate := close_conn k (srv_gate w)\<rparr>"

definition serve_status :: "'e server_env \<Rightarrow> conn_script \<Rightarrow> nat \<Rightarrow> route \<Rightarrow> str list \<Rightarrow> handshake \<Rightarrow> conn \<Rightarrow> server_world \<Rightarrow> conn_result \<times> server_world" where
  "serve_status e s i r captures h k w =
     (case handle_status (sn_interp e) (sn_lc e) (sn_parse e) (sn_shuffle e) (sn_resolve e) (cs_status s)
             (gc_login_timeout_millis (cn_cfg k) > 0 \<and> cs_request_late s) (cs_ping_late s) (cn_stream k) r captures h
             \<lparr>sw_cache = srv_cache w, sw_runtime = runtime_of i w\<rparr> of
        None \<Rightarrow> (Conn_Waiting, w)
      | Some (out, sw) \<Rightarrow> (Status_Served out, conn_over k ((put_runtime i (sw_runtime sw) w)\<lparr>srv_cache := sw_cache sw\<rparr>)))"

definition serve_login :: "'e server_env \<Rightarrow> conn_script \<Rightarrow> nat \<Rightarrow> route \<Rightarrow> str list \<Rightarrow> handshake \<Rightarrow> conn \<Rightarrow> server_world \<Rightarrow> conn_result \<times> server_world" where
  "serve_login e s i r captures h k w =
     (case handle_login (sn_interp e) (sn_lc e) (sn_zlib e) (sn_shuffle e) (sn_resolve e) (cs_dial s) (cs_live_config s) (sn_limit_message e)
             (cs_request_at s) (cs_request_late s) r captures h k (login_view i w) of
        (outcome, k, l) \<Rightarrow>
          if outcome = Login_Pending then (Conn_Waiting, put_login i l w)
          else (Login_Ended outcome, conn_over k (put_login i l w)))"

definition dispatch :: "'e server_env \<Rightarrow> conn_script \<Rightarrow> conn \<Rightarrow> server_world \<Rightarrow> conn_result \<times> server_world" where
  "dispatch e s k w =
     (case cn_phase k of
        Dispatched i r captures h \<Rightarrow>
          if hs_next_state h = 1 then serve_status e s i r captures h k w else serve_login e s i r captures h k w
      | _ \<Rightarrow> (Conn_Waiting, w))"

definition handle_connection :: "'e server_env \<Rightarrow> gate_config \<Rightarrow> conn_script \<Rightarrow> socket_addr \<Rightarrow> reader \<Rightarrow> server_world \<Rightarrow> conn_result \<times> server_world" where
  "handle_connection e conf s peer inner w =
     (case accept_connection conf (cs_accepted_at s) peer inner (srv_gate w) of
        (Refused why, g) \<Rightarrow> (Conn_Refused why, w\<lparr>srv_gate := g\<rparr>)
      | (Continue k, g) \<Rightarrow>
          (case (if gc_proxy_protocol conf then read_proxy_header (cs_header_at s) (cs_header_late s) k g else (Continue k, g)) of
             (Refused why, g) \<Rightarrow> (Conn_Refused why, w\<lparr>srv_gate := g\<rparr>)
           | (Continue k, g) \<Rightarrow>
               (case read_login_handshake (sn_lc e) (cs_hello_at s) (cs_hello_late s) k g of
                  (Refused why, g) \<Rightarrow> (Conn_Refused why, w\<lparr>srv_gate := g\<rparr>)
                | (Continue k, g) \<Rightarrow> dispatch e s k (w\<lparr>srv_gate := g\<rparr>))))"

text \<open>The accept loop: the error that keeps the server from listening, or the connections it spawns a task
  for, in order. A failed accept is skipped.\<close>

datatype accept_event = Accepted socket_addr reader | Accept_Failed

definition server_run :: "externs \<Rightarrow> gate_config \<Rightarrow> (socket_addr \<Rightarrow> str option) \<Rightarrow> accept_event list \<Rightarrow> str + (socket_addr \<times> reader) list" where
  "server_run ex conf bind_error events =
     bind_result (bind_address ex conf) (\<lambda>a.
       case bind_error a of
         Some er \<Rightarrow> Inl er
       | None \<Rightarrow> Inr (List.map_filter (\<lambda>e. case e of Accepted peer inner \<Rightarrow> Some (peer, inner) | Accept_Failed \<Rightarrow> None) events))"

section \<open>Runs of the interleaved steps\<close>

text \<open>The other connections' work during a session leaves this one's admission tables alone.\<close>

definition undisturbed :: "conn_script \<Rightarrow> bool" where
  "undisturbed s \<longleftrightarrow> (\<forall>a b l. cs_dial s a = Some b \<longrightarrow> lw_gate (bc_others b l) = lw_gate l)"

lemma run_session_gate:
  assumes "\<And>l. lw_gate (bc_others b l) = lw_gate l"
  shows "lw_gate (snd (run_session interp lc z resolve b addr route captures hs k f w)) = lw_gate w"
  using assms
  by (auto simp: run_session_def Let_def begin_session_def session_over_def split: run.splits prod.splits sniff_state.splits option.splits relay_status.splits)

lemma login_loop_gate:
  assumes "undisturbed s"
  shows "lw_gate (snd (login_loop interp lc z resolve (cs_dial s) addrs route captures hs k f w)) = lw_gate w"
  using assms by (induction addrs) (auto simp: undisturbed_def run_session_gate split: option.splits)

lemma login_proven_stream:
  "login_proven (k\<lparr>cn_stream := st\<rparr>) g = ((fst (login_proven k g))\<lparr>cn_stream := st\<rparr>, snd (login_proven k g))"
  by (auto simp: login_proven_def split: option.splits prod.splits)

lemma close_conn_stream [simp]: "close_conn (k\<lparr>cn_stream := st\<rparr>) g = close_conn k g"
  by (simp add: close_conn_def)

text \<open>What a login does to the admission tables: nothing, a violation, or the release of the pre-login slot.\<close>

lemma handle_login_gate:
  assumes "handle_login interp lc z shuffle resolve (cs_dial s) conf msg now late route captures hs k w = (outcome, k', w')" "undisturbed s"
  shows "(\<forall>g. close_conn k' g = close_conn k g) \<and> lw_gate w' \<in> {lw_gate w, record_ip_violation conf now (ip_of (cn_addr k)) (lw_gate w)}
    \<or> (\<forall>g. close_conn k' g = close_conn (fst (login_proven k (lw_gate w))) g) \<and> lw_gate w' = snd (login_proven k (lw_gate w))"
proof -
  have loop: "lw_gate u' = lw_gate u" if "login_loop interp lc z resolve (cs_dial s) addrs route captures hs kk f u = (oc, u')" for addrs kk f u oc u'
    using login_loop_gate [OF assms(2)] that by (metis snd_conv)
  show ?thesis
    using assms(1)
    by (auto simp: handle_login_def login_proven_stream Let_def dest: loop split: if_splits prod.splits option.splits sum.splits run.splits)
qed

lemma dispatch_steps:
  assumes "dispatch e s k w = (res, w')" "res \<noteq> Conn_Waiting" "undisturbed s" "conns c = Some k" "cn_phase k = Dispatched i r captures h"
  shows "(gate_step (sn_lc e))\<^sup>*\<^sup>* (srv_gate w, conns) (srv_gate w', conns(c := None))"
proof (cases "hs_next_state h = 1")
  case True
  then have "srv_gate w' = close_conn k (srv_gate w)"
    using assms(1,2,5) by (auto simp: dispatch_def serve_status_def conn_over_def put_runtime_def split: option.splits)
  then show ?thesis using gate_step.finished [of conns c k i r captures h "sn_lc e" "srv_gate w"] assms(4,5) by auto
next
  case False
  obtain outcome k' l where l: "handle_login (sn_interp e) (sn_lc e) (sn_zlib e) (sn_shuffle e) (sn_resolve e) (cs_dial s) (cs_live_config s) (sn_limit_message e)
             (cs_request_at s) (cs_request_late s) r captures h k (login_view i w) = (outcome, k', l)" by (metis prod.exhaust)
  then have w': "srv_gate w' = close_conn k' (lw_gate l)"
    using False assms(1,2,5) by (auto simp: dispatch_def serve_login_def conn_over_def put_login_def split: if_splits)
  have v: "lw_gate (login_view i w) = srv_gate w" by (simp add: login_view_def)
  from handle_login_gate [OF l assms(3)] consider
      (same) "srv_gate w' = close_conn k (srv_gate w)"
    | (late) "srv_gate w' = close_conn k (record_ip_violation (cs_live_config s) (cs_request_at s) (ip_of (cn_addr k)) (srv_gate w))"
    | (proven) "srv_gate w' = close_conn (fst (login_proven k (srv_gate w))) (snd (login_proven k (srv_gate w)))"
    using w' v by auto
  then show ?thesis
  proof cases
    case same
    then show ?thesis using gate_step.finished [of conns c k i r captures h "sn_lc e" "srv_gate w"] assms(4,5) by auto
  next
    case late
    let ?mid = "(record_ip_violation (cs_live_config s) (cs_request_at s) (ip_of (cn_addr k)) (srv_gate w), conns)"
    have "gate_step (sn_lc e) (srv_gate w, conns) ?mid" by (rule gate_step.stalled [of conns c k i r captures h, OF assms(4,5)])
    moreover have "gate_step (sn_lc e) ?mid (srv_gate w', conns(c := None))"
      unfolding late by (rule gate_step.finished [of conns c k i r captures h, OF assms(4,5)])
    ultimately show ?thesis by (meson converse_rtranclp_into_rtranclp r_into_rtranclp)
  next
    case proven
    obtain k1 g1 where p: "login_proven k (srv_gate w) = (k1, g1)" by (metis prod.exhaust)
    then have k1: "cn_phase k1 = Dispatched i r captures h" using assms(5) by (auto simp: login_proven_def split: option.splits prod.splits)
    have "gate_step (sn_lc e) (srv_gate w, conns) (g1, conns(c \<mapsto> k1))" by (rule gate_step.proven [of conns c k i r captures h, OF assms(4,5) p])
    moreover have "gate_step (sn_lc e) (g1, conns(c \<mapsto> k1)) (srv_gate w', conns(c := None))"
      using gate_step.finished [of "conns(c \<mapsto> k1)" c k1 i r captures h, OF _ k1] proven p by simp
    ultimately show ?thesis by (meson converse_rtranclp_into_rtranclp r_into_rtranclp)
  qed
qed

text \<open>What an admitted connection starts with.\<close>

lemma prelogin_fresh:
  "acquire_prelogin now k0 s = (Continue k, s') \<Longrightarrow> cn_phase k = Reading_Handshake \<and> cn_cfg k = cn_cfg k0 \<and> cn_addr k = cn_addr k0 \<and> cn_stream k = cn_stream k0"
  by (auto simp: acquire_prelogin_def Let_def split: prod.splits option.splits)

lemma limit_rate_fresh:
  "limit_rate now k0 s = (Continue k, s') \<Longrightarrow> cn_phase k = Reading_Handshake \<and> cn_cfg k = cn_cfg k0 \<and> cn_addr k = cn_addr k0 \<and> cn_stream k = cn_stream k0"
  using prelogin_fresh by (auto simp: limit_rate_def Let_def split: prod.splits bool.splits if_splits)

lemma accept_fresh:
  assumes "accept_connection conf now peer inner st = (Continue k, st')"
  shows "cn_cfg k = conf \<and> cn_addr k = peer \<and> cn_stream k = bs_new inner
    \<and> cn_phase k = (if gc_proxy_protocol conf then Reading_Header else Reading_Handshake)"
proof -
  have "cn_cfg k = conf \<and> cn_addr k = peer \<and> cn_stream k = bs_new inner
    \<and> cn_phase k = (if gc_proxy_protocol conf then Reading_Header else Reading_Handshake)" if "enter_gate conf now peer inner s = (Continue k, st')" for s
    using that limit_rate_fresh by (fastforce simp: enter_gate_def Let_def split: prod.splits option.splits if_splits)
  then show ?thesis using assms by (auto simp: accept_connection_def split: if_splits prod.splits bool.splits)
qed

lemma header_phase: "read_proxy_header now late k st = (Continue k', st') \<Longrightarrow> cn_phase k' = Reading_Handshake"
  by (auto simp: read_proxy_header_def Let_def dest: prelogin_fresh split: prod.splits option.splits sum.splits bool.splits if_splits)

lemma handle_connection_steps:
  assumes "handle_connection e conf s peer inner w = (res, w')" "res \<noteq> Conn_Waiting" "undisturbed s" "conns c = None"
  shows "(gate_step (sn_lc e))\<^sup>*\<^sup>* (srv_gate w, conns) (srv_gate w', conns)"
proof -
  have restored: "(conns(c \<mapsto> k))(c := None) = conns" "conns(c := None) = conns" for k using assms(4) by auto
  obtain p1 g1 where a: "accept_connection conf (cs_accepted_at s) peer inner (srv_gate w) = (p1, g1)" by (metis prod.exhaust)
  have s1: "gate_step (sn_lc e) (srv_gate w, conns) (settle c conns (p1, g1))" using gate_step.accept [of conns c, OF assms(4)] a by metis
  show ?thesis
  proof (cases p1)
    case (Refused why)
    then have "w' = w\<lparr>srv_gate := g1\<rparr>" using assms(1) a by (simp add: handle_connection_def)
    then show ?thesis using s1 Refused restored by auto
  next
    case (Continue k)
    define p2g where "p2g = (if gc_proxy_protocol conf then read_proxy_header (cs_header_at s) (cs_header_late s) k g1 else (Continue k, g1))"
    obtain p2 g2 where h: "p2g = (p2, g2)" by (metis prod.exhaust)
    have ph: "cn_phase k = (if gc_proxy_protocol conf then Reading_Header else Reading_Handshake)"
      using accept_fresh a Continue by blast
    have s2: "(gate_step (sn_lc e))\<^sup>*\<^sup>* (srv_gate w, conns) (settle c (conns(c \<mapsto> k)) (p2, g2))"
    proof (cases "gc_proxy_protocol conf")
      case True
      then have "gate_step (sn_lc e) (g1, conns(c \<mapsto> k)) (settle c (conns(c \<mapsto> k)) (p2, g2))"
        using gate_step.header [of "conns(c \<mapsto> k)" c k "sn_lc e" g1 "cs_header_at s" "cs_header_late s"] ph h by (simp add: p2g_def)
      with s1 Continue show ?thesis by (auto intro: converse_rtranclp_into_rtranclp)
    qed (use s1 Continue h in \<open>auto simp: p2g_def\<close>)
    show ?thesis
    proof (cases p2)
      case (Refused why)
      then have "w' = w\<lparr>srv_gate := g2\<rparr>" using assms(1) a Continue h by (simp add: handle_connection_def p2g_def)
      then show ?thesis using s2 Refused restored by auto
    next
      case hello: (Continue k2)
      then have ph2: "cn_phase k2 = Reading_Handshake" using header_phase h ph by (auto simp: p2g_def split: if_splits)
      obtain p3 g3 where r: "read_login_handshake (sn_lc e) (cs_hello_at s) (cs_hello_late s) k2 g2 = (p3, g3)" by (metis prod.exhaust)
      have "gate_step (sn_lc e) (g2, conns(c \<mapsto> k2)) (settle c (conns(c \<mapsto> k2)) (p3, g3))"
        using gate_step.hello [of "conns(c \<mapsto> k2)" c k2 "sn_lc e" g2 "cs_hello_at s" "cs_hello_late s"] ph2 r by simp
      with s2 hello have s3: "(gate_step (sn_lc e))\<^sup>*\<^sup>* (srv_gate w, conns) (settle c (conns(c \<mapsto> k2)) (p3, g3))" by (simp add: rtranclp.rtrancl_into_rtrancl)
      have run: "handle_connection e conf s peer inner w = (case p3 of Refused why \<Rightarrow> (Conn_Refused why, w\<lparr>srv_gate := g3\<rparr>) | Continue k \<Rightarrow> dispatch e s k (w\<lparr>srv_gate := g3\<rparr>))"
        using a Continue h hello r by (simp add: handle_connection_def p2g_def)
      show ?thesis
      proof (cases p3)
        case (Refused why)
        then show ?thesis using s3 restored run assms(1) by auto
      next
        case disp: (Continue k3)
        obtain i rt caps hs where "cn_phase k3 = Dispatched i rt caps hs" using hello_slot_move [OF r] disp by blast
        then have "(gate_step (sn_lc e))\<^sup>*\<^sup>* (g3, conns(c \<mapsto> k3)) (srv_gate w', (conns(c \<mapsto> k3))(c := None))"
          using dispatch_steps [of e s k3 "w\<lparr>srv_gate := g3\<rparr>" res w' "conns(c \<mapsto> k3)" c i rt caps hs] assms(1-3) run disp by simp
        then show ?thesis using s3 disp restored by (auto intro: rtranclp_trans)
      qed
    qed
  qed
qed

section \<open>Properties\<close>

text \<open>C11: a finished connection has given everything back. Whatever a client sends, and whether it is refused,
  pinged or logged in, the handler of one connection is a run of the admission steps; the number of open
  connections and the pre-login count of every address are afterwards what they were before.\<close>

theorem connection_gives_back:
  assumes "handle_connection e conf s peer inner w = (res, w')" "res \<noteq> Conn_Waiting" "undisturbed s"
    and "gate_inv (srv_gate w, conns)" "conns c = None"
  shows "(gate_step (sn_lc e))\<^sup>*\<^sup>* (srv_gate w, conns) (srv_gate w', conns) \<and> gs_global (srv_gate w') = gs_global (srv_gate w)
    \<and> prelogin_count (gs_prelogin (srv_gate w')) ip = prelogin_count (gs_prelogin (srv_gate w)) ip"
proof -
  note steps = handle_connection_steps [where conns = conns, OF assms(1-3,5)]
  then have "gate_inv (srv_gate w', conns)" using assms(4) by (induction rule: rtranclp_induct) (auto intro: gate_step_inv)
  then show ?thesis using steps assms(4) by (auto simp: gate_inv_def prelogin_inv_def)
qed

definition demo_server :: "unit server_env" where
  "demo_server = \<lparr>sn_interp = (\<lambda>stops _ _. hd stops), sn_lc = (\<lambda>s. s), sn_zlib = stored_zlib, sn_parse = (\<lambda>_. None), sn_shuffle = (\<lambda>as. as),
     sn_resolve = (\<lambda>_ _. Inr demo_backend), sn_limit_message = []\<rparr>"

definition demo_script :: conn_script where
  "demo_script = \<lparr>cs_accepted_at = 0, cs_header_at = 0, cs_header_late = False, cs_hello_at = 0, cs_hello_late = False, cs_request_at = 0,
     cs_request_late = False, cs_ping_late = False, cs_status = demo_env, cs_dial = (\<lambda>_. Some demo_backend_conn), cs_live_config = gate_config_default\<rparr>"

definition demo_server_world :: server_world where
  "demo_server_world = \<lparr>srv_gate = gate_start, srv_runtimes = [(0, runtime_default)], srv_cache = \<lparr>pc_entries = [], pc_down_until = []\<rparr>, srv_sessions = [],
     srv_voice = [], srv_metrics = \<lparr>ms_counters = [], ms_flush_interval = 0\<rparr>, srv_tracker = tracker_default\<rparr>"

lemma demo_accepted:
  "\<exists>k st. accept_connection (gate_config_default\<lparr>gc_routes := rs\<rparr>) 0 demo_addr inner gate_start = (Continue k, st)"
  by (simp add: accept_connection_def gate_config_default_def auto_ban_default_def connection_throttle_default_def
      enter_gate_def limit_rate_def acquire_prelogin_def check_ban_def gate_start_def gc_guard_acquire_def guard_acquire_def is_banned_def
      rate_try_acquire_def Let_def prelogin_try_acquire_def unwrap_or_def)

theorem connection_gives_back_witness:
  "\<exists>w'. handle_connection demo_server (gate_config_default\<lparr>gc_routes := []\<rparr>) demo_script demo_addr [] demo_server_world = (Conn_Refused Client_Left, w')
     \<and> gs_global (srv_gate w') = 0"
proof -
  let ?conf = "gate_config_default\<lparr>gc_routes := []\<rparr>"
  obtain k g where a: "accept_connection ?conf 0 demo_addr [] gate_start = (Continue k, g)" using demo_accepted by blast
  have "bs_read_handshake (bs_new []) = (Inl Eof, bs_new [])"
    by (subst bs_read_handshake.simps) (simp add: bs_new_def unread_def fill_more_def try_parse_def read_var_int_def)
  then have "read_login_handshake (\<lambda>s. s) 0 False k g = (Refused Client_Left, close_conn k g)"
    using accept_fresh [OF a] by (simp add: read_login_handshake_def Let_def within_def)
  moreover have "\<not> gc_proxy_protocol ?conf" by (simp add: gate_config_default_def)
  ultimately have run: "handle_connection demo_server ?conf demo_script demo_addr [] demo_server_world
      = (Conn_Refused Client_Left, demo_server_world\<lparr>srv_gate := close_conn k g\<rparr>)"
    using a by (simp add: handle_connection_def demo_server_def demo_script_def demo_server_world_def)
  have "undisturbed demo_script" by (simp add: undisturbed_def demo_script_def demo_backend_conn_def)
  moreover have "gate_inv (srv_gate demo_server_world, Map.empty)" using gate_reachable_inv by (simp add: demo_server_world_def)
  ultimately have "gs_global (srv_gate (demo_server_world\<lparr>srv_gate := close_conn k g\<rparr>)) = gs_global (srv_gate demo_server_world)"
    using connection_gives_back [OF run, of Map.empty 0] by simp
  then show ?thesis using run by (simp add: demo_server_world_def gate_start_def)
qed

end
