(* ===== verification/Udp_Traffic.thy ===== *)
theory Udp_Traffic
  imports Udp_Relay "HOL-Library.Sublist"
begin

text \<open>
  The traffic of the UDP forwarder, \<open>src/udp/proxy.rs\<close>: the receive loop \<open>run\<close> with the backend sockets, the
  reader task of each session and the reaper around the tables of \<open>Udp_Relay\<close>. The world is a list of
  events, one per point where a task wakes up; a turn is what the code does until the next wait and
  yields the datagrams it sends. Backend sockets are numbered in the order they are opened.

  Shown: what leaves a socket came from its client, in order and unchanged; what reaches a client came
  from its own sockets; the tables go through steps of \<open>Udp_Relay\<close> only, so its limits hold here.
\<close>

definition MAX_DATAGRAM_SIZE :: nat where "MAX_DATAGRAM_SIZE = 65527"

text \<open>A backend socket with the client its reader task answers, the session's dead flag and whether the
  reader task still runs.\<close>

record udp_socket =
  sk_client :: socket_addr
  sk_dead :: bool
  sk_reading :: bool

text \<open>\<open>uw_live\<close> holds the socket of each session in the table; \<open>uw_opening\<close> is the datagram for which a session
  is being opened, \<open>uw_hand\<close> the one about to be forwarded. The receive loop awaits its handler, so it
  reads the next datagram only when neither is there.\<close>

record udp_world =
  uw_proxy :: udp_proxy
  uw_sockets :: "udp_socket list"
  uw_live :: "(socket_addr, nat) hmap"
  uw_opening :: "bytes option"
  uw_hand :: "(nat \<times> bytes) option"

definition udp_world_new :: udp_world where
  "udp_world_new = \<lparr>uw_proxy = udp_proxy_new, uw_sockets = [], uw_live = [], uw_opening = None, uw_hand = None\<rparr>"

datatype udp_event =
    Received instant socket_addr bytes
  | Receive_Error
  | Socket_Ready bool instant
  | Forward_Turn
  | Backend_Sent instant nat bytes
  | Backend_Error nat
  | Reaper_Tick instant

datatype udp_output = To_Backend nat bytes | To_Client socket_addr bytes

definition udp_receive :: "udp_throttle_config \<Rightarrow> instant \<Rightarrow> socket_addr \<Rightarrow> bytes \<Rightarrow> udp_world \<Rightarrow> udp_world" where
  "udp_receive throttle now sender content w =
     (if uw_opening w \<noteq> None \<or> uw_hand w \<noteq> None then w
      else
        (case udp_client_packet throttle now sender content (uw_proxy w) of
           (Forwarded c, p) \<Rightarrow>
             w\<lparr>uw_proxy := p, uw_hand := map_option (\<lambda>sid. (sid, c)) (hm_get (uw_live w) sender)\<rparr>
         | (Opening, p) \<Rightarrow> w\<lparr>uw_proxy := p, uw_opening := Some content\<rparr>
         | (Dropped, p) \<Rightarrow> w\<lparr>uw_proxy := p\<rparr>))"

definition udp_socket_ready :: "bool \<Rightarrow> instant \<Rightarrow> udp_world \<Rightarrow> udp_world" where
  "udp_socket_ready ok now w =
     (case (uw_opening w, upx_opening (uw_proxy w)) of
        (Some content, Some (sender, _)) \<Rightarrow>
          (case udp_open_finish ok now content (uw_proxy w) of
             (Forwarded c, p) \<Rightarrow>
               let sid = length (uw_sockets w) in
               w\<lparr>uw_proxy := p, uw_sockets := uw_sockets w @ [\<lparr>sk_client = sender, sk_dead = False, sk_reading = True\<rparr>],
                 uw_live := hm_insert sender sid (uw_live w), uw_opening := None, uw_hand := Some (sid, c)\<rparr>
           | (_, p) \<Rightarrow> w\<lparr>uw_proxy := p, uw_opening := None\<rparr>)
      | _ \<Rightarrow> w)"

definition udp_forward :: "udp_world \<Rightarrow> udp_output list \<times> udp_world" where
  "udp_forward w =
     (case uw_hand w of
        None \<Rightarrow> ([], w)
      | Some (sid, content) \<Rightarrow>
          (if sk_dead (uw_sockets w ! sid) then [] else [To_Backend sid content], w\<lparr>uw_hand := None\<rparr>))"

definition stop_reader :: "nat \<Rightarrow> udp_world \<Rightarrow> udp_world" where
  "stop_reader sid w = w\<lparr>uw_sockets := (uw_sockets w)[sid := (uw_sockets w ! sid)\<lparr>sk_reading := False\<rparr>]\<rparr>"

definition udp_reader_turn :: "instant \<Rightarrow> nat \<Rightarrow> bytes \<Rightarrow> udp_world \<Rightarrow> udp_output list \<times> udp_world" where
  "udp_reader_turn now sid content w =
     (if sid < length (uw_sockets w) \<and> sk_reading (uw_sockets w ! sid) then
        let s = uw_sockets w ! sid in
        if sk_dead s then ([], stop_reader sid w)
        else ([To_Client (sk_client s) content], w\<lparr>uw_proxy := udp_backend_reply now (sk_client s) (uw_proxy w)\<rparr>)
      else ([], w))"

text \<open>The sessions the reaper removed are dead, and their reader tasks aborted.\<close>

definition udp_reap :: "udp_throttle_config \<Rightarrow> instant \<Rightarrow> udp_world \<Rightarrow> udp_world" where
  "udp_reap throttle now w =
     (let p = udp_evict_stale throttle now (uw_proxy w);
          kept = (\<lambda>a. hm_get (upx_sessions p) a \<noteq> None);
          close = (\<lambda>s. if kept (sk_client s) then s else s\<lparr>sk_dead := True, sk_reading := False\<rparr>) in
      w\<lparr>uw_proxy := p, uw_live := hm_retain (\<lambda>a _. kept a) (uw_live w), uw_sockets := map close (uw_sockets w)\<rparr>)"

fun udp_turn :: "udp_throttle_config \<Rightarrow> udp_event \<Rightarrow> udp_world \<Rightarrow> udp_output list \<times> udp_world" where
  "udp_turn throttle (Received now sender content) w = ([], udp_receive throttle now sender (take MAX_DATAGRAM_SIZE content) w)"
| "udp_turn throttle Receive_Error w = ([], w)"
| "udp_turn throttle (Socket_Ready ok now) w = ([], udp_socket_ready ok now w)"
| "udp_turn throttle Forward_Turn w = udp_forward w"
| "udp_turn throttle (Backend_Sent now sid content) w = udp_reader_turn now sid (take MAX_DATAGRAM_SIZE content) w"
| "udp_turn throttle (Backend_Error sid) w = ([], if sid < length (uw_sockets w) then stop_reader sid w else w)"
| "udp_turn throttle (Reaper_Tick now) w = ([], udp_reap throttle now w)"

fun udp_traffic :: "udp_throttle_config \<Rightarrow> udp_event list \<Rightarrow> udp_world \<Rightarrow> udp_output list \<times> udp_world" where
  "udp_traffic throttle [] w = ([], w)"
| "udp_traffic throttle (e # es) w =
     (case udp_turn throttle e w of (out, w) \<Rightarrow>
       (case udp_traffic throttle es w of (outs, w) \<Rightarrow> (out @ outs, w)))"

text \<open>\<open>run\<close>: what keeps the forwarder from starting, or what it sends.\<close>

definition udp_bind_address :: "externs \<Rightarrow> udp_proxy_config \<Rightarrow> str + socket_addr" where
  "udp_bind_address ex c = parse_host_port ex (up_bind c) 25565"

definition udp_backend_address :: "externs \<Rightarrow> udp_proxy_config \<Rightarrow> str + socket_addr" where
  "udp_backend_address ex c = parse_host_port ex (up_backend c) 25565"

definition udp_run :: "externs \<Rightarrow> udp_proxy_config \<Rightarrow> (socket_addr \<Rightarrow> str option) \<Rightarrow> udp_throttle_config \<Rightarrow> udp_event list \<Rightarrow> str + udp_output list" where
  "udp_run ex c bind_error throttle es =
     bind_result (udp_bind_address ex c) (\<lambda>bind_addr. bind_result (udp_backend_address ex c) (\<lambda>backend_addr.
       case bind_error bind_addr of
         Some er \<Rightarrow> Inl er
       | None \<Rightarrow> Inr (fst (udp_traffic throttle es udp_world_new))))"

section \<open>Bookkeeping\<close>

text \<open>Sessions in the table and sockets in use correspond to each other.\<close>

definition traffic_inv :: "udp_world \<Rightarrow> bool" where
  "traffic_inv w \<longleftrightarrow> hm_ok (uw_live w)
     \<and> (\<forall>a. hm_get (uw_live w) a = None \<longleftrightarrow> hm_get (upx_sessions (uw_proxy w)) a = None)
     \<and> (\<forall>a sid. hm_get (uw_live w) a = Some sid \<longleftrightarrow> sid < length (uw_sockets w) \<and> sk_client (uw_sockets w ! sid) = a \<and> \<not> sk_dead (uw_sockets w ! sid))
     \<and> (uw_opening w = None \<longleftrightarrow> upx_opening (uw_proxy w) = None)
     \<and> (\<forall>sender ip. upx_opening (uw_proxy w) = Some (sender, ip) \<longrightarrow> hm_get (upx_sessions (uw_proxy w)) sender = None)
     \<and> (\<forall>sid c. uw_hand w = Some (sid, c) \<longrightarrow> sid < length (uw_sockets w))"

lemma close_session_get:
  "hm_get (upx_sessions (udp_close_session a p)) b = (if b = a then None else hm_get (upx_sessions p) b)"
  "upx_opening (udp_close_session a p) = upx_opening p"
  by (auto simp: udp_close_session_def split: option.splits)

lemma evict_stale_get:
  "hm_get (upx_sessions (udp_evict_stale throttle now p)) b \<in> {None, hm_get (upx_sessions p) b}"
  "upx_opening (udp_evict_stale throttle now p) = upx_opening p"
proof -
  have "hm_get (upx_sessions (fold udp_close_session as p)) b = (if b \<in> set as then None else hm_get (upx_sessions p) b)
    \<and> upx_opening (fold udp_close_session as p) = upx_opening p" for as
    by (induction as arbitrary: p) (simp_all add: close_session_get)
  then show "hm_get (upx_sessions (udp_evict_stale throttle now p)) b \<in> {None, hm_get (upx_sessions p) b}"
    "upx_opening (udp_evict_stale throttle now p) = upx_opening p" by (auto simp: udp_evict_stale_def)
qed

lemma receive_inv: "traffic_inv w \<Longrightarrow> traffic_inv (udp_receive throttle now sender content w)"
  by (auto simp: traffic_inv_def udp_receive_def udp_client_packet_def Let_def split: option.splits prod.splits bool.splits if_splits)

lemma ready_inv: "traffic_inv w \<Longrightarrow> traffic_inv (udp_socket_ready ok now w)"
  by (auto simp: traffic_inv_def udp_socket_ready_def udp_open_finish_def Let_def nth_append less_Suc_eq split: option.splits prod.splits if_splits)
    (metis option.distinct(1))

lemma forward_inv: "traffic_inv w \<Longrightarrow> traffic_inv (snd (udp_forward w))"
  by (auto simp: traffic_inv_def udp_forward_def split: option.splits)

lemma stop_reader_inv: "traffic_inv w \<Longrightarrow> traffic_inv (stop_reader sid w)"
  by (cases "sid < length (uw_sockets w)") (auto simp: traffic_inv_def stop_reader_def nth_list_update list_update_beyond)

lemma backend_reply_get:
  "hm_get (upx_sessions (udp_backend_reply now c p)) b = None \<longleftrightarrow> hm_get (upx_sessions p) b = None"
  "upx_opening (udp_backend_reply now c p) = upx_opening p"
  by (auto simp: udp_backend_reply_def split: option.splits)

lemma reader_inv: "traffic_inv w \<Longrightarrow> traffic_inv (snd (udp_reader_turn now sid content w))"
  using stop_reader_inv [of w sid] by (auto simp: traffic_inv_def udp_reader_turn_def Let_def backend_reply_get)

lemma reap_inv:
  assumes "traffic_inv w"
  shows "traffic_inv (udp_reap throttle now w)"
proof -
  define p where "p = udp_evict_stale throttle now (uw_proxy w)"
  define kept where "kept a \<longleftrightarrow> hm_get (upx_sessions p) a \<noteq> None" for a
  define close where "close s = (if kept (sk_client s) then s else s\<lparr>sk_dead := True, sk_reading := False\<rparr>)" for s :: udp_socket
  have w: "udp_reap throttle now w = w\<lparr>uw_proxy := p, uw_live := hm_retain (\<lambda>a _. kept a) (uw_live w), uw_sockets := map close (uw_sockets w)\<rparr>"
    by (simp add: udp_reap_def Let_def p_def kept_def close_def [abs_def])
  have p: "hm_get (upx_sessions p) a \<in> {None, hm_get (upx_sessions (uw_proxy w)) a}" "upx_opening p = upx_opening (uw_proxy w)" for a
    unfolding p_def by (rule evict_stale_get)+
  have "hm_ok (uw_live w)" using assms by (simp add: traffic_inv_def)
  then have live: "hm_get (uw_live (udp_reap throttle now w)) a = (if kept a then hm_get (uw_live w) a else None)" for a
    by (simp add: w hm_get_retain split: option.splits)
  have sock: "sk_client (close s) = sk_client s" "sk_dead (close s) \<longleftrightarrow> sk_dead s \<or> \<not> kept (sk_client s)" for s :: udp_socket by (auto simp: close_def)
  have sessions: "hm_get (uw_live w) a = None \<longleftrightarrow> hm_get (upx_sessions (uw_proxy w)) a = None" for a using assms by (simp add: traffic_inv_def)
  have "hm_get (uw_live (udp_reap throttle now w)) a = None \<longleftrightarrow> hm_get (upx_sessions p) a = None" for a
    using live [of a] p(1) [of a] sessions [of a] by (auto simp: kept_def)
  moreover have "hm_get (uw_live (udp_reap throttle now w)) a = Some sid \<longleftrightarrow>
      sid < length (map close (uw_sockets w)) \<and> sk_client (map close (uw_sockets w) ! sid) = a \<and> \<not> sk_dead (map close (uw_sockets w) ! sid)" for a sid
    using assms by (auto simp: live sock traffic_inv_def)
  moreover have "hm_get (upx_sessions p) sender = None" if "upx_opening p = Some (sender, ip)" for sender ip
    using that assms p(1) [of sender] p(2) by (auto simp: traffic_inv_def)
  ultimately show ?thesis using assms p(2) unfolding traffic_inv_def by (simp add: w)
qed

lemma turn_inv: "traffic_inv w \<Longrightarrow> traffic_inv (snd (udp_turn throttle e w))"
  by (cases e) (simp_all add: receive_inv ready_inv forward_inv stop_reader_inv reader_inv reap_inv)

section \<open>The tables go through steps of the forwarder\<close>

lemma turn_simulated:
  assumes "traffic_inv w"
  shows "(udp_step throttle)\<^sup>*\<^sup>* (uw_proxy w) (uw_proxy (snd (udp_turn throttle e w)))"
proof (cases e)
  case (Received now sender content)
  then show ?thesis
    using assms udp_step.packet [of "uw_proxy w" throttle now sender "take MAX_DATAGRAM_SIZE content"]
    by (auto simp: udp_receive_def traffic_inv_def split: prod.splits packet_outcome.splits)
next
  case (Socket_Ready ok now)
  then show ?thesis
    using udp_step.opened [of ok now _ "uw_proxy w"]
    by (auto simp: udp_socket_ready_def Let_def split: prod.splits packet_outcome.splits option.splits)
next
  case (Backend_Sent now sid content)
  then show ?thesis by (auto simp: udp_reader_turn_def Let_def stop_reader_def intro: udp_step.reply)
next
  case (Reaper_Tick now)
  then show ?thesis by (auto simp: udp_reap_def Let_def intro: udp_step.reap)
qed (simp_all add: udp_forward_def stop_reader_def split: option.splits prod.splits)

section \<open>Traces\<close>

lemma udp_traffic_append:
  "udp_traffic throttle (es @ [e]) w =
     (case udp_traffic throttle es w of (out, w') \<Rightarrow> (case udp_turn throttle e w' of (o', w'') \<Rightarrow> (out @ o', w'')))"
  by (induction es arbitrary: w) (auto split: prod.splits)

text \<open>What a client sent, what its backend sockets heard, and what was sent out.\<close>

definition from_client :: "socket_addr \<Rightarrow> udp_event list \<Rightarrow> bytes list" where
  "from_client a es = concat (map (\<lambda>e. case e of Received _ b c \<Rightarrow> if b = a then [take MAX_DATAGRAM_SIZE c] else [] | _ \<Rightarrow> []) es)"

definition heard_on :: "nat set \<Rightarrow> udp_event list \<Rightarrow> bytes list" where
  "heard_on S es = concat (map (\<lambda>e. case e of Backend_Sent _ sid c \<Rightarrow> if sid \<in> S then [take MAX_DATAGRAM_SIZE c] else [] | _ \<Rightarrow> []) es)"

definition sent_on :: "nat \<Rightarrow> udp_output list \<Rightarrow> bytes list" where
  "sent_on sid out = concat (map (\<lambda>x. case x of To_Backend i c \<Rightarrow> if i = sid then [c] else [] | _ \<Rightarrow> []) out)"

definition sent_to_client :: "socket_addr \<Rightarrow> udp_output list \<Rightarrow> bytes list" where
  "sent_to_client a out = concat (map (\<lambda>x. case x of To_Client b c \<Rightarrow> if b = a then [c] else [] | _ \<Rightarrow> []) out)"

definition in_hand :: "nat \<Rightarrow> udp_world \<Rightarrow> bytes list" where
  "in_hand sid w = (case uw_hand w of Some (i, c) \<Rightarrow> if i = sid then [c] else [] | None \<Rightarrow> [])"

definition sockets_of :: "socket_addr \<Rightarrow> udp_world \<Rightarrow> nat set" where
  "sockets_of a w = {sid. sid < length (uw_sockets w) \<and> sk_client (uw_sockets w ! sid) = a}"

lemmas trace_defs = from_client_def heard_on_def sent_on_def sent_to_client_def

lemma trace_append [simp]:
  "from_client a (es @ fs) = from_client a es @ from_client a fs" "heard_on S (es @ fs) = heard_on S es @ heard_on S fs"
  "sent_on sid (out @ out') = sent_on sid out @ sent_on sid out'" "sent_to_client a (out @ out') = sent_to_client a out @ sent_to_client a out'"
  by (simp_all add: trace_defs)

lemma trace_Nil [simp]: "from_client a [] = []" "heard_on S [] = []" "sent_on sid [] = []" "sent_to_client a [] = []"
  by (simp_all add: trace_defs)

text \<open>Sockets are only added, and keep their client.\<close>

lemma turn_sockets:
  "sid < length (uw_sockets w) \<Longrightarrow> sid < length (uw_sockets (snd (udp_turn throttle e w)))
     \<and> sk_client (uw_sockets (snd (udp_turn throttle e w)) ! sid) = sk_client (uw_sockets w ! sid)"
  by (cases e) (auto simp: udp_receive_def udp_socket_ready_def udp_forward_def udp_reader_turn_def stop_reader_def udp_reap_def Let_def
      nth_append nth_list_update split: prod.splits packet_outcome.splits option.splits)

definition upstream :: "udp_event list \<Rightarrow> udp_output list \<Rightarrow> udp_world \<Rightarrow> bool" where
  "upstream es out w \<longleftrightarrow>
     (\<forall>sid < length (uw_sockets w). subseq (sent_on sid out @ in_hand sid w) (from_client (sk_client (uw_sockets w ! sid)) es))
     \<and> (\<forall>sid \<ge> length (uw_sockets w). sent_on sid out = [])
     \<and> (\<forall>c a ip. uw_opening w = Some c \<longrightarrow> upx_opening (uw_proxy w) = Some (a, ip) \<longrightarrow> c \<in> set (from_client a es))"

lemma subseq_more: "subseq xs ys \<Longrightarrow> subseq xs (ys @ zs)"
  using list_emb_append_mono [of "(=)" xs ys "[]" zs] by simp

lemma subseq_prefix: "subseq (xs @ zs) ys \<Longrightarrow> subseq xs ys"
  by (metis subseq_more subseq_order.order_refl subseq_order.trans)

text \<open>A turn that only takes in an event and changes neither sockets nor the datagrams held.\<close>

lemma upstream_idle:
  assumes "upstream es out w" "map sk_client (uw_sockets w') = map sk_client (uw_sockets w)" "uw_hand w' = uw_hand w"
    and "uw_opening w' = uw_opening w" "upx_opening (uw_proxy w') = upx_opening (uw_proxy w)" "\<And>sid. sent_on sid o' = []"
  shows "upstream (es @ [e]) (out @ o') w'"
proof -
  have "length (uw_sockets w') = length (uw_sockets w)" using assms(2) by (metis length_map)
  moreover have "sk_client (uw_sockets w' ! sid) = sk_client (uw_sockets w ! sid)" if "sid < length (uw_sockets w)" for sid
    using that assms(2) calculation by (metis nth_map)
  ultimately show ?thesis using assms unfolding upstream_def in_hand_def by (auto intro: subseq_more)
qed

lemma upstream_receive:
  assumes "upstream es out w" "traffic_inv w"
  shows "upstream (es @ [Received now a content]) out (udp_receive throttle now a (take MAX_DATAGRAM_SIZE content) w)"
proof (cases "uw_opening w \<noteq> None \<or> uw_hand w \<noteq> None")
  case True
  then have "udp_receive throttle now a (take MAX_DATAGRAM_SIZE content) w = w" by (auto simp: udp_receive_def)
  then show ?thesis using upstream_idle [OF assms(1), of w "[]"] by simp
next
  case False
  let ?c = "take MAX_DATAGRAM_SIZE content"
  obtain r p where r: "udp_client_packet throttle now a ?c (uw_proxy w) = (r, p)" by (metis prod.exhaust)
  show ?thesis
  proof (cases "hm_get (uw_live w) a")
    case None
    then have "r = Opening \<and> (\<exists>ip. upx_opening p = Some (a, ip)) \<or> r = Dropped \<and> upx_opening p = upx_opening (uw_proxy w)"
      using r assms(2) by (auto simp: traffic_inv_def udp_client_packet_def Let_def split: option.splits prod.splits bool.splits if_splits)
    then show ?thesis
      using False r assms(1) by (auto simp: udp_receive_def upstream_def in_hand_def from_client_def intro: subseq_more)
  next
    case (Some sid)
    then have s: "sid < length (uw_sockets w)" "sk_client (uw_sockets w ! sid) = a" using assms(2) by (simp_all add: traffic_inv_def)
    have "hm_get (upx_sessions (uw_proxy w)) a \<noteq> None" "upx_opening (uw_proxy w) = None"
      using Some False assms(2) unfolding traffic_inv_def by (metis option.distinct(1), blast)
    then have "r = Forwarded ?c" "upx_opening p = None" using r by (auto simp: udp_client_packet_def)
    then have w': "udp_receive throttle now a ?c w = w\<lparr>uw_proxy := p, uw_hand := Some (sid, ?c)\<rparr>"
      using False r Some by (simp add: udp_receive_def)
    have h: "uw_hand w = None" "uw_opening w = None" using False by blast+
    have "subseq (sent_on sid out @ [?c]) (from_client a es @ [?c])"
      using assms(1) s h by (auto simp: upstream_def in_hand_def)
    then show ?thesis
      using assms(1) s h \<open>upx_opening p = None\<close> by (auto simp: w' upstream_def in_hand_def from_client_def intro: subseq_more)
  qed
qed

lemma upstream_sent: "upstream es out w \<Longrightarrow> sid < length (uw_sockets w) \<Longrightarrow> subseq (sent_on sid out) (from_client (sk_client (uw_sockets w ! sid)) es)"
  unfolding upstream_def using subseq_prefix by blast

lemma upstream_ready:
  assumes "upstream es out w"
  shows "upstream (es @ [Socket_Ready ok now]) out (udp_socket_ready ok now w)"
proof (cases "\<exists>c a ip. ok \<and> uw_opening w = Some c \<and> upx_opening (uw_proxy w) = Some (a, ip)")
  case True
  then obtain c a ip where o: "ok" "uw_opening w = Some c" "upx_opening (uw_proxy w) = Some (a, ip)" by blast
  have "c \<in> set (from_client a es)" "sent_on (length (uw_sockets w)) out = []" using assms o by (auto simp: upstream_def)
  moreover have "from_client b (es @ [Socket_Ready ok now]) = from_client b es" for b by (simp add: from_client_def)
  ultimately show ?thesis
    using assms upstream_sent [OF assms] o
    unfolding upstream_def by (auto simp: udp_socket_ready_def udp_open_finish_def in_hand_def Let_def nth_append less_Suc_eq subseq_singleton_left)
next
  case False
  have "from_client b (es @ [Socket_Ready ok now]) = from_client b es" for b by (simp add: from_client_def)
  then show ?thesis
    using assms False
    by (auto simp: upstream_def udp_socket_ready_def udp_open_finish_def in_hand_def split: option.splits prod.splits)
qed

lemma upstream_forward:
  assumes "upstream es out w" "traffic_inv w"
  shows "upstream (es @ [Forward_Turn]) (out @ fst (udp_forward w)) (snd (udp_forward w))"
proof -
  have "from_client a (es @ [Forward_Turn]) = from_client a es" for a by (simp add: from_client_def)
  moreover have "sid < length (uw_sockets w)" if "uw_hand w = Some (sid, c)" for sid c using that assms(2) by (simp add: traffic_inv_def)
  ultimately show ?thesis
    using assms(1)
    by (auto simp: upstream_def udp_forward_def in_hand_def sent_on_def split: option.splits if_splits intro: subseq_prefix)
qed

lemma heard_on_mono:
  assumes "S \<subseteq> T"
  shows "subseq (heard_on S es) (heard_on T es)"
proof (induction es)
  case (Cons e es)
  have *: "heard_on U (e # es) = heard_on U [e] @ heard_on U es" for U by (simp add: heard_on_def)
  have "subseq (heard_on S [e]) (heard_on T [e])" using assms by (auto simp: heard_on_def split: udp_event.splits)
  then show ?case unfolding * [of S] * [of T] using Cons by (rule list_emb_append_mono)
qed simp

lemma sockets_of_turn: "sockets_of a w \<subseteq> sockets_of a (snd (udp_turn throttle e w))"
  using turn_sockets by (auto simp: sockets_of_def)

lemma downstream_turn:
  assumes "subseq (sent_to_client a out) (heard_on (sockets_of a w) es)"
  shows "subseq (sent_to_client a (out @ fst (udp_turn throttle e w))) (heard_on (sockets_of a (snd (udp_turn throttle e w))) (es @ [e]))"
proof -
  have "subseq (sent_to_client a (fst (udp_turn throttle e w))) (heard_on (sockets_of a w) [e])"
    by (cases e) (auto simp: udp_forward_def udp_reader_turn_def Let_def sent_to_client_def heard_on_def sockets_of_def split: option.splits)
  with assms have "subseq (sent_to_client a (out @ fst (udp_turn throttle e w))) (heard_on (sockets_of a w) (es @ [e]))"
    by (simp add: list_emb_append_mono)
  then show ?thesis using heard_on_mono [OF sockets_of_turn] subseq_order.trans by blast
qed

lemma upstream_turn:
  assumes "upstream es out w" "traffic_inv w"
  shows "upstream (es @ [e]) (out @ fst (udp_turn throttle e w)) (snd (udp_turn throttle e w))"
proof (cases e)
  case (Received now a content)
  then show ?thesis using upstream_receive [OF assms] by simp
next
  case (Socket_Ready ok now)
  then show ?thesis using upstream_ready [OF assms(1)] by simp
next
  case Forward_Turn
  then show ?thesis using upstream_forward [OF assms] by simp
next
  case (Backend_Sent now sid content)
  then show ?thesis
    using upstream_idle [OF assms(1), where o' = "fst (udp_turn throttle e w)" and w' = "snd (udp_turn throttle e w)"]
    by (auto simp: udp_reader_turn_def stop_reader_def sent_on_def Let_def backend_reply_get map_update list_update_same_conv)
next
  case (Reaper_Tick now)
  then show ?thesis
    using upstream_idle [OF assms(1), where o' = "[]" and w' = "snd (udp_turn throttle e w)"] evict_stale_get
    by (auto simp: udp_reap_def Let_def)
qed (use upstream_idle [OF assms(1), where o' = "[]" and w' = "snd (udp_turn throttle e w)"] in
    \<open>auto simp: stop_reader_def map_update list_update_same_conv\<close>)

text \<open>Everything that holds along a run.\<close>

lemma traffic_run:
  assumes "udp_traffic throttle es udp_world_new = (out, w)"
  shows "traffic_inv w \<and> upstream es out w \<and> (\<forall>a. subseq (sent_to_client a out) (heard_on (sockets_of a w) es))
    \<and> (udp_step throttle)\<^sup>*\<^sup>* udp_proxy_new (uw_proxy w)"
  using assms
proof (induction es arbitrary: out w rule: rev_induct)
  case Nil
  then have "out = []" "w = udp_world_new" by simp_all
  then show ?case by (simp add: traffic_inv_def upstream_def udp_world_new_def udp_proxy_new_def)
next
  case (snoc e es)
  obtain out0 w0 where r: "udp_traffic throttle es udp_world_new = (out0, w0)" by (metis prod.exhaust)
  with snoc.prems have ow: "out = out0 @ fst (udp_turn throttle e w0)" "w = snd (udp_turn throttle e w0)"
    by (auto simp: udp_traffic_append split: prod.splits)
  from snoc.IH [OF r] have ih: "traffic_inv w0" "upstream es out0 w0" "\<And>a. subseq (sent_to_client a out0) (heard_on (sockets_of a w0) es)"
    "(udp_step throttle)\<^sup>*\<^sup>* udp_proxy_new (uw_proxy w0)" by blast+
  show ?case
    unfolding ow using turn_inv [OF ih(1)] upstream_turn [OF ih(2,1)] downstream_turn [OF ih(3)] rtranclp_trans [OF ih(4) turn_simulated [OF ih(1)]]
    by blast
qed

section \<open>Properties\<close>

text \<open>C13: the UDP forwarder keeps flows apart. Over any sequence of datagrams, socket results, errors and reaper
  ticks, what was sent on a backend socket is, in order and unchanged, a selection of what the client it
  was opened for had sent; nothing is sent on a socket that was not opened; and what a client received
  is, in order and unchanged, a selection of what arrived on the sockets opened for that client. A
  client has at most one socket in use, and it is the one its datagrams go to.\<close>

theorem udp_flows_apart:
  assumes "udp_traffic throttle es udp_world_new = (out, w)"
  shows "(\<forall>sid < length (uw_sockets w). subseq (sent_on sid out) (from_client (sk_client (uw_sockets w ! sid)) es))
    \<and> (\<forall>sid \<ge> length (uw_sockets w). sent_on sid out = [])
    \<and> (\<forall>a. subseq (sent_to_client a out) (heard_on (sockets_of a w) es))
    \<and> (\<forall>a. \<forall>sid \<in> sockets_of a w. \<not> sk_dead (uw_sockets w ! sid) \<longleftrightarrow> hm_get (uw_live w) a = Some sid)"
proof -
  from traffic_run [OF assms] have "traffic_inv w" "upstream es out w" "\<forall>a. subseq (sent_to_client a out) (heard_on (sockets_of a w) es)" by blast+
  then show ?thesis using upstream_sent by (auto simp: traffic_inv_def sockets_of_def upstream_def)
qed

definition two_clients :: "udp_event list" where
  "two_clients =
     [Received 0 (demo_client 1) [1], Socket_Ready True 0, Forward_Turn, Received 1 (demo_client 2) [2], Socket_Ready True 1, Forward_Turn,
      Backend_Sent 2 1 [9], Received 3 (demo_client 1) [3], Forward_Turn, Backend_Sent 4 0 [8]]"

lemma two_clients_run:
  "fst (udp_traffic cap_off two_clients udp_world_new)
     = [To_Backend 0 [1], To_Backend 1 [2], To_Client (demo_client 2) [9], To_Backend 0 [3], To_Client (demo_client 1) [8]]"
  by (simp add: two_clients_def udp_world_new_def udp_proxy_new_def udp_receive_def udp_client_packet_def udp_socket_ready_def udp_open_finish_def
      udp_forward_def udp_reader_turn_def udp_backend_reply_def cap_off_def udp_throttle_default_def acquire_ip_slot_def demo_client_def
      MAX_DATAGRAM_SIZE_def Let_def length_hm_insert del: show_ip.simps)

theorem udp_flows_apart_witness:
  "\<exists>out w. udp_traffic cap_off two_clients udp_world_new = (out, w) \<and> subseq [[9]] (heard_on (sockets_of (demo_client 2) w) two_clients)"
proof -
  obtain out w where r: "udp_traffic cap_off two_clients udp_world_new = (out, w)" by (metis prod.exhaust)
  then have "out = [To_Backend 0 [1], To_Backend 1 [2], To_Client (demo_client 2) [9], To_Backend 0 [3], To_Client (demo_client 1) [8]]"
    using two_clients_run by simp
  then have "sent_to_client (demo_client 2) out = [[9]]" by (simp add: sent_to_client_def demo_client_def)
  then show ?thesis using udp_flows_apart [OF r] r by metis
qed

text \<open>C35: The tables of a run are reached by steps of the forwarder, whose counters are exact and whose limits hold
  (\<open>udp_inv\<close>).\<close>

theorem udp_traffic_refines:
  assumes "udp_traffic throttle es udp_world_new = (out, w)"
  shows "(udp_step throttle)\<^sup>*\<^sup>* udp_proxy_new (uw_proxy w) \<and> (0 < ut_max_sessions_per_ip throttle \<longrightarrow> udp_inv throttle (uw_proxy w))"
  using traffic_run [OF assms] udp_reachable_inv by blast

theorem udp_traffic_refines_witness:
  "udp_inv udp_throttle_default (uw_proxy (snd (udp_traffic udp_throttle_default two_clients udp_world_new)))"
proof -
  obtain out w where "udp_traffic udp_throttle_default two_clients udp_world_new = (out, w)" by (metis prod.exhaust)
  from udp_traffic_refines [OF this] this show ?thesis by (simp add: udp_throttle_default_def)
qed

text \<open>A datagram of a client with a session is forwarded on its socket, and the first datagram of a client the
  limits admit opens a socket and is forwarded on it.\<close>

theorem udp_datagram_forwarded:
  assumes "traffic_inv w" "uw_hand w = None" "uw_opening w = None" "length content \<le> MAX_DATAGRAM_SIZE"
  shows "case hm_get (uw_live w) a of
      Some sid \<Rightarrow> fst (udp_traffic throttle [Received now a content, Forward_Turn] w) = [To_Backend sid content]
    | None \<Rightarrow> (ut_max_sessions throttle > 0 \<longrightarrow> int (length (upx_sessions (uw_proxy w))) < ut_max_sessions throttle) \<longrightarrow>
        fst (acquire_ip_slot (ut_max_sessions_per_ip throttle) (show_ip (addr_ip a)) (upx_sessions_per_ip (uw_proxy w))) \<longrightarrow>
        fst (udp_traffic throttle [Received now a content, Socket_Ready True now', Forward_Turn] w) = [To_Backend (length (uw_sockets w)) content]"
proof (cases "hm_get (uw_live w) a")
  case None
  then have "hm_get (upx_sessions (uw_proxy w)) a = None" using assms(1) by (simp add: traffic_inv_def)
  then show ?thesis
    using None assms
    by (auto simp: udp_receive_def udp_client_packet_def udp_socket_ready_def udp_open_finish_def udp_forward_def Let_def nth_append
        split: prod.splits bool.splits)
next
  case (Some sid)
  then have "hm_get (upx_sessions (uw_proxy w)) a \<noteq> None" "\<not> sk_dead (uw_sockets w ! sid)"
    using assms(1) unfolding traffic_inv_def by (metis option.distinct(1), blast)
  then show ?thesis using Some assms by (auto simp: udp_receive_def udp_client_packet_def udp_forward_def)
qed

theorem udp_datagram_forwarded_witness:
  "fst (udp_traffic udp_throttle_default [Received 0 (demo_client 1) [7], Socket_Ready True 0, Forward_Turn] udp_world_new) = [To_Backend 0 [7]]"
  using udp_datagram_forwarded [where w = udp_world_new and content = "[7]" and a = "demo_client 1" and throttle = udp_throttle_default and now = 0 and now' = 0]
  by (simp add: traffic_inv_def udp_world_new_def udp_proxy_new_def MAX_DATAGRAM_SIZE_def udp_throttle_default_def acquire_ip_slot_def take_ip_slot_def
      unwrap_or_def)

section \<open>Defects\<close>

text \<open>A session in the table whose reader has ended.\<close>

definition silenced :: "socket_addr \<Rightarrow> udp_world \<Rightarrow> bool" where
  "silenced a w \<longleftrightarrow> (\<exists>sid. hm_get (uw_live w) a = Some sid \<and> \<not> sk_reading (uw_sockets w ! sid))"

lemma silenced_turn:
  assumes "traffic_inv w" "silenced a w" "\<And>now. e \<noteq> Reaper_Tick now"
  shows "silenced a (snd (udp_turn throttle e w)) \<and> sent_to_client a (fst (udp_turn throttle e w)) = []"
proof -
  obtain sid where sid: "hm_get (uw_live w) a = Some sid" "\<not> sk_reading (uw_sockets w ! sid)" "sid < length (uw_sockets w)"
    using assms(1,2) by (auto simp: silenced_def traffic_inv_def)
  have not_opened: "x \<noteq> a" if "upx_opening (uw_proxy w) = Some (x, ip)" for x ip
    using that assms(1) sid(1) unfolding traffic_inv_def by (metis option.distinct(1))
  have other: "i = sid" if "i < length (uw_sockets w)" "sk_client (uw_sockets w ! i) = a" "\<not> sk_dead (uw_sockets w ! i)" for i
    using that assms(1) sid(1) unfolding traffic_inv_def by (metis option.inject)
  show ?thesis
  proof (cases e)
    case (Received now x content)
    then show ?thesis
      using assms(2) by (simp add: silenced_def udp_receive_def sent_to_client_def split: prod.splits packet_outcome.splits)
  next
    case (Socket_Ready ok now)
    then show ?thesis
      using sid not_opened
      by (auto simp: silenced_def udp_socket_ready_def sent_to_client_def Let_def nth_append split: prod.splits packet_outcome.splits option.splits)
  next
    case (Backend_Sent now i content)
    have "sk_client (uw_sockets w ! i) \<noteq> a" if "i < length (uw_sockets w)" "sk_reading (uw_sockets w ! i)" "\<not> sk_dead (uw_sockets w ! i)"
      using other [OF that(1) _ that(3)] that(2) sid(2) by blast
    then show ?thesis
      using sid Backend_Sent by (auto simp: silenced_def udp_reader_turn_def stop_reader_def sent_to_client_def Let_def nth_list_update)
  next
    case (Backend_Error i)
    then show ?thesis using sid by (auto simp: silenced_def stop_reader_def sent_to_client_def nth_list_update)
  qed (use assms(2,3) in \<open>auto simp: silenced_def udp_forward_def sent_to_client_def split: option.splits\<close>)
qed

text \<open>A session whose reader met one receive error (an ICMP port-unreachable while the backend restarts) stays in
  the table without a reader. As long as the reaper does not remove it, and the client's own datagrams
  keep it active, none of the backend's later answers reaches the client.\<close>

theorem reader_error_silences_session:
  assumes "traffic_inv w" "hm_get (uw_live w) a = Some sid" "\<forall>now. Reaper_Tick now \<notin> set es"
  shows "sent_to_client a (fst (udp_traffic throttle (Backend_Error sid # es) w)) = []"
proof -
  have "sent_to_client a (fst (udp_traffic throttle es w)) = []" if "traffic_inv w" "silenced a w" for w
    using that assms(3)
  proof (induction es arbitrary: w)
    case (Cons e es)
    then have "silenced a (snd (udp_turn throttle e w)) \<and> sent_to_client a (fst (udp_turn throttle e w)) = []"
      by (intro silenced_turn) auto
    then show ?case using Cons.IH [OF turn_inv [OF Cons.prems(1), of throttle e]] Cons.prems(3) by (auto split: prod.splits)
  qed simp
  moreover have "silenced a (stop_reader sid w)" "sid < length (uw_sockets w)"
    using assms(1,2) by (auto simp: silenced_def stop_reader_def traffic_inv_def)
  ultimately show ?thesis using stop_reader_inv [OF assms(1)] by (auto split: prod.splits)
qed

theorem reader_error_silences_session_witness:
  "\<exists>out w. udp_traffic cap_off (take 3 two_clients) udp_world_new = (out, w)
     \<and> sent_to_client (demo_client 1) (fst (udp_traffic cap_off [Backend_Error 0, Received 5 (demo_client 1) [3], Forward_Turn, Backend_Sent 6 0 [4]] w)) = []"
proof -
  obtain out w where r: "udp_traffic cap_off (take 3 two_clients) udp_world_new = (out, w)" by (metis prod.exhaust)
  then have "hm_get (uw_live w) (demo_client 1) = Some 0"
    by (auto simp: two_clients_def udp_world_new_def udp_proxy_new_def udp_receive_def udp_client_packet_def udp_socket_ready_def udp_open_finish_def
      udp_forward_def cap_off_def udp_throttle_default_def acquire_ip_slot_def Let_def simp del: show_ip.simps)
  from reader_error_silences_session [OF _ this, of "[Received 5 (demo_client 1) [3], Forward_Turn, Backend_Sent 6 0 [4]]" cap_off] traffic_run [OF r] r
  show ?thesis by auto
qed

end
