(* ===== verification/Voice_Traffic.thy ===== *)
theory Voice_Traffic
  imports Voice_Relay Udp_Traffic
begin

text \<open>
  Voice chat as a whole: the routing table of \<open>src/udp/voice_routing.rs\<close>, filled by the logins, and the relay
  loop \<open>run\<close> of \<open>src/udp/voice_relay.rs\<close>, which attaches the hook by which a logout closes the sessions of
  its address. The world is a list of events, as for the UDP forwarder; a turn is what the code does
  until it waits again.

  Shown: voice sessions exist only for addresses that are logged in, over every interleaving in which
  no logout falls into the opening of a session; and that this exception is a defect of the code.
\<close>

record voice_system =
  vy_routing :: voice_routing
  vy_relay :: voice_relay
  vy_hook :: bool

text \<open>Before the relay runs no hook is attached.\<close>

definition voice_system_new :: voice_system where
  "voice_system_new = \<lparr>vy_routing = [], vy_relay = voice_relay_new, vy_hook = False\<rparr>"

definition attach_relay :: "bool \<Rightarrow> voice_system \<Rightarrow> voice_system" where
  "attach_relay hook y = y\<lparr>vy_hook := hook\<rparr>"

text \<open>\<open>run\<close> with a socket that could be bound: fresh tables and the hook.\<close>

definition voice_start :: "voice_system \<Rightarrow> voice_system" where
  "voice_start y = attach_relay True (y\<lparr>vy_relay := voice_relay_new\<rparr>)"

definition unregister_player :: "str \<Rightarrow> voice_system \<Rightarrow> voice_system" where
  "unregister_player ip y =
     (case voice_unregister ip (vy_routing y) of
        (gone, m) \<Rightarrow>
          y\<lparr>vy_routing := m, vy_relay := if gone \<and> vy_hook y then disconnect_client ip (vy_relay y) else vy_relay y\<rparr>)"

datatype voice_turn =
    Player_Login instant str str socket_addr
  | Player_Logout str
  | Voice_Received instant int socket_addr bytes
  | Voice_Receive_Error
  | Voice_Socket_Ready bool instant
  | Voice_Backend_Sent instant nat bytes
  | Voice_Reaper_Tick instant
  | Voice_Evictor_Tick instant

datatype voice_output = Voice_To_Backend nat bytes | Voice_To_Client socket_addr bytes

fun voice_sends :: "voice_outcome \<Rightarrow> voice_output list" where
  "voice_sends (Voice_Forwarded sid content) = [Voice_To_Backend sid content]"
| "voice_sends _ = []"

text \<open>The receive loop awaits its handler: while a session is being opened it reads nothing.\<close>

fun voice_run_turn :: "bool \<Rightarrow> udp_throttle_config \<Rightarrow> voice_turn \<Rightarrow> voice_system \<Rightarrow> voice_output list \<times> voice_system" where
  "voice_run_turn expect throttle (Player_Login now ip host backend) y =
     ([], y\<lparr>vy_routing := voice_register now ip host backend (vy_routing y)\<rparr>)"
| "voice_run_turn expect throttle (Player_Logout ip) y = ([], unregister_player ip y)"
| "voice_run_turn expect throttle (Voice_Received now millis via content) y =
     (if vr_opening (vy_relay y) \<noteq> None then ([], y)
      else
        (case voice_client_packet expect throttle now millis via (take MAX_DATAGRAM_SIZE content) (vy_routing y) (vy_relay y) of
           (out, m, r) \<Rightarrow> (voice_sends out, y\<lparr>vy_routing := m, vy_relay := r\<rparr>)))"
| "voice_run_turn expect throttle Voice_Receive_Error y = ([], y)"
| "voice_run_turn expect throttle (Voice_Socket_Ready ok now) y =
     (case voice_open_finish expect ok now (vy_relay y) of (out, r) \<Rightarrow> (voice_sends out, y\<lparr>vy_relay := r\<rparr>))"
| "voice_run_turn expect throttle (Voice_Backend_Sent now sid content) y =
     (case voice_backend_reply now sid (vy_relay y) of
        (None, r) \<Rightarrow> ([], y\<lparr>vy_relay := r\<rparr>)
      | (Some via, r) \<Rightarrow> ([Voice_To_Client via (take MAX_DATAGRAM_SIZE content)], y\<lparr>vy_relay := r\<rparr>))"
| "voice_run_turn expect throttle (Voice_Reaper_Tick now) y = ([], y\<lparr>vy_relay := voice_evict_stale throttle now (vy_relay y)\<rparr>)"
| "voice_run_turn expect throttle (Voice_Evictor_Tick now) y = ([], y\<lparr>vy_routing := voice_evict_idle now (vy_routing y)\<rparr>)"

fun voice_run :: "bool \<Rightarrow> udp_throttle_config \<Rightarrow> voice_turn list \<Rightarrow> voice_system \<Rightarrow> voice_output list \<times> voice_system" where
  "voice_run expect throttle [] y = ([], y)"
| "voice_run expect throttle (e # es) y =
     (case voice_run_turn expect throttle e y of (out, y) \<Rightarrow>
       (case voice_run expect throttle es y of (outs, y) \<Rightarrow> (out @ outs, y)))"

definition voice_relay_run ::
  "socket_addr \<Rightarrow> bool \<Rightarrow> (socket_addr \<Rightarrow> str option) \<Rightarrow> udp_throttle_config \<Rightarrow> voice_turn list \<Rightarrow> voice_system \<Rightarrow> str + voice_output list \<times> voice_system" where
  "voice_relay_run bind_addr expect bind_error throttle es y =
     (case bind_error bind_addr of
        Some er \<Rightarrow> Inl er
      | None \<Rightarrow> Inr (voice_run expect throttle es (voice_start y)))"

section \<open>Players\<close>

text \<open>The connections of an address that are logged in, given those before.\<close>

fun logged_in :: "(str \<Rightarrow> nat) \<Rightarrow> voice_turn \<Rightarrow> str \<Rightarrow> nat" where
  "logged_in n (Player_Login now ip host backend) = n(ip := n ip + 1)"
| "logged_in n (Player_Logout ip) = n(ip := n ip - 1)"
| "logged_in n _ = n"

text \<open>A logout belongs to a login, and does not fall into the opening of a session of its address.\<close>

fun orderly :: "(str \<Rightarrow> nat) \<Rightarrow> voice_turn \<Rightarrow> voice_system \<Rightarrow> bool" where
  "orderly n (Player_Logout ip) y \<longleftrightarrow> 0 < n ip \<and> (\<forall>q. vr_opening (vy_relay y) = Some q \<longrightarrow> vo_client_ip q \<noteq> ip)"
| "orderly n _ y \<longleftrightarrow> True"

fun orderly_run :: "bool \<Rightarrow> udp_throttle_config \<Rightarrow> (str \<Rightarrow> nat) \<Rightarrow> voice_turn list \<Rightarrow> voice_system \<Rightarrow> bool" where
  "orderly_run expect throttle n [] y \<longleftrightarrow> True"
| "orderly_run expect throttle n (e # es) y \<longleftrightarrow>
     orderly n e y \<and> orderly_run expect throttle (logged_in n e) es (snd (voice_run_turn expect throttle e y))"

definition voice_held :: "(str \<Rightarrow> nat) \<Rightarrow> voice_system \<Rightarrow> bool" where
  "voice_held n y \<longleftrightarrow> vy_hook y
     \<and> hm_ok (vy_routing y)
     \<and> (\<forall>ip e. hm_get (vy_routing y) ip = Some e \<longrightarrow> 0 < ve_refs e \<and> ve_refs e \<le> n ip)
     \<and> (\<forall>a sid. hm_get (vr_sessions (vy_relay y)) a = Some sid \<longrightarrow> 0 < n (show_ip (addr_ip a)))
     \<and> (\<forall>q. vr_opening (vy_relay y) = Some q \<longrightarrow> vo_client_ip q = show_ip (addr_ip (vo_client q)) \<and> 0 < n (vo_client_ip q))"

lemma register_held:
  assumes "voice_held n y"
  shows "voice_held (n(ip := n ip + 1)) (y\<lparr>vy_routing := voice_register now ip host backend (vy_routing y)\<rparr>)"
  using assms by (auto simp: voice_held_def voice_register_def Let_def split: option.splits)

lemma opening_after_removes [simp]: "vr_opening (fold voice_remove as r) = vr_opening r"
  by (induction as arbitrary: r) (simp_all add: voice_remove_def voice_close_session_def Let_def update_session_def split: option.splits)

lemma opening_after_disconnect [simp]: "vr_opening (disconnect_client ip r) = vr_opening r"
  by (simp add: disconnect_client_def)

lemma logout_held:
  assumes "voice_held n y" "0 < n ip" "\<And>q. vr_opening (vy_relay y) = Some q \<Longrightarrow> vo_client_ip q \<noteq> ip"
  shows "voice_held (n(ip := n ip - 1)) (unregister_player ip y)"
proof -
  obtain gone m where u: "voice_unregister ip (vy_routing y) = (gone, m)" by (metis prod.exhaust)
  have le: "ve_refs e - Suc 0 \<le> n ip - Suc 0" if "hm_get (vy_routing y) ip = Some e" for e
    using that assms(1) by (auto simp: voice_held_def intro: diff_le_mono)
  have m: "hm_ok m" "\<And>i e. hm_get m i = Some e \<Longrightarrow> 0 < ve_refs e \<and> ve_refs e \<le> (n(ip := n ip - 1)) i"
    using assms(1,2) u le by (auto simp: voice_held_def voice_unregister_def split: option.splits if_splits)
  have stay: "0 < n ip - 1" if "\<not> gone"
    using that assms(1) u by (fastforce simp: voice_held_def voice_unregister_def split: option.splits if_splits)
  show ?thesis
    using assms m stay u
    by (auto simp: voice_held_def unregister_player_def sessions_after_disconnect split: if_splits)
qed

lemma relay_frame_held:
  assumes "voice_held n y" "vr_opening r = vr_opening (vy_relay y)"
    and "\<And>a. hm_get (vr_sessions r) a \<in> {None, hm_get (vr_sessions (vy_relay y)) a}"
  shows "voice_held n (y\<lparr>vy_relay := r\<rparr>)"
  using assms unfolding voice_held_def by (simp) (metis option.distinct(1))

lemma packet_held:
  assumes "voice_held n y" "vr_opening (vy_relay y) = None"
    and "voice_client_packet expect throttle now millis via content (vy_routing y) (vy_relay y) = (out, m, r)"
  shows "voice_held n (y\<lparr>vy_routing := m, vy_relay := r\<rparr>)"
proof -
  have routing: "hm_ok m'" "\<And>ip e. hm_get m' ip = Some e \<Longrightarrow> 0 < ve_refs e \<and> ve_refs e \<le> n ip"
    if "voice_resolve now a (vy_routing y) = (res, m')" for a res m'
    using that assms(1) by (auto simp: voice_held_def voice_resolve_def Let_def split: option.splits if_splits)
  have found: "0 < n a" if "voice_resolve now a (vy_routing y) = (Some e, m')" for a e m'
    using that assms(1) by (fastforce simp: voice_held_def voice_resolve_def Let_def split: option.splits)
  have frame: "vr_sessions (touch now sid s) = vr_sessions s" "vr_opening (touch now sid s) = vr_opening s"
    "vr_sessions (repoint_via expect sid v s) = vr_sessions s" "vr_opening (repoint_via expect sid v s) = vr_opening s"
    "vr_sessions (log_drop millis s) = vr_sessions s" "vr_opening (log_drop millis s) = vr_opening s" for sid v s
    by (auto simp: touch_def update_session_def repoint_via_def log_drop_def Let_def split: option.splits)
  have handle: "voice_held n (y\<lparr>vy_routing := m, vy_relay := r\<rparr>)"
    if "handle_for_client expect throttle now millis a via c (vy_routing y) (vy_relay y) = (out, m, r)" for a c
    using that assms(1,2) routing found
    by (auto simp: voice_held_def handle_for_client_def Let_def frame split: option.splits prod.splits bool.splits if_splits)
  have same: "voice_held n (y\<lparr>vy_routing := vy_routing y, vy_relay := s\<rparr>)" if "vr_opening s = vr_opening (vy_relay y)" "vr_sessions s = vr_sessions (vy_relay y)" for s
    using relay_frame_held [OF assms(1) that(1)] that(2) by simp
  show ?thesis
  proof (cases "expect \<and> (\<forall>a h. parse_proxy_protocol_header content \<noteq> Inr (Some a, h))")
    case True
    then have "m = vy_routing y \<and> vr_opening r = vr_opening (vy_relay y) \<and> vr_sessions r = vr_sessions (vy_relay y)"
      using assms(3) by (auto simp: voice_client_packet_def Let_def frame split: sum.splits prod.splits option.splits if_splits)
    then show ?thesis using same by blast
  next
    case False
    then have "\<exists>a c. handle_for_client expect throttle now millis a via c (vy_routing y) (vy_relay y) = (out, m, r)"
      using assms(3) by (cases expect; auto simp: voice_client_packet_def; blast)
    then show ?thesis using handle by blast
  qed
qed

lemma finish_held:
  assumes "voice_held n y" "voice_open_finish expect ok now (vy_relay y) = (out, r)"
  shows "voice_held n (y\<lparr>vy_relay := r\<rparr>)"
  using assms by (auto simp: voice_held_def voice_open_finish_def Let_def split: option.splits if_splits)

lemma turn_held:
  assumes "voice_held n y" "orderly n e y"
  shows "voice_held (logged_in n e) (snd (voice_run_turn expect throttle e y))"
proof (cases e)
  case (Player_Login now ip host backend)
  then show ?thesis using register_held [OF assms(1)] by simp
next
  case (Player_Logout ip)
  then show ?thesis using logout_held [OF assms(1)] assms(2) by simp
next
  case (Voice_Received now millis via content)
  then show ?thesis using packet_held [OF assms(1)] assms(1) by (auto split: prod.splits)
next
  case (Voice_Socket_Ready ok now)
  then show ?thesis using finish_held [OF assms(1)] by (auto split: prod.splits)
next
  case (Voice_Backend_Sent now sid content)
  then show ?thesis
    by (auto simp: voice_backend_reply_def update_session_def split: option.splits if_splits intro!: relay_frame_held [OF assms(1)])
      (use assms(1) in simp_all)
next
  case (Voice_Reaper_Tick now)
  then show ?thesis by (auto simp: voice_evict_stale_def sessions_after_removes intro!: relay_frame_held [OF assms(1)] split: if_splits)
next
  case (Voice_Evictor_Tick now)
  then show ?thesis
    using assms(1) by (auto simp: voice_held_def voice_evict_idle_def hm_get_retain split: option.splits if_splits)
qed (use assms(1) in simp)

section \<open>Properties\<close>


definition one_call :: "voice_turn list" where
  "one_call =
     [Player_Login 0 (show_ip (V4 1 2 3 4)) (lit ''play'') (SocketAddr (V4 9 9 9 9) 24454),
      Voice_Received 1 0 (SocketAddr (V4 1 2 3 4) 7) [5], Voice_Socket_Ready True 1]"

lemmas voice_run_defs = one_call_def voice_start_def attach_relay_def voice_system_new_def voice_relay_new_def voice_client_packet_def
  handle_for_client_def voice_register_def voice_resolve_def voice_open_finish_def voice_forward_def acquire_ip_slot_def cap_off_def
  udp_throttle_default_def MAX_DATAGRAM_SIZE_def


section \<open>Defects\<close>

text \<open>A logout that falls between the lookup of the route and the insertion of the session closes nothing: the
  session is opened afterwards, for an address with no player and no routing entry, and forwards.\<close>

theorem logout_race_leaves_session:
  "\<exists>y. voice_run False cap_off
       [Player_Login 0 (show_ip (V4 1 2 3 4)) (lit ''play'') (SocketAddr (V4 9 9 9 9) 24454),
        Voice_Received 1 0 (SocketAddr (V4 1 2 3 4) 7) [5], Player_Logout (show_ip (V4 1 2 3 4)), Voice_Socket_Ready True 1,
        Voice_Received 2 0 (SocketAddr (V4 1 2 3 4) 7) [6]] (voice_start voice_system_new)
      = ([Voice_To_Backend 0 [5], Voice_To_Backend 0 [6]], y)
    \<and> hm_get (vy_routing y) (show_ip (V4 1 2 3 4)) = None \<and> hm_get (vr_sessions (vy_relay y)) (SocketAddr (V4 1 2 3 4) 7) = Some 0"
  by (simp add: voice_run_defs unregister_player_def voice_unregister_def disconnect_client_def repoint_via_def touch_def update_session_def Let_def
      del: show_ip.simps)

end
