(* ===== verification/Colour_Gradient.thy ===== *)
theory Colour_Gradient
  imports Text_Format Complex_Main "HOL-Library.Log_Nat"
begin

text \<open>
  The colours of a gradient, \<open>interpolate\<close> of \<open>src/protocol/text_format.rs\<close>, with the rounding of its 64-bit
  floating-point operations. A finite float is the rational number it stands for; every operation is
  the exact one followed by \<open>to_f64\<close>, rounding to the nearest number with 53 significant bits (or the
  nearest multiple of the smallest positive float), ties to even. No operation here overflows or
  divides by zero, so infinities and NaN do not arise, and the sign of a zero is never looked at.
  \<open>gradient_at\<close> is the function that the other theories take as the argument \<open>interp\<close>.
\<close>

section \<open>Rounding\<close>

definition round_even :: "rat \<Rightarrow> int" where
  "round_even x =
     (let n = \<lfloor>x\<rfloor>; r = x - of_int n in if r < 1 / 2 \<or> r = 1 / 2 \<and> even n then n else n + 1)"

text \<open>The exponent of the largest power of two not above a positive number.\<close>

definition binade :: "rat \<Rightarrow> int" where
  "binade x = (let (p, q) = quotient_of x; e = bitlen p - bitlen q in if 2 powi e \<le> x then e else e - 1)"

definition ulp :: "rat \<Rightarrow> rat" where
  "ulp x = 2 powi (max (binade \<bar>x\<bar> - 52) (- 1074))"

definition to_f64 :: "rat \<Rightarrow> rat" where
  "to_f64 x = (if x = 0 then 0 else of_int (round_even (x / ulp x)) * ulp x)"

section \<open>The code\<close>

text \<open>\<open>f64::clamp(0.0, 1.0)\<close>, and \<open>f64::round\<close> (ties away from zero) with the saturating \<open>as u8\<close>.\<close>

definition clamp_unit :: "rat \<Rightarrow> rat" where
  "clamp_unit t = (if t < 0 then 0 else if 1 < t then 1 else t)"

definition round_away :: "rat \<Rightarrow> int" where
  "round_away x = (if 0 \<le> x then \<lfloor>x + 1 / 2\<rfloor> else \<lceil>x - 1 / 2\<rceil>)"

definition as_u8 :: "int \<Rightarrow> byte" where
  "as_u8 n = of_int (max 0 (min 255 n))"

definition u8_f64 :: "byte \<Rightarrow> rat" where
  "u8_f64 b = of_int (uint b)"

definition channel :: "byte \<Rightarrow> byte \<Rightarrow> rat \<Rightarrow> byte" where
  "channel a b fr =
     as_u8 (round_away (to_f64 (u8_f64 a + to_f64 (to_f64 (u8_f64 b - u8_f64 a) * fr))))"

fun mix :: "rgb \<Rightarrow> rgb \<Rightarrow> rat \<Rightarrow> rgb" where
  "mix (Rgb a0 a1 a2) (Rgb b0 b1 b2) fr = Rgb (channel a0 b0 fr) (channel a1 b1 fr) (channel a2 b2 fr)"

definition interpolate :: "rgb list \<Rightarrow> rat \<Rightarrow> rgb run" where
  "interpolate stops t =
     (if length stops = 1 then Returned (stops ! 0)
      else if length stops < 2 then Panicked
      else
        let t = clamp_unit t;
            scaled = to_f64 (t * to_f64 (of_nat (length stops - 1)));
            idx = min (nat \<lfloor>scaled\<rfloor>) (length stops - 2);
            fr = to_f64 (scaled - to_f64 (of_nat idx)) in
        Returned (mix (stops ! idx) (stops ! (idx + 1)) fr))"

text \<open>The caller's \<open>t\<close>. The stops of a gradient are never empty, so the other case does not arise.\<close>

definition gradient_t :: "nat \<Rightarrow> nat \<Rightarrow> rat" where
  "gradient_t pos tot = (if tot \<le> 1 then 0 else to_f64 (to_f64 (of_nat pos) / to_f64 (of_nat (tot - 1))))"

definition gradient_at :: interp where
  "gradient_at stops pos tot = (case interpolate stops (gradient_t pos tot) of Returned c \<Rightarrow> c | Panicked \<Rightarrow> Rgb 0 0 0)"

section \<open>Rounding stays between representable numbers\<close>

lemma round_even_le:
  assumes "x \<le> of_int n"
  shows "round_even x \<le> n"
proof -
  have f: "of_int \<lfloor>x\<rfloor> \<le> x" "\<lfloor>x\<rfloor> \<le> n" using assms floor_mono [OF assms] by simp_all
  show ?thesis
  proof (cases "\<lfloor>x\<rfloor> = n")
    case True
    then show ?thesis using assms f by (simp add: round_even_def)
  qed (use f in \<open>auto simp: round_even_def Let_def\<close>)
qed

lemma round_even_ge: "of_int n \<le> x \<Longrightarrow> n \<le> round_even x"
  using le_floor_iff [of n x] by (auto simp: round_even_def Let_def)

lemma bitlen_powi:
  assumes "0 < p"
  shows "2 powi (bitlen p - 1) \<le> (of_int p :: rat)" "(of_int p :: rat) < 2 powi bitlen p"
proof -
  have n: "0 \<le> bitlen p - 1" using assms bitlen_eq_zero_iff [of p] bitlen_nonneg [of p] by linarith
  have "2 ^ nat (bitlen p - 1) \<le> p" "p < 2 ^ nat (bitlen p)" using bitlen_bounds [OF assms] by simp_all
  then have "(of_int (2 ^ nat (bitlen p - 1)) :: rat) \<le> of_int p" "(of_int p :: rat) < of_int (2 ^ nat (bitlen p))"
    by (simp_all only: of_int_le_iff of_int_less_iff)
  then show "2 powi (bitlen p - 1) \<le> (of_int p :: rat)" "(of_int p :: rat) < 2 powi bitlen p"
    using n by (simp_all add: power_int_def)
qed

lemma binade_bounds:
  assumes "0 < x"
  shows "2 powi binade x \<le> x \<and> x < 2 powi (binade x + 1)"
proof -
  obtain p q where pq: "quotient_of x = (p, q)" by (metis prod.exhaust)
  then have q: "0 < q" and x: "x = of_int p / of_int q" by (simp_all add: quotient_of_denom_pos quotient_of_div)
  then have p: "0 < p" using assms by (simp add: zero_less_divide_iff)
  define e where "e = bitlen p - bitlen q"
  have "(2 :: rat) powi (e - 1) = 2 powi (bitlen p - 1) / 2 powi bitlen q" "(2 :: rat) powi (e + 1) = 2 powi bitlen p / 2 powi (bitlen q - 1)"
    by (simp_all add: e_def algebra_simps flip: power_int_diff)
  moreover have "2 powi (bitlen p - 1) / 2 powi bitlen q \<le> x" unfolding x
    using bitlen_powi [OF p] bitlen_powi [OF q] p q by (intro frac_le) auto
  moreover have "x < 2 powi bitlen p / 2 powi (bitlen q - 1)" unfolding x
    using bitlen_powi [OF p] bitlen_powi [OF q] p q by (intro frac_less) auto
  ultimately have "2 powi (e - 1) \<le> x" "x < 2 powi (e + 1)" by simp_all
  then show ?thesis by (auto simp: binade_def pq e_def [symmetric] Let_def)
qed

lemma ulp_pos [simp]: "0 < ulp x" by (simp add: ulp_def)

lemma ulp_divides:
  assumes "x \<noteq> 0" "\<bar>x\<bar> < 2 ^ 53"
  shows "\<exists>k. of_int n / ulp x = of_int k"
proof -
  have "(2 :: rat) powi binade \<bar>x\<bar> < 2 powi 53" using binade_bounds [of "\<bar>x\<bar>"] assms by (simp add: power_int_def)
  then have "binade \<bar>x\<bar> < 53" using power_int_increasing [of 53 "binade \<bar>x\<bar>" "2 :: rat"] by (meson not_le one_le_numeral)
  then have "max (binade \<bar>x\<bar> - 52) (- 1074) \<le> 0" by simp
  then obtain m where "max (binade \<bar>x\<bar> - 52) (- 1074) = - int m" by (metis nonpos_int_cases)
  then have "of_int n / ulp x = of_int (n * 2 ^ m)" by (simp add: ulp_def power_int_minus divide_inverse)
  then show ?thesis by blast
qed

text \<open>A number below an integer is not rounded above it, and the other way round; so integers are exact.\<close>

lemma to_f64_le:
  assumes "x \<le> of_int n" "\<bar>x\<bar> < 2 ^ 53"
  shows "to_f64 x \<le> of_int n"
proof (cases "x = 0")
  case False
  obtain k where k: "of_int n / ulp x = of_int k" using ulp_divides [OF False assms(2)] by blast
  then have "round_even (x / ulp x) \<le> k" using assms(1) by (intro round_even_le) (metis divide_right_mono less_imp_le ulp_pos)
  then have "of_int (round_even (x / ulp x)) * ulp x \<le> of_int k * ulp x" by (simp add: mult_right_mono less_imp_le)
  also have "of_int k * ulp x = of_int n" using k by (metis less_irrefl nonzero_divide_eq_eq ulp_pos)
  finally show ?thesis using False by (simp add: to_f64_def)
qed (use assms in \<open>simp add: to_f64_def\<close>)

lemma to_f64_ge:
  assumes "of_int n \<le> x" "\<bar>x\<bar> < 2 ^ 53"
  shows "of_int n \<le> to_f64 x"
proof (cases "x = 0")
  case False
  obtain k where k: "of_int n / ulp x = of_int k" using ulp_divides [OF False assms(2)] by blast
  then have "k \<le> round_even (x / ulp x)" using assms(1) by (intro round_even_ge) (metis divide_right_mono less_imp_le ulp_pos)
  then have "of_int k * ulp x \<le> of_int (round_even (x / ulp x)) * ulp x" by (simp add: mult_right_mono less_imp_le)
  moreover have "of_int k * ulp x = of_int n" using k by (metis less_irrefl nonzero_divide_eq_eq ulp_pos)
  ultimately show ?thesis using False by (simp add: to_f64_def)
qed (use assms in \<open>simp add: to_f64_def\<close>)

lemma to_f64_of_int [simp]: "\<bar>n\<bar> < 2 ^ 53 \<Longrightarrow> to_f64 (of_int n) = of_int n"
  by (intro antisym to_f64_le to_f64_ge) (simp_all flip: of_int_abs of_int_power)

lemma to_f64_of_nat [simp]: "n < 2 ^ 53 \<Longrightarrow> to_f64 (of_nat n) = of_nat n"
  using to_f64_of_int [of "int n"] by simp

section \<open>Channels\<close>

lemma round_away_between:
  assumes "of_int m \<le> x" "x \<le> of_int n" "0 \<le> m"
  shows "m \<le> round_away x" "round_away x \<le> n"
proof -
  have "(0 :: rat) \<le> of_int m" using assms(3) by simp
  then have pos: "0 \<le> x" using assms(1) by linarith
  then show "m \<le> round_away x" using assms(1) by (simp add: round_away_def le_floor_iff)
  have "x + 1 / 2 < of_int n + 1" using assms(2) by simp
  then have "\<lfloor>x + 1 / 2\<rfloor> < n + 1" by (metis floor_less_iff of_int_1 of_int_add)
  then show "round_away x \<le> n" using pos by (simp add: round_away_def)
qed

lemma as_u8_uint: "0 \<le> n \<Longrightarrow> n \<le> 255 \<Longrightarrow> uint (as_u8 n) = n"
  by (simp add: as_u8_def uint_word_of_int take_bit_int_eq_self)

lemma uint_byte: "0 \<le> uint (b :: byte)" "uint (b :: byte) \<le> 255"
  using uint_bounded [of b] by simp_all

lemma byte_difference_exact [simp]: "to_f64 (of_int (uint (b :: byte) - uint (a :: byte))) = of_int (uint b - uint a)"
proof (rule to_f64_of_int)
  have "\<bar>uint b - uint a\<bar> \<le> 255" using uint_byte [of a] uint_byte [of b] by linarith
  then show "\<bar>uint b - uint a\<bar> < 2 ^ 53" by simp
qed

text \<open>The value before the final rounding lies between the two ends, for a fraction between 0 and 1.\<close>

lemma blend_between:
  fixes a b :: int
  assumes "0 \<le> a" "a \<le> 255" "0 \<le> b" "b \<le> 255" "0 \<le> fr" "fr \<le> 1"
  shows "of_int (min a b) \<le> to_f64 (of_int a + to_f64 (of_int (b - a) * fr))"
    and "to_f64 (of_int a + to_f64 (of_int (b - a) * fr)) \<le> of_int (max a b)"
proof -
  define d where "d = b - a"
  define y where "y = (of_int d * fr :: rat)"
  have d: "\<bar>d\<bar> \<le> 255" using assms(1-4) by (simp add: d_def abs_le_iff)
  have y: "of_int (min 0 d) \<le> y" "y \<le> of_int (max 0 d)"
    using assms(5,6) mult_left_mono [of fr 1 "of_int d"] mult_left_mono_neg [of fr 1 "of_int d"]
    by (auto simp: y_def min_def max_def mult_nonneg_nonneg mult_nonpos_nonneg)
  have "- 255 \<le> (of_int (min 0 d) :: rat)" "(of_int (max 0 d) :: rat) \<le> 255" using d by (auto simp: abs_le_iff)
  then have small: "\<bar>y\<bar> < 2 ^ 53" using y by (simp add: abs_less_iff)
  have r: "of_int (min 0 d) \<le> to_f64 y" "to_f64 y \<le> of_int (max 0 d)" using to_f64_ge [OF y(1) small] to_f64_le [OF y(2) small] by simp_all
  have "(of_int a :: rat) + of_int (min 0 d) = of_int (min a b)" "(of_int a :: rat) + of_int (max 0 d) = of_int (max a b)"
    by (auto simp: d_def min_def max_def)
  then have s: "of_int (min a b) \<le> of_int a + to_f64 y" "of_int a + to_f64 y \<le> of_int (max a b)" using r by linarith+
  have "(0 :: rat) \<le> of_int (min a b)" "(of_int (max a b) :: rat) \<le> 255" using assms(1-4) by simp_all
  then have "0 \<le> of_int a + to_f64 y" "of_int a + to_f64 y \<le> 255" using s by linarith+
  then have "\<bar>of_int a + to_f64 y\<bar> < 2 ^ 53" by (simp add: abs_less_iff)
  then show "of_int (min a b) \<le> to_f64 (of_int a + to_f64 (of_int (b - a) * fr))"
      "to_f64 (of_int a + to_f64 (of_int (b - a) * fr)) \<le> of_int (max a b)"
    using to_f64_ge [OF s(1)] to_f64_le [OF s(2)] by (simp_all add: y_def d_def)
qed

lemma channel_exact_parts:
  "channel a b fr = as_u8 (round_away (to_f64 (of_int (uint a) + to_f64 (of_int (uint b - uint a) * fr))))"
  unfolding channel_def u8_f64_def of_int_diff [symmetric] byte_difference_exact ..

lemma channel_between:
  assumes "0 \<le> fr" "fr \<le> 1"
  shows "min a b \<le> channel a b fr" "channel a b fr \<le> max a b"
proof -
  define z where "z = to_f64 (of_int (uint a) + to_f64 (of_int (uint b - uint a) * fr))"
  have z: "of_int (min (uint a) (uint b)) \<le> z" "z \<le> of_int (max (uint a) (uint b))"
    using blend_between [OF uint_byte uint_byte assms] unfolding z_def by blast+
  have q: "min (uint a) (uint b) \<le> round_away z" "round_away z \<le> max (uint a) (uint b)"
    using round_away_between [OF z] uint_byte [of a] uint_byte [of b] by simp_all
  then have "0 \<le> round_away z" "round_away z \<le> 255" using uint_byte [of a] uint_byte [of b] by linarith+
  then have "uint (channel a b fr) = round_away z" unfolding channel_exact_parts z_def [symmetric] by (rule as_u8_uint)
  then show "min a b \<le> channel a b fr" "channel a b fr \<le> max a b"
    using q by (auto simp: word_le_def min_def max_def split: if_splits)
qed

lemma as_u8_exact: "as_u8 (round_away (of_int (uint a))) = a"
proof -
  have "round_away (of_int n) = n" if "0 \<le> n" for n
    using round_away_between [of n "of_int n" n] that by simp
  from this [OF uint_byte(1)] show ?thesis using uint_byte [of a] by (simp only: as_u8_def) simp
qed

lemma channel_ends: "channel a b 0 = a" "channel a b 1 = b"
proof -
  have e: "to_f64 (of_int (uint c)) = of_int (uint c)" for c :: byte using uint_byte [of c] by (intro to_f64_of_int) (simp add: abs_less_iff)
  have z: "to_f64 0 = 0" by (simp add: to_f64_def)
  show "channel a b 0 = a" unfolding channel_exact_parts mult_zero_right z add_0_right e by (rule as_u8_exact)
  have "(of_int (uint a) :: rat) + of_int (uint b - uint a) = of_int (uint b)" by (simp flip: of_int_add)
  then show "channel a b 1 = b" unfolding channel_exact_parts mult_1_right byte_difference_exact by (simp only: e as_u8_exact)
qed

section \<open>Positions\<close>

fun colour_between :: "rgb \<Rightarrow> rgb \<Rightarrow> rgb \<Rightarrow> bool" where
  "colour_between (Rgb a0 a1 a2) (Rgb b0 b1 b2) (Rgb c0 c1 c2) \<longleftrightarrow>
     min a0 b0 \<le> c0 \<and> c0 \<le> max a0 b0 \<and> min a1 b1 \<le> c1 \<and> c1 \<le> max a1 b1 \<and> min a2 b2 \<le> c2 \<and> c2 \<le> max a2 b2"

lemma mix_between: "0 \<le> fr \<Longrightarrow> fr \<le> 1 \<Longrightarrow> colour_between a b (mix a b fr)"
  by (cases a; cases b) (simp add: channel_between [simplified])

lemma mix_ends: "mix a b 0 = a" "mix a b 1 = b"
  by (cases a; cases b; simp add: channel_ends)+

lemma colour_between_refl [simp]: "colour_between a a a" by (cases a) simp

lemma to_f64_unit:
  assumes "0 \<le> x" "x \<le> of_nat n" "n < 2 ^ 53"
  shows "0 \<le> to_f64 x" "to_f64 x \<le> of_nat n"
proof -
  have "(of_nat n :: rat) < of_nat (2 ^ 53)" using assms(3) by (simp only: of_nat_less_iff)
  then have "\<bar>x\<bar> < 2 ^ 53" using assms(1,2) by simp
  then show "0 \<le> to_f64 x" "to_f64 x \<le> of_nat n" using to_f64_ge [of 0 x] to_f64_le [of x "int n"] assms by simp_all
qed

text \<open>The piece a position falls into and the fraction within it.\<close>

lemma piece:
  assumes "2 \<le> n" "n < 2 ^ 53" "0 \<le> t" "t \<le> 1"
  defines "scaled \<equiv> to_f64 (t * to_f64 (of_nat (n - 1)))"
  defines "idx \<equiv> min (nat \<lfloor>scaled\<rfloor>) (n - 2)"
  shows "idx + 1 < n" "0 \<le> to_f64 (scaled - to_f64 (of_nat idx))" "to_f64 (scaled - to_f64 (of_nat idx)) \<le> 1"
    and "t = 0 \<Longrightarrow> idx = 0 \<and> scaled - to_f64 (of_nat idx) = 0"
    and "t = 1 \<Longrightarrow> idx = n - 2 \<and> scaled - to_f64 (of_nat idx) = 1"
proof -
  have e: "to_f64 (of_nat (n - 1)) = of_nat (n - 1)" "to_f64 (of_nat idx) = of_nat idx"
    using assms(1,2) by (intro to_f64_of_nat; simp add: idx_def)+
  have "0 \<le> t * of_nat (n - 1)" "t * of_nat (n - 1) \<le> of_nat (n - 1)"
    using assms(3,4) by (simp_all add: mult_left_le_one_le)
  then have s: "0 \<le> scaled" "scaled \<le> of_nat (n - 1)" using to_f64_unit [of "t * of_nat (n - 1)" "n - 1"] assms(2) e by (simp_all add: scaled_def)
  then have f: "0 \<le> \<lfloor>scaled\<rfloor>" "of_int \<lfloor>scaled\<rfloor> \<le> scaled" "scaled < of_int \<lfloor>scaled\<rfloor> + 1" using floor_correct [of scaled] by simp_all
  show "idx + 1 < n" using assms(1) by (simp add: idx_def)
  have "int idx \<le> \<lfloor>scaled\<rfloor>" using f(1) by (auto simp: idx_def min_def)
  then have "of_nat idx \<le> scaled" by (simp add: le_floor_iff)
  moreover have "scaled \<le> of_nat idx + 1"
  proof (cases "nat \<lfloor>scaled\<rfloor> \<le> n - 2")
    case True
    then have "\<lfloor>scaled\<rfloor> = int idx" using f(1) by (simp add: idx_def)
    then have "of_int \<lfloor>scaled\<rfloor> = (of_nat idx :: rat)" by simp
    then show ?thesis using f(3) by linarith
  next
    case False
    then have "idx = n - 2" by (simp add: idx_def)
    then show ?thesis using s(2) assms(1) by (simp add: of_nat_diff)
  qed
  ultimately show "0 \<le> to_f64 (scaled - to_f64 (of_nat idx))" "to_f64 (scaled - to_f64 (of_nat idx)) \<le> 1"
    using to_f64_unit [of "scaled - of_nat idx" 1] e by simp_all
  show "idx = 0 \<and> scaled - to_f64 (of_nat idx) = 0" if "t = 0" using that by (simp add: idx_def scaled_def to_f64_def)
  show "idx = n - 2 \<and> scaled - to_f64 (of_nat idx) = 1" if "t = 1"
    using that e assms(1) by (simp add: idx_def scaled_def of_nat_diff)
qed

lemma interpolate_returns:
  assumes "stops \<noteq> []" "length stops < 2 ^ 53" "0 \<le> t" "t \<le> 1"
  shows "\<exists>c i. interpolate stops t = Returned c \<and> i < length stops \<and> colour_between (stops ! i) (stops ! min (i + 1) (length stops - 1)) c
    \<and> (t = 0 \<longrightarrow> c = hd stops) \<and> (t = 1 \<longrightarrow> c = last stops)"
proof (cases "length stops = 1")
  case True
  then show ?thesis by (auto simp: interpolate_def length_Suc_conv)
next
  case False
  then have n: "2 \<le> length stops" using assms(1) by (cases stops; cases "tl stops") auto
  define scaled where "scaled = to_f64 (t * to_f64 (of_nat (length stops - 1)))"
  define idx where "idx = min (nat \<lfloor>scaled\<rfloor>) (length stops - 2)"
  define fr where "fr = to_f64 (scaled - to_f64 (of_nat idx))"
  note p = piece [OF n assms(2,3,4), folded scaled_def, folded idx_def, folded fr_def]
  have "clamp_unit t = t" using assms(3,4) by (simp add: clamp_unit_def)
  then have "interpolate stops t = Returned (mix (stops ! idx) (stops ! (idx + 1)) fr)"
    using n by (simp only: interpolate_def Let_def fr_def idx_def scaled_def) simp
  moreover have "colour_between (stops ! idx) (stops ! (idx + 1)) (mix (stops ! idx) (stops ! (idx + 1)) fr)"
    using p(2,3) by (rule mix_between)
  moreover have "t = 0 \<longrightarrow> idx = 0 \<and> fr = 0" using p(4) by (auto simp: fr_def to_f64_def [of 0])
  moreover have "t = 1 \<longrightarrow> idx + 1 = length stops - 1 \<and> fr = 1" using p(5) n to_f64_of_nat [of 1] by (auto simp: fr_def)
  ultimately show ?thesis
    using p(1) assms(1) by (intro exI [of _ "mix (stops ! idx) (stops ! (idx + 1)) fr"] exI [of _ idx] conjI)
      (auto simp: mix_ends hd_conv_nth last_conv_nth min_absorb1)
qed

lemma gradient_t_range:
  assumes "pos < tot" "tot < 2 ^ 53"
  shows "0 \<le> gradient_t pos tot" "gradient_t pos tot \<le> 1" "pos = 0 \<Longrightarrow> gradient_t pos tot = 0"
    and "1 < tot \<Longrightarrow> pos = tot - 1 \<Longrightarrow> gradient_t pos tot = 1"
proof -
  have e: "to_f64 (of_nat pos) = of_nat pos" "to_f64 (of_nat (tot - 1)) = of_nat (tot - 1)"
    using assms by (intro to_f64_of_nat; simp)+
  have "gradient_t pos tot = to_f64 (of_nat pos / of_nat (tot - 1))" using e assms by (auto simp: gradient_t_def to_f64_def)
  moreover have "0 \<le> (of_nat pos / of_nat (tot - 1) :: rat)" "(of_nat pos / of_nat (tot - 1) :: rat) \<le> 1"
    using assms by (auto simp: divide_le_eq_1)
  ultimately show "0 \<le> gradient_t pos tot" "gradient_t pos tot \<le> 1" "pos = 0 \<Longrightarrow> gradient_t pos tot = 0"
      "1 < tot \<Longrightarrow> pos = tot - 1 \<Longrightarrow> gradient_t pos tot = 1"
    using to_f64_unit [of "of_nat pos / of_nat (tot - 1)" 1] to_f64_of_nat [of 1] by (simp_all add: to_f64_def [of 0])
qed

section \<open>Properties\<close>

lemma gradient_at_colour:
  assumes "stops \<noteq> []" "length stops < 2 ^ 53" "pos < tot" "tot < 2 ^ 53"
  shows "interpolate stops (gradient_t pos tot) = Returned (gradient_at stops pos tot)
    \<and> (\<exists>i < length stops. colour_between (stops ! i) (stops ! min (i + 1) (length stops - 1)) (gradient_at stops pos tot))
    \<and> (pos = 0 \<longrightarrow> gradient_at stops pos tot = hd stops) \<and> (1 < tot \<longrightarrow> pos = tot - 1 \<longrightarrow> gradient_at stops pos tot = last stops)"
proof -
  note t = gradient_t_range [OF assms(3,4)]
  show ?thesis using interpolate_returns [OF assms(1,2) t(1,2)] t(3,4) by (auto simp: gradient_at_def)
qed

lemma gradient_stops_nonempty: "gradient_stops args = Returned stops \<Longrightarrow> stops \<noteq> []"
  by (auto simp: gradient_stops_def run_bind_def split: run.splits if_splits)



lemma gradient_middle: "gradient_at [Rgb 255 85 85, Rgb 85 85 255] 1 3 = Rgb 170 85 170"
  by code_simp

end
