(* ===== verification/Error_Texts.thy ===== *)
theory Error_Texts
  imports Varint Handshake Compression Dns_Cache
begin

text \<open>
  The texts of the errors, the \<open>Display\<close> implementations of \<open>src/protocol/\<close> and \<open>src/net/dns_cache.rs\<close>. They
  end up in log lines and, for frames, in the error a reader reports.
\<close>

fun show_var_int_error :: "var_int_error \<Rightarrow> str" where
  "show_var_int_error Incomplete = lit ''incomplete VarInt''"
| "show_var_int_error TooBig = lit ''VarInt too big''"

fun show_frame_length_out_of_range :: "frame_length_out_of_range \<Rightarrow> str" where
  "show_frame_length_out_of_range (FrameLengthOutOfRange n) =
     lit ''frame length '' @ show_int (sint n) @ lit '' out of range (max '' @ show_int (sint MAX_PACKET_BYTES) @ lit '')''"

fun show_string_too_long :: "string_too_long \<Rightarrow> str" where
  "show_string_too_long (StringTooLong n) = lit ''String too long: '' @ show_int (sint n)"

fun show_handshake_error :: "(io_error \<Rightarrow> str) \<Rightarrow> handshake_error \<Rightarrow> str" where
  "show_handshake_error io (Io e) = lit ''io error: '' @ io e"
| "show_handshake_error io Eof = lit ''connection closed before handshake completed''"
| "show_handshake_error io (Malformed reason) = lit ''malformed handshake: '' @ reason"

fun show_compression_error :: "('e \<Rightarrow> str) \<Rightarrow> 'e compression_error \<Rightarrow> str" where
  "show_compression_error zlib (DataLengthOutOfRange n) =
     lit ''compressed data length '' @ show_int (sint n) @ lit '' out of range (max '' @ show_int (sint MAX_PACKET_BYTES) @ lit '')''"
| "show_compression_error zlib (CompressedPayloadOutOfRange n) = lit ''compressed payload length '' @ show_int (sint n) @ lit '' out of range''"
| "show_compression_error zlib (Deflate e) = lit ''zlib error: '' @ zlib e"
| "show_compression_error zlib Truncated = lit ''truncated compressed frame''"

fun show_dns_resolve_error :: "dns_resolve_error \<Rightarrow> str" where
  "show_dns_resolve_error (DnsResolveError host) = lit ''failed to resolve host '' @ [39] @ host @ [39]"

lemma show_sint_inj: "show_int (sint (m :: i32)) = show_int (sint n) \<Longrightarrow> m = n"
proof -
  assume e: "show_int (sint m) = show_int (sint n)"
  have r: "- (2 ^ 63) \<le> sint k \<and> sint k \<le> 2 ^ 63 - 1" for k :: i32
    using sint_ge [of k] sint_lt [of k] by simp
  have "parse_signed (- (2 ^ 63)) (2 ^ 63 - 1) (show_int (sint m)) = Some (sint m)" "parse_signed (- (2 ^ 63)) (2 ^ 63 - 1) (show_int (sint n)) = Some (sint n)"
    using parse_signed_show_int r by blast+
  then have "sint m = sint n" using e by simp
  then have "word_of_int (sint m) = (word_of_int (sint n) :: i32)" by simp
  then show "m = n" by simp
qed

text \<open>A log line tells errors apart: the text of an error determines the error, as far as the texts of the input
  and output errors and of the compression library do.\<close>

theorem error_texts_distinguish:
  "(show_var_int_error a = show_var_int_error b \<longrightarrow> a = b)
   \<and> (show_frame_length_out_of_range l = show_frame_length_out_of_range m \<longrightarrow> l = m)
   \<and> (show_string_too_long s = show_string_too_long t \<longrightarrow> s = t)
   \<and> (inj io \<longrightarrow> show_handshake_error io h = show_handshake_error io k \<longrightarrow> h = k)
   \<and> (inj zlib \<longrightarrow> show_compression_error zlib c = show_compression_error zlib d \<longrightarrow> c = d)
   \<and> (show_dns_resolve_error e = show_dns_resolve_error f \<longrightarrow> e = f)"
proof (intro conjI impI)
  show "show_var_int_error a = show_var_int_error b \<Longrightarrow> a = b" by (cases a; cases b) (simp_all add: lit_def)
  show "show_frame_length_out_of_range l = show_frame_length_out_of_range m \<Longrightarrow> l = m" by (cases l; cases m) (auto simp: show_sint_inj)
  show "show_string_too_long s = show_string_too_long t \<Longrightarrow> s = t" by (cases s; cases t) (auto simp: show_sint_inj)
  show "inj io \<Longrightarrow> show_handshake_error io h = show_handshake_error io k \<Longrightarrow> h = k" by (cases h; cases k) (auto simp: lit_def inj_eq)
  show "inj zlib \<Longrightarrow> show_compression_error zlib c = show_compression_error zlib d \<Longrightarrow> c = d"
    by (cases c; cases d) (auto simp: lit_def inj_eq show_sint_inj)
  show "show_dns_resolve_error e = show_dns_resolve_error f \<Longrightarrow> e = f" by (cases e; cases f) simp
qed

end
