(* ===== verification/Log_Files.thy ===== *)
theory Log_Files
  imports Rust_Std "HOL-Library.Sublist"
begin

text \<open>
  Logging, \<open>src/logging.rs\<close>: the level filter, the choice of colours, the bounded console queue, the
  rolling file writer and the archiving of the previous run's log.

  A log directory is a map from file names to contents with modification times. The gzip encoder and
  the colouring of a line (the theory Log\_Colours) are parameters. The console's bounded channel
  is a list. What the operating system does at a roll is an argument.
\<close>

section \<open>Levels and colours\<close>

datatype level_filter = Level_Trace | Level_Debug | Level_Info | Level_Warn | Level_Error | Level_Off

definition to_ascii_uppercase :: "nat \<Rightarrow> nat" where
  "to_ascii_uppercase c = (if 97 \<le> c \<and> c \<le> 122 then c - 32 else c)"

definition to_uppercase :: "(str \<Rightarrow> str) \<Rightarrow> str \<Rightarrow> str" where
  "to_uppercase uc s = (if list_all is_ascii s then map to_ascii_uppercase s else uc s)"

definition level_filter_from_str :: "(str \<Rightarrow> str) \<Rightarrow> str \<Rightarrow> level_filter" where
  "level_filter_from_str uc level =
     (let l = to_uppercase uc (trim level) in
      if l = lit ''TRACE'' then Level_Trace
      else if l = lit ''DEBUG'' then Level_Debug
      else if l = lit ''WARN'' then Level_Warn
      else if l = lit ''ERROR'' then Level_Error
      else if l = lit ''OFF'' then Level_Off
      else Level_Info)"

fun level_name :: "level_filter \<Rightarrow> str" where
  "level_name Level_Trace = lit ''TRACE''"
| "level_name Level_Debug = lit ''DEBUG''"
| "level_name Level_Warn = lit ''WARN''"
| "level_name Level_Error = lit ''ERROR''"
| "level_name Level_Off = lit ''OFF''"
| "level_name Level_Info = lit ''INFO''"

definition is_truthy :: "str option \<Rightarrow> bool" where
  "is_truthy v = (case v of Some s \<Rightarrow> s \<noteq> [] \<and> s \<noteq> lit ''0'' \<and> \<not> eq_ignore_ascii_case s (lit ''false'') | None \<Rightarrow> False)"

definition detect_color_support :: "(str \<Rightarrow> str option) \<Rightarrow> bool \<Rightarrow> bool" where
  "detect_color_support env stdout_tty \<longleftrightarrow>
     (if env (lit ''NO_COLOR'') \<noteq> None then False
      else if is_truthy (env (lit ''FORCE_COLOR'')) \<or> is_truthy (env (lit ''CLICOLOR_FORCE'')) then True
      else if stdout_tty then True
      else (case env (lit ''TERM'') of Some t \<Rightarrow> t \<noteq> lit ''dumb'' | None \<Rightarrow> False))"

section \<open>The console queue\<close>

definition MAX_QUEUED_LINES :: nat where "MAX_QUEUED_LINES = 10000"

datatype console_output = Log_Line str | Drop_Notice nat

record console_writer =
  cw_queue :: "str list"
  cw_dropped :: nat
  cw_printed :: "console_output list"
  cw_use_color :: bool

text \<open>The lines of a text: what \<open>split_inclusive\<close> yields, without the final line feeds, the empty ones
  left out.\<close>

definition lines_of :: "str \<Rightarrow> str list" where
  "lines_of text = filter (\<lambda>l. l \<noteq> []) (split_on 10 text)"

definition console_send :: "str \<Rightarrow> console_writer \<Rightarrow> console_writer" where
  "console_send line w =
     (if length (cw_queue w) < MAX_QUEUED_LINES then w\<lparr>cw_queue := cw_queue w @ [line]\<rparr>
      else w\<lparr>cw_dropped := cw_dropped w + 1\<rparr>)"

definition console_write :: "(str \<Rightarrow> str) \<Rightarrow> bytes \<Rightarrow> console_writer \<Rightarrow> nat \<times> console_writer" where
  "console_write colorize buf w =
     (length buf, fold (\<lambda>line. console_send (if cw_use_color w then colorize line else line)) (lines_of (from_utf8_lossy buf)) w)"

text \<open>One turn of the writer thread.\<close>

definition console_drain :: "console_writer \<Rightarrow> console_writer" where
  "console_drain w =
     (case cw_queue w of
        [] \<Rightarrow> w
      | line # rest \<Rightarrow>
          let out = cw_printed w @ [Log_Line line] in
          w\<lparr>cw_queue := rest, cw_dropped := 0,
            cw_printed := if 0 < cw_dropped w then out @ [Drop_Notice (cw_dropped w)] else out\<rparr>)"

section \<open>The rolling file\<close>

definition MAX_LINES_PER_FILE :: int where "MAX_LINES_PER_FILE = 10000"

definition MAX_ROLLED_FILES :: nat where "MAX_ROLLED_FILES = 7"

text \<open>\<open>rol_rolled\<close> holds the files latest.N.log.gz.\<close>

record rolling_log =
  rol_latest :: bytes
  rol_rolled :: "nat \<Rightarrow> bytes option"
  rol_line_count :: int

text \<open>Moving latest.i to latest.(i+1), from the top down; the loop starts at \<open>MAX_ROLLED_FILES - 1\<close>, so
  the branch that removes a file is never taken and the last file is overwritten by the rename.\<close>

definition shift_one :: "(nat \<Rightarrow> bool) \<Rightarrow> nat \<Rightarrow> (nat \<Rightarrow> bytes option) \<Rightarrow> (nat \<Rightarrow> bytes option)" where
  "shift_one rename_ok i fs =
     (case fs i of
        None \<Rightarrow> fs
      | Some c \<Rightarrow>
          if MAX_ROLLED_FILES < i + 1 then fs(i := None)
          else if rename_ok i then fs(i := None, i + 1 := Some c) else fs)"

definition shift_rolled :: "(nat \<Rightarrow> bool) \<Rightarrow> (nat \<Rightarrow> bytes option) \<Rightarrow> (nat \<Rightarrow> bytes option)" where
  "shift_rolled rename_ok fs = fold (shift_one rename_ok) (rev [1..<MAX_ROLLED_FILES]) fs"

datatype roll_outcome = Rolled | Not_Read | Cut bytes | Not_Reopened

definition roll :: "(bytes \<Rightarrow> bytes) \<Rightarrow> (nat \<Rightarrow> bool) \<Rightarrow> roll_outcome \<Rightarrow> rolling_log \<Rightarrow> bool \<times> rolling_log" where
  "roll gz rename_ok outcome l =
     (let fs = shift_rolled rename_ok (rol_rolled l) in
      case outcome of
        Rolled \<Rightarrow> (True, l\<lparr>rol_rolled := fs(1 := Some (gz (rol_latest l))), rol_latest := []\<rparr>)
      | Not_Read \<Rightarrow> (False, l\<lparr>rol_rolled := fs\<rparr>)
      | Cut c \<Rightarrow> (False, l\<lparr>rol_rolled := fs(1 := Some c)\<rparr>)
      | Not_Reopened \<Rightarrow> (False, l\<lparr>rol_rolled := fs(1 := Some (gz (rol_latest l)))\<rparr>))"

definition newlines :: "bytes \<Rightarrow> nat" where
  "newlines buf = length (filter (\<lambda>b. b = 10) buf)"

definition rolling_write ::
  "(bytes \<Rightarrow> bytes) \<Rightarrow> (nat \<Rightarrow> bool) \<Rightarrow> roll_outcome \<Rightarrow> bytes \<Rightarrow> rolling_log \<Rightarrow> bool \<times> rolling_log" where
  "rolling_write gz rename_ok outcome buf l =
     (let l = l\<lparr>rol_latest := rol_latest l @ buf\<rparr>; n = int (newlines buf) in
      if 0 < n then
        let new_total = rol_line_count l + n in
        if MAX_LINES_PER_FILE \<le> new_total then roll gz rename_ok outcome (l\<lparr>rol_line_count := 0\<rparr>)
        else (True, l\<lparr>rol_line_count := new_total\<rparr>)
      else (True, l))"

section \<open>Archives of earlier runs\<close>

definition MAX_ARCHIVED_LOGS :: nat where "MAX_ARCHIVED_LOGS = 7"

record log_file =
  lf_content :: bytes
  lf_modified :: int

type_synonym log_dir = "(str, log_file) hmap"

definition archive_name :: "str \<Rightarrow> nat \<Rightarrow> str" where
  "archive_name timestamp k =
     (if k = 0 then timestamp @ lit ''.log.gz'' else timestamp @ lit ''-'' @ show_nat k @ lit ''.log.gz'')"

definition ends_with :: "str \<Rightarrow> str \<Rightarrow> bool" where
  "ends_with s t \<longleftrightarrow> length t \<le> length s \<and> drop (length s - length t) s = t"

definition is_archive :: "str \<Rightarrow> bool" where
  "is_archive name \<longleftrightarrow> ends_with name (lit ''.log.gz'') \<and> take 7 name \<noteq> lit ''latest.''"

text \<open>The archives beyond the newest seven, newest first by modification time (a stable sort of the
  directory's order).\<close>

definition old_archives :: "log_dir \<Rightarrow> str list" where
  "old_archives d = drop MAX_ARCHIVED_LOGS
     (map fst (sort_key (\<lambda>(_, f). - lf_modified f) (filter (\<lambda>(name, _). is_archive name) d)))"

definition prune_old_archives :: "(str \<Rightarrow> bool) \<Rightarrow> log_dir \<Rightarrow> log_dir" where
  "prune_old_archives remove_ok d = fold (\<lambda>name d. if remove_ok name then hm_remove name d else d) (old_archives d) d"

lemma show_nat_inj: "show_nat i = show_nat j \<Longrightarrow> i = j"
  by (metis digits_value_show_nat)

lemma archive_name_inj: "archive_name ts i = archive_name ts j \<Longrightarrow> i = j"
  by (auto simp: archive_name_def lit_def dest: show_nat_inj split: if_splits)

lemma finite_taken: "finite {j. k \<le> j \<and> hm_contains d (archive_name ts j)}"
proof -
  have "inj_on (archive_name ts) {j. k \<le> j \<and> hm_contains d (archive_name ts j)}"
    by (auto intro: inj_onI archive_name_inj)
  moreover have "archive_name ts ` {j. k \<le> j \<and> hm_contains d (archive_name ts j)} \<subseteq> dom (map_of d)"
    by (auto simp: hm_contains_def hm_get_def)
  ultimately show ?thesis by (meson finite_dom_map_of finite_imageD finite_subset)
qed

text \<open>The loop that looks for an unused archive name ends because a directory is finite.\<close>

function free_archive :: "log_dir \<Rightarrow> str \<Rightarrow> nat \<Rightarrow> str" where
  "free_archive d timestamp k =
     (if hm_contains d (archive_name timestamp k) then free_archive d timestamp (Suc k) else archive_name timestamp k)"
  by pat_completeness auto
termination
proof (relation "measure (\<lambda>(d, ts, k). card {j. k \<le> j \<and> hm_contains d (archive_name ts j)})", goal_cases)
  case (2 d ts k)
  let ?A = "{j. Suc k \<le> j \<and> hm_contains d (archive_name ts j)}" and ?B = "{j. k \<le> j \<and> hm_contains d (archive_name ts j)}"
  have "?A \<subseteq> ?B" "k \<in> ?B" "k \<notin> ?A" using 2 by auto
  then have "?A \<subset> ?B" by blast
  then show ?case by (simp add: psubset_card_mono [OF finite_taken])
qed simp

declare free_archive.simps [simp del]

text \<open>\<open>timestamp\<close> formats the modification time of the old log in local time; the three error values of
  the operating system are whether the archive is written in full, the old log removed and files
  deleted.\<close>

definition archive_previous_log ::
  "(bytes \<Rightarrow> bytes) \<Rightarrow> (int \<Rightarrow> str) \<Rightarrow> int \<Rightarrow> (bytes option) \<Rightarrow> (str \<Rightarrow> bool) \<Rightarrow> log_dir \<Rightarrow> bool \<times> log_dir" where
  "archive_previous_log gz timestamp now torn remove_ok d =
     (let latest = lit ''latest.log'' in
      case hm_get d latest of
        None \<Rightarrow> (True, prune_old_archives remove_ok d)
      | Some f \<Rightarrow>
          if lf_content f = [] then (True, prune_old_archives remove_ok d)
          else
            let archive = free_archive d (timestamp (lf_modified f)) 0 in
            case torn of
              Some c \<Rightarrow> (False, hm_insert archive \<lparr>lf_content = c, lf_modified = now\<rparr> d)
            | None \<Rightarrow>
                let d = hm_insert archive \<lparr>lf_content = gz (lf_content f), lf_modified = now\<rparr> d in
                if \<not> remove_ok latest then (False, d)
                else (True, prune_old_archives remove_ok (hm_remove latest d)))"

text \<open>Opening the file of this run: an existing one is kept and appended to.\<close>

definition rolling_open :: "int \<Rightarrow> bool \<Rightarrow> log_dir \<Rightarrow> rolling_log option \<times> log_dir" where
  "rolling_open now open_ok d =
     (if \<not> open_ok then (None, d)
      else
        let latest = hm_get d (lit ''latest.log'');
            content = (case latest of Some f \<Rightarrow> lf_content f | None \<Rightarrow> []) in
        (Some \<lparr>rol_latest = content, rol_rolled = (\<lambda>i. map_option lf_content (hm_get d (lit ''latest.'' @ show_nat i @ lit ''.log.gz''))), rol_line_count = 0\<rparr>,
         if latest = None then hm_insert (lit ''latest.log'') \<lparr>lf_content = [], lf_modified = now\<rparr> d else d))"

definition log_init ::
  "(bytes \<Rightarrow> bytes) \<Rightarrow> (int \<Rightarrow> str) \<Rightarrow> int \<Rightarrow> bytes option \<Rightarrow> (str \<Rightarrow> bool) \<Rightarrow> bool \<Rightarrow> (str \<Rightarrow> str) \<Rightarrow> str \<Rightarrow> log_dir
     \<Rightarrow> (rolling_log \<times> level_filter) option \<times> log_dir" where
  "log_init gz timestamp now torn remove_ok open_ok uc initial_level d =
     (case archive_previous_log gz timestamp now torn remove_ok d of
        (False, d) \<Rightarrow> (None, d)
      | (True, d) \<Rightarrow>
          (case rolling_open now open_ok d of
             (None, d) \<Rightarrow> (None, d)
           | (Some l, d) \<Rightarrow> (Some (l, level_filter_from_str uc initial_level), d)))"

section \<open>Facts on the console queue\<close>

fun reported :: "console_output list \<Rightarrow> nat" where
  "reported [] = 0"
| "reported (Log_Line _ # os) = reported os"
| "reported (Drop_Notice n # os) = n + reported os"

fun log_lines :: "console_output list \<Rightarrow> str list" where
  "log_lines [] = []"
| "log_lines (Log_Line l # os) = l # log_lines os"
| "log_lines (Drop_Notice n # os) = log_lines os"

lemma reported_append [simp]: "reported (a @ b) = reported a + reported b"
  by (induction a rule: reported.induct) auto

lemma log_lines_append [simp]: "log_lines (a @ b) = log_lines a @ log_lines b"
  by (induction a rule: log_lines.induct) auto

text \<open>What the queue promises about the lines offered so far.\<close>

definition console_ok :: "str list \<Rightarrow> console_writer \<Rightarrow> bool" where
  "console_ok offered w \<longleftrightarrow> length (cw_queue w) \<le> MAX_QUEUED_LINES
     \<and> subseq (log_lines (cw_printed w) @ cw_queue w) offered
     \<and> length offered = length (log_lines (cw_printed w)) + length (cw_queue w) + cw_dropped w + reported (cw_printed w)"

lemma console_send_ok: "console_ok offered w \<Longrightarrow> console_ok (offered @ [l]) (console_send l w)"
  by (auto simp: console_ok_def console_send_def intro: list_emb_append_mono subseq_order.trans simp flip: append_assoc)

lemma console_sends_ok: "console_ok offered w \<Longrightarrow> console_ok (offered @ map f ls) (fold (\<lambda>l. console_send (f l)) ls w)"
proof (induction ls arbitrary: offered w)
  case (Cons l ls)
  show ?case using Cons.IH [OF console_send_ok [OF Cons.prems, of "f l"]] by simp
qed simp

lemma console_drain_ok: "console_ok offered w \<Longrightarrow> console_ok offered (console_drain w)"
  by (auto simp: console_ok_def console_drain_def Let_def split: list.splits)

section \<open>Facts on rolling\<close>

text \<open>The rolled files stand without a gap from latest.1 on.\<close>

definition contiguous :: "(nat \<Rightarrow> bytes option) \<Rightarrow> bool" where
  "contiguous fs \<longleftrightarrow> (\<forall>i \<ge> 1. fs (i + 1) \<noteq> None \<longrightarrow> fs i \<noteq> None)"

definition shifted :: "nat \<Rightarrow> (nat \<Rightarrow> bytes option) \<Rightarrow> (nat \<Rightarrow> bytes option)" where
  "shifted n fs j = (if 2 \<le> j \<and> j \<le> n then fs (j - 1) else if j = 1 \<and> 2 \<le> n then None else fs j)"

lemma shifted_Suc_None: "1 \<le> n \<Longrightarrow> fs n = None \<Longrightarrow> fs (Suc n) = None \<Longrightarrow> shifted n fs = shifted (Suc n) fs"
  by (cases "n = 1"; rule ext) (auto simp: shifted_def le_Suc_eq numeral_2_eq_2)

lemma shifted_Suc_Some: "1 \<le> n \<Longrightarrow> fs n = Some c \<Longrightarrow> shifted n (fs(n := None, Suc n := Some c)) = shifted (Suc n) fs"
  by (rule ext) (auto simp: shifted_def le_Suc_eq numeral_2_eq_2)

lemma shift_fold:
  assumes "1 \<le> n" "n \<le> MAX_ROLLED_FILES" "\<forall>i \<ge> 1. i < n \<longrightarrow> fs (i + 1) \<noteq> None \<longrightarrow> fs i \<noteq> None"
  shows "fold (shift_one (\<lambda>_. True)) (rev [1..<n]) fs = shifted n fs"
  using assms
proof (induction n arbitrary: fs rule: nat_induct_at_least)
  case base
  then show ?case by (auto simp: shifted_def fun_eq_iff)
next
  case (Suc n)
  let ?s = "shift_one (\<lambda>_. True) n fs"
  have s: "?s = (case fs n of None \<Rightarrow> fs | Some c \<Rightarrow> fs(n := None, Suc n := Some c))"
    using Suc.prems(1) by (simp add: shift_one_def split: option.split)
  have gap: "\<forall>i \<ge> 1. i < n \<longrightarrow> ?s (i + 1) \<noteq> None \<longrightarrow> ?s i \<noteq> None"
    using Suc.prems(2) by (auto simp: s split: option.split)
  have top: "fs n = None \<Longrightarrow> fs (Suc n) = None" using Suc.prems(2) Suc.hyps by auto
  have "fold (shift_one (\<lambda>_. True)) (rev [1..<Suc n]) fs = fold (shift_one (\<lambda>_. True)) (rev [1..<n]) ?s"
    using Suc.hyps by simp
  also have "\<dots> = shifted n ?s"
    using Suc.prems(1) gap by (intro Suc.IH) simp_all
  also have "\<dots> = shifted (Suc n) fs"
  proof (cases "fs n")
    case None
    then show ?thesis using Suc.hyps top by (simp add: s shifted_Suc_None)
  next
    case (Some c)
    then show ?thesis using Suc.hyps by (simp add: s shifted_Suc_Some)
  qed
  finally show ?case .
qed

lemma shift_rolled_spec:
  "contiguous fs \<Longrightarrow> shift_rolled (\<lambda>_. True) fs = (\<lambda>j. if 2 \<le> j \<and> j \<le> MAX_ROLLED_FILES then fs (j - 1) else if j = 1 then None else fs j)"
proof -
  assume "contiguous fs"
  then have "shift_rolled (\<lambda>_. True) fs = shifted MAX_ROLLED_FILES fs"
    unfolding shift_rolled_def by (intro shift_fold) (simp_all add: contiguous_def, simp add: MAX_ROLLED_FILES_def)
  then show ?thesis by (simp add: shifted_def fun_eq_iff MAX_ROLLED_FILES_def)
qed

text \<open>What the files of a log hold, oldest first.\<close>

definition file_text :: "(bytes \<Rightarrow> bytes) \<Rightarrow> bytes option \<Rightarrow> bytes" where
  "file_text gunzip c = (case c of None \<Rightarrow> [] | Some b \<Rightarrow> gunzip b)"

definition log_text :: "(bytes \<Rightarrow> bytes) \<Rightarrow> rolling_log \<Rightarrow> bytes" where
  "log_text gunzip l = concat (map (\<lambda>i. file_text gunzip (rol_rolled l i)) (rev [1..<MAX_ROLLED_FILES + 1])) @ rol_latest l"

definition rolling_ok :: "(bytes \<Rightarrow> bytes) \<Rightarrow> bytes \<Rightarrow> rolling_log \<Rightarrow> bool" where
  "rolling_ok gunzip written l \<longleftrightarrow> contiguous (rol_rolled l) \<and> suffix (log_text gunzip l) written
     \<and> (rol_rolled l MAX_ROLLED_FILES = None \<longrightarrow> log_text gunzip l = written)
     \<and> rol_line_count l = int (newlines (rol_latest l)) \<and> newlines (rol_latest l) < 10000"

lemma rolled_order: "rev [1..<MAX_ROLLED_FILES + 1] = [7, 6, 5, 4, 3, 2, 1]"
  by (simp add: MAX_ROLLED_FILES_def upt_rec)

lemma contiguous_shift:
  assumes "contiguous fs"
  shows "contiguous ((shift_rolled (\<lambda>_. True) fs)(1 := Some c))"
  using assms unfolding shift_rolled_spec [OF assms] contiguous_def
proof (intro allI impI)
  fix i :: nat
  assume h: "1 \<le> i" "((\<lambda>j. if 2 \<le> j \<and> j \<le> MAX_ROLLED_FILES then fs (j - 1) else if j = 1 then None else fs j)(1 := Some c)) (i + 1) \<noteq> None"
    and gap: "\<forall>i\<ge>1. fs (i + 1) \<noteq> None \<longrightarrow> fs i \<noteq> None"
  show "((\<lambda>j. if 2 \<le> j \<and> j \<le> MAX_ROLLED_FILES then fs (j - 1) else if j = 1 then None else fs j)(1 := Some c)) i \<noteq> None"
  proof (cases "i = 1")
    case False
    with h(1) obtain k where k: "i = Suc k" "1 \<le> k" by (cases i) auto
    then show ?thesis using h gap [rule_format, of k] gap [rule_format, of "Suc k"] by (auto split: if_splits)
  qed simp
qed

lemma rolling_write_ok:
  assumes ok: "rolling_ok gunzip written l" and gz: "\<And>b. gunzip (gz b) = b"
    and run: "rolling_write gz (\<lambda>_. True) Rolled buf l = (b, l')"
  shows "b \<and> rolling_ok gunzip (written @ buf) l'"
proof -
  let ?l = "l\<lparr>rol_latest := rol_latest l @ buf\<rparr>"
  have app: "contiguous (rol_rolled ?l)" "suffix (log_text gunzip ?l) (written @ buf)"
    "rol_rolled ?l MAX_ROLLED_FILES = None \<longrightarrow> log_text gunzip ?l = written @ buf"
    "newlines (rol_latest ?l) = newlines (rol_latest l) + newlines buf"
    using ok by (auto simp: rolling_ok_def log_text_def newlines_def suffix_def)
  show ?thesis
  proof (cases "0 < newlines buf \<and> 10000 \<le> rol_line_count l + int (newlines buf)")
    case False
    then show ?thesis using run ok app
      by (auto simp: rolling_write_def Let_def MAX_LINES_PER_FILE_def rolling_ok_def log_text_def split: if_splits)
  next
    case True
    let ?fs = "(shift_rolled (\<lambda>_. True) (rol_rolled l))(1 := Some (gz (rol_latest l @ buf)))"
    have l': "b" "l' = ?l\<lparr>rol_line_count := 0, rol_rolled := ?fs, rol_latest := []\<rparr>"
      using run True by (auto simp: rolling_write_def Let_def MAX_LINES_PER_FILE_def roll_def)
    have split: "log_text gunzip ?l = file_text gunzip (rol_rolled l 7) @ log_text gunzip l'"
      using app(1) gz unfolding log_text_def rolled_order l'(2)
      by (simp add: shift_rolled_spec MAX_ROLLED_FILES_def file_text_def)
    have "?fs MAX_ROLLED_FILES = rol_rolled l 6" using app(1) by (simp add: shift_rolled_spec MAX_ROLLED_FILES_def)
    then have full: "?fs MAX_ROLLED_FILES = None \<Longrightarrow> rol_rolled l 7 = None"
      using app(1) by (auto simp: contiguous_def dest: spec [of _ 6])
    have "rolling_ok gunzip (written @ buf) l'"
      unfolding rolling_ok_def
    proof (intro conjI impI)
      show "contiguous (rol_rolled l')" using contiguous_shift app(1) l' by simp
      show "suffix (log_text gunzip l') (written @ buf)"
        using app(2) split by (metis suffix_appendD)
      show "log_text gunzip l' = written @ buf" if "rol_rolled l' MAX_ROLLED_FILES = None"
        using that full app(3) split l' by (auto simp: file_text_def MAX_ROLLED_FILES_def)
    qed (simp_all add: l' newlines_def)
    then show ?thesis using l' by simp
  qed
qed

section \<open>Facts on archives\<close>

lemma free_archive_unused: "\<not> hm_contains d (free_archive d ts k)"
  by (induction d ts k rule: free_archive.induct) (subst free_archive.simps, simp)

lemma free_archive_is_name: "\<exists>j. free_archive d ts k = archive_name ts j"
  by (induction d ts k rule: free_archive.induct) (subst free_archive.simps, auto)

lemma hm_removes:
  "hm_get (fold (\<lambda>name d. if ok name then hm_remove name d else d) ns d) k
     = (if k \<in> set ns \<and> ok k then None else hm_get d k)"
  by (induction ns arbitrary: d) auto

lemma prune_old_archives_get:
  "hm_get (prune_old_archives ok d) k = (if k \<in> set (old_archives d) \<and> ok k then None else hm_get d k)"
  by (simp add: prune_old_archives_def hm_removes)

lemma sorted_drop_le:
  fixes f :: "'a \<Rightarrow> int"
  assumes "sorted (map f xs)" "x \<in> set (take n xs)" "y \<in> set (drop n xs)"
  shows "f x \<le> f y"
proof -
  have "sorted (map f (take n xs) @ map f (drop n xs))" using assms(1) by (simp flip: map_append)
  then show ?thesis using assms(2,3) by (simp add: sorted_append)
qed

section \<open>Properties\<close>

datatype console_event = Write_Lines bytes | Drain_Line

fun console_step :: "(str \<Rightarrow> str) \<Rightarrow> console_event \<Rightarrow> console_writer \<Rightarrow> console_writer" where
  "console_step colorize (Write_Lines buf) w = snd (console_write colorize buf w)"
| "console_step colorize Drain_Line w = console_drain w"

definition offered :: "(str \<Rightarrow> str) \<Rightarrow> bool \<Rightarrow> console_event list \<Rightarrow> str list" where
  "offered colorize use_color es = concat (map (\<lambda>e. case e of
     Write_Lines buf \<Rightarrow> map (\<lambda>l. if use_color then colorize l else l) (lines_of (from_utf8_lossy buf)) | Drain_Line \<Rightarrow> []) es)"

lemma console_send_color [simp]: "cw_use_color (fold (\<lambda>l. console_send (f l)) ls w) = cw_use_color w"
  by (induction ls arbitrary: w) (auto simp: console_send_def)

lemma console_steps_ok:
  "console_ok before w \<Longrightarrow> console_ok (before @ offered colorize (cw_use_color w) es) (fold (console_step colorize) es w)"
proof (induction es arbitrary: before w)
  case (Cons e es)
  show ?case
  proof (cases e)
    case (Write_Lines buf)
    show ?thesis
      using Cons.IH [OF console_sends_ok [OF Cons.prems, of "\<lambda>l. if cw_use_color w then colorize l else l" "lines_of (from_utf8_lossy buf)"]]
      by (simp add: Write_Lines console_write_def offered_def)
  next
    case Drain_Line
    then have "cw_use_color (console_step colorize e w) = cw_use_color w" by (simp add: console_drain_def Let_def split: list.split)
    then show ?thesis using Cons.IH [OF console_drain_ok [OF Cons.prems]] by (simp add: Drain_Line offered_def)
  qed
qed (simp add: offered_def)

text \<open>The console never holds more than its queue and never loses a line silently. Whatever the order of
  writes and of turns of the writer thread, the lines printed and queued are a subsequence of the lines
  offered, at most 10000 are queued, and every other line is counted, either in a notice that has been
  printed or in the counter of the next one.\<close>

theorem console_accounts_for_lines:
  "console_ok (offered colorize c es) (fold (console_step colorize) es \<lparr>cw_queue = [], cw_dropped = 0, cw_printed = [], cw_use_color = c\<rparr>)"
  using console_steps_ok [of "[]" "\<lparr>cw_queue = [], cw_dropped = 0, cw_printed = [], cw_use_color = c\<rparr>" colorize es]
  by (simp add: console_ok_def)

text \<open>Rolling keeps the text. When every roll succeeds, the rolled files and the current one, oldest
  first, hold a suffix of everything written, all of it as long as the last place of the window is
  free, and the current file never has 10000 lines or more.\<close>

theorem rolling_log_keeps_text:
  assumes "\<And>b. gunzip (gz b) = b"
  shows "rolling_ok gunzip (concat bufs)
    (fold (\<lambda>buf l. snd (rolling_write gz (\<lambda>_. True) Rolled buf l)) bufs \<lparr>rol_latest = [], rol_rolled = (\<lambda>_. None), rol_line_count = 0\<rparr>)"
proof -
  have "rolling_ok gunzip (written @ concat bufs) (fold (\<lambda>buf l. snd (rolling_write gz (\<lambda>_. True) Rolled buf l)) bufs l)"
    if "rolling_ok gunzip written l" for written l
    using that
  proof (induction bufs arbitrary: written l)
    case (Cons buf bufs)
    then have "rolling_ok gunzip (written @ buf) (snd (rolling_write gz (\<lambda>_. True) Rolled buf l))"
      using rolling_write_ok [OF Cons.prems assms prod.collapse [symmetric]] by blast
    from Cons.IH [OF this] show ?case by simp
  qed simp
  from this [of "[]"] show ?thesis
    by (simp add: rolling_ok_def contiguous_def log_text_def file_text_def newlines_def)
qed

theorem rolling_log_keeps_text_witness:
  "rolling_ok (\<lambda>b. b) [104, 105, 10]
     (snd (rolling_write (\<lambda>b. b) (\<lambda>_. True) Rolled [104, 105, 10] \<lparr>rol_latest = [], rol_rolled = (\<lambda>_. None), rol_line_count = 0\<rparr>))"
  using rolling_log_keeps_text [of "\<lambda>b. b" "\<lambda>b. b" "[[104, 105, 10]]"] by simp

text \<open>A roll reads the file and truncates it later, and only the truncation holds the lock: the two steps
  of a roll, with the writes of other threads between them.\<close>

definition roll_read :: "(bytes \<Rightarrow> bytes) \<Rightarrow> rolling_log \<Rightarrow> rolling_log" where
  "roll_read gz l = l\<lparr>rol_rolled := (shift_rolled (\<lambda>_. True) (rol_rolled l))(1 := Some (gz (rol_latest l)))\<rparr>"

definition roll_truncate :: "rolling_log \<Rightarrow> rolling_log" where
  "roll_truncate l = l\<lparr>rol_latest := []\<rparr>"

text \<open>What another thread writes between the two steps of a roll is in no file afterwards, although
  every line is said to be written in full to the log.\<close>

theorem concurrent_write_lost:
  "roll gz (\<lambda>_. True) Rolled l = (True, roll_truncate (roll_read gz l))
   \<and> (newlines buf = 0 \<or> rol_line_count l + int (newlines buf) < MAX_LINES_PER_FILE \<longrightarrow>
      rol_latest (roll_truncate (snd (rolling_write gz (\<lambda>_. True) Rolled buf (roll_read gz l)))) = []
      \<and> rol_rolled (roll_truncate (snd (rolling_write gz (\<lambda>_. True) Rolled buf (roll_read gz l)))) = rol_rolled (roll_read gz l))"
  by (auto simp: roll_def roll_read_def roll_truncate_def Let_def rolling_write_def)

theorem concurrent_write_lost_witness:
  "rol_latest (roll_truncate (snd (rolling_write (\<lambda>b. b) (\<lambda>_. True) Rolled [104] (roll_read (\<lambda>b. b)
     \<lparr>rol_latest = [105, 10], rol_rolled = (\<lambda>_. None), rol_line_count = 0\<rparr>)))) = []"
  using concurrent_write_lost [of "\<lambda>b. b" "\<lparr>rol_latest = [105, 10], rol_rolled = (\<lambda>_. None), rol_line_count = 0\<rparr>" "[104]"]
  by (simp add: newlines_def)

definition archives_by_age :: "log_dir \<Rightarrow> (str \<times> log_file) list" where
  "archives_by_age d = sort_key (\<lambda>(_, f). - lf_modified f) (filter (\<lambda>(name, _). is_archive name) d)"

lemma archives_by_age_facts:
  assumes "hm_ok d"
  shows "(name, f) \<in> set (archives_by_age d) \<longleftrightarrow> is_archive name \<and> hm_get d name = Some f" "distinct (map fst (archives_by_age d))"
    "old_archives d = map fst (drop MAX_ARCHIVED_LOGS (archives_by_age d))"
proof -
  show "(name, f) \<in> set (archives_by_age d) \<longleftrightarrow> is_archive name \<and> hm_get d name = Some f"
    using assms by (auto simp: archives_by_age_def hm_get_def hm_ok_def map_of_eq_Some_iff)
  have "mset (map fst (archives_by_age d)) = mset (map fst (filter (\<lambda>(name, _). is_archive name) d))"
    by (simp add: archives_by_age_def)
  moreover have "distinct (map fst (filter (\<lambda>(name, _). is_archive name) d))"
    using assms unfolding hm_ok_def by (rule distinct_map_filter)
  ultimately show "distinct (map fst (archives_by_age d))" by (metis mset_eq_imp_distinct_iff)
  show "old_archives d = map fst (drop MAX_ARCHIVED_LOGS (archives_by_age d))"
    by (simp add: old_archives_def archives_by_age_def drop_map)
qed

text \<open>Which archives pruning leaves: the first seven by age.\<close>

lemma prune_kept:
  assumes "hm_ok d" "is_archive name" "hm_get (prune_old_archives (\<lambda>_. True) d) name = Some f"
  shows "(name, f) \<in> set (take MAX_ARCHIVED_LOGS (archives_by_age d))"
proof -
  have "name \<notin> fst ` set (drop MAX_ARCHIVED_LOGS (archives_by_age d))" "hm_get d name = Some f"
    using assms(3) by (auto simp: prune_old_archives_get archives_by_age_facts(3) [OF assms(1)] split: if_splits)
  moreover from this have "(name, f) \<in> set (archives_by_age d)" using archives_by_age_facts(1) [OF assms(1)] assms(2) by blast
  ultimately show ?thesis by (metis UnE append_take_drop_id fst_conv image_eqI set_append)
qed

text \<open>Pruning keeps the newest archives. At most seven archives are left, none of them older than one
  that was removed, and no other file is touched.\<close>

theorem prune_old_archives_keeps_newest:
  assumes ok: "hm_ok d"
  defines "d' \<equiv> prune_old_archives (\<lambda>_. True) d"
  shows "card {name. is_archive name \<and> hm_contains d' name} \<le> 7
    \<and> (\<forall>name. hm_get d' name = hm_get d name \<or> is_archive name \<and> hm_get d' name = None)
    \<and> (\<forall>old f kept g. hm_get d old = Some f \<and> hm_get d' old = None \<and> is_archive kept \<and> hm_get d' kept = Some g
         \<longrightarrow> lf_modified f \<le> lf_modified g)"
proof (intro conjI allI impI)
  let ?s = "archives_by_age d"
  have "{name. is_archive name \<and> hm_contains d' name} \<subseteq> fst ` set (take MAX_ARCHIVED_LOGS ?s)"
    using prune_kept [OF ok] by (force simp: d'_def hm_contains_def)
  then have "card {name. is_archive name \<and> hm_contains d' name} \<le> card (fst ` set (take MAX_ARCHIVED_LOGS ?s))"
    by (intro card_mono) simp_all
  also have "\<dots> \<le> length (take MAX_ARCHIVED_LOGS ?s)"
    by (metis card_length length_map set_map)
  finally show "card {name. is_archive name \<and> hm_contains d' name} \<le> 7"
    by (simp add: MAX_ARCHIVED_LOGS_def)
  show "hm_get d' name = hm_get d name \<or> is_archive name \<and> hm_get d' name = None" for name
    using archives_by_age_facts(1,3) [OF ok]
    by (auto simp: d'_def prune_old_archives_get dest: in_set_dropD)
  fix old f kept g
  assume h: "hm_get d old = Some f \<and> hm_get d' old = None \<and> is_archive kept \<and> hm_get d' kept = Some g"
  then obtain f' where "(old, f') \<in> set (drop MAX_ARCHIVED_LOGS ?s)"
    by (auto simp: d'_def prune_old_archives_get archives_by_age_facts(3) [OF ok] split: if_splits)
  moreover from this have "f' = f" using h archives_by_age_facts(1) [OF ok] by (metis in_set_dropD option.inject)
  moreover have "(kept, g) \<in> set (take MAX_ARCHIVED_LOGS ?s)" using h prune_kept [OF ok] by (simp add: d'_def)
  moreover have "sorted (map (\<lambda>(_, f). - lf_modified f) ?s)" by (simp add: archives_by_age_def)
  ultimately show "lf_modified f \<le> lf_modified g" using sorted_drop_le by fastforce
qed

definition demo_archives :: log_dir where
  "demo_archives = map (\<lambda>i. (show_nat i @ lit ''.log.gz'', \<lparr>lf_content = [], lf_modified = int i\<rparr>)) [1..<9]"

theorem prune_old_archives_keeps_newest_witness:
  "card {name. is_archive name \<and> hm_contains (prune_old_archives (\<lambda>_. True) demo_archives) name} \<le> 7"
proof -
  have "hm_ok demo_archives" by (auto simp: hm_ok_def demo_archives_def comp_def distinct_map intro: inj_onI dest: show_nat_inj simp del: show_nat.simps upt_rec_numeral)
  from prune_old_archives_keeps_newest [OF this] show ?thesis by simp
qed

text \<open>Archiving overwrites nothing. The name chosen for the archive is free, and the old log is
  removed only after its contents are stored under that name.\<close>

theorem archive_previous_log_safe:
  fixes timestamp :: "int \<Rightarrow> str"
  assumes log: "hm_get d (lit ''latest.log'') = Some f" "lf_content f \<noteq> []" "remove_ok (lit ''latest.log'')"
  defines "archive \<equiv> free_archive d (timestamp (lf_modified f)) 0"
  shows "hm_get d archive = None
    \<and> (\<exists>d1. archive_previous_log gz timestamp now None remove_ok d = (True, prune_old_archives remove_ok d1)
        \<and> hm_get d1 archive = Some \<lparr>lf_content = gz (lf_content f), lf_modified = now\<rparr> \<and> hm_get d1 (lit ''latest.log'') = None
        \<and> (\<forall>name. name \<notin> {archive, lit ''latest.log''} \<longrightarrow> hm_get d1 name = hm_get d name))"
proof -
  let ?d1 = "hm_remove (lit ''latest.log'') (hm_insert archive \<lparr>lf_content = gz (lf_content f), lf_modified = now\<rparr> d)"
  have free: "hm_get d archive = None" using free_archive_unused by (simp add: archive_def hm_contains_def)
  then have "archive \<noteq> lit ''latest.log''" using log(1) by auto
  moreover have "archive_previous_log gz timestamp now None remove_ok d = (True, prune_old_archives remove_ok ?d1)"
    using log by (simp add: archive_previous_log_def Let_def archive_def)
  ultimately show ?thesis using free by (auto intro!: exI [of _ ?d1])
qed

theorem archive_previous_log_safe_witness:
  "\<exists>d1. archive_previous_log (\<lambda>b. b) (\<lambda>_. lit ''t'') 5 None (\<lambda>_. True) [(lit ''latest.log'', \<lparr>lf_content = [104], lf_modified = 1\<rparr>)]
     = (True, prune_old_archives (\<lambda>_. True) d1)"
  using archive_previous_log_safe [of "[(lit ''latest.log'', \<lparr>lf_content = [104], lf_modified = 1\<rparr>)]"
      "\<lparr>lf_content = [104], lf_modified = 1\<rparr>" "\<lambda>_. True" "\<lambda>_. lit ''t''" "\<lambda>b. b" 5]
  by (auto simp: hm_get_def)

lemma prune_keeps_latest: "hm_get (prune_old_archives ok d) (lit ''latest.log'') = hm_get d (lit ''latest.log'')"
proof -
  have "set (old_archives d) \<subseteq> Collect is_archive" by (auto simp: old_archives_def dest!: in_set_dropD)
  moreover have "\<not> is_archive (lit ''latest.log'')" by (simp add: is_archive_def lit_def)
  ultimately show ?thesis by (auto simp: prune_old_archives_get)
qed

text \<open>A run starts with an empty log. After a successful initialisation the current file is empty and its line
  counter agrees with it, so the first roll comes after exactly as many lines as configured.\<close>

theorem log_starts_empty:
  assumes "log_init gz timestamp now torn remove_ok open_ok uc level d = (Some (l, f), d')"
  shows "rol_latest l = [] \<and> rol_line_count l = int (newlines (rol_latest l)) \<and> f = level_filter_from_str uc level"
proof -
  obtain ok d1 where run: "archive_previous_log gz timestamp now torn remove_ok d = (ok, d1)" by (metis prod.exhaust)
  then have ok: ok using assms by (cases ok) (simp_all add: log_init_def)
  then have "case hm_get d1 (lit ''latest.log'') of None \<Rightarrow> True | Some g \<Rightarrow> lf_content g = []"
    using run by (auto simp: archive_previous_log_def Let_def prune_keeps_latest split: option.splits if_splits)
  then show ?thesis
    using assms run ok by (auto simp: log_init_def rolling_open_def Let_def newlines_def split: if_splits option.splits)
qed

theorem log_starts_empty_witness:
  "\<exists>l f d'. log_init (\<lambda>b. b) (\<lambda>_. lit ''t'') 5 None (\<lambda>_. True) True (\<lambda>s. s) (lit ''warn'') [] = (Some (l, f), d') \<and> rol_latest l = [] \<and> f = level_filter_from_str (\<lambda>s. s) (lit ''warn'')"
proof -
  have "\<exists>l f d'. log_init (\<lambda>b. b) (\<lambda>_. lit ''t'') 5 None (\<lambda>_. True) True (\<lambda>s. s) (lit ''warn'') [] = (Some (l, f), d')"
    by (simp add: log_init_def archive_previous_log_def rolling_open_def Let_def del: show_nat.simps)
  then obtain l f d' where run: "log_init (\<lambda>b. b) (\<lambda>_. lit ''t'') 5 None (\<lambda>_. True) True (\<lambda>s. s) (lit ''warn'') [] = (Some (l, f), d')" by blast
  with log_starts_empty [OF run] show ?thesis by blast
qed

text \<open>Every level name is read back, in any case and with surrounding blanks.\<close>

theorem level_round_trip:
  "level_filter_from_str uc (level_name l) = l \<and> level_filter_from_str uc (lit ''  '' @ map to_ascii_lowercase (level_name l) @ lit '' '') = l"
  by (cases l) (simp_all add: level_filter_from_str_def to_uppercase_def trim_def trim_end_by_def lit_def is_whitespace_def is_ascii_def
      to_ascii_uppercase_def to_ascii_lowercase_def Let_def)

end
