(* ===== verification/Log_Colours.thy ===== *)
theory Log_Colours
  imports Log_Files
begin

text \<open>
  The colouring of console lines and the event formats, \<open>src/logging.rs\<close>.

  The regular expression engine is not part of the repository. It is a parameter: what the line pattern
  captures, and the matches of each highlight in a text as spans in increasing order. What the program
  relies on is stated as hypotheses: spans are in order and in range, the text of an arrow match is the
  arrow, and the line pattern captures the three parts of a line of the program's own format.
\<close>

section \<open>Definitions\<close>

record regex_engine =
  re_line :: "str \<Rightarrow> (str \<times> str \<times> str) option"
  re_spans :: "nat \<Rightarrow> str \<Rightarrow> (nat \<times> nat) list"

definition sgr :: "string \<Rightarrow> str" where
  "sgr code = 27 # lit ''['' @ lit code @ lit ''m''"

definition RESET :: str where "RESET = sgr ''0''"
definition DIM :: str where "DIM = sgr ''2''"
definition WHITE :: str where "WHITE = sgr ''37''"
definition BRIGHT_YELLOW :: str where "BRIGHT_YELLOW = sgr ''93''"
definition GREEN :: str where "GREEN = sgr ''32''"
definition CYAN :: str where "CYAN = sgr ''36''"
definition BRIGHT_CYAN :: str where "BRIGHT_CYAN = sgr ''96''"
definition MAGENTA :: str where "MAGENTA = sgr ''35''"
definition GRAY :: str where "GRAY = sgr ''90''"

definition level_color :: "str \<Rightarrow> str" where
  "level_color level =
     (if level = lit ''ERROR'' then sgr ''1'' @ sgr ''91''
      else if level = lit ''WARN'' then sgr ''1'' @ sgr ''93''
      else if level = lit ''INFO'' then GREEN
      else if level = lit ''DEBUG'' then CYAN
      else if level = lit ''TRACE'' then DIM
      else WHITE)"

text \<open>The five highlights in their order: ids, addresses, quoted texts, arrows, amounts.\<close>

definition renders :: "(str \<Rightarrow> str) list" where
  "renders = [\<lambda>m. DIM @ m @ WHITE, \<lambda>m. BRIGHT_CYAN @ m @ WHITE, \<lambda>m. BRIGHT_YELLOW @ m @ WHITE,
     \<lambda>_. lit '' '' @ DIM @ lit ''->'' @ WHITE @ lit '' '', \<lambda>m. MAGENTA @ m @ WHITE]"

fun replace_spans :: "(str \<Rightarrow> str) \<Rightarrow> str \<Rightarrow> nat \<Rightarrow> (nat \<times> nat) list \<Rightarrow> str" where
  "replace_spans f s pos [] = drop pos s"
| "replace_spans f s pos ((a, b) # spans) = slice pos a s @ f (slice a b s) @ replace_spans f s b spans"

definition highlight :: "regex_engine \<Rightarrow> str \<Rightarrow> str" where
  "highlight re message = fold (\<lambda>(i, render) body. replace_spans render body 0 (re_spans re i body)) (enumerate 0 renders) message"

text \<open>\<open>truncate(n)\<close> on a text that is longer than \<open>n\<close> bytes panics unless byte \<open>n\<close> starts a character.\<close>

fun truncate_bytes :: "nat \<Rightarrow> str \<Rightarrow> str run" where
  "truncate_bytes n [] = Returned []"
| "truncate_bytes n (c # s) =
     (let k = length (utf8_encode_char c) in
      if n = 0 then Returned []
      else if k \<le> n then run_bind (truncate_bytes (n - k) s) (\<lambda>t. Returned (c # t)) else Panicked)"

definition level_tag :: "str \<Rightarrow> str run" where
  "level_tag level = run_bind (truncate_bytes 5 level) (\<lambda>t. Returned (t @ replicate (5 - length (as_bytes t)) 32))"

definition colorize :: "regex_engine \<Rightarrow> str \<Rightarrow> str run" where
  "colorize re line =
     (case re_line re line of
        None \<Rightarrow> Returned (WHITE @ line @ RESET)
      | Some (time, level, message) \<Rightarrow>
          run_bind (level_tag level) (\<lambda>tag.
            Returned (GRAY @ lit ''['' @ time @ lit '']'' @ RESET @ lit '' '' @ level_color level @ tag @ RESET @ lit '' ''
              @ WHITE @ highlight re message @ RESET)))"

text \<open>The two event formats: the time of day for the console, the date and the time for the file.\<close>

definition console_event :: "str \<Rightarrow> str \<Rightarrow> str \<Rightarrow> str" where
  "console_event time level message = time @ lit '' ['' @ level @ lit ''] '' @ message @ [10]"

definition file_event :: "str \<Rightarrow> str \<Rightarrow> str \<Rightarrow> str \<Rightarrow> str" where
  "file_event date time level message = date @ lit '' '' @ time @ lit '' ['' @ level @ lit ''] '' @ message @ [10]"

section \<open>Lemmas\<close>

fun spans_ok :: "nat \<Rightarrow> nat \<Rightarrow> (nat \<times> nat) list \<Rightarrow> bool" where
  "spans_ok n pos [] \<longleftrightarrow> pos \<le> n"
| "spans_ok n pos ((a, b) # spans) \<longleftrightarrow> pos \<le> a \<and> a \<le> b \<and> spans_ok n b spans"

text \<open>What the documentation of the engine promises for the five patterns.\<close>

definition engine_ok :: "regex_engine \<Rightarrow> bool" where
  "engine_ok re \<longleftrightarrow> (\<forall>i s. spans_ok (length s) 0 (re_spans re i s))
     \<and> (\<forall>s. \<forall>(a, b) \<in> set (re_spans re 3 s). slice a b s = lit '' -> '')"

lemma spans_ok_bound: "spans_ok n pos spans \<Longrightarrow> pos \<le> n"
  by (induction n pos spans rule: spans_ok.induct) auto

lemma drop_split_span:
  assumes "pos \<le> a" "a \<le> b" "b \<le> length s"
  shows "drop pos s = slice pos a s @ slice a b s @ drop b s"
  using assms by (simp add: slice_def) (metis (no_types, lifting) add_diff_cancel_left' append_take_drop_id drop_drop le_add_diff_inverse2 le_iff_add add.commute)

lemma subseq_replace_spans:
  assumes "spans_ok (length s) pos spans" "\<And>a b. (a, b) \<in> set spans \<Longrightarrow> subseq (slice a b s) (f (slice a b s))"
  shows "subseq (drop pos s) (replace_spans f s pos spans)"
  using assms
proof (induction f s pos spans rule: replace_spans.induct)
  case (2 f s pos a b spans)
  have "b \<le> length s" "pos \<le> a" "a \<le> b" using 2(2) spans_ok_bound by auto
  then have "drop pos s = slice pos a s @ slice a b s @ drop b s" using drop_split_span by blast
  moreover have "subseq (drop b s) (replace_spans f s b spans)" using 2 by auto
  moreover have "subseq (slice a b s) (f (slice a b s))" using 2(3) by auto
  ultimately show ?case by (simp add: list_emb_append_mono)
qed simp

lemma truncate_ascii: "list_all is_ascii s \<Longrightarrow> truncate_bytes n s = Returned (take n s)"
  by (induction n s rule: truncate_bytes.induct) (auto simp: utf8_encode_char_def is_ascii_def run_bind_def take_Cons split: nat.split)

lemma subseq_skip: "subseq m n \<Longrightarrow> subseq m (x @ n)" for m n x :: str
  using list_emb_append_mono [of "(=)" "[]" x m n] by simp

lemma subseq_wrap: "subseq m n \<Longrightarrow> subseq m (x @ n @ y)" for m n x y :: str
  using list_emb_append_mono [of "(=)" m n "[]" y] subseq_skip by simp

lemma render_keeps:
  assumes "engine_ok re" "(i, render) \<in> set (enumerate 0 renders)"
  shows "subseq body (replace_spans render body 0 (re_spans re i body))"
proof -
  have arrow: "subseq (lit '' -> '') (lit '' '' @ DIM @ lit ''->'' @ WHITE @ lit '' '')" by (simp add: lit_def DIM_def WHITE_def sgr_def)
  have "subseq (slice a b body) (render (slice a b body))" if span: "(a, b) \<in> set (re_spans re i body)" for a b
  proof -
    have "slice a b body = lit '' -> ''" if "i = 3" using assms(1) span that by (fastforce simp: engine_ok_def)
    then show ?thesis using assms(2) arrow by (auto simp: renders_def numeral_3_eq_3 intro: subseq_wrap)
  qed
  moreover have "spans_ok (length body) 0 (re_spans re i body)" using assms(1) by (simp add: engine_ok_def)
  ultimately have "subseq (drop 0 body) (replace_spans render body 0 (re_spans re i body))" by (intro subseq_replace_spans)
  then show ?thesis by simp
qed

lemma fold_subseq:
  assumes "\<And>x body. x \<in> set xs \<Longrightarrow> subseq body (f x body)"
  shows "subseq body (fold f xs body)"
  using assms by (induction xs arbitrary: body) (auto intro: subseq_order.trans)

lemma highlight_keeps: "engine_ok re \<Longrightarrow> subseq message (highlight re message)"
  unfolding highlight_def by (rule fold_subseq) (auto intro: render_keeps)

section \<open>Properties\<close>

text \<open>Colouring keeps the text. A console line of the program's own format, with one of the five levels,
  is coloured without a failure, and the time, the level and the message are all still in it, in order
  and with nothing left out.\<close>

theorem own_line_keeps_text:
  assumes re: "engine_ok re" "re_line re (time @ lit '' ['' @ level @ lit ''] '' @ message) = Some (time, level, message)"
    and level: "level \<in> lit ` {''ERROR'', ''WARN'', ''INFO'', ''DEBUG'', ''TRACE''}"
  shows "\<exists>out. colorize re (time @ lit '' ['' @ level @ lit ''] '' @ message) = Returned out \<and> subseq (time @ level @ message) out"
proof -
  have "list_all is_ascii level" "length level \<le> 5" using level by (auto simp: lit_def is_ascii_def)
  then obtain pad where tag: "level_tag level = Returned (level @ pad)"
    by (simp add: level_tag_def truncate_ascii run_bind_def)
  have msg: "subseq message (lit '' '' @ WHITE @ highlight re message @ RESET)" by (intro subseq_skip subseq_wrap highlight_keeps re(1))
  have lv: "subseq (level @ message) (level @ pad @ RESET @ lit '' '' @ WHITE @ highlight re message @ RESET)"
    by (rule list_emb_append_mono [OF subseq_order.refl], rule subseq_skip, rule subseq_skip, rule msg)
  have tm: "subseq (time @ level @ message) (time @ lit '']'' @ RESET @ lit '' '' @ level_color level @ level @ pad @ RESET @ lit '' ''
      @ WHITE @ highlight re message @ RESET)"
    by (rule list_emb_append_mono [OF subseq_order.refl], rule subseq_skip, rule subseq_skip, rule subseq_skip, rule subseq_skip, rule lv)
  have "subseq (time @ level @ message) (GRAY @ lit ''['' @ time @ lit '']'' @ RESET @ lit '' '' @ level_color level @ level @ pad @ RESET @ lit '' ''
      @ WHITE @ highlight re message @ RESET)"
    by (rule subseq_skip, rule subseq_skip, rule tm)
  then show ?thesis using re(2) tag by (simp add: colorize_def run_bind_def)
qed

text \<open>A line whose bracketed word has a letter across its fifth byte makes the colouring panic, although it is
  documented never to; the word of the pattern may have any letters.\<close>

theorem colorize_panics:
  assumes "re_line re line = Some (time, [0xE9, 0xE9, 0xE9], message)"
  shows "colorize re line = Panicked"
  using assms by (simp add: colorize_def level_tag_def utf8_encode_char_def run_bind_def)

section \<open>Examples\<close>

text \<open>An engine that reads the lines of two levels and highlights one arrow.\<close>

definition demo_engine :: regex_engine where
  "demo_engine = \<lparr>re_line = (\<lambda>s. if s = lit ''12:00:00 [INFO] a -> b'' then Some (lit ''12:00:00'', lit ''INFO'', lit ''a -> b'')
       else if take 9 s = lit ''12:00:00 '' then Some (lit ''12:00:00'', [0xE9, 0xE9, 0xE9], []) else None),
     re_spans = (\<lambda>i s. if i = 3 \<and> slice 1 5 s = lit '' -> '' then [(1, 5)] else [])\<rparr>"

lemma demo_engine_ok: "engine_ok demo_engine"
proof -
  have "5 \<le> length s" if "slice 1 5 s = lit '' -> ''" for s :: str
  proof -
    have "length (slice 1 5 s) = 4" using that by (simp add: lit_def)
    then show ?thesis by (simp add: slice_def)
  qed
  then show ?thesis by (auto simp: engine_ok_def demo_engine_def)
qed

theorem own_line_keeps_text_witness:
  "\<exists>out. colorize demo_engine (lit ''12:00:00 [INFO] a -> b'') = Returned out \<and> subseq (lit ''12:00:00'' @ lit ''INFO'' @ lit ''a -> b'') out"
proof -
  have "lit ''12:00:00 [INFO] a -> b'' = lit ''12:00:00'' @ lit '' ['' @ lit ''INFO'' @ lit ''] '' @ lit ''a -> b''" by (simp add: lit_def)
  then show ?thesis using own_line_keeps_text [OF demo_engine_ok, of "lit ''12:00:00''" "lit ''INFO''" "lit ''a -> b''"] by (simp add: demo_engine_def)
qed

theorem colorize_panics_witness: "colorize demo_engine (lit ''12:00:00 '' @ [91, 0xE9, 0xE9, 0xE9, 93, 32]) = Panicked"
  by (rule colorize_panics [of _ _ "lit ''12:00:00''" "[]"]) (simp add: demo_engine_def lit_def)

end
