(* ===== verification/Platform_Info.thy ===== *)
theory Platform_Info
  imports Gate_Config
begin

text \<open>
  What the program asks the platform: the round-trip time of a client's socket,
  \<open>src/net/client_ping.rs\<close>, and the network interfaces it lists at start-up,
  \<open>src/net/network_info.rs\<close>, and what it knows of its own build, \<open>src/version.rs\<close>.

  The kernel is a function from file descriptors to the smoothed round-trip time in microseconds of the
  connection behind them; the interfaces are what the library reports.
\<close>

section \<open>Definitions\<close>

text \<open>What the build script hands to the compiler, \<open>src/version.rs\<close>. Formatting a timestamp is a library's.\<close>

record build_env =
  be_version :: str
  be_git_hash :: str
  be_git_dirty :: str
  be_target_triple :: str
  be_rustc_version :: str
  be_timestamp :: str

definition version :: "build_env \<Rightarrow> str" where
  "version b = (if be_version b = [] then lit ''dev'' else be_version b)"

definition git_dirty :: "build_env \<Rightarrow> bool" where
  "git_dirty b \<longleftrightarrow> be_git_dirty b = lit ''true''"

definition build_timestamp_utc :: "(int \<Rightarrow> str option) \<Rightarrow> build_env \<Rightarrow> str" where
  "build_timestamp_utc format b = unwrap_or (format (unwrap_or (parse_i64 (be_timestamp b)) 0)) (lit ''unknown'')"

type_synonym sockets = "int \<Rightarrow> 32 word option"

datatype client_ping_probe = Probe int

definition capture :: "int \<Rightarrow> client_ping_probe" where
  "capture fd = Probe fd"

definition unavailable :: client_ping_probe where
  "unavailable = Probe (- 1)"

text \<open>The sum is one of 32-bit words, as in a release build.\<close>

fun round_trip_millis :: "sockets \<Rightarrow> client_ping_probe \<Rightarrow> 32 word option" where
  "round_trip_millis sockets (Probe fd) = map_option (\<lambda>rtt. (rtt + 500) div 1000) (sockets fd)"

record interface =
  if_name :: str
  if_ip :: ip_addr
  if_loopback :: bool

fun group_loop :: "interface list \<Rightarrow> str list \<Rightarrow> (str, interface list) hmap \<Rightarrow> str list \<times> (str, interface list) hmap" where
  "group_loop [] names groups = (names, groups)"
| "group_loop (a # addrs) names groups =
     group_loop addrs (if if_name a \<in> set names then names else names @ [if_name a])
       (hm_insert (if_name a) (unwrap_or (hm_get groups (if_name a)) [] @ [a]) groups)"

definition group_by_interface :: "interface list \<Rightarrow> (str \<times> interface list) list" where
  "group_by_interface addrs =
     (case group_loop addrs [] [] of (names, groups) \<Rightarrow> map (\<lambda>n. (n, unwrap_or (hm_get groups n) [])) names)"

fun join_ips :: "str list \<Rightarrow> str" where
  "join_ips [] = []"
| "join_ips [s] = s"
| "join_ips (s # ss) = s @ lit '', '' @ join_ips ss"

definition interface_line :: "str \<times> interface list \<Rightarrow> str" where
  "interface_line g =
     (case g of (name, as) \<Rightarrow>
        lit ''Network interface '' @ [39] @ name @ [39] @ (if list_ex if_loopback as then lit '' (loopback)'' else [])
        @ lit '': '' @ join_ips (map (\<lambda>a. show_ip (if_ip a)) as))"

definition log_network_interfaces :: "str + interface list \<Rightarrow> str list" where
  "log_network_interfaces res =
     (case res of
        Inr addrs \<Rightarrow> map interface_line (filter (\<lambda>(_, as). as \<noteq> []) (group_by_interface addrs))
      | Inl e \<Rightarrow> [lit ''Failed to enumerate network interfaces: '' @ e])"

section \<open>Properties\<close>

text \<open>The shown ping is the round-trip time to the nearest millisecond, a half rounded up, unless the time is
  so close to the largest 32-bit number of microseconds that the sum wraps.\<close>

theorem ping_to_nearest_millisecond:
  assumes "sockets fd = Some rtt" "unat rtt + 500 < 2 ^ 32"
  shows "\<exists>ms. round_trip_millis sockets (capture fd) = Some ms
    \<and> 1000 * unat ms \<le> unat rtt + 500 \<and> unat rtt < 1000 * unat ms + 500"
proof -
  have "unat (rtt + 500) = unat rtt + 500"
    using assms(2) by (subst unat_plus_simple [THEN iffD1]) (simp_all add: word_le_nat_alt unat_word_ariths)
  then have "unat ((rtt + 500) div 1000) = (unat rtt + 500) div 1000" by (simp add: unat_div)
  then show ?thesis using assms(1) by (auto simp: capture_def)
qed

text \<open>A link faster than half a millisecond is shown as 0 ms, although the rounding is documented as the
  reason why a fast link reads 1 ms and not 0 ms.\<close>

theorem fast_link_reads_zero:
  assumes "sockets fd = Some rtt" "rtt < 500"
  shows "round_trip_millis sockets (capture fd) = Some 0"
proof -
  have "unat rtt < 500" using assms(2) by (simp add: word_less_nat_alt)
  moreover from this have "unat (rtt + 500) = unat rtt + 500" by (simp add: unat_word_ariths)
  ultimately have "unat ((rtt + 500) div 1000) = 0" by (simp add: unat_div)
  then show ?thesis using assms(1) by (simp add: capture_def unat_eq_0)
qed

lemma group_loop_spec:
  assumes "\<And>n. hm_get groups n = (if n \<in> set names then Some (filter (\<lambda>a. if_name a = n) seen) else None)"
    and "set names = if_name ` set seen" "distinct names"
  shows "case group_loop addrs names groups of (ns, gs) \<Rightarrow>
    distinct ns \<and> set ns = if_name ` set (seen @ addrs) \<and> (\<exists>later. ns = names @ later)
    \<and> (\<forall>n \<in> set ns. hm_get gs n = Some (filter (\<lambda>a. if_name a = n) (seen @ addrs)))"
  using assms
proof (induction addrs arbitrary: names groups seen)
  case (Cons a addrs)
  let ?names = "if if_name a \<in> set names then names else names @ [if_name a]"
  let ?groups = "hm_insert (if_name a) (unwrap_or (hm_get groups (if_name a)) [] @ [a]) groups"
  have none: "if_name a \<notin> set names \<Longrightarrow> filter (\<lambda>x. if_name x = if_name a) seen = []"
    using Cons.prems(2) unfolding filter_empty_conv by (metis imageI)
  have g: "hm_get ?groups n = (if n \<in> set ?names then Some (filter (\<lambda>x. if_name x = n) (seen @ [a])) else None)" for n
    using Cons.prems(1) none by auto
  have n: "set ?names = if_name ` set (seen @ [a])" "distinct ?names" using Cons.prems(2,3) by auto
  from Cons.IH [OF g n] show ?case by (auto split: prod.splits if_splits)
qed auto

text \<open>The listing groups the addresses by interface: every interface once, with exactly its addresses in the
  order they were reported, and no group is empty.\<close>

theorem interfaces_grouped:
  "distinct (map fst (group_by_interface addrs)) \<and> fst ` set (group_by_interface addrs) = if_name ` set addrs
   \<and> (\<forall>(n, as) \<in> set (group_by_interface addrs). as = filter (\<lambda>a. if_name a = n) addrs \<and> as \<noteq> [])
   \<and> length (log_network_interfaces (Inr addrs)) = card (if_name ` set addrs)"
proof -
  obtain ns gs where run: "group_loop addrs [] [] = (ns, gs)" by (metis prod.exhaust)
  have spec: "distinct ns" "set ns = if_name ` set addrs" "\<forall>n \<in> set ns. hm_get gs n = Some (filter (\<lambda>a. if_name a = n) addrs)"
    using group_loop_spec [of "[]" "[]" "[]" addrs] run by auto
  have all: "group_by_interface addrs = map (\<lambda>n. (n, filter (\<lambda>a. if_name a = n) addrs)) ns"
    using run spec(3) by (auto simp: group_by_interface_def)
  have some: "\<forall>(n, as) \<in> set (group_by_interface addrs). as = filter (\<lambda>a. if_name a = n) addrs \<and> as \<noteq> []"
    using spec(2) by (auto simp: all filter_empty_conv)
  then have "filter (\<lambda>(_, as). as \<noteq> []) (group_by_interface addrs) = group_by_interface addrs"
    by (auto simp: filter_id_conv)
  then have "length (log_network_interfaces (Inr addrs)) = length ns" by (simp add: log_network_interfaces_def all)
  also have "\<dots> = card (if_name ` set addrs)" using spec(1,2) distinct_card by metis
  finally show ?thesis using spec some by (simp add: all o_def image_image)
qed

theorem ping_to_nearest_millisecond_witness:
  "\<exists>ms. round_trip_millis (\<lambda>fd. if fd = 7 then Some 1600 else None) (capture 7) = Some ms \<and> 1000 * unat ms \<le> 2100"
  using ping_to_nearest_millisecond [of "\<lambda>fd. if fd = 7 then Some 1600 else None" 7 1600] by auto

theorem fast_link_reads_zero_witness: "round_trip_millis (\<lambda>_. Some 400) (capture 7) = Some 0"
  by (rule fast_link_reads_zero [OF refl]) simp

text \<open>The version is never empty, and a timestamp the build script wrote is the one that is shown.\<close>

theorem build_info_sound:
  "version b \<noteq> [] \<and> (is_i64 n \<longrightarrow> be_timestamp b = show_int n \<longrightarrow> format n = Some t \<longrightarrow> build_timestamp_utc format b = t)"
  by (simp add: version_def build_timestamp_utc_def unwrap_or_def lit_def)

end
