(* ===== verification/Config_Editor.thy ===== *)
theory Config_Editor
  imports Gate_Config
begin

text \<open>
  The files of the gateway and the route editor: loading and bootstrapping config.yml and
  messages.yml (config.rs, config/messages.rs) and the edits of config/editor.rs, which work on
  the YAML tree and write it back only once it loads.

  The disk is a map from paths to texts. What a write does is given by the environment: it
  succeeds, it cannot open the file, or it stops after some characters, in which case the file
  has been truncated already. The YAML parser and printer (serde\_yaml) are parameters.
\<close>

section \<open>The disk\<close>

type_synonym files = "str \<Rightarrow> str option"

datatype write_outcome = Written | Not_Opened | Cut_Short nat

record volume =
  vol_write :: "str \<Rightarrow> write_outcome"
  vol_remove :: "str \<Rightarrow> bool"
  vol_create_dir :: "str \<Rightarrow> bool"

record yaml_lib =
  yl_parse :: "str \<Rightarrow> str + yaml"
  yl_print :: "yaml \<Rightarrow> str + str"

definition fs_write :: "volume \<Rightarrow> str \<Rightarrow> str \<Rightarrow> files \<Rightarrow> bool \<times> files" where
  "fs_write vol path text fs =
     (case vol_write vol path of
        Written \<Rightarrow> (True, fs(path := Some text))
      | Not_Opened \<Rightarrow> (False, fs)
      | Cut_Short n \<Rightarrow> (False, fs(path := Some (take n text))))"

definition fs_remove :: "volume \<Rightarrow> str \<Rightarrow> files \<Rightarrow> files" where
  "fs_remove vol path fs = (if vol_remove vol path then fs(path := None) else fs)"

text \<open>
  Paths as the standard library reads them: trailing separators and single-dot components are
  skipped, the last component is the file name unless it is dot-dot, and the stem of a
  name ends before its last dot, unless that dot is its first character.
\<close>

fun drop_tail :: "str \<Rightarrow> str" where
  "drop_tail [] = []"
| "drop_tail (c # p) =
     (if c = ch CHR ''/'' then drop_tail p
      else if c = ch CHR ''.'' \<and> p \<noteq> [] \<and> hd p = ch CHR ''/'' then drop_tail (tl p)
      else c # p)"

definition path_trunk :: "str \<Rightarrow> str" where
  "path_trunk path = rev (drop_tail (rev path))"

definition path_dir :: "str \<Rightarrow> str" where
  "path_dir path = rev (dropWhile (\<lambda>c. c \<noteq> ch CHR ''/'') (rev (path_trunk path)))"

definition file_name :: "str \<Rightarrow> str option" where
  "file_name path =
     (let name = rev (takeWhile (\<lambda>c. c \<noteq> ch CHR ''/'') (rev (path_trunk path))) in
      if name \<in> {[], lit ''.'', lit ''..''} then None else Some name)"

definition file_stem :: "str \<Rightarrow> str" where
  "file_stem name = (case rsplit_once (ch CHR ''.'') name of Some (b, _) \<Rightarrow> if b = [] then name else b | None \<Rightarrow> name)"

definition path_with_extension :: "str \<Rightarrow> str \<Rightarrow> str" where
  "path_with_extension path ext =
     (case file_name path of
        None \<Rightarrow> path
      | Some name \<Rightarrow> path_dir path @ file_stem name @ lit ''.'' @ ext)"

section \<open>Loading and bootstrapping\<close>

definition load_config_file ::
  "yaml_lib \<Rightarrow> externs \<Rightarrow> files \<Rightarrow> str \<Rightarrow> gate_messages \<Rightarrow> cfg_error + gate_config" where
  "load_config_file yl ex fs path messages =
     (case fs path of
        None \<Rightarrow> Inl (Cfg_Error (lit ''Config file not found: '' @ path))
      | Some text \<Rightarrow> bind_result (cfg (yl_parse yl text)) (\<lambda>root. load_config ex messages root))"

definition messages_load :: "yaml_lib \<Rightarrow> files \<Rightarrow> str \<Rightarrow> cfg_error + gate_messages" where
  "messages_load yl fs path =
     (case fs path of
        None \<Rightarrow> Inl (Cfg_Error (lit ''Messages file not found: '' @ path))
      | Some text \<Rightarrow> bind_result (cfg (yl_parse yl text)) (\<lambda>root. Inr (messages_parse root)))"

text \<open>The step both load\_or\_create\_default functions begin with.\<close>

definition bootstrap :: "volume \<Rightarrow> str \<Rightarrow> str \<Rightarrow> str \<Rightarrow> files \<Rightarrow> (cfg_error + unit) \<times> files" where
  "bootstrap vol what default_text path fs =
     (if fs path \<noteq> None then (Inr (), fs)
      else if path_dir path \<noteq> [] \<and> \<not> vol_create_dir vol (path_dir path) then (Inl (Cfg_Error (lit ''cannot create directory'')), fs)
      else case fs_write vol path default_text fs of
        (True, fs) \<Rightarrow> (Inr (), fs)
      | (False, fs) \<Rightarrow> (Inl (Cfg_Error (lit ''failed to bootstrap default '' @ what @ lit '' file at '' @ path)), fs))"

definition load_or_create_default ::
  "volume \<Rightarrow> yaml_lib \<Rightarrow> externs \<Rightarrow> str \<Rightarrow> str \<Rightarrow> gate_messages \<Rightarrow> files \<Rightarrow> (cfg_error + gate_config) \<times> files" where
  "load_or_create_default vol yl ex default_text path messages fs =
     (case bootstrap vol (lit ''config'') default_text path fs of
        (Inl e, fs) \<Rightarrow> (Inl e, fs)
      | (Inr _, fs) \<Rightarrow> (load_config_file yl ex fs path messages, fs))"

definition messages_load_or_create_default ::
  "volume \<Rightarrow> yaml_lib \<Rightarrow> str \<Rightarrow> str \<Rightarrow> files \<Rightarrow> (cfg_error + gate_messages) \<times> files" where
  "messages_load_or_create_default vol yl default_text path fs =
     (case bootstrap vol (lit ''messages'') default_text path fs of
        (Inl e, fs) \<Rightarrow> (Inl e, fs)
      | (Inr _, fs) \<Rightarrow> (messages_load yl fs path, fs))"

section \<open>The document\<close>

record config_document =
  cd_root :: yaml
  cd_has_config_wrapper :: bool

definition config_document_read :: "yaml_lib \<Rightarrow> files \<Rightarrow> str \<Rightarrow> cfg_error + config_document" where
  "config_document_read yl fs path =
     (case fs path of
        None \<Rightarrow> Inl (Cfg_Error (lit ''Config file not found: '' @ path))
      | Some text \<Rightarrow>
      case yl_parse yl text of
        Inl _ \<Rightarrow> Inl (Cfg_Error (path @ lit '' is not valid YAML''))
      | Inr root \<Rightarrow>
          (case as_map root of
             None \<Rightarrow> Inl (Cfg_Error (path @ lit '' does not contain a YAML mapping at its root''))
           | Some m \<Rightarrow> Inr \<lparr>cd_root = root, cd_has_config_wrapper = get_map m ''config'' \<noteq> None\<rparr>))"

text \<open>Writing through a mutable borrow: as\_mapping\_mut and as\_sequence\_mut look through tags.\<close>

fun on_map :: "(mapping \<Rightarrow> mapping) \<Rightarrow> yaml \<Rightarrow> yaml" where
  "on_map f (Y_Tagged t v) = Y_Tagged t (on_map f v)"
| "on_map f (Y_Map m) = Y_Map (f m)"
| "on_map f v = v"

fun on_seq :: "(yaml list \<Rightarrow> yaml list) \<Rightarrow> yaml \<Rightarrow> yaml" where
  "on_seq f (Y_Tagged t v) = Y_Tagged t (on_seq f v)"
| "on_seq f (Y_Seq s) = Y_Seq (f s)"
| "on_seq f v = v"

fun on_key :: "string \<Rightarrow> (yaml \<Rightarrow> yaml) \<Rightarrow> mapping \<Rightarrow> mapping" where
  "on_key k f [] = []"
| "on_key k f ((k', v) # m) = (if k' = Y_String (lit k) then (k', f v) # m else (k', v) # on_key k f m)"

definition section_of :: "config_document \<Rightarrow> mapping" where
  "section_of d =
     (let root_map = unwrap_or (as_map (cd_root d)) [] in
      if cd_has_config_wrapper d then unwrap_or (get_map root_map ''config'') [] else root_map)"

definition section_mut :: "(mapping \<Rightarrow> mapping) \<Rightarrow> config_document \<Rightarrow> config_document" where
  "section_mut f d =
     d\<lparr>cd_root := on_map (if cd_has_config_wrapper d then on_key ''config'' (on_map f) else f) (cd_root d)\<rparr>"

definition ensure_routes :: "mapping \<Rightarrow> mapping" where
  "ensure_routes m = (if get m ''routes'' = None then m @ [(Y_String (lit ''routes''), Y_Seq [])] else m)"

text \<open>
  The borrowed vector is its contents together with the document it is borrowed from; writing
  the vector is set\_routes. The expect panics when the routes entry is not a sequence.
\<close>

definition routes_seq_mut :: "config_document \<Rightarrow> (yaml list \<times> config_document) run" where
  "routes_seq_mut d =
     (let d = section_mut ensure_routes d in
      case Option.bind (get (section_of d) ''routes'') as_sequence of
        None \<Rightarrow> Panicked
      | Some s \<Rightarrow> Returned (s, d))"

definition set_routes :: "yaml list \<Rightarrow> config_document \<Rightarrow> config_document" where
  "set_routes s d = section_mut (on_key ''routes'' (on_seq (\<lambda>_. s))) d"

definition route_hosts :: "yaml \<Rightarrow> str list" where
  "route_hosts route =
     (case as_map route of
        None \<Rightarrow> []
      | Some m \<Rightarrow>
          (case get m ''host'' of
             Some (Y_Seq s) \<Rightarrow> List.map_filter (\<lambda>v. case untag v of Y_String x \<Rightarrow> Some x | _ \<Rightarrow> None) s
           | Some (Y_String x) \<Rightarrow> [x]
           | _ \<Rightarrow> []))"

definition first_index :: "('a \<Rightarrow> bool) \<Rightarrow> 'a list \<Rightarrow> nat option" where
  "first_index P xs = (let i = length (takeWhile (\<lambda>x. \<not> P x) xs) in if i < length xs then Some i else None)"

definition find_route_index :: "yaml list \<Rightarrow> str list \<Rightarrow> nat option" where
  "find_route_index routes hosts = first_index (\<lambda>r. set (route_hosts r) = set hosts) routes"

definition create_route :: "yaml \<Rightarrow> config_document \<Rightarrow> config_document run" where
  "create_route route d = run_bind (routes_seq_mut d) (\<lambda>(s, d). Returned (set_routes (s @ [route]) d))"

definition replace_route :: "str list \<Rightarrow> yaml \<Rightarrow> config_document \<Rightarrow> (bool \<times> config_document) run" where
  "replace_route hosts new_route d =
     run_bind (routes_seq_mut d) (\<lambda>(s, d).
       case find_route_index s hosts of
         Some i \<Rightarrow> Returned (True, set_routes (s[i := new_route]) d)
       | None \<Rightarrow> Returned (False, d))"

definition delete_route :: "str list \<Rightarrow> config_document \<Rightarrow> (bool \<times> config_document) run" where
  "delete_route hosts d =
     run_bind (routes_seq_mut d) (\<lambda>(s, d).
       case find_route_index s hosts of
         Some i \<Rightarrow> Returned (True, set_routes (take i s @ drop (Suc i) s) d)
       | None \<Rightarrow> Returned (False, d))"

definition to_yaml_string :: "yaml_lib \<Rightarrow> config_document \<Rightarrow> cfg_error + str" where
  "to_yaml_string yl d =
     (case yl_print yl (cd_root d) of
        Inl _ \<Rightarrow> Inl (Cfg_Error (lit ''failed to serialize config back to YAML''))
      | Inr t \<Rightarrow> Inr t)"

text \<open>
  A panic of load\_config (a malformed colour in a message) unwinds past the removal of the
  temporary file; an error of it does not.
\<close>

definition write_validated ::
  "volume \<Rightarrow> yaml_lib \<Rightarrow> externs \<Rightarrow> str \<Rightarrow> str \<Rightarrow> gate_messages \<Rightarrow> files \<Rightarrow> (cfg_error + gate_config) \<times> files" where
  "write_validated vol yl ex path new_yaml messages fs =
     (let tmp_path = path_with_extension path (lit ''yml.tmp-validate'') in
      case fs_write vol tmp_path new_yaml fs of
        (False, fs) \<Rightarrow> (Inl (Cfg_Error (lit ''failed to write temp validation file '' @ tmp_path)), fs)
      | (True, fs) \<Rightarrow>
          (case load_config_file yl ex fs tmp_path messages of
             Inl Cfg_Panic \<Rightarrow> (Inl Cfg_Panic, fs)
           | Inl e \<Rightarrow> (Inl e, fs_remove vol tmp_path fs)
           | Inr c \<Rightarrow>
               (case fs_write vol path new_yaml (fs_remove vol tmp_path fs) of
                  (False, fs) \<Rightarrow> (Inl (Cfg_Error (lit ''failed to write '' @ path)), fs)
                | (True, fs) \<Rightarrow> (Inr c, fs))))"

section \<open>Facts on the YAML tree\<close>

lemma lit_eq [simp]: "lit a = lit b \<longleftrightarrow> a = b"
proof -
  have "inj (of_char :: char \<Rightarrow> nat)" by (rule injI) (simp only: of_char_eq_iff)
  then show ?thesis by (simp add: lit_def inj_map_eq_map)
qed

lemma as_map_on_map [simp]: "as_map (on_map f v) = map_option f (as_map v)"
  by (induction v) (auto simp: as_map_def)

lemma as_sequence_on_seq [simp]: "as_sequence (on_seq f v) = map_option f (as_sequence v)"
  by (induction v) (auto simp: as_sequence_def)

lemma get_on_key [simp]: "get (on_key k f m) k' = (if k' = k then map_option f (get m k) else get m k')"
  by (induction m) (auto simp: get_def)

lemma get_append: "get (m @ n) k = (case get m k of Some v \<Rightarrow> Some v | None \<Rightarrow> get n k)"
  by (auto simp: get_def map_add_def split: option.split)

lemma get_ensure_routes: "get (ensure_routes m) k = (if k = ''routes'' \<and> get m k = None then Some (Y_Seq []) else get m k)"
  by (cases "get m k") (auto simp: ensure_routes_def get_append, auto simp: get_def)

text \<open>Two sections that differ at most in their routes entry.\<close>

definition same_off_routes :: "mapping \<Rightarrow> mapping \<Rightarrow> bool" where
  "same_off_routes m n \<longleftrightarrow> (\<forall>k. k \<noteq> ''routes'' \<longrightarrow> get m k = get n k)"

lemma same_off_routesD:
  assumes "same_off_routes m n" "k \<noteq> ''routes''"
  shows "get m k = get n k" "get_str m k = get_str n k" "get_bool m k = get_bool n k"
    "get_i32 m k = get_i32 n k" "get_map m k = get_map n k"
    "get_duration m k x = get_duration n k x"
  using assms by (simp_all add: same_off_routes_def get_duration_def get_str_def get_bool_def get_i32_def get_i64_def get_map_def)

definition keeps_others :: "(mapping \<Rightarrow> mapping) \<Rightarrow> bool" where
  "keeps_others f \<longleftrightarrow> (\<forall>m. same_off_routes (f m) m)"

lemma keeps_others_edits [simp]: "keeps_others ensure_routes" "keeps_others (on_key ''routes'' g)"
  by (simp_all add: keeps_others_def same_off_routes_def get_ensure_routes)

lemma keeps_others_get_map:
  assumes "keeps_others f"
  shows "get_map (f m) ''config'' = get_map m ''config''"
  using same_off_routesD(5) [of "f m" m "''config''"] assms by (simp add: keeps_others_def)

section \<open>Documents\<close>

definition doc_ok :: "config_document \<Rightarrow> bool" where
  "doc_ok d \<longleftrightarrow> (\<exists>m. as_map (cd_root d) = Some m \<and> (cd_has_config_wrapper d \<longleftrightarrow> get_map m ''config'' \<noteq> None))"

lemma config_document_read_ok: "config_document_read yl fs path = Inr d \<Longrightarrow> doc_ok d"
  by (auto simp: config_document_read_def doc_ok_def split: option.splits sum.splits)

text \<open>The section a document is edited in is the one load\_config reads.\<close>

lemma section_of_root:
  assumes "doc_ok d"
  shows "(let root_map = unwrap_or (as_map (cd_root d)) [] in unwrap_or (get_map root_map ''config'') root_map) = section_of d"
  using assms by (auto simp: doc_ok_def section_of_def)

lemma get_map_on_key: "get_map (on_key k (on_map f) m) k = map_option f (get_map m k)"
  by (cases "get m k") (simp_all add: get_map_def)

lemma section_mut_spec:
  assumes "doc_ok d" "keeps_others f"
  shows "doc_ok (section_mut f d)" "section_of (section_mut f d) = f (section_of d)"
  using assms
  by (auto simp: doc_ok_def section_of_def section_mut_def get_map_on_key keeps_others_get_map)

lemma routes_seq_mut_cases:
  assumes "doc_ok d"
  shows "routes_seq_mut d =
    (case get (section_of d) ''routes'' of
       None \<Rightarrow> Returned ([], section_mut ensure_routes d)
     | Some v \<Rightarrow> (case as_sequence v of None \<Rightarrow> Panicked | Some s \<Rightarrow> Returned (s, section_mut ensure_routes d)))"
  using section_mut_spec(2) [OF assms, of ensure_routes]
  by (simp add: routes_seq_mut_def get_ensure_routes as_sequence_def split: option.split)

definition holds_routes :: "mapping \<Rightarrow> yaml list \<Rightarrow> bool" where
  "holds_routes c s \<longleftrightarrow> Option.bind (get c ''routes'') as_sequence = Some s"

lemma routes_seq_mut_Returned:
  assumes d: "doc_ok d" and r: "routes_seq_mut d = Returned (s, e)"
  shows "doc_ok e" "same_off_routes (section_of e) (section_of d)" "holds_routes (section_of e) s" "s = raw_routes_of (section_of d)"
proof -
  have e: "e = section_mut ensure_routes d"
    using r by (auto simp: routes_seq_mut_cases [OF d] split: option.splits)
  note spec = section_mut_spec [OF d keeps_others_edits(1), folded e]
  show "doc_ok e" by (rule spec(1))
  show "same_off_routes (section_of e) (section_of d)"
    using keeps_others_edits(1) by (simp add: spec(2) keeps_others_def)
  show "holds_routes (section_of e) s" "s = raw_routes_of (section_of d)"
    using r by (auto simp: routes_seq_mut_cases [OF d] spec(2) holds_routes_def raw_routes_of_def get_ensure_routes as_sequence_def
        split: option.splits)
qed

lemma set_routes_spec:
  assumes d: "doc_ok d" and h: "holds_routes (section_of d) s"
  shows "doc_ok (set_routes s' d)" "same_off_routes (section_of (set_routes s' d)) (section_of d)"
    "holds_routes (section_of (set_routes s' d)) s'"
proof -
  note spec = section_mut_spec [OF d keeps_others_edits(2), folded set_routes_def]
  show "doc_ok (set_routes s' d)" by (rule spec(1) [of "on_seq (\<lambda>_. s')", folded set_routes_def])
  have sec: "section_of (set_routes s' d) = on_key ''routes'' (on_seq (\<lambda>_. s')) (section_of d)"
    unfolding set_routes_def by (rule section_mut_spec(2) [OF d keeps_others_edits(2)])
  show "same_off_routes (section_of (set_routes s' d)) (section_of d)"
    by (simp add: sec same_off_routes_def)
  show "holds_routes (section_of (set_routes s' d)) s'"
    using h by (auto simp: sec holds_routes_def bind_eq_Some_conv)
qed

section \<open>Loading an edited document\<close>

lemma config_section_doc: "doc_ok d \<Longrightarrow> config_section (cd_root d) = section_of d"
  by (simp add: config_section_def section_of_root)

lemma load_config_same_off_routes:
  assumes same: "same_off_routes (config_section root') (config_section root)"
    and loaded: "load_config ex ms root = Inr g"
    and routes: "parse_routes ex ms (raw_routes_of (config_section root')) = Inr rs"
  shows "load_config ex ms root' = Inr (g\<lparr>gc_routes := sort_routes rs\<rparr>)"
  using loaded routes
  by (auto simp: load_config_def Let_def bind_result_Inr_iff same_off_routesD [OF same] raw_routes_of_def
      simp flip: config_section_def [unfolded Let_def])

lemma parse_metrics_usage_index:
  "parse_metrics_usage ex m i k = Inr u \<Longrightarrow> parse_metrics_usage ex m j k = Inr u"
  by (auto simp: parse_metrics_usage_def Let_def bind_result_Inr_iff split: option.splits yaml.splits if_splits)

lemma parse_metrics_index:
  assumes "parse_metrics ex m i = Inr u"
  shows "parse_metrics ex m j = Inr u"
proof (cases m)
  case (Some v)
  then obtain t up dn where "get_duration v ''resetInterval'' 0 = Inr t"
      "parse_metrics_usage ex v i ''upload'' = Inr up" "parse_metrics_usage ex v i ''download'' = Inr dn"
    using assms by (auto simp: parse_metrics_def bind_result_Inr_iff)
  with Some assms show ?thesis by (simp add: parse_metrics_def parse_metrics_usage_index [where j = j])
qed (use assms in \<open>simp add: parse_metrics_def\<close>)

lemma parse_route_index: "parse_route ex m i ms = Inr r \<Longrightarrow> parse_route ex m j ms = Inr r"
  by (auto simp: parse_route_def bind_result_Inr_iff dest: parse_metrics_index [where j = j] split: option.splits)

text \<open>The route one entry of the list gives, whatever its position.\<close>

definition parse_entry :: "externs \<Rightarrow> gate_messages \<Rightarrow> yaml \<Rightarrow> nat \<Rightarrow> cfg_error + route" where
  "parse_entry ex ms v i =
     (case as_map v of
        None \<Rightarrow> Inl (Cfg_Error (lit ''Route #'' @ show_nat i @ lit '' is not a map''))
      | Some m \<Rightarrow> parse_route ex m i ms)"

lemma parse_entry_index: "parse_entry ex ms v i = Inr r \<Longrightarrow> parse_entry ex ms v j = Inr r"
  by (auto simp: parse_entry_def dest: parse_route_index split: option.splits)

lemma collect_results_Inr_iff: "collect_results rs = Inr xs \<longleftrightarrow> rs = map Inr xs"
  by (induction rs arbitrary: xs) (auto simp: bind_result_Inr_iff)

lemma parse_routes_Inr_iff:
  "parse_routes ex ms vs = Inr rs \<longleftrightarrow> list_all2 (\<lambda>v r. parse_entry ex ms v 0 = Inr r) vs rs"
proof -
  have "parse_routes ex ms vs = Inr rs \<longleftrightarrow> map (\<lambda>(i, v). parse_entry ex ms v i) (enumerate 0 vs) = map Inr rs"
    by (simp add: parse_routes_def collect_results_Inr_iff parse_entry_def)
  also have "\<dots> \<longleftrightarrow> length vs = length rs \<and> (\<forall>i < length vs. parse_entry ex ms (vs ! i) i = Inr (rs ! i))"
    by (auto simp: list_eq_iff_nth_eq nth_enumerate_eq)
  also have "\<dots> \<longleftrightarrow> length vs = length rs \<and> (\<forall>i < length vs. parse_entry ex ms (vs ! i) 0 = Inr (rs ! i))"
    using parse_entry_index by blast
  finally show ?thesis by (simp add: list_all2_conv_all_nth)
qed

section \<open>The interface of a route edit\<close>

text \<open>
  What the three operations share: they borrow the route list, compute a new one from it and
  write it back, or report that nothing matched.
\<close>

locale route_edit =
  fixes edit :: "config_document \<Rightarrow> (bool \<times> config_document) run"
    and change :: "yaml list \<Rightarrow> yaml list option"
  assumes edit_def: "edit d = run_bind (routes_seq_mut d) (\<lambda>(s, e).
      case change s of Some s' \<Rightarrow> Returned (True, set_routes s' e) | None \<Rightarrow> Returned (False, e))"
begin

lemma edit_spec:
  assumes d: "doc_ok d" and run: "edit d = Returned (done, d')"
  shows "doc_ok d' \<and> same_off_routes (section_of d') (section_of d)
    \<and> (case change (raw_routes_of (section_of d)) of
         None \<Rightarrow> \<not> done \<and> raw_routes_of (section_of d') = raw_routes_of (section_of d)
       | Some s' \<Rightarrow> done \<and> raw_routes_of (section_of d') = s')"
proof -
  obtain s e where r: "routes_seq_mut d = Returned (s, e)"
    using run by (auto simp: edit_def run_bind_def split: run.splits)
  note e = routes_seq_mut_Returned [OF d r]
  show ?thesis
  proof (cases "change s")
    case None
    then show ?thesis
      using run r e by (auto simp: edit_def run_bind_def holds_routes_def raw_routes_of_def)
  next
    case (Some s')
    then show ?thesis
      using run r e set_routes_spec [OF e(1,3), of s']
      by (auto simp: edit_def run_bind_def holds_routes_def raw_routes_of_def same_off_routes_def)
  qed
qed

lemma edit_panics_iff:
  assumes "doc_ok d"
  shows "edit d = Panicked \<longleftrightarrow> (\<exists>v. get (section_of d) ''routes'' = Some v \<and> as_sequence v = None)"
  by (auto simp: edit_def run_bind_def routes_seq_mut_cases [OF assms] split: option.splits run.splits)

lemma edit_loads:
  assumes d: "doc_ok d" and run: "edit d = Returned (True, d')"
    and loaded: "load_config ex ms (cd_root d) = Inr g"
    and new: "change (raw_routes_of (section_of d)) = Some s'" "list_all2 (\<lambda>v r. parse_entry ex ms v 0 = Inr r) s' rs"
  shows "load_config ex ms (cd_root d') = Inr (g\<lparr>gc_routes := sort_routes rs\<rparr>)"
proof (rule load_config_same_off_routes [OF _ loaded])
  note spec = edit_spec [OF d run]
  show "same_off_routes (config_section (cd_root d')) (config_section (cd_root d))"
    using spec d by (simp add: config_section_doc)
  show "parse_routes ex ms (raw_routes_of (config_section (cd_root d'))) = Inr rs"
    using spec new by (simp add: config_section_doc parse_routes_Inr_iff)
qed

end

interpretation creating: route_edit "\<lambda>d. run_bind (create_route route d) (\<lambda>e. Returned (True, e))" "\<lambda>s. Some (s @ [route])"
  by unfold_locales (auto simp: create_route_def run_bind_def split: run.splits)

interpretation replacing: route_edit "replace_route hosts route" "\<lambda>s. map_option (\<lambda>i. s[i := route]) (find_route_index s hosts)"
  by unfold_locales (auto simp: replace_route_def run_bind_def split: run.splits option.splits)

interpretation deleting: route_edit "delete_route hosts" "\<lambda>s. map_option (\<lambda>i. take i s @ drop (Suc i) s) (find_route_index s hosts)"
  by unfold_locales (auto simp: delete_route_def run_bind_def split: run.splits option.splits)

section \<open>Paths and writes\<close>

lemma file_stem_prefix: "file_stem name = name \<or> (\<exists>e. name = file_stem name @ ch CHR ''.'' # e \<and> ch CHR ''.'' \<notin> set e)"
  by (auto simp: file_stem_def dest: rsplit_once_Some split: option.splits)

lemma path_trunk_split: "file_name path = Some name \<Longrightarrow> path_trunk path = path_dir path @ name"
proof -
  let ?r = "rev (path_trunk path)"
  assume "file_name path = Some name"
  then have "name = rev (takeWhile (\<lambda>c. c \<noteq> ch CHR ''/'') ?r)"
    by (auto simp: file_name_def Let_def split: if_splits)
  then have "path_dir path @ name = rev (takeWhile (\<lambda>c. c \<noteq> ch CHR ''/'') ?r @ dropWhile (\<lambda>c. c \<noteq> ch CHR ''/'') ?r)"
    by (simp only: path_dir_def rev_append)
  then show ?thesis by (simp only: takeWhile_dropWhile_id rev_rev_ident)
qed

text \<open>The temporary file is never the configuration file itself.\<close>

lemma tmp_path_differs:
  assumes "file_name path = Some name"
  shows "path_with_extension path (lit ''yml.tmp-validate'') \<noteq> path"
proof
  let ?x = "lit ''yml.tmp-validate''"
  assume eq: "path_with_extension path ?x = path"
  then have p: "path = (path_dir path @ file_stem name) @ ch CHR ''.'' # ?x"
    using assms by (simp add: path_with_extension_def lit_def)
  then have rp: "rev path = rev ?x @ rev ((path_dir path @ file_stem name) @ [ch CHR ''.''])"
    by (metis append.assoc append_Cons append_Nil rev_append)
  have "hd (rev path) = ch CHR ''e''" by (subst rp) (simp add: lit_def)
  moreover have "path \<noteq> []" using p by auto
  ultimately have "path_trunk path = path"
    by (cases "rev path") (simp_all add: path_trunk_def)
  then have "path = path_dir path @ name" using path_trunk_split [OF assms] by (rule subst)
  then have "path_dir path @ name = path_dir path @ (file_stem name @ ch CHR ''.'' # ?x)"
    using p [unfolded append.assoc] by (rule trans [OF sym])
  then have n: "name = file_stem name @ ch CHR ''.'' # ?x" by (rule iffD1 [OF same_append_eq])
  with file_stem_prefix [of name] obtain e where "name = file_stem name @ ch CHR ''.'' # e" "ch CHR ''.'' \<notin> set e" by auto
  with n have "ch CHR ''.'' \<notin> set ?x" by (metis list.inject same_append_eq)
  then show False by (simp add: lit_def)
qed

lemma fs_write_other: "fs_write vol path text fs = (ok, fs') \<Longrightarrow> p \<noteq> path \<Longrightarrow> fs' p = fs p"
  by (auto simp: fs_write_def split: write_outcome.splits)

lemma fs_write_ok: "fs_write vol path text fs = (True, fs') \<Longrightarrow> fs' path = Some text"
  by (auto simp: fs_write_def split: write_outcome.splits)

lemma fs_remove_other [simp]: "p \<noteq> path \<Longrightarrow> fs_remove vol path fs p = fs p"
  by (simp add: fs_remove_def)

text \<open>What a text loads to, wherever it is stored.\<close>

definition load_text :: "yaml_lib \<Rightarrow> externs \<Rightarrow> gate_messages \<Rightarrow> str \<Rightarrow> cfg_error + gate_config" where
  "load_text yl ex ms text = bind_result (cfg (yl_parse yl text)) (\<lambda>root. load_config ex ms root)"

lemma load_config_file_text: "fs path = Some text \<Longrightarrow> load_config_file yl ex fs path ms = load_text yl ex ms text"
  by (simp add: load_config_file_def load_text_def)

lemma write_validated_cases:
  assumes run: "write_validated vol yl ex path text ms fs = (r, fs')" and path: "path_with_extension path (lit ''yml.tmp-validate'') \<noteq> path"
  shows "(\<forall>p. p \<notin> {path, path_with_extension path (lit ''yml.tmp-validate'')} \<longrightarrow> fs' p = fs p)
    \<and> (case r of Inr c \<Rightarrow> fs' path = Some text \<and> load_text yl ex ms text = Inr c
       | Inl e \<Rightarrow> fs' path = fs path \<or> (\<exists>n c. fs' path = Some (take n text) \<and> vol_write vol path = Cut_Short n \<and> load_text yl ex ms text = Inr c))"
proof -
  let ?tmp = "path_with_extension path (lit ''yml.tmp-validate'')"
  obtain ok1 fs1 where w1: "fs_write vol ?tmp text fs = (ok1, fs1)" by (metis prod.exhaust)
  obtain ok2 fs2 where w2: "fs_write vol path text (fs_remove vol ?tmp fs1) = (ok2, fs2)" by (metis prod.exhaust)
  note o1 = fs_write_other [OF w1] and o2 = fs_write_other [OF w2]
  show ?thesis
  proof (cases ok1)
    case False
    then show ?thesis using run path w1 o1 by (auto simp: write_validated_def Let_def)
  next
    case True
    have ld: "load_config_file yl ex fs1 ?tmp ms = load_text yl ex ms text"
      by (rule load_config_file_text, rule fs_write_ok) (use w1 True in simp)
    show ?thesis
    proof (cases "load_text yl ex ms text")
      case (Inl e)
      then have "r = Inl e" "\<forall>p. p \<noteq> ?tmp \<longrightarrow> fs' p = fs1 p"
        using run w1 True ld by (cases e; auto simp: write_validated_def Let_def)+
      then show ?thesis using path o1 by simp
    next
      case (Inr c)
      then have run': "(r, fs') = (if ok2 then Inr c else Inl (Cfg_Error (lit ''failed to write '' @ path)), fs2)"
        using run w1 w2 True ld by (cases ok2) (simp_all add: write_validated_def Let_def)
      have "ok2 \<Longrightarrow> fs2 path = Some text" using w2 by (auto intro: fs_write_ok)
      moreover have "\<not> ok2 \<Longrightarrow> fs2 path = fs path \<or> (\<exists>n. fs2 path = Some (take n text) \<and> vol_write vol path = Cut_Short n)"
        using w2 path o1 [of path] by (auto simp: fs_write_def split: write_outcome.splits)
      ultimately show ?thesis using run' path o1 o2 Inr by auto
    qed
  qed
qed

lemma first_index_Some:
  assumes "first_index P xs = Some i"
  shows "i < length xs" "P (xs ! i)" "j < i \<Longrightarrow> \<not> P (xs ! j)"
proof -
  have i: "i = length (takeWhile (\<lambda>x. \<not> P x) xs)" and l: "i < length xs"
    using assms by (auto simp: first_index_def Let_def split: if_splits)
  show "i < length xs" by (rule l)
  show "P (xs ! i)" using nth_length_takeWhile [of "\<lambda>x. \<not> P x" xs] i l by simp
  show "\<not> P (xs ! j)" if "j < i"
  proof -
    have "takeWhile (\<lambda>x. \<not> P x) xs ! j \<in> set (takeWhile (\<lambda>x. \<not> P x) xs)" using that i by simp
    then show ?thesis using that i by (auto simp: takeWhile_nth dest: set_takeWhileD)
  qed
qed

lemma find_route_index_bound: "find_route_index s hosts = Some i \<Longrightarrow> i < length s"
  by (auto simp: find_route_index_def dest: first_index_Some(1))

section \<open>Examples\<close>

definition demo_yaml :: yaml_lib where
  "demo_yaml = \<lparr>yl_parse = (\<lambda>t. if t = lit ''demo'' then Inr demo_document else if t = lit ''odd'' then
       Inr (Y_Map [(Y_String (lit ''routes''), Y_Null)]) else Inl []), yl_print = (\<lambda>_. Inr (lit ''demo''))\<rparr>"

definition demo_files :: files where
  "demo_files p = (if p = lit ''gate.yml'' then Some (lit ''demo'') else if p = lit ''odd.yml'' then Some (lit ''odd'') else None)"

definition demo_volume :: volume where
  "demo_volume = \<lparr>vol_write = (\<lambda>p. if p = lit ''full.yml'' then Cut_Short 2 else Written), vol_remove = (\<lambda>_. True), vol_create_dir = (\<lambda>_. True)\<rparr>"

definition demo_doc :: config_document where
  "demo_doc = \<lparr>cd_root = demo_document, cd_has_config_wrapper = True\<rparr>"

lemma demo_doc_read: "config_document_read demo_yaml demo_files (lit ''gate.yml'') = Inr demo_doc"
  by (simp add: config_document_read_def demo_files_def demo_yaml_def demo_document_def as_map_def get_map_def get_def demo_doc_def)

lemma demo_doc_ok: "doc_ok demo_doc"
  by (rule config_document_read_ok [OF demo_doc_read])

lemma demo_delete:
  "raw_routes_of (section_of demo_doc) =
     [Y_Map [(Y_String (lit ''host''), Y_String (lit ''a'')), (Y_String (lit ''backend''), Y_String (lit ''x''))],
      Y_Map [(Y_String (lit ''host''), Y_String (lit ''b'')), (Y_String (lit ''backend''), Y_String (lit ''y'')),
             (Y_String (lit ''priority''), Y_Int 5)]]"
  "find_route_index (raw_routes_of (section_of demo_doc)) [lit ''a''] = Some 0"
  "\<exists>d'. delete_route [lit ''a''] demo_doc = Returned (True, d')"
  by (simp_all add: demo_doc_def demo_document_def section_of_def as_map_def get_map_def get_def raw_routes_of_def as_sequence_def
      find_route_index_def first_index_def route_hosts_def delete_route_def routes_seq_mut_def section_mut_def ensure_routes_def run_bind_def)

lemma demo_text_loads: "\<exists>c. load_text demo_yaml demo_externs demo_messages (lit ''demo'') = Inr c"
  using demo_loads by (auto simp: load_text_def demo_yaml_def cfg_def)

lemma demo_file_name: "file_name (lit ''gate.yml'') = Some (lit ''gate.yml'')" "file_name (lit ''full.yml'') = Some (lit ''full.yml'')"
  by (simp_all add: file_name_def path_trunk_def lit_def)

section \<open>Properties\<close>

text \<open>The abstract state of a document: the routes its entries give, in document order, and the
  configuration the whole document loads to.\<close>

definition loads_routes :: "externs \<Rightarrow> gate_messages \<Rightarrow> config_document \<Rightarrow> route list \<Rightarrow> gate_config \<Rightarrow> bool" where
  "loads_routes ex ms d rs g \<longleftrightarrow> doc_ok d
     \<and> list_all2 (\<lambda>v r. parse_entry ex ms v 0 = Inr r) (raw_routes_of (section_of d)) rs
     \<and> load_config ex ms (cd_root d) = Inr (g\<lparr>gc_routes := sort_routes rs\<rparr>)"

context route_edit
begin

lemma edit_refines:
  assumes "loads_routes ex ms d rs g" "edit d = Returned (True, d')"
    "change (raw_routes_of (section_of d)) = Some s'" "list_all2 (\<lambda>v r. parse_entry ex ms v 0 = Inr r) s' rs'"
  shows "loads_routes ex ms d' rs' g"
  using assms edit_spec [of d True d'] edit_loads [of d d' ex ms "g\<lparr>gc_routes := sort_routes rs\<rparr>" s' rs']
  by (auto simp: loads_routes_def)

end

text \<open>C36: editing refines list operations. On a document that loads, appending an entry that
  parses to a route appends that route, replacing the entry of a host set replaces the route at
  its position and deleting it removes the route there; the edited document loads to the same
  configuration with the new list in routing order, so an edit changes no other setting.\<close>

theorem route_edits_refine:
  assumes loads: "loads_routes ex ms d rs g" and route: "parse_entry ex ms new 0 = Inr r"
  shows "(create_route new d = Returned d' \<longrightarrow> loads_routes ex ms d' (rs @ [r]) g)
    \<and> (replace_route hosts new d = Returned (True, d') \<longrightarrow>
         (\<exists>i. find_route_index (raw_routes_of (section_of d)) hosts = Some i \<and> i < length rs \<and> loads_routes ex ms d' (rs[i := r]) g))
    \<and> (delete_route hosts d = Returned (True, d') \<longrightarrow>
         (\<exists>i. find_route_index (raw_routes_of (section_of d)) hosts = Some i \<and> i < length rs
           \<and> loads_routes ex ms d' (take i rs @ drop (Suc i) rs) g))"
proof (intro conjI impI)
  let ?s = "raw_routes_of (section_of d)"
  have ok: "doc_ok d" and all: "list_all2 (\<lambda>v r. parse_entry ex ms v 0 = Inr r) ?s rs"
    using loads by (simp_all add: loads_routes_def)
  then have len: "length ?s = length rs" by (rule_tac list_all2_lengthD)
  show "loads_routes ex ms d' (rs @ [r]) g" if "create_route new d = Returned d'"
    by (rule creating.edit_refines [OF loads, of new]) (use that list_all2_appendI [OF all, of "[new]" "[r]"] route in \<open>simp_all add: run_bind_def\<close>)
  show "\<exists>i. find_route_index ?s hosts = Some i \<and> i < length rs \<and> loads_routes ex ms d' (rs[i := r]) g"
    if run: "replace_route hosts new d = Returned (True, d')"
  proof -
    obtain i where i: "find_route_index ?s hosts = Some i"
      using replacing.edit_spec [OF ok run] by (auto split: option.splits)
    have "loads_routes ex ms d' (rs[i := r]) g"
      by (rule replacing.edit_refines [OF loads run]) (use i list_all2_update_cong [OF all, of new r i] route in simp_all)
    with i len find_route_index_bound [OF i] show ?thesis by simp
  qed
  show "\<exists>i. find_route_index ?s hosts = Some i \<and> i < length rs \<and> loads_routes ex ms d' (take i rs @ drop (Suc i) rs) g"
    if run: "delete_route hosts d = Returned (True, d')"
  proof -
    obtain i where i: "find_route_index ?s hosts = Some i"
      using deleting.edit_spec [OF ok run] by (auto split: option.splits)
    have "loads_routes ex ms d' (take i rs @ drop (Suc i) rs) g"
      by (rule deleting.edit_refines [OF loads run]) (use i list_all2_appendI [OF list_all2_takeI [OF all, of i] list_all2_dropI [OF all, of "Suc i"]] in simp_all)
    with i len find_route_index_bound [OF i] show ?thesis by simp
  qed
qed

lemma demo_loads_routes: "\<exists>rs g. length rs = 2 \<and> loads_routes demo_externs demo_messages demo_doc rs g"
proof -
  obtain g where g: "load_config demo_externs demo_messages (cd_root demo_doc) = Inr g"
    using demo_loads by (auto simp: demo_doc_def)
  then obtain rs where rs: "parse_routes demo_externs demo_messages (raw_routes_of (section_of demo_doc)) = Inr rs" "gc_routes g = sort_routes rs"
    using load_config_parses config_section_doc [OF demo_doc_ok] by fastforce
  then have l: "list_all2 (\<lambda>v r. parse_entry demo_externs demo_messages v 0 = Inr r) (raw_routes_of (section_of demo_doc)) rs"
    by (simp add: parse_routes_Inr_iff)
  then have "length rs = 2" using list_all2_lengthD [OF l] demo_delete(1) by simp
  moreover have "loads_routes demo_externs demo_messages demo_doc rs g"
    using l g rs(2) demo_doc_ok by (auto simp: loads_routes_def)
  ultimately show ?thesis by blast
qed

theorem route_edits_refine_witness:
  "\<exists>d' rs g. delete_route [lit ''a''] demo_doc = Returned (True, d') \<and> length rs = 1
     \<and> loads_routes demo_externs demo_messages d' rs g"
proof -
  obtain rs g where rs: "length rs = 2" "loads_routes demo_externs demo_messages demo_doc rs g" using demo_loads_routes by blast
  obtain d' where d': "delete_route [lit ''a''] demo_doc = Returned (True, d')" using demo_delete(3) by blast
  have "\<exists>r. parse_entry demo_externs demo_messages (raw_routes_of (section_of demo_doc) ! 0) 0 = Inr r"
    using rs by (auto simp: loads_routes_def list_all2_conv_all_nth)
  then obtain r where "parse_entry demo_externs demo_messages (raw_routes_of (section_of demo_doc) ! 0) 0 = Inr r" ..
  from route_edits_refine [OF rs(2) this, of d' "[lit ''a'']"] d'
  obtain i where "i < length rs" "loads_routes demo_externs demo_messages d' (take i rs @ drop (Suc i) rs) g" by blast
  with rs d' show ?thesis by (intro exI [of _ d'] exI [of _ "take i rs @ drop (Suc i) rs"] exI [of _ g]) auto
qed

text \<open>An edit touches nothing but the route list. Whatever edit runs to completion, every other
  entry of the edited section is as it was, and the list is the old one with the entry appended,
  with the first entry of the host set replaced, or with it removed; when no entry has the host
  set, the list is unchanged and the edit says so.\<close>

theorem route_edits_local:
  assumes read: "config_document_read yl fs path = Inr d"
  defines "s \<equiv> raw_routes_of (section_of d)"
  shows "(create_route new d = Returned d' \<longrightarrow>
            same_off_routes (section_of d') (section_of d) \<and> raw_routes_of (section_of d') = s @ [new])
    \<and> (replace_route hosts new d = Returned (b, d') \<longrightarrow>
            same_off_routes (section_of d') (section_of d)
          \<and> (case find_route_index s hosts of None \<Rightarrow> \<not> b \<and> raw_routes_of (section_of d') = s
             | Some i \<Rightarrow> b \<and> raw_routes_of (section_of d') = s[i := new]))
    \<and> (delete_route hosts d = Returned (b, d') \<longrightarrow>
            same_off_routes (section_of d') (section_of d)
          \<and> (case find_route_index s hosts of None \<Rightarrow> \<not> b \<and> raw_routes_of (section_of d') = s
             | Some i \<Rightarrow> b \<and> raw_routes_of (section_of d') = take i s @ drop (Suc i) s))"
proof (intro conjI impI)
  note ok = config_document_read_ok [OF read]
  show "same_off_routes (section_of d') (section_of d)" "raw_routes_of (section_of d') = s @ [new]"
    if "create_route new d = Returned d'"
    using creating.edit_spec [OF ok, of new True d'] that by (simp_all add: run_bind_def s_def)
  show "same_off_routes (section_of d') (section_of d)" if "replace_route hosts new d = Returned (b, d')"
    using replacing.edit_spec [OF ok that] by simp
  show "case find_route_index s hosts of None \<Rightarrow> \<not> b \<and> raw_routes_of (section_of d') = s
      | Some i \<Rightarrow> b \<and> raw_routes_of (section_of d') = s[i := new]" if "replace_route hosts new d = Returned (b, d')"
    using replacing.edit_spec [OF ok that] by (auto simp: s_def split: option.splits)
  show "same_off_routes (section_of d') (section_of d)" if "delete_route hosts d = Returned (b, d')"
    using deleting.edit_spec [OF ok that] by simp
  show "case find_route_index s hosts of None \<Rightarrow> \<not> b \<and> raw_routes_of (section_of d') = s
      | Some i \<Rightarrow> b \<and> raw_routes_of (section_of d') = take i s @ drop (Suc i) s" if "delete_route hosts d = Returned (b, d')"
    using deleting.edit_spec [OF ok that] by (auto simp: s_def split: option.splits)
qed

theorem route_edits_local_witness:
  "\<exists>d'. delete_route [lit ''a''] demo_doc = Returned (True, d') \<and> length (raw_routes_of (section_of d')) = 1"
proof -
  obtain d' where d': "delete_route [lit ''a''] demo_doc = Returned (True, d')" using demo_delete(3) by blast
  with route_edits_local [OF demo_doc_read, of undefined d' "[lit ''a'']" True]
  show ?thesis by (auto simp: demo_delete(1) demo_delete(2) [unfolded demo_delete(1)])
qed

text \<open>C31: write\_validated. A text that does not load leaves the configuration file as it was;
  when the call succeeds, the file holds the text and loading it gives the configuration that was
  returned; no file besides it and the temporary one is touched.\<close>

theorem write_validated_safe:
  assumes path: "file_name path = Some name" and run: "write_validated vol yl ex path text ms fs = (r, fs')"
  shows "((\<forall>c. load_text yl ex ms text \<noteq> Inr c) \<longrightarrow> (\<exists>e. r = Inl e) \<and> fs' path = fs path)
    \<and> (\<forall>c. r = Inr c \<longrightarrow> fs' path = Some text \<and> load_config_file yl ex fs' path ms = Inr c)
    \<and> (\<forall>p. p \<notin> {path, path_with_extension path (lit ''yml.tmp-validate'')} \<longrightarrow> fs' p = fs p)"
  using write_validated_cases [OF run tmp_path_differs [OF path]]
  by (cases r) (auto simp: load_config_file_text)

theorem write_validated_safe_witness:
  "\<exists>c fs'. write_validated demo_volume demo_yaml demo_externs (lit ''gate.yml'') (lit ''demo'') demo_messages (\<lambda>_. None) = (Inr c, fs')
     \<and> load_config_file demo_yaml demo_externs fs' (lit ''gate.yml'') demo_messages = Inr c"
proof -
  obtain c where c: "load_text demo_yaml demo_externs demo_messages (lit ''demo'') = Inr c" using demo_text_loads ..
  obtain r fs' where run: "write_validated demo_volume demo_yaml demo_externs (lit ''gate.yml'') (lit ''demo'') demo_messages (\<lambda>_. None) = (r, fs')"
    by (metis prod.exhaust)
  moreover have "r = Inr c"
  proof -
    have "path_with_extension (lit ''gate.yml'') (lit ''yml.tmp-validate'') \<noteq> lit ''full.yml''"
      by (simp add: path_with_extension_def demo_file_name) (simp add: path_dir_def path_trunk_def file_stem_def rsplit_once_def lit_def)
    then show ?thesis using run c
      by (auto simp: write_validated_def Let_def fs_write_def demo_volume_def load_config_file_text)
  qed
  ultimately show ?thesis using write_validated_safe [OF demo_file_name(1) run] by blast
qed

text \<open>The file is overwritten in place and not through a rename, so the guarantee stops at the write
  itself: when it fails half way (a full disk) the configuration file is left truncated, although
  the text was valid and the call reports an error.\<close>

theorem interrupted_write_truncates:
  assumes path: "file_name path = Some name" and tmp: "vol_write vol (path_with_extension path (lit ''yml.tmp-validate'')) = Written"
    and cut: "vol_write vol path = Cut_Short n" and valid: "load_text yl ex ms text = Inr c"
  shows "\<exists>e fs'. write_validated vol yl ex path text ms fs = (Inl e, fs') \<and> fs' path = Some (take n text)"
  using tmp_path_differs [OF path] assms by (auto simp: write_validated_def Let_def fs_write_def load_config_file_text)

theorem interrupted_write_truncates_witness:
  "\<exists>e fs'. write_validated demo_volume demo_yaml demo_externs (lit ''full.yml'') (lit ''demo'') demo_messages (\<lambda>_. None) = (Inl e, fs')
     \<and> fs' (lit ''full.yml'') = Some (lit ''de'')"
proof -
  obtain c where c: "load_text demo_yaml demo_externs demo_messages (lit ''demo'') = Inr c" using demo_text_loads ..
  have "vol_write demo_volume (path_with_extension (lit ''full.yml'') (lit ''yml.tmp-validate'')) = Written"
    using tmp_path_differs [OF demo_file_name(2)] by (simp add: demo_volume_def)
  moreover have "vol_write demo_volume (lit ''full.yml'') = Cut_Short 2" by (simp add: demo_volume_def)
  moreover have "take 2 (lit ''demo'') = lit ''de''" by (simp add: lit_def)
  ultimately show ?thesis using interrupted_write_truncates [OF demo_file_name(2) _ _ c, of demo_volume 2] by simp
qed

text \<open>The list is not made a sequence when it is there as something else: a document whose routes entry
  is null or a scalar loads as one without routes, but every edit of it panics.\<close>

theorem edit_panics_without_sequence:
  assumes "config_document_read yl fs path = Inr d" and "get (section_of d) ''routes'' = Some v" "as_sequence v = None"
  shows "create_route new d = Panicked \<and> replace_route hosts new d = Panicked \<and> delete_route hosts d = Panicked"
proof -
  note ok = config_document_read_ok [OF assms(1)]
  have "replace_route hosts new d = Panicked" "delete_route hosts d = Panicked"
    using assms(2,3) by (simp_all add: replacing.edit_panics_iff [OF ok] deleting.edit_panics_iff [OF ok])
  moreover have "create_route new d = Panicked"
    using assms(2,3) creating.edit_panics_iff [OF ok, of new] by (auto simp: run_bind_def split: run.splits)
  ultimately show ?thesis by blast
qed

theorem edit_panics_without_sequence_witness:
  "\<exists>d. config_document_read demo_yaml demo_files (lit ''odd.yml'') = Inr d \<and> create_route (Y_Map []) d = Panicked"
proof -
  let ?d = "\<lparr>cd_root = Y_Map [(Y_String (lit ''routes''), Y_Null)], cd_has_config_wrapper = False\<rparr>"
  have read: "config_document_read demo_yaml demo_files (lit ''odd.yml'') = Inr ?d"
    by (simp add: config_document_read_def demo_yaml_def demo_files_def as_map_def get_map_def get_def)
  have "get (section_of ?d) ''routes'' = Some Y_Null" "as_sequence Y_Null = None"
    by (simp_all add: section_of_def as_map_def get_def as_sequence_def)
  from edit_panics_without_sequence [OF read this] read show ?thesis by blast
qed

text \<open>Bootstrapping never replaces a file that exists, and on a missing one, when the disk takes the
  write, it loads exactly what the bundled default loads to.\<close>

theorem bootstrap_creates_once:
  "(fs path \<noteq> None \<longrightarrow>
      load_or_create_default vol yl ex dflt path ms fs = (load_config_file yl ex fs path ms, fs))
   \<and> (fs path = None \<and> vol_create_dir vol (path_dir path) \<and> vol_write vol path = Written \<longrightarrow>
      load_or_create_default vol yl ex dflt path ms fs = (load_text yl ex ms dflt, fs(path := Some dflt)))"
  by (auto simp: load_or_create_default_def bootstrap_def fs_write_def load_config_file_text)

theorem bootstrap_creates_once_witness:
  "load_or_create_default demo_volume demo_yaml demo_externs (lit ''demo'') (lit ''gate.yml'') demo_messages (\<lambda>_. None)
     = (load_text demo_yaml demo_externs demo_messages (lit ''demo''), (\<lambda>_. None)(lit ''gate.yml'' := Some (lit ''demo'')))"
  by (rule bootstrap_creates_once [THEN conjunct2, THEN mp]) (simp add: demo_volume_def)

end
