(* ===== verification/Metrics_Snapshot.thy ===== *)
theory Metrics_Snapshot
  imports Route_Metrics Connection_Tracker
begin

text \<open>
  The metrics snapshot of \<open>src/state.rs\<close>: what the API, the console and the statistics log read from
  the route runtimes, the player registry, the traffic counters and the connection tracker. The clock
  readings (the wall clock and the uptime, a float) are arguments.
\<close>

section \<open>Definitions\<close>

record backend_metric =
  bm_route_index :: nat
  bm_hosts :: "str list"
  bm_backend :: str
  bm_active :: int
  bm_latency_millis :: "int option"

record route_metric =
  rmt_route_index :: nat
  rmt_hosts :: "str list"
  rmt_counter :: traffic_counter

record metrics_snapshot =
  sn_timestamp_millis :: int
  sn_players_online :: nat
  sn_online_by_host :: "(str, nat) hmap"
  sn_uptime_seconds :: f64
  sn_backends :: "backend_metric list"
  sn_players :: "player_session list"
  sn_tracking_enabled :: bool
  sn_tracking_queued_records :: int
  sn_tracking_dropped_records_total :: int
  sn_route_metrics :: "route_metric list"

definition collect_route_backends ::
  "(str \<Rightarrow> u16 \<Rightarrow> dns_result) \<Rightarrow> instant \<Rightarrow> (route \<Rightarrow> route_runtime option) \<Rightarrow> nat \<times> route \<Rightarrow> backend_metric list run" where
  "collect_route_backends resolve now runtimes ir =
     (case ir of (index, r) \<Rightarrow>
        run_bind (if list_all (\<lambda>p. hp_wildcard_count p = 0) (rt_host_patterns r)
                  then run_bind (resolve_backends resolve (rt_backend_templates r) [])
                         (\<lambda>res. Returned (case res of Inr as \<Rightarrow> Some as | Inl _ \<Rightarrow> None))
                  else Returned None) (\<lambda>resolved.
          let addr_of = (\<lambda>i. Option.bind resolved (\<lambda>as. if i < length as then Some (as ! i) else None)) in
          Returned (map (\<lambda>(i, template).
            \<lparr>bm_route_index = index, bm_hosts = map hp_raw (rt_host_patterns r), bm_backend = template,
             bm_active = unwrap_or (Option.bind (addr_of i) (\<lambda>a. map_option (active_connections_of a) (runtimes r))) 0,
             bm_latency_millis = Option.bind (addr_of i) (\<lambda>a. Option.bind (runtimes r) (\<lambda>q. fst (latency_of now a q)))\<rparr>)
            (enumerate 0 (rt_backend_templates r)))))"

fun collect_backends ::
  "(str \<Rightarrow> u16 \<Rightarrow> dns_result) \<Rightarrow> instant \<Rightarrow> (route \<Rightarrow> route_runtime option) \<Rightarrow> (nat \<times> route) list \<Rightarrow> backend_metric list run" where
  "collect_backends resolve now runtimes [] = Returned []"
| "collect_backends resolve now runtimes (ir # irs) =
     run_bind (collect_route_backends resolve now runtimes ir) (\<lambda>bs.
     run_bind (collect_backends resolve now runtimes irs) (\<lambda>rest. Returned (bs @ rest)))"

definition collect_metrics ::
  "(str \<Rightarrow> str) \<Rightarrow> (str \<Rightarrow> u16 \<Rightarrow> dns_result) \<Rightarrow> instant \<Rightarrow> int \<Rightarrow> f64 \<Rightarrow> (route \<Rightarrow> route_runtime option) \<Rightarrow> metrics_store
     \<Rightarrow> tracker \<Rightarrow> player_sessions \<Rightarrow> route list \<Rightarrow> metrics_snapshot run" where
  "collect_metrics lc resolve now millis uptime runtimes store tracking sessions routes =
     run_bind (collect_backends resolve now runtimes (enumerate 0 routes)) (\<lambda>backends.
       let players = sessions_all lc sessions in
       Returned \<lparr>sn_timestamp_millis = millis, sn_players_online = length players,
         sn_online_by_host = online_by_host sessions, sn_uptime_seconds = uptime,
         sn_backends = backends, sn_players = players,
         sn_tracking_enabled = is_enabled tracking, sn_tracking_queued_records = queued_records tracking,
         sn_tracking_dropped_records_total = dropped_records_total tracking,
         sn_route_metrics = List.map_filter (\<lambda>(index, r). map_option (\<lambda>c.
           \<lparr>rmt_route_index = index, rmt_hosts = map hp_raw (rt_host_patterns r), rmt_counter = c\<rparr>) (metrics_handle r store))
           (enumerate 0 routes)\<rparr>)"

section \<open>Facts\<close>

lemma sum_hm_insert:
  "sum_list (map snd (hm_insert k v m)) + unwrap_or (hm_get m k) 0 = sum_list (map snd m) + (v :: nat)"
  by (induction m) (auto simp: hm_insert_def hm_get_def unwrap_or_def split: option.splits)

lemma online_by_host_total: "sum_list (map snd (online_by_host m)) = length m"
proof -
  have "sum_list (map snd (fold (\<lambda>s counts. hm_insert (ps_host s) (unwrap_or (hm_get counts (ps_host s)) 0 + 1) counts) ss counts))
      = length ss + sum_list (map snd counts)" for ss counts
  proof (induction ss arbitrary: counts)
    case (Cons s ss)
    show ?case
      using Cons.IH sum_hm_insert [of "ps_host s" "unwrap_or (hm_get counts (ps_host s)) 0 + 1" counts] by simp
  qed simp
  from this [of "map snd m" "[]"] show ?thesis by (simp add: online_by_host_def)
qed

lemma collect_route_backends_keys:
  "collect_route_backends resolve now runtimes (i, r) = Returned bs \<Longrightarrow>
     map (\<lambda>b. (bm_route_index b, bm_backend b)) bs = map (Pair i) (rt_backend_templates r)"
  by (auto simp: collect_route_backends_def run_bind_def Let_def map_snd_enumerate comp_def case_prod_beta
      simp flip: map_map [unfolded comp_def, of "Pair i" snd] split: run.splits)

lemma collect_backends_keys:
  "collect_backends resolve now runtimes irs = Returned bs \<Longrightarrow>
     map (\<lambda>b. (bm_route_index b, bm_backend b)) bs = concat (map (\<lambda>(i, r). map (Pair i) (rt_backend_templates r)) irs)"
proof (induction irs arbitrary: bs)
  case (Cons ir irs)
  then obtain b1 b2 where "collect_route_backends resolve now runtimes ir = Returned b1"
      "collect_backends resolve now runtimes irs = Returned b2" "bs = b1 @ b2"
    by (auto simp: run_bind_def split: run.splits)
  then show ?case using Cons.IH collect_route_backends_keys [of resolve now runtimes "fst ir" "snd ir" b1]
    by (simp add: case_prod_beta)
qed simp

section \<open>Properties\<close>

text \<open>The snapshot is complete and adds up. It has one backend entry for every backend of every route, in
  order and under the route's index, every registered player once, and the players counted per host are
  all the players.\<close>

theorem snapshot_complete:
  assumes "collect_metrics lc resolve now millis uptime runtimes store tracking sessions routes = Returned s"
  shows "map (\<lambda>b. (bm_route_index b, bm_backend b)) (sn_backends s)
      = concat (map (\<lambda>(i, r). map (Pair i) (rt_backend_templates r)) (enumerate 0 routes))
    \<and> mset (sn_players s) = mset (map snd sessions)
    \<and> sn_players_online s = length sessions \<and> sum_list (map snd (sn_online_by_host s)) = sn_players_online s"
proof -
  obtain bs where "collect_backends resolve now runtimes (enumerate 0 routes) = Returned bs" "sn_backends s = bs"
    "sn_players s = sessions_all lc sessions" "sn_players_online s = length (sessions_all lc sessions)"
    "sn_online_by_host s = online_by_host sessions"
    using assms by (auto simp: collect_metrics_def run_bind_def Let_def split: run.splits)
  then show ?thesis using collect_backends_keys online_by_host_total by (simp add: sessions_all_def)
qed

theorem snapshot_complete_witness:
  "\<exists>s. collect_metrics (\<lambda>s. s) (\<lambda>_ _. Inl (DnsResolveError [])) 0 0 0 (\<lambda>_. None) \<lparr>ms_counters = [], ms_flush_interval = 0\<rparr>
       tracker_default [(replicate 16 7, demo_session 1)] [] = Returned s \<and> sn_players_online s = 1"
proof -
  obtain s where s: "collect_metrics (\<lambda>s. s) (\<lambda>_ _. Inl (DnsResolveError [])) 0 0 0 (\<lambda>_. None) \<lparr>ms_counters = [], ms_flush_interval = 0\<rparr>
       tracker_default [(replicate 16 7, demo_session 1)] [] = Returned s"
    by (simp add: collect_metrics_def run_bind_def Let_def)
  with snapshot_complete [OF s] show ?thesis by simp
qed

end
