(* ===== verification/Stats_Logger.thy ===== *)
theory Stats_Logger
  imports Metrics_Snapshot
begin

text \<open>
  The statistics log, \<open>src/state/stats_logger.rs\<close>: a writer thread that stores a metrics snapshot at every
  interval and prunes old ones.

  SQLite is not part of the repository: a database file is three tables of rows in the order of their
  ids, on which the statements of the source act as their SQL says, with the cascading deletes of the
  schema's foreign keys. Whether a file opens and whether a transaction commits are arguments. One turn
  of the writer's loop is \<open>logger_turn\<close>; its timing is not modelled.
\<close>

section \<open>Definitions\<close>

record snapshot_row =
  sr_timestamp :: int
  sr_players_online :: nat
  sr_uptime_seconds :: f64
  sr_tracking_enabled :: bool
  sr_tracking_queued_records :: int
  sr_tracking_dropped_records_total :: int

record backend_row =
  br_route_index :: nat
  br_hosts :: str
  br_backend :: str
  br_active_connections :: int
  br_latency_ms :: "int option"

text \<open>A child row carries the id of its snapshot.\<close>

record stats_db =
  sd_snapshots :: "(nat \<times> snapshot_row) list"
  sd_next_id :: nat
  sd_hosts :: "(nat \<times> str \<times> nat) list"
  sd_backends :: "(nat \<times> backend_row) list"

definition stats_db_empty :: stats_db where
  "stats_db_empty = \<lparr>sd_snapshots = [], sd_next_id = 1, sd_hosts = [], sd_backends = []\<rparr>"

record stats_logger =
  lg_running :: bool
  lg_config :: stats_logging_config
  lg_files :: "(str, stats_db) hmap"

definition logger_default :: stats_logger where
  "logger_default = \<lparr>lg_running = False, lg_config = stats_logging_default, lg_files = []\<rparr>"

definition logger_is_enabled :: "stats_logger \<Rightarrow> bool" where
  "logger_is_enabled l = lg_running l"

definition logger_db :: "stats_logger \<Rightarrow> stats_db" where
  "logger_db l = unwrap_or (hm_get (lg_files l) (sl_db_path (lg_config l))) stats_db_empty"

definition set_logger_db :: "stats_db \<Rightarrow> stats_logger \<Rightarrow> stats_logger" where
  "set_logger_db d l = l\<lparr>lg_files := hm_insert (sl_db_path (lg_config l)) d (lg_files l)\<rparr>"

fun join_comma :: "str list \<Rightarrow> str" where
  "join_comma [] = []"
| "join_comma [s] = s"
| "join_comma (s # ss) = s @ lit '','' @ join_comma ss"

definition snapshot_row_of :: "metrics_snapshot \<Rightarrow> snapshot_row" where
  "snapshot_row_of s = \<lparr>sr_timestamp = sn_timestamp_millis s, sr_players_online = sn_players_online s,
     sr_uptime_seconds = sn_uptime_seconds s, sr_tracking_enabled = sn_tracking_enabled s,
     sr_tracking_queued_records = sn_tracking_queued_records s,
     sr_tracking_dropped_records_total = sn_tracking_dropped_records_total s\<rparr>"

definition backend_row_of :: "backend_metric \<Rightarrow> backend_row" where
  "backend_row_of b = \<lparr>br_route_index = bm_route_index b, br_hosts = join_comma (bm_hosts b), br_backend = bm_backend b,
     br_active_connections = bm_active b, br_latency_ms = bm_latency_millis b\<rparr>"

text \<open>One transaction: a failure at any statement, or of the commit, leaves the file as it was.\<close>

definition write_snapshot :: "bool \<Rightarrow> metrics_snapshot \<Rightarrow> stats_db \<Rightarrow> stats_db" where
  "write_snapshot committed s d =
     (if \<not> committed then d
      else
        let snapshot_id = sd_next_id d in
        d\<lparr>sd_snapshots := sd_snapshots d @ [(snapshot_id, snapshot_row_of s)],
          sd_next_id := snapshot_id + 1,
          sd_hosts := sd_hosts d @ map (\<lambda>(host, n). (snapshot_id, host, n)) (sn_online_by_host s),
          sd_backends := sd_backends d @ map (\<lambda>b. (snapshot_id, backend_row_of b)) (sn_backends s)\<rparr>)"

text \<open>Deleting snapshots, with the rows that refer to them.\<close>

definition delete_snapshots :: "(nat \<times> snapshot_row \<Rightarrow> bool) \<Rightarrow> stats_db \<Rightarrow> stats_db" where
  "delete_snapshots P d =
     (let kept = filter (\<lambda>r. \<not> P r) (sd_snapshots d); gone = fst ` set (filter P (sd_snapshots d)) in
      d\<lparr>sd_snapshots := kept,
        sd_hosts := filter (\<lambda>(i, _). i \<notin> gone) (sd_hosts d),
        sd_backends := filter (\<lambda>(i, _). i \<notin> gone) (sd_backends d)\<rparr>)"

text \<open>The second statement keeps the rows of the \<open>max_records\<close> highest ids; a negative offset counts as 0.\<close>

definition stats_prune :: "int \<Rightarrow> stats_logging_config \<Rightarrow> stats_db \<Rightarrow> stats_db" where
  "stats_prune now c d =
     (let cutoff = now - sl_retention_days c * 86400000;
          d = delete_snapshots (\<lambda>(_, r). sr_timestamp r < cutoff) d;
          over = length (sd_snapshots d) - nat (sl_max_records c);
          surplus = fst ` set (take over (sd_snapshots d)) in
      delete_snapshots (\<lambda>(i, _). i \<in> surplus) d)"

definition logger_turn :: "bool \<Rightarrow> int \<Rightarrow> metrics_snapshot \<Rightarrow> stats_logger \<Rightarrow> stats_logger" where
  "logger_turn committed now s l =
     (if \<not> lg_running l then l
      else set_logger_db (stats_prune now (lg_config l) (write_snapshot committed s (logger_db l))) l)"

definition logger_stop_internal :: "stats_logger \<Rightarrow> stats_logger" where
  "logger_stop_internal l = l\<lparr>lg_running := False\<rparr>"

definition logger_start_internal :: "bool \<Rightarrow> stats_logger \<Rightarrow> stats_logger" where
  "logger_start_internal opened l = (if opened then (set_logger_db (logger_db l) l)\<lparr>lg_running := True\<rparr> else l)"

definition logger_apply_config :: "bool \<Rightarrow> stats_logging_config \<Rightarrow> stats_logger \<Rightarrow> stats_logger" where
  "logger_apply_config opened new_config l =
     (if lg_config l = new_config then l
      else let l = (logger_stop_internal l)\<lparr>lg_config := new_config\<rparr> in
        if sl_enabled new_config then logger_start_internal opened l else l)"

definition logger_shutdown :: "stats_logger \<Rightarrow> stats_logger" where
  "logger_shutdown l = logger_stop_internal l"

section \<open>Integrity of the tables\<close>

text \<open>Ids grow along the table and stay below the next one, and every child row belongs to a snapshot.\<close>

definition stats_ok :: "stats_db \<Rightarrow> bool" where
  "stats_ok d \<longleftrightarrow> sorted_wrt (<) (map fst (sd_snapshots d)) \<and> (\<forall>i \<in> fst ` set (sd_snapshots d). i < sd_next_id d)
     \<and> fst ` set (sd_hosts d) \<subseteq> fst ` set (sd_snapshots d) \<and> fst ` set (sd_backends d) \<subseteq> fst ` set (sd_snapshots d)"

lemma stats_ok_distinct: "stats_ok d \<Longrightarrow> distinct (map fst (sd_snapshots d))"
  by (simp add: stats_ok_def strict_sorted_iff)

lemma write_snapshot_ok:
  assumes "stats_ok d"
  shows "stats_ok (write_snapshot committed s d)"
proof (cases committed)
  case True
  let ?d = "write_snapshot committed s d"
  have "sorted_wrt (<) (map fst (sd_snapshots ?d))"
    using assms True by (auto simp: stats_ok_def write_snapshot_def Let_def sorted_wrt_append)
  moreover have "\<forall>i \<in> fst ` set (sd_snapshots ?d). i < sd_next_id ?d"
    using assms True by (auto simp: stats_ok_def write_snapshot_def Let_def intro: less_SucI)
  moreover have "fst ` set (sd_hosts ?d) \<subseteq> fst ` set (sd_snapshots ?d)" "fst ` set (sd_backends ?d) \<subseteq> fst ` set (sd_snapshots ?d)"
    using assms True by (auto simp: stats_ok_def write_snapshot_def Let_def)
  ultimately show ?thesis by (simp add: stats_ok_def)
qed (use assms in \<open>simp add: write_snapshot_def\<close>)

lemma delete_snapshots_children:
  assumes "fst ` set rows \<subseteq> fst ` set (sd_snapshots d)"
  shows "fst ` set (filter (\<lambda>(i, _). i \<notin> fst ` set (filter P (sd_snapshots d))) rows) \<subseteq> fst ` set (filter (\<lambda>r. \<not> P r) (sd_snapshots d))"
  using assms by force

lemma delete_snapshots_ok:
  assumes "stats_ok d"
  shows "stats_ok (delete_snapshots P d)"
proof -
  have "sorted_wrt (<) (map fst (filter (\<lambda>r. \<not> P r) (sd_snapshots d)))"
    using assms by (auto simp: stats_ok_def sorted_wrt_map intro: sorted_wrt_filter)
  moreover note delete_snapshots_children [of "sd_hosts d" d P] delete_snapshots_children [of "sd_backends d" d P]
  ultimately show ?thesis
    using assms by (simp add: stats_ok_def delete_snapshots_def Let_def image_subset_iff)
qed

lemma delete_snapshots_hosts:
  assumes "stats_ok d"
  shows "sd_hosts (delete_snapshots P d) = filter (\<lambda>(i, _). i \<in> fst ` set (sd_snapshots (delete_snapshots P d))) (sd_hosts d)"
proof -
  let ?gone = "fst ` set (filter P (sd_snapshots d))" and ?kept = "fst ` set (filter (\<lambda>r. \<not> P r) (sd_snapshots d))"
  have "i \<notin> ?gone \<longleftrightarrow> i \<in> ?kept" if "i \<in> fst ` set (sd_snapshots d)" for i
  proof -
    have "?gone \<inter> ?kept = {}"
      using stats_ok_distinct [OF assms] by (force dest: eq_key_imp_eq_value)
    moreover have "i \<in> ?gone \<union> ?kept" using that by force
    ultimately show ?thesis by blast
  qed
  moreover have "fst ` set (sd_hosts d) \<subseteq> fst ` set (sd_snapshots d)" using assms by (simp add: stats_ok_def)
  ultimately have "filter (\<lambda>(i, _). i \<notin> ?gone) (sd_hosts d) = filter (\<lambda>(i, _). i \<in> ?kept) (sd_hosts d)"
    by (intro filter_cong) force+
  then show ?thesis by (simp add: delete_snapshots_def Let_def)
qed

lemma stats_prune_ok: "stats_ok d \<Longrightarrow> stats_ok (stats_prune now c d)"
  by (simp add: stats_prune_def Let_def delete_snapshots_ok)

lemma filter_not_surplus:
  assumes "distinct (map fst xs)"
  shows "filter (\<lambda>r. fst r \<notin> fst ` set (take n xs)) xs = drop n xs"
proof -
  have "fst ` set (take n xs) \<inter> fst ` set (drop n xs) = {}"
    using assms set_take_disj_set_drop_if_distinct [of "map fst xs" n n] by (simp add: take_map drop_map)
  then have "filter (\<lambda>r. fst r \<notin> fst ` set (take n xs)) (take n xs) = []"
    "filter (\<lambda>r. fst r \<notin> fst ` set (take n xs)) (drop n xs) = drop n xs"
    by (force simp: filter_empty_conv, force simp: filter_id_conv)
  then show ?thesis using filter_append [of _ "take n xs" "drop n xs"] by (metis append_Nil append_take_drop_id)
qed

text \<open>Every file of the logger keeps its tables consistent.\<close>

definition logger_ok :: "stats_logger \<Rightarrow> bool" where
  "logger_ok l \<longleftrightarrow> list_all (\<lambda>(_, d). stats_ok d) (lg_files l)"

lemma hm_insert_all: "list_all (\<lambda>(_, d). P d) m \<Longrightarrow> P d \<Longrightarrow> list_all (\<lambda>(_, d). P d) (hm_insert k d m)"
  by (induction m) (auto simp: hm_insert_def)

lemma logger_db_ok: "logger_ok l \<Longrightarrow> stats_ok (logger_db l)"
proof (cases "hm_get (lg_files l) (sl_db_path (lg_config l))")
  case None
  then show ?thesis by (simp add: logger_db_def stats_ok_def stats_db_empty_def)
next
  case (Some d)
  then have "(sl_db_path (lg_config l), d) \<in> set (lg_files l)" by (simp add: hm_get_def map_of_SomeD)
  moreover assume "logger_ok l"
  ultimately show ?thesis using Some by (auto simp: logger_db_def logger_ok_def list_all_iff)
qed

lemma set_logger_db_ok: "logger_ok l \<Longrightarrow> stats_ok d \<Longrightarrow> logger_ok (set_logger_db d l)"
  by (simp add: logger_ok_def set_logger_db_def hm_insert_all)

datatype logger_event = Turn bool int metrics_snapshot | Apply_Config bool stats_logging_config | Shutdown

fun logger_step :: "logger_event \<Rightarrow> stats_logger \<Rightarrow> stats_logger" where
  "logger_step (Turn committed now s) l = logger_turn committed now s l"
| "logger_step (Apply_Config opened c) l = logger_apply_config opened c l"
| "logger_step Shutdown l = logger_shutdown l"

lemma logger_ok_config [simp]: "logger_ok (l\<lparr>lg_config := c\<rparr>) = logger_ok l" "logger_ok (l\<lparr>lg_running := b\<rparr>) = logger_ok l"
  by (simp_all add: logger_ok_def)

lemma logger_step_ok: "logger_ok l \<Longrightarrow> logger_ok (logger_step e l)"
  by (cases e) (auto simp: logger_turn_def logger_apply_config_def logger_shutdown_def logger_stop_internal_def logger_start_internal_def
      Let_def intro!: set_logger_db_ok stats_prune_ok write_snapshot_ok logger_db_ok)

section \<open>Properties\<close>

text \<open>Integrity of the statistics. Whatever the order of writes, failed commits, prunes, reconfigurations
  and shutdowns, every database file has strictly growing snapshot ids below the next one, and every
  host row and backend row belongs to a snapshot that is still there.\<close>

theorem stats_log_integrity: "logger_ok (fold logger_step es logger_default)"
proof -
  have "logger_ok (fold logger_step es l)" if "logger_ok l" for l
    using that by (induction es arbitrary: l) (auto simp: logger_step_ok)
  then show ?thesis by (simp add: logger_default_def logger_ok_def)
qed

text \<open>Pruning keeps the newest. It leaves the snapshots inside the retention window, of these the newest
  \<open>max_records\<close> in their order, and exactly the child rows of the snapshots it leaves.\<close>

theorem stats_prune_keeps_newest:
  fixes d :: stats_db and c :: stats_logging_config and now :: int
  assumes "stats_ok d"
  defines "recent \<equiv> filter (\<lambda>(_, r). now - sl_retention_days c * 86400000 \<le> sr_timestamp r) (sd_snapshots d)"
  defines "kept \<equiv> drop (length recent - nat (sl_max_records c)) recent"
  shows "sd_snapshots (stats_prune now c d) = kept
    \<and> sd_hosts (stats_prune now c d) = filter (\<lambda>(i, _). i \<in> fst ` set kept) (sd_hosts d)"
proof -
  let ?d1 = "delete_snapshots (\<lambda>(_, r). sr_timestamp r < now - sl_retention_days c * 86400000) d"
  let ?d2 = "delete_snapshots (\<lambda>(i, _). i \<in> fst ` set (take (length recent - nat (sl_max_records c)) recent)) ?d1"
  have ok1: "stats_ok ?d1" by (rule delete_snapshots_ok [OF assms(1)])
  have s1: "sd_snapshots ?d1 = recent"
    unfolding recent_def by (simp add: delete_snapshots_def Let_def) (rule filter_cong; auto)
  then have "distinct (map fst recent)" using stats_ok_distinct [OF ok1] by simp
  then have s2: "sd_snapshots ?d2 = kept"
    using filter_not_surplus [of recent] s1 by (simp add: delete_snapshots_def Let_def kept_def case_prod_beta)
  have "sd_hosts ?d2 = filter (\<lambda>(i, _). i \<in> fst ` set kept) (sd_hosts d)"
  proof -
    have sub: "fst ` set kept \<subseteq> fst ` set recent" by (auto simp: kept_def dest: in_set_dropD)
    have "sd_hosts ?d2 = filter (\<lambda>(i, _). i \<in> fst ` set kept) (filter (\<lambda>(i, _). i \<in> fst ` set recent) (sd_hosts d))"
      using delete_snapshots_hosts [OF ok1] delete_snapshots_hosts [OF assms(1)] s1 s2 by metis
    also have "\<dots> = filter (\<lambda>(i, _). i \<in> fst ` set kept) (sd_hosts d)"
      unfolding filter_filter by (rule filter_cong) (use sub in auto)
    finally show ?thesis .
  qed
  moreover have "stats_prune now c d = ?d2" by (simp add: stats_prune_def Let_def s1)
  ultimately show ?thesis using s2 by simp
qed

definition demo_snapshot :: "int \<Rightarrow> metrics_snapshot" where
  "demo_snapshot t = \<lparr>sn_timestamp_millis = t, sn_players_online = 1, sn_online_by_host = [(lit ''play'', 1)], sn_uptime_seconds = 0,
     sn_backends = [], sn_players = [], sn_tracking_enabled = False, sn_tracking_queued_records = 0,
     sn_tracking_dropped_records_total = 0, sn_route_metrics = []\<rparr>"

theorem stats_prune_keeps_newest_witness:
  "let d = fold (\<lambda>t. write_snapshot True (demo_snapshot t)) [5, 6, 7] stats_db_empty;
       c = stats_logging_default\<lparr>sl_retention_days := 0, sl_max_records := 1\<rparr> in
   map fst (sd_snapshots (stats_prune 6 c d)) = [3] \<and> map fst (sd_hosts (stats_prune 6 c d)) = [3]"
proof -
  let ?d = "fold (\<lambda>t. write_snapshot True (demo_snapshot t)) [5, 6, 7] stats_db_empty"
  let ?c = "stats_logging_default\<lparr>sl_retention_days := 0, sl_max_records := 1\<rparr>"
  have "stats_ok stats_db_empty" by (simp add: stats_ok_def stats_db_empty_def)
  then have "stats_ok ?d" by (simp add: write_snapshot_ok)
  from stats_prune_keeps_newest [OF this, of 6 ?c] show ?thesis
    by (simp add: Let_def write_snapshot_def stats_db_empty_def demo_snapshot_def snapshot_row_of_def)
qed

end
