(* ===== verification/App_State.thy ===== *)
theory App_State
  imports Config_Editor Stats_Logger Udp_Relay Log_Files
begin

text \<open>
  The live state of the gateway, \<open>src/state/app_state.rs\<close>, with its reload paths and the callbacks of the
  file watchers of \<open>src/config/loader.rs\<close>.

  A route runtime is a shared object (an \<open>Arc\<close>): the state keeps an arena of runtimes and the table from
  route indices to positions in it. The process-wide services a configuration is applied to (log level,
  resolver, traffic counters, connection tracker, UDP limits, statistics log) are one record. What the
  environment decides in a reload (the clock, whether database files open and commit) is a record of
  arguments.
\<close>

section \<open>Definitions\<close>

record services =
  sv_log_level :: level_filter
  sv_dns_tasks :: "dns_task list"
  sv_metrics :: metrics_store
  sv_metrics_disk :: Route_Metrics.disk
  sv_tracker :: tracker
  sv_udp :: udp_throttle_config
  sv_stats :: stats_logger

record reload_env =
  rv_uppercase :: "str \<Rightarrow> str"
  rv_millis :: int
  rv_tracker_opened :: bool
  rv_tracker_committed :: bool
  rv_stats_opened :: bool

record app_state =
  st_config_path :: str
  st_messages_path :: str
  st_config :: gate_config
  st_messages :: gate_messages
  st_route_runtimes :: "(nat, nat) hmap"
  st_arena :: "route_runtime list"
  st_services :: services

text \<open>Applying a configuration to everything but the log level.\<close>

definition apply_services :: "reload_env \<Rightarrow> gate_config \<Rightarrow> services \<Rightarrow> services" where
  "apply_services ev c s =
     (case metrics_apply_config (rv_millis ev) (gc_routes c) (from_millis 10000) (sv_metrics s) (sv_metrics_disk s) of
        (metrics, disk) \<Rightarrow>
          s\<lparr>sv_dns_tasks := sv_dns_tasks s @ warm_static_backends (gc_routes c),
            sv_metrics := metrics, sv_metrics_disk := disk,
            sv_tracker := tracker_apply_config (rv_tracker_opened ev) (rv_tracker_committed ev) (gc_connection_tracking c) (sv_tracker s),
            sv_udp := udp_throttle_apply (gc_udp_throttle c),
            sv_stats := logger_apply_config (rv_stats_opened ev) (gc_stats_logging c) (sv_stats s)\<rparr>)"

definition log_level_apply :: "reload_env \<Rightarrow> str \<Rightarrow> services \<Rightarrow> services" where
  "log_level_apply ev level s = s\<lparr>sv_log_level := level_filter_from_str (rv_uppercase ev) level\<rparr>"

text \<open>The runtimes of a route list: the one carried over, or a new one at the end of the arena.\<close>

fun install_runtimes :: "(route \<Rightarrow> nat option) \<Rightarrow> (nat \<times> route) list \<Rightarrow> route_runtime list \<Rightarrow> (nat, nat) hmap \<times> route_runtime list" where
  "install_runtimes carried [] arena = ([], arena)"
| "install_runtimes carried ((i, r) # irs) arena =
     (case carried r of
        Some h \<Rightarrow> (case install_runtimes carried irs arena of (m, arena') \<Rightarrow> ((i, h) # m, arena'))
      | None \<Rightarrow> (case install_runtimes carried irs (arena @ [runtime_default]) of
          (m, arena') \<Rightarrow> ((i, length arena) # m, arena')))"

definition app_state_new :: "reload_env \<Rightarrow> str \<Rightarrow> str \<Rightarrow> gate_config \<Rightarrow> gate_messages \<Rightarrow> services \<Rightarrow> app_state" where
  "app_state_new ev config_path messages_path c messages s =
     (case install_runtimes (\<lambda>_. None) (enumerate 0 (gc_routes c)) [] of
        (m, arena) \<Rightarrow>
          \<lparr>st_config_path = config_path, st_messages_path = messages_path, st_config = c, st_messages = messages,
           st_route_runtimes = m, st_arena = arena, st_services = apply_services ev c s\<rparr>)"

definition route_runtime_at :: "nat \<Rightarrow> app_state \<Rightarrow> nat option" where
  "route_runtime_at i st = hm_get (st_route_runtimes st) i"

definition runtime_value :: "app_state \<Rightarrow> nat \<Rightarrow> route_runtime option" where
  "runtime_value st i = map_option ((!) (st_arena st)) (route_runtime_at i st)"

definition carried_runtime :: "app_state \<Rightarrow> route \<Rightarrow> nat option" where
  "carried_runtime st r =
     Option.bind (first_index (\<lambda>old. route_eq old r) (gc_routes (st_config st))) (hm_get (st_route_runtimes st))"

text \<open>The statistics writer's view of the runtimes and its snapshot.\<close>

definition cfg_route_runtime :: "app_state \<Rightarrow> route \<Rightarrow> route_runtime option" where
  "cfg_route_runtime st r = Option.bind (first_index (\<lambda>x. route_eq x r) (gc_routes (st_config st))) (runtime_value st)"

definition collect_snapshot ::
  "(str \<Rightarrow> str) \<Rightarrow> (str \<Rightarrow> u16 \<Rightarrow> dns_result) \<Rightarrow> instant \<Rightarrow> int \<Rightarrow> f64 \<Rightarrow> player_sessions \<Rightarrow> app_state \<Rightarrow> metrics_snapshot run" where
  "collect_snapshot lc resolve now millis uptime sessions st =
     collect_metrics lc resolve now millis uptime (cfg_route_runtime st) (sv_metrics (st_services st)) (sv_tracker (st_services st))
       sessions (gc_routes (st_config st))"

definition set_config :: "reload_env \<Rightarrow> gate_config \<Rightarrow> app_state \<Rightarrow> app_state" where
  "set_config ev new_config st =
     (case install_runtimes (carried_runtime st) (enumerate 0 (gc_routes new_config)) (st_arena st) of
        (m, arena) \<Rightarrow>
          st\<lparr>st_route_runtimes := m, st_arena := arena,
             st_services := apply_services ev new_config (log_level_apply ev (gc_log_level new_config) (st_services st)),
             st_config := new_config\<rparr>)"

definition set_messages :: "gate_messages \<Rightarrow> app_state \<Rightarrow> app_state" where
  "set_messages m st = st\<lparr>st_messages := m\<rparr>"

definition apply_config_change :: "reload_env \<Rightarrow> gate_config \<Rightarrow> app_state \<Rightarrow> app_state" where
  "apply_config_change ev new_config st = set_config ev new_config st"

definition apply_messages_change ::
  "yaml_lib \<Rightarrow> externs \<Rightarrow> reload_env \<Rightarrow> files \<Rightarrow> gate_messages \<Rightarrow> app_state \<Rightarrow> (cfg_error + unit) \<times> app_state" where
  "apply_messages_change yl ex ev fs new_messages st =
     (let st = set_messages new_messages st in
      case load_config_file yl ex fs (st_config_path st) new_messages of
        Inl e \<Rightarrow> (Inl e, st)
      | Inr c \<Rightarrow> (Inr (), set_config ev c st))"

text \<open>A failure is logged and otherwise ignored.\<close>

definition reload_all :: "yaml_lib \<Rightarrow> externs \<Rightarrow> reload_env \<Rightarrow> files \<Rightarrow> app_state \<Rightarrow> (cfg_error + unit) \<times> app_state" where
  "reload_all yl ex ev fs st =
     (case messages_load yl fs (st_messages_path st) of
        Inl e \<Rightarrow> (Inl e, st)
      | Inr new_messages \<Rightarrow>
          let st = set_messages new_messages st in
          (case load_config_file yl ex fs (st_config_path st) new_messages of
             Inl e \<Rightarrow> (Inl e, st)
           | Inr c \<Rightarrow> (Inr (), set_config ev c st)))"

text \<open>The callbacks of the two watchers, run when a burst of file events names the watched file.\<close>

definition watch_file :: "str option \<Rightarrow> str option list \<Rightarrow> ('s \<Rightarrow> 's) \<Rightarrow> 's \<Rightarrow> 's" where
  "watch_file name events on_change s = (if name \<in> set events then on_change s else s)"

definition watch_config :: "yaml_lib \<Rightarrow> externs \<Rightarrow> reload_env \<Rightarrow> files \<Rightarrow> app_state \<Rightarrow> app_state" where
  "watch_config yl ex ev fs st =
     (case load_config_file yl ex fs (st_config_path st) (st_messages st) of
        Inl _ \<Rightarrow> st
      | Inr c \<Rightarrow> apply_config_change ev c st)"

definition watch_messages :: "yaml_lib \<Rightarrow> externs \<Rightarrow> reload_env \<Rightarrow> files \<Rightarrow> app_state \<Rightarrow> app_state" where
  "watch_messages yl ex ev fs st =
     (case messages_load yl fs (st_messages_path st) of
        Inl _ \<Rightarrow> st
      | Inr m \<Rightarrow> snd (apply_messages_change yl ex ev fs m st))"

section \<open>The table of runtimes\<close>

text \<open>Every route has a runtime of its arena, and nothing else has an entry.\<close>

definition runtimes_ok :: "app_state \<Rightarrow> bool" where
  "runtimes_ok st \<longleftrightarrow> map fst (st_route_runtimes st) = [0..<length (gc_routes (st_config st))]
     \<and> (\<forall>h \<in> snd ` set (st_route_runtimes st). h < length (st_arena st))"

lemma route_eq_alt:
  "route_eq a b \<longleftrightarrow> map hp_pattern (rt_host_patterns a) = map hp_pattern (rt_host_patterns b)
     \<and> rt_backend_templates a = rt_backend_templates b \<and> rt_strategy a = rt_strategy b \<and> rt_priority a = rt_priority b"
  by (auto simp: route_eq_def host_pattern_eq_def list_all2_conv_all_nth list_eq_iff_nth_eq)

lemma route_eq_equiv: "route_eq a a" "route_eq a b \<Longrightarrow> route_eq b a" "route_eq a b \<Longrightarrow> route_eq b c \<Longrightarrow> route_eq a c"
  by (auto simp: route_eq_alt)

lemma install_runtimes_spec:
  assumes "install_runtimes carried irs arena = (m, arena')" "\<forall>r h. carried r = Some h \<longrightarrow> h < length arena"
  shows "map fst m = map fst irs \<and> (\<exists>k. arena' = arena @ replicate k runtime_default)
    \<and> list_all2 (\<lambda>(_, r) (_, h). case carried r of Some h' \<Rightarrow> h = h' | None \<Rightarrow> length arena \<le> h \<and> h < length arena') irs m"
  using assms
proof (induction irs arbitrary: arena m)
  case Nil
  then show ?case by (auto intro: exI [of _ 0])
next
  case (Cons ir irs)
  obtain i r where ir: "ir = (i, r)" by fastforce
  show ?case
  proof (cases "carried r")
    case (Some h)
    then obtain m' where m: "install_runtimes carried irs arena = (m', arena')" "m = (i, h) # m'"
      using Cons.prems(1) ir by (auto split: prod.splits)
    show ?thesis using Cons.IH [OF m(1) Cons.prems(2)] m(2) Some ir by auto
  next
    case None
    then obtain m' where m: "install_runtimes carried irs (arena @ [runtime_default]) = (m', arena')" "m = (i, length arena) # m'"
      using Cons.prems(1) ir by (auto split: prod.splits)
    have "\<forall>r h. carried r = Some h \<longrightarrow> h < length (arena @ [runtime_default])" using Cons.prems(2) by (simp add: less_SucI)
    from Cons.IH [OF m(1) this] obtain k where
      k: "map fst m' = map fst irs" "arena' = arena @ [runtime_default] @ replicate k runtime_default"
      "list_all2 (\<lambda>(_, r) (_, h). case carried r of Some h' \<Rightarrow> h = h' | None \<Rightarrow> length (arena @ [runtime_default]) \<le> h \<and> h < length arena') irs m'"
      by auto
    have "list_all2 (\<lambda>(_, r) (_, h). case carried r of Some h' \<Rightarrow> h = h' | None \<Rightarrow> length arena \<le> h \<and> h < length arena') irs m'"
      by (rule list_all2_mono [OF k(3)]) (auto split: option.splits)
    moreover have "\<exists>k. arena' = arena @ replicate k runtime_default" using k(2) by (intro exI [of _ "Suc k"]) simp
    moreover have "length arena < length arena'" using k(2) by simp
    ultimately show ?thesis using k(1) m(2) None ir by simp
  qed
qed

lemma runtimes_okD:
  assumes "runtimes_ok st" "i < length (gc_routes (st_config st))"
  shows "\<exists>h. route_runtime_at i st = Some h \<and> h < length (st_arena st)"
proof -
  have "i \<in> fst ` set (st_route_runtimes st)" using assms by (metis atLeastLessThan_iff list.set_map runtimes_ok_def set_upt zero_le)
  then obtain h where h: "route_runtime_at i st = Some h"
    by (metis hm_get_def map_of_eq_None_iff option.exhaust route_runtime_at_def)
  then have "(i, h) \<in> set (st_route_runtimes st)" by (simp add: route_runtime_at_def hm_get_def map_of_SomeD)
  then have "h < length (st_arena st)" using assms(1) by (force simp: runtimes_ok_def)
  with h show ?thesis by blast
qed

lemma carried_bound: "runtimes_ok st \<Longrightarrow> carried_runtime st r = Some h \<Longrightarrow> h < length (st_arena st)"
  by (auto simp: carried_runtime_def bind_eq_Some_conv dest!: first_index_Some(1) dest: runtimes_okD simp: route_runtime_at_def)

text \<open>What installing does to the whole table, read by index.\<close>

lemma install_enumerate:
  assumes run: "install_runtimes carried (enumerate 0 rs) arena = (m, arena')"
    and bound: "\<forall>r h. carried r = Some h \<longrightarrow> h < length arena"
  shows "map fst m = [0..<length rs]" "\<exists>k. arena' = arena @ replicate k runtime_default"
    "i < length rs \<Longrightarrow> \<exists>h. hm_get m i = Some h \<and> h < length arena'
       \<and> (case carried (rs ! i) of Some h' \<Rightarrow> h = h' | None \<Rightarrow> length arena \<le> h)"
    "\<forall>h \<in> snd ` set m. h < length arena'"
proof -
  note spec = install_runtimes_spec [OF run bound]
  show keys: "map fst m = [0..<length rs]" using spec by simp
  show ar: "\<exists>k. arena' = arena @ replicate k runtime_default" using spec by blast
  have len: "length m = length rs" using keys by (metis length_map length_upt diff_zero)
  have at: "snd (m ! i) < length arena' \<and> (case carried (rs ! i) of Some h' \<Rightarrow> snd (m ! i) = h' | None \<Rightarrow> length arena \<le> snd (m ! i))"
    if "i < length rs" for i
  proof -
    have "case carried (rs ! i) of Some h' \<Rightarrow> snd (m ! i) = h' | None \<Rightarrow> length arena \<le> snd (m ! i) \<and> snd (m ! i) < length arena'"
      using spec that by (auto simp: list_all2_conv_all_nth nth_enumerate_eq case_prod_beta split: option.splits)
    then show ?thesis using bound ar by (auto split: option.splits intro: trans_less_add1)
  qed
  show "\<exists>h. hm_get m i = Some h \<and> h < length arena' \<and> (case carried (rs ! i) of Some h' \<Rightarrow> h = h' | None \<Rightarrow> length arena \<le> h)"
    if i: "i < length rs" for i
  proof -
    have "distinct (map fst m)" using keys by simp
    moreover have "m ! i = (i, snd (m ! i))"
      using keys i len by (metis nth_map nth_upt plus_nat.add_0 prod.collapse)
    ultimately have "hm_get m i = Some (snd (m ! i))"
      using i len by (metis hm_get_def map_of_is_SomeI nth_mem)
    then show ?thesis using at [OF i] by (auto split: option.splits)
  qed
  show "\<forall>h \<in> snd ` set m. h < length arena'" using at len by (force simp: in_set_conv_nth)
qed

lemma set_config_ok:
  assumes "runtimes_ok st"
  shows "runtimes_ok (set_config ev c st)"
proof -
  obtain m arena' where run: "install_runtimes (carried_runtime st) (enumerate 0 (gc_routes c)) (st_arena st) = (m, arena')"
    by (metis prod.exhaust)
  have "\<forall>r h. carried_runtime st r = Some h \<longrightarrow> h < length (st_arena st)" using carried_bound [OF assms] by blast
  from install_enumerate(1,4) [OF run this] show ?thesis by (simp add: runtimes_ok_def set_config_def run)
qed

lemma app_state_new_ok: "runtimes_ok (app_state_new ev cp mp c m s)"
proof -
  obtain t arena' where run: "install_runtimes (\<lambda>_. None) (enumerate 0 (gc_routes c)) [] = (t, arena')"
    by (metis prod.exhaust)
  from install_enumerate(1,4) [OF run] show ?thesis by (simp add: runtimes_ok_def app_state_new_def run)
qed

section \<open>Properties\<close>

text \<open>The ways a running gateway changes its configuration. A relay changes a runtime in place.\<close>

inductive app_step :: "yaml_lib \<Rightarrow> externs \<Rightarrow> app_state \<Rightarrow> app_state \<Rightarrow> bool" for yl ex where
  Step_Api: "app_step yl ex st (apply_config_change ev c st)"
| Step_Reload: "app_step yl ex st (snd (reload_all yl ex ev fs st))"
| Step_Config_File: "app_step yl ex st (watch_file name events (watch_config yl ex ev fs) st)"
| Step_Messages_File: "app_step yl ex st (watch_file name events (watch_messages yl ex ev fs) st)"
| Step_Traffic: "h < length (st_arena st) \<Longrightarrow> app_step yl ex st (st\<lparr>st_arena := (st_arena st)[h := r]\<rparr>)"

lemma runtimes_ok_messages [simp]: "runtimes_ok (set_messages m st) = runtimes_ok st"
  by (simp add: runtimes_ok_def set_messages_def)

lemma runtimes_ok_traffic: "runtimes_ok st \<Longrightarrow> runtimes_ok (st\<lparr>st_arena := (st_arena st)[h := r]\<rparr>)"
  by (simp add: runtimes_ok_def)

lemma app_step_ok: "app_step yl ex st st' \<Longrightarrow> runtimes_ok st \<Longrightarrow> runtimes_ok st'"
  by (induction rule: app_step.induct)
    (auto simp: apply_config_change_def reload_all_def watch_file_def watch_config_def watch_messages_def apply_messages_change_def
      Let_def set_config_ok runtimes_ok_traffic split: sum.splits)

lemma install_fresh_distinct:
  assumes "install_runtimes carried irs arena = (m, arena')" "\<forall>r h. carried r = Some h \<longrightarrow> h < length arena"
  shows "distinct (filter (\<lambda>h. length arena \<le> h) (map snd m))"
  using assms
proof (induction irs arbitrary: arena m)
  case (Cons ir irs)
  obtain i r where ir: "ir = (i, r)" by fastforce
  show ?case
  proof (cases "carried r")
    case (Some h)
    then obtain m' where m: "install_runtimes carried irs arena = (m', arena')" "m = (i, h) # m'"
      using Cons.prems(1) ir by (auto split: prod.splits)
    have "h < length arena" using Cons.prems(2) Some by blast
    then show ?thesis using Cons.IH [OF m(1) Cons.prems(2)] m(2) by simp
  next
    case None
    then obtain m' where m: "install_runtimes carried irs (arena @ [runtime_default]) = (m', arena')" "m = (i, length arena) # m'"
      using Cons.prems(1) ir by (auto split: prod.splits)
    have b: "\<forall>r h. carried r = Some h \<longrightarrow> h < length (arena @ [runtime_default])" using Cons.prems(2) by (simp add: less_SucI)
    have all: "list_all2 (\<lambda>(_, r) (_, h). case carried r of Some h' \<Rightarrow> h = h' | None \<Rightarrow> length (arena @ [runtime_default]) \<le> h \<and> h < length arena') irs m'"
      using install_runtimes_spec [OF m(1) b] by blast
    have "snd (m' ! i) \<noteq> length arena" if "i < length m'" for i
      using list_all2_nthD2 [OF all that] Cons.prems(2) [rule_format, of "snd (irs ! i)"] by (cases "carried (snd (irs ! i))") (auto simp: case_prod_beta)
    then have new: "length arena \<notin> set (map snd m')" by (metis in_set_conv_nth length_map nth_map)
    then have "h \<in> set (map snd m') \<Longrightarrow> length arena \<le> h \<longleftrightarrow> length (arena @ [runtime_default]) \<le> h" for h
      by (cases "h = length arena") auto
    then have "filter (\<lambda>h. length arena \<le> h) (map snd m') = filter (\<lambda>h. length (arena @ [runtime_default]) \<le> h) (map snd m')"
      by (rule filter_cong [OF refl])
    then show ?thesis using Cons.IH [OF m(1) b] m(2) new by simp
  qed
qed simp

text \<open>C25: every route has a runtime. From start-up on, through any sequence of API changes, reloads, file
  events (successful or not) and traffic, exactly the indices of the current configuration have a
  runtime, and it is one of the arena.\<close>

theorem every_route_has_runtime:
  assumes "(app_step yl ex)\<^sup>*\<^sup>* (app_state_new ev cp mp c0 m0 s0) st"
  shows "(i < length (gc_routes (st_config st)) \<longleftrightarrow> route_runtime_at i st \<noteq> None)
    \<and> (\<forall>h. route_runtime_at i st = Some h \<longrightarrow> h < length (st_arena st))"
proof -
  have ok: "runtimes_ok st"
    using assms by (induction rule: rtranclp_induct) (auto intro: app_step_ok app_state_new_ok)
  have "route_runtime_at i st \<noteq> None \<longleftrightarrow> i \<in> set (map fst (st_route_runtimes st))"
    by (simp add: route_runtime_at_def hm_get_def map_of_eq_None_iff)
  also have "\<dots> \<longleftrightarrow> i < length (gc_routes (st_config st))" using ok by (simp add: runtimes_ok_def)
  finally show ?thesis using runtimes_okD [OF ok, of i] by auto
qed

lemma set_config_handles:
  assumes ok: "runtimes_ok st" and i: "i < length (gc_routes c)"
  shows "\<exists>h. route_runtime_at i (set_config ev c st) = Some h
    \<and> (case carried_runtime st (gc_routes c ! i) of Some h' \<Rightarrow> h = h' | None \<Rightarrow> length (st_arena st) \<le> h)
    \<and> (\<forall>h < length (st_arena st). st_arena (set_config ev c st) ! h = st_arena st ! h)
    \<and> (length (st_arena st) \<le> h \<longrightarrow> st_arena (set_config ev c st) ! h = runtime_default)"
proof -
  obtain m arena' where run: "install_runtimes (carried_runtime st) (enumerate 0 (gc_routes c)) (st_arena st) = (m, arena')"
    by (metis prod.exhaust)
  have b: "\<forall>r h. carried_runtime st r = Some h \<longrightarrow> h < length (st_arena st)" using carried_bound [OF ok] by blast
  obtain k where "arena' = st_arena st @ replicate k runtime_default" using install_enumerate(2) [OF run b] ..
  moreover obtain h where "hm_get m i = Some h" "h < length arena'"
    "case carried_runtime st (gc_routes c ! i) of Some h' \<Rightarrow> h = h' | None \<Rightarrow> length (st_arena st) \<le> h"
    using install_enumerate(3) [OF run b i] by blast
  ultimately show ?thesis by (auto simp: set_config_def run route_runtime_at_def nth_append)
qed

lemma set_config_runtime:
  assumes ok: "runtimes_ok st" and i: "i < length (gc_routes c)"
  shows "(case first_index (\<lambda>old. route_eq old (gc_routes c ! i)) (gc_routes (st_config st)) of
       Some j \<Rightarrow> route_runtime_at i (set_config ev c st) = route_runtime_at j st \<and> runtime_value (set_config ev c st) i = runtime_value st j
     | None \<Rightarrow> runtime_value (set_config ev c st) i = Some runtime_default)"
proof -
  let ?st = "set_config ev c st" and ?carried = "carried_runtime st (gc_routes c ! i)"
  obtain h where h: "route_runtime_at i ?st = Some h"
    "case ?carried of Some h' \<Rightarrow> h = h' | None \<Rightarrow> length (st_arena st) \<le> h"
    "\<forall>h < length (st_arena st). st_arena ?st ! h = st_arena st ! h"
    "length (st_arena st) \<le> h \<longrightarrow> st_arena ?st ! h = runtime_default"
    using set_config_handles [OF ok i] by blast
  show ?thesis
  proof (cases "first_index (\<lambda>old. route_eq old (gc_routes c ! i)) (gc_routes (st_config st))")
    case None
    then show ?thesis using h by (simp add: carried_runtime_def runtime_value_def)
  next
    case (Some j)
    then obtain h' where h': "route_runtime_at j st = Some h'" "h' < length (st_arena st)"
      using runtimes_okD [OF ok] first_index_Some(1) by blast
    then have "?carried = Some h'" using Some by (simp add: carried_runtime_def route_runtime_at_def)
    with h h' Some show ?thesis by (simp add: runtime_value_def)
  qed
qed


lemma distinct_filter_snd:
  "distinct (filter P (map snd m)) \<Longrightarrow> (i, h) \<in> set m \<Longrightarrow> (j, h) \<in> set m \<Longrightarrow> P h \<Longrightarrow> i = j"
proof (induction m)
  case (Cons a m)
  have "a = (k, h) \<Longrightarrow> (l, h) \<notin> set m" for k l using Cons.prems(1,4) by force
  then show ?case using Cons by (auto split: if_splits)
qed simp

lemma carried_inj:
  assumes dist: "distinct (map snd (st_route_runtimes st))" and c: "carried_runtime st r = Some h" "carried_runtime st r' = Some h"
  shows "route_eq r r'"
proof -
  obtain a b where ab: "first_index (\<lambda>old. route_eq old r) (gc_routes (st_config st)) = Some a" "hm_get (st_route_runtimes st) a = Some h"
    "first_index (\<lambda>old. route_eq old r') (gc_routes (st_config st)) = Some b" "hm_get (st_route_runtimes st) b = Some h"
    using c by (auto simp: carried_runtime_def bind_eq_Some_conv)
  then have "a = b"
    using distinct_filter_snd [of "\<lambda>_. True" "st_route_runtimes st" a h b] dist by (simp add: hm_get_def map_of_SomeD)
  then have "route_eq (gc_routes (st_config st) ! a) r" "route_eq (gc_routes (st_config st) ! a) r'"
    using first_index_Some(2) [OF ab(1)] first_index_Some(2) [OF ab(3)] by simp_all
  then show ?thesis using route_eq_equiv by blast
qed

text \<open>No two routes share a runtime: as long as the routes of a new configuration differ, a reload
  gives them different runtimes.\<close>

theorem runtimes_not_shared:
  assumes ok: "runtimes_ok st" and dist: "distinct (map snd (st_route_runtimes st))"
    and ij: "i < length (gc_routes c)" "j < length (gc_routes c)" "\<not> route_eq (gc_routes c ! i) (gc_routes c ! j)"
  shows "route_runtime_at i (set_config ev c st) \<noteq> route_runtime_at j (set_config ev c st)"
proof
  let ?c = "\<lambda>i. carried_runtime st (gc_routes c ! i)"
  assume eq: "route_runtime_at i (set_config ev c st) = route_runtime_at j (set_config ev c st)"
  have b: "\<forall>r h. carried_runtime st r = Some h \<longrightarrow> h < length (st_arena st)" using carried_bound [OF ok] by blast
  obtain m arena' where run: "install_runtimes (carried_runtime st) (enumerate 0 (gc_routes c)) (st_arena st) = (m, arena')"
    by (metis prod.exhaust)
  have at: "route_runtime_at i (set_config ev c st) = hm_get m i" for i by (simp add: set_config_def run route_runtime_at_def)
  obtain h where h: "hm_get m i = Some h" "hm_get m j = Some h"
      "case ?c i of Some h' \<Rightarrow> h = h' | None \<Rightarrow> length (st_arena st) \<le> h" "case ?c j of Some h' \<Rightarrow> h = h' | None \<Rightarrow> length (st_arena st) \<le> h"
    using install_enumerate(3) [OF run b ij(1)] install_enumerate(3) [OF run b ij(2)] eq at by force
  have "i \<noteq> j" using ij(3) route_eq_equiv(1) by blast
  then have "\<not> length (st_arena st) \<le> h"
    using distinct_filter_snd [OF install_fresh_distinct [OF run b], of i h j] h by (auto simp: hm_get_def map_of_SomeD)
  then have "?c i = Some h" "?c j = Some h" using h(3,4) by (auto split: option.splits)
  then show False using carried_inj [OF dist] ij(3) by blast
qed

section \<open>Examples\<close>

definition demo_app_route :: "string \<Rightarrow> route" where
  "demo_app_route host = \<lparr>rt_host_patterns = [host_pattern_new (\<lambda>s. s) (lit host)], rt_backend_templates = [lit ''127.0.0.1:1''],
     rt_strategy = Sequential, rt_cache_ping_ttl_millis = 0, rt_fallback = None, rt_modify_virtual_host = False,
     rt_proxy_protocol = False, rt_priority = 0, rt_reconnect = reconnect_default, rt_kick_message = [],
     rt_voicechat_templates = [], rt_metrics = None\<rparr>"

definition demo_services :: services where
  "demo_services = \<lparr>sv_log_level = Level_Info, sv_dns_tasks = [], sv_metrics = \<lparr>ms_counters = [], ms_flush_interval = 0\<rparr>,
     sv_metrics_disk = \<lparr>dk_files = [], dk_write_ok = (\<lambda>_. True), dk_rename_ok = (\<lambda>_. True)\<rparr>, sv_tracker = tracker_default,
     sv_udp = udp_throttle_default, sv_stats = logger_default\<rparr>"

definition demo_reload :: reload_env where
  "demo_reload = \<lparr>rv_uppercase = (\<lambda>s. s), rv_millis = 0, rv_tracker_opened = True, rv_tracker_committed = True, rv_stats_opened = True\<rparr>"

definition demo_config :: "string list \<Rightarrow> gate_config" where
  "demo_config hosts = gate_config_default\<lparr>gc_routes := map demo_app_route hosts\<rparr>"

definition demo_app :: "string list \<Rightarrow> app_state" where
  "demo_app hosts = app_state_new demo_reload (lit ''gate.yml'') (lit ''messages.yml'') (demo_config hosts) gate_messages_default demo_services"

lemma demo_app_routes [simp]: "gc_routes (st_config (demo_app hosts)) = map demo_app_route hosts"
  by (simp add: demo_app_def app_state_new_def demo_config_def split: prod.split)

lemma demo_route_eq [simp]: "route_eq (demo_app_route ''a'') (demo_app_route ''a'')" "\<not> route_eq (demo_app_route ''a'') (demo_app_route ''b'')"
  "\<not> route_eq (demo_app_route ''b'') (demo_app_route ''a'')"
  by (simp_all add: route_eq_alt demo_app_route_def host_pattern_new_def lit_def to_lowercase_def is_ascii_def to_ascii_lowercase_def
      trim_dots_def trim_end_by_def Let_def)

theorem every_route_has_runtime_witness:
  "route_runtime_at 1 (demo_app [''a'', ''b'']) \<noteq> None \<and> route_runtime_at 2 (demo_app [''a'', ''b'']) = None"
proof -
  let ?s = "app_state_new demo_reload (lit ''gate.yml'') (lit ''messages.yml'') (demo_config [''a'', ''b'']) gate_messages_default demo_services"
  have "(app_step demo_yaml demo_externs)\<^sup>*\<^sup>* ?s (demo_app [''a'', ''b''])" by (simp add: demo_app_def)
  from every_route_has_runtime [OF this, of 1] every_route_has_runtime [OF this, of 2] show ?thesis by simp
qed

lemma demo_app_ok: "runtimes_ok (demo_app hosts)"
  by (simp add: demo_app_def app_state_new_ok)


theorem runtimes_not_shared_witness:
  "route_runtime_at 0 (set_config demo_reload (demo_config [''a'', ''b'']) (demo_app [])) \<noteq>
   route_runtime_at 1 (set_config demo_reload (demo_config [''a'', ''b'']) (demo_app []))"
proof -
  have "distinct (map snd (st_route_runtimes (demo_app [])))" by (simp add: demo_app_def app_state_new_def demo_config_def)
  from runtimes_not_shared [OF demo_app_ok this, of 0 "demo_config [''a'', ''b'']" 1 demo_reload]
  show ?thesis by (simp add: demo_config_def)
qed



text \<open>A configuration reaches every service. After it is applied, the log level, the UDP limits and the
  settings of the connection tracker and of the statistics log are the ones it gives, the traffic
  counters are those its routes ask for, and a look-up is started for each fixed backend.\<close>

theorem config_reaches_services:
  fixes ev :: reload_env and c :: gate_config
  assumes "hm_ok (ms_counters (sv_metrics (st_services st)))"
  defines "sv \<equiv> st_services (set_config ev c st)"
  shows "st_config (set_config ev c st) = c
    \<and> sv_log_level sv = level_filter_from_str (rv_uppercase ev) (gc_log_level c)
    \<and> sv_udp sv = udp_throttle_apply (gc_udp_throttle c)
    \<and> tk_config (sv_tracker sv) = gc_connection_tracking c \<and> lg_config (sv_stats sv) = gc_stats_logging c
    \<and> (\<forall>key. hm_contains (ms_counters (sv_metrics sv)) key \<longleftrightarrow> hm_contains (desired_counters (gc_routes c)) key)
    \<and> sv_dns_tasks sv = sv_dns_tasks (st_services st) @ warm_static_backends (gc_routes c)"
proof -
  let ?s = "log_level_apply ev (gc_log_level c) (st_services st)"
  obtain ms d where run: "metrics_apply_config (rv_millis ev) (gc_routes c) (from_millis 10000) (sv_metrics ?s) (sv_metrics_disk ?s) = (ms, d)"
    by (metis prod.exhaust)
  have "sv_metrics ?s = sv_metrics (st_services st)" by (simp add: log_level_apply_def)
  then have keys: "hm_contains (ms_counters ms) key \<longleftrightarrow> hm_contains (desired_counters (gc_routes c)) key" for key
    using apply_config_get [OF _ run, of key] assms(1) by (simp add: hm_contains_def split: option.splits)
  have "tk_config (tracker_apply_config o1 o2 k t) = k" for o1 o2 k t
    by (simp add: tracker_apply_config_def start_internal_def set_table_def Let_def)
  moreover have "lg_config (logger_apply_config o1 k t) = k" for o1 k t
    by (simp add: logger_apply_config_def logger_start_internal_def set_logger_db_def Let_def)
  ultimately show ?thesis
    using keys by (simp add: sv_def set_config_def apply_services_def run split: prod.split) (simp add: log_level_apply_def)
qed

theorem config_reaches_services_witness:
  "sv_udp (st_services (set_config demo_reload (demo_config [''a'']) (demo_app []))) = udp_throttle_apply udp_throttle_default"
proof -
  have "hm_ok (ms_counters (sv_metrics (st_services (demo_app []))))"
    by (simp add: demo_app_def app_state_new_def demo_config_def apply_services_def metrics_apply_config_def Let_def desired_counters_def
        demo_services_def hm_ok_def hm_retain_def)
  from config_reaches_services [OF this, of demo_reload "demo_config [''a'']"] show ?thesis
    by (simp add: demo_config_def gate_config_default_def)
qed

text \<open>The messages are replaced before the configuration has been loaded: a reload that fails on the
  configuration keeps the new messages, although its log line says that both are kept.\<close>

theorem failed_reload_replaces_messages:
  assumes "messages_load yl fs (st_messages_path st) = Inr m" "load_config_file yl ex fs (st_config_path st) m = Inl e"
  shows "reload_all yl ex ev fs st = (Inl e, st\<lparr>st_messages := m\<rparr>)"
  using assms by (simp add: reload_all_def set_messages_def Let_def)

theorem failed_reload_replaces_messages_witness:
  "let fs = (\<lambda>p. if p = lit ''messages.yml'' then Some (lit ''odd'') else None) in
   st_messages (snd (reload_all demo_yaml demo_externs demo_reload fs (demo_app []\<lparr>st_messages := demo_messages\<rparr>))) = gate_messages_default"
proof -
  let ?fs = "\<lambda>p. if p = lit ''messages.yml'' then Some (lit ''odd'') else None"
  let ?st = "demo_app []\<lparr>st_messages := demo_messages\<rparr>"
  have paths: "st_messages_path ?st = lit ''messages.yml''" "st_config_path ?st = lit ''gate.yml''"
    by (simp_all add: demo_app_def app_state_new_def split: prod.split)
  have "messages_load demo_yaml ?fs (st_messages_path ?st) = Inr gate_messages_default"
    by (simp add: paths messages_load_def demo_yaml_def cfg_def messages_parse_def as_map_def get_map_def get_str_def get_def
        gate_messages_default_def parse_reconnect_messages_def Let_def)
  moreover have "load_config_file demo_yaml demo_externs ?fs (st_config_path ?st) gate_messages_default
      = Inl (Cfg_Error (lit ''Config file not found: '' @ lit ''gate.yml''))"
    by (simp add: paths load_config_file_def)
  ultimately show ?thesis using failed_reload_replaces_messages [of demo_yaml ?fs ?st] by simp
qed

text \<open>A connection looks its route up in the configuration it read at the start but takes the runtime by
  index from the current table: when routes are removed in between, it is counted on the runtime of
  another route.\<close>

theorem stale_index_counts_elsewhere:
  assumes ok: "runtimes_ok st" and dist: "distinct (map snd (st_route_runtimes st))" and i: "i < length (gc_routes c)"
    and moved: "first_index (\<lambda>old. route_eq old (gc_routes c ! i)) (gc_routes (st_config st)) = Some j" "j \<noteq> i"
  shows "route_runtime_at i (set_config ev c st) = route_runtime_at j st \<and> route_runtime_at i (set_config ev c st) \<noteq> route_runtime_at i st"
proof -
  have eq: "route_runtime_at i (set_config ev c st) = route_runtime_at j st" using set_config_runtime [OF ok i, of ev] moved(1) by simp
  obtain h where h: "hm_get (st_route_runtimes st) j = Some h"
    using runtimes_okD [OF ok first_index_Some(1) [OF moved(1)]] by (auto simp: route_runtime_at_def)
  have "route_runtime_at i st \<noteq> Some h"
    using distinct_filter_snd [of "\<lambda>_. True" "st_route_runtimes st" i h j] dist moved(2) h
    by (auto simp: route_runtime_at_def hm_get_def map_of_SomeD)
  with eq h show ?thesis by (auto simp: route_runtime_at_def)
qed

theorem stale_index_counts_elsewhere_witness:
  "route_runtime_at 0 (set_config demo_reload (demo_config [''b'']) (demo_app [''a'', ''b''])) \<noteq> route_runtime_at 0 (demo_app [''a'', ''b''])"
proof -
  have "first_index (\<lambda>old. route_eq old (demo_app_route ''b'')) [demo_app_route ''a'', demo_app_route ''b''] = Some 1"
    by (simp add: first_index_def route_eq_equiv(1))
  moreover have "distinct (map snd (st_route_runtimes (demo_app [''a'', ''b''])))"
    by (simp add: demo_app_def app_state_new_def demo_config_def)
  ultimately show ?thesis
    using stale_index_counts_elsewhere [OF demo_app_ok, of "[''a'', ''b'']" 0 "demo_config [''b'']" 1 demo_reload] by (auto simp: demo_config_def)
qed

text \<open>The equality of routes looks at four of their fields: routes that differ in any of the others count as the
  same, although it is described as field by field.\<close>

theorem route_eq_ignores_settings:
  "route_eq r (r\<lparr>rt_fallback := f, rt_modify_virtual_host := m, rt_proxy_protocol := p, rt_kick_message := k, rt_voicechat_templates := v,
     rt_metrics := u, rt_reconnect := c, rt_cache_ping_ttl_millis := t\<rparr>)"
  by (simp add: route_eq_alt)

end
