(* ===== verification/Backend_Pinger.thy ===== *)
theory Backend_Pinger
  imports Status_Handler
begin

text \<open>
  The live ping of \<open>src/net/backend_pinger.rs\<close>, which the API's ping endpoint runs. What the backend does is
  given: the connection is refused or late, or it stands, with the outcome of the writes, the bytes that
  arrive, whether the answer is late and the time that has passed.
\<close>

section \<open>Definitions\<close>

record ping_result =
  pr_status_json :: str
  pr_latency_millis :: int

datatype ping_error = Connect io_error | Timeout | Ping_Io io_error | UnexpectedPacketId int

fun ping_error_text :: "ping_error \<Rightarrow> str" where
  "ping_error_text (Connect e) = lit ''connect failed: '' @ e"
| "ping_error_text Timeout = lit ''ping timed out''"
| "ping_error_text (Ping_Io e) = lit ''io error: '' @ e"
| "ping_error_text (UnexpectedPacketId n) = lit ''unexpected packet id '' @ show_int n @ lit '' from backend''"

record ping_conn =
  pc_write_error :: "io_error option"
  pc_reader :: reader
  pc_late :: bool
  pc_elapsed :: duration

datatype ping_dial = Refused io_error | Connect_Late | Dialled ping_conn

text \<open>What is sent: an optional PROXY header with a placeholder source, the handshake and the request.\<close>

definition ping_request_bytes :: "socket_addr \<Rightarrow> i32 \<Rightarrow> str \<Rightarrow> u16 \<Rightarrow> bool \<Rightarrow> bytes" where
  "ping_request_bytes addr protocol_version virtual_host port proxy_protocol =
     (if proxy_protocol then encode_proxy_protocol_header (SocketAddr (V4 127 0 0 1) 0) addr else [])
     @ encode_handshake protocol_version virtual_host port 1 @ write_var_int 1 @ write_var_int 0x00"

text \<open>The network is a function from an address and what is written to how that went.\<close>

definition ping_backend_live :: "(socket_addr \<Rightarrow> bytes \<Rightarrow> ping_dial) \<Rightarrow> socket_addr \<Rightarrow> i32 \<Rightarrow> str \<Rightarrow> u16 \<Rightarrow> bool \<Rightarrow> ping_error + ping_result" where
  "ping_backend_live dial addr protocol_version virtual_host port proxy_protocol =
     (case dial addr (ping_request_bytes addr protocol_version virtual_host port proxy_protocol) of
        Refused e \<Rightarrow> Inl (Connect e)
      | Connect_Late \<Rightarrow> Inl Timeout
      | Dialled conn \<Rightarrow>
          (case pc_write_error conn of
             Some e \<Rightarrow> Inl (Ping_Io e)
           | None \<Rightarrow>
               if pc_late conn then Inl Timeout
               else case fst (read_frame 262144 (bs_new (pc_reader conn))) of
                 Inl e \<Rightarrow> Inl (Ping_Io e)
               | Inr f \<Rightarrow>
                   (case read_var_int f of
                      Inl _ \<Rightarrow> Inl (Ping_Io (lit ''bad frame''))
                    | Inr (_, header_len) \<Rightarrow>
                        (case read_var_int (drop header_len f) of
                           Inl _ \<Rightarrow> Inl (Ping_Io (lit ''bad packet id''))
                         | Inr (packet_id, consumed) \<Rightarrow>
                             if packet_id \<noteq> 0x00 then Inl (UnexpectedPacketId (sint packet_id))
                             else (case read_string (drop (header_len + consumed) f) 262144 of
                                     Inl _ \<Rightarrow> Inl (Ping_Io (lit ''bad string''))
                                   | Inr (j, _) \<Rightarrow>
                                       Inr \<lparr>pr_status_json = j, pr_latency_millis = wrap_i64 (int (as_millis (pc_elapsed conn)))\<rparr>)))))"

section \<open>Properties\<close>

text \<open>A live ping reports what the backend answered. When the backend, given the request, sends a status response for a text
  that fits the frame limit, in whatever pieces it arrives and whatever follows, the ping returns exactly
  that text and the measured time.\<close>

theorem live_ping_reads_answer:
  assumes dialled: "dial addr (ping_request_bytes addr pv vh port pp) = Dialled conn"
    and conn: "pc_write_error conn = None" "\<not> pc_late conn" "healthy (pc_reader conn)"
    and sent: "incoming (pc_reader conn) = encode_status_response j @ rest"
    and fits: "list_all is_scalar j" "length (as_bytes j) \<le> 262100"
    and soon: "pc_elapsed conn < 2 ^ 63"
  shows "ping_backend_live dial addr pv vh port pp = Inr \<lparr>pr_status_json = j, pr_latency_millis = int (as_millis (pc_elapsed conn))\<rparr>"
proof -
  let ?p = "write_var_int 0 @ write_string j"
  have "length (write_string j) \<le> 5 + length (as_bytes j)" "length (write_var_int 0) \<le> 5"
    using length_write_string length_write_var_int by blast+
  then have len: "int (length ?p) \<le> sint (262144 :: i32)" using fits(2) by simp
  have "bs_ok (bs_new (pc_reader conn))" "contents (bs_new (pc_reader conn)) = length_prefix ?p @ rest"
    using conn(3) sent by (simp_all add: bs_ok_def bs_new_def contents_def unread_def encode_status_response_def)
  from read_frame_delivers [OF this len] obtain st' where r: "read_frame 262144 (bs_new (pc_reader conn)) = (Inr (length_prefix ?p), st')"
    by blast
  define h where "h = length (write_var_int (of_nat (length ?p)))"
  have "read_var_int (length_prefix ?p) = Inr (of_nat (length ?p), h)" unfolding h_def length_prefix_def by (rule read_write_var_int)
  moreover have d: "drop h (length_prefix ?p) = ?p" by (simp add: h_def length_prefix_def)
  moreover have "read_var_int ?p = Inr (0, length (write_var_int 0))" using read_write_var_int [of 0 "write_string j"] by simp
  moreover have "drop (h + length (write_var_int 0)) (length_prefix ?p) = write_string j"
    using d by (metis add.commute append_eq_conv_conj drop_drop)
  moreover have "\<exists>n. read_string (write_string j) 262144 = Inr (j, n)"
    using write_string_read [of j 262144 "[]"] fits by (auto simp: saturating_mul_4_def)
  moreover have "wrap_i64 (int (as_millis (pc_elapsed conn))) = int (as_millis (pc_elapsed conn))"
  proof -
    have "as_millis (pc_elapsed conn) \<le> pc_elapsed conn" by (simp add: as_millis_def)
    then show ?thesis using soon by (simp add: wrap_i64_def)
  qed
  ultimately show ?thesis using dialled conn r by (auto simp: ping_backend_live_def)
qed

definition demo_conn :: ping_conn where
  "demo_conn = \<lparr>pc_write_error = None, pc_reader = [Data (encode_status_response (lit ''{}''))], pc_late = False, pc_elapsed = 7000000\<rparr>"

theorem live_ping_reads_answer_witness:
  "ping_backend_live (\<lambda>_ _. Dialled demo_conn) (SocketAddr (V4 10 0 0 1) 25565) (- 1) (lit ''h'') 25565 True
     = Inr \<lparr>pr_status_json = lit ''{}'', pr_latency_millis = 7\<rparr>"
proof -
  have "encode_status_response (lit ''{}'') \<noteq> []" by (simp add: encode_status_response_def length_prefix_def write_var_int.simps)
  then show ?thesis
    using live_ping_reads_answer [of "\<lambda>_ _. Dialled demo_conn" "SocketAddr (V4 10 0 0 1) 25565" "- 1" "lit ''h''" 25565 True demo_conn "lit ''{}''" "[]"]
    by (simp add: demo_conn_def lit_def is_scalar_def as_bytes_def utf8_encode_char_def as_millis_def)
qed

end
