(* ===== verification/Api_Views.thy ===== *)
theory Api_Views
  imports Metrics_Snapshot Backend_Pinger
begin

text \<open>
  What the admin API shows, \<open>src/net/api.rs\<close>: routes, players and metrics as JSON, the metrics in the text
  format of a Prometheus scrape, and the pages of the player list.

  The text of a UUID and of a float, and the round-trip time the kernel reports for a client, come from
  libraries and the operating system; they are the fields of \<open>view_env\<close>. A map is shown in the order of
  its association list.
\<close>

section \<open>Definitions\<close>

record view_env =
  ve_uuid_text :: "uuid \<Rightarrow> str"
  ve_float_text :: "f64 \<Rightarrow> str"
  ve_client_ping :: "player_session \<Rightarrow> int option"

definition json_option :: "('a \<Rightarrow> json) \<Rightarrow> 'a option \<Rightarrow> json" where
  "json_option f x = (case x of None \<Rightarrow> J_Null | Some v \<Rightarrow> f v)"

definition field :: "string \<Rightarrow> json \<Rightarrow> str \<times> json" where
  "field key v = (lit key, v)"

definition strings :: "str list \<Rightarrow> json" where
  "strings ss = J_Array (map J_String ss)"

fun strategy_name :: "strategy \<Rightarrow> str" where
  "strategy_name Sequential = lit ''sequential''"
| "strategy_name Random = lit ''random''"
| "strategy_name RoundRobin = lit ''round_robin''"
| "strategy_name LeastConnections = lit ''least_connections''"
| "strategy_name LowestLatency = lit ''lowest_latency''"

definition route_json :: "nat \<Rightarrow> route \<Rightarrow> json" where
  "route_json index r = J_Object
     [field ''index'' (J_Int (int index)),
      field ''hosts'' (strings (map hp_raw (rt_host_patterns r))),
      field ''backends'' (strings (rt_backend_templates r)),
      field ''strategy'' (J_String (strategy_name (rt_strategy r))),
      field ''priority'' (J_Int (rt_priority r)),
      field ''cachePingTtlMillis'' (J_Int (rt_cache_ping_ttl_millis r)),
      field ''modifyVirtualHost'' (J_Bool (rt_modify_virtual_host r)),
      field ''proxyProtocol'' (J_Bool (rt_proxy_protocol r)),
      field ''hasFallback'' (J_Bool (rt_fallback r \<noteq> None)),
      field ''hasMetrics'' (J_Bool (unwrap_or (map_option metrics_active (rt_metrics r)) False))]"

definition player_json :: "view_env \<Rightarrow> player_session \<Rightarrow> json" where
  "player_json ve s = J_Object
     [field ''uuid'' (J_String (ve_uuid_text ve (ps_uuid s))),
      field ''name'' (J_String (ps_name s)),
      field ''ip'' (J_String (ps_remote_address s)),
      field ''host'' (J_String (ps_host s)),
      field ''backend'' (json_option (\<lambda>b. J_String (show_socket_addr b)) (ps_backend s)),
      field ''protocolVersion'' (J_Int (ps_protocol_version s)),
      field ''connectedAt'' (J_Int (ps_connected_at_millis s)),
      field ''loginAttempts'' (J_Int (int (ps_login_attempts s))),
      field ''packetsSent'' (J_Int (ps_packets_sent s)),
      field ''packetsReceived'' (J_Int (ps_packets_received s)),
      field ''bytesSent'' (J_Int (ps_bytes_sent s)),
      field ''bytesReceived'' (J_Int (ps_bytes_received s)),
      field ''compressionThreshold'' (J_Int (ps_compression_threshold s)),
      field ''encrypted'' (J_Bool (ps_encrypted s)),
      field ''pingMillis'' (json_option J_Int (ve_client_ping ve s))]"

definition usage_json :: "bool \<Rightarrow> int \<Rightarrow> int \<Rightarrow> json" where
  "usage_json enabled bytes limit = J_Object
     [field ''enabled'' (J_Bool enabled), field ''bytes'' (J_Int bytes), field ''limit'' (J_Int limit)]"

definition backend_metric_json :: "backend_metric \<Rightarrow> json" where
  "backend_metric_json b = J_Object
     [field ''route'' (J_Int (int (bm_route_index b))), field ''hosts'' (strings (bm_hosts b)),
      field ''backend'' (J_String (bm_backend b)), field ''activeConnections'' (J_Int (bm_active b)),
      field ''latencyMillis'' (json_option J_Int (bm_latency_millis b))]"

definition route_metric_json :: "route_metric \<Rightarrow> json" where
  "route_metric_json m = (let c = rmt_counter m in J_Object
     [field ''route'' (J_Int (int (rmt_route_index m))), field ''hosts'' (strings (rmt_hosts m)),
      field ''file'' (json_option J_String (tc_file c)),
      field ''upload'' (usage_json (tc_upload_enabled c) (tc_upload_bytes c) (tc_upload_limit c)),
      field ''download'' (usage_json (tc_download_enabled c) (tc_download_bytes c) (tc_download_limit c)),
      field ''resetIntervalMillis'' (J_Int (tc_reset_interval_millis c)), field ''resetAt'' (J_Int (tc_reset_at c))])"

definition metrics_json :: "view_env \<Rightarrow> metrics_snapshot \<Rightarrow> nat \<Rightarrow> json" where
  "metrics_json ve s player_limit = J_Object
     [field ''playersOnline'' (J_Int (int (sn_players_online s))),
      field ''onlineByHost'' (J_Object (map (\<lambda>(h, n). (h, J_Int (int n))) (sn_online_by_host s))),
      field ''uptimeSeconds'' (J_Float (sn_uptime_seconds s)),
      field ''backends'' (J_Array (map backend_metric_json (sn_backends s))),
      field ''routeMetrics'' (J_Array (map route_metric_json (sn_route_metrics s))),
      field ''playersTotal'' (J_Int (int (length (sn_players s)))),
      field ''players'' (J_Array (map (player_json ve) (take player_limit (sn_players s)))),
      field ''connectionTracking'' (J_Object [field ''enabled'' (J_Bool (sn_tracking_enabled s))])]"

definition counter_usage_json :: "bool \<Rightarrow> int \<Rightarrow> int \<Rightarrow> bool \<Rightarrow> json" where
  "counter_usage_json enabled bytes limit over = J_Object
     [field ''enabled'' (J_Bool enabled), field ''bytes'' (J_Int bytes), field ''limit'' (J_Int limit), field ''exceeded'' (J_Bool over)]"

definition route_metrics_json :: "metrics_store \<Rightarrow> nat \<Rightarrow> route \<Rightarrow> json option" where
  "route_metrics_json store index r =
     map_option (\<lambda>c. J_Object
       [field ''index'' (J_Int (int index)), field ''hosts'' (strings (map hp_raw (rt_host_patterns r))),
        field ''file'' (json_option J_String (tc_file c)),
        field ''upload'' (counter_usage_json (tc_upload_enabled c) (tc_upload_bytes c) (tc_upload_limit c) (upload_exceeded c)),
        field ''download'' (counter_usage_json (tc_download_enabled c) (tc_download_bytes c) (tc_download_limit c) (download_exceeded c)),
        field ''resetIntervalMillis'' (J_Int (tc_reset_interval_millis c)), field ''resetAt'' (J_Int (tc_reset_at c))])
       (metrics_handle r store)"

definition escape_char :: "nat \<Rightarrow> str \<Rightarrow> str \<Rightarrow> str" where
  "escape_char c by s = concat (map (\<lambda>x. if x = c then by else [x]) s)"

text \<open>Three replacements in a row: the backslash, the quote, the line feed.\<close>

definition escape_label :: "str \<Rightarrow> str" where
  "escape_label v = escape_char 10 [92, ch CHR ''n''] (escape_char 34 [92, 34] (escape_char 92 [92, 92] v))"

fun join_with :: "str \<Rightarrow> str list \<Rightarrow> str" where
  "join_with d [] = []"
| "join_with d [s] = s"
| "join_with d (s # ss) = s @ d @ join_with d ss"

definition text_line :: "str \<Rightarrow> str" where
  "text_line s = s @ [10]"

definition label :: "string \<Rightarrow> str \<Rightarrow> str" where
  "label key v = lit key @ lit ''='' @ [34] @ v @ [34]"

definition sample :: "string \<Rightarrow> str \<Rightarrow> str \<Rightarrow> str" where
  "sample name labels v = text_line (lit name @ lit ''{'' @ labels @ lit ''} '' @ v)"

definition help_lines :: "string \<Rightarrow> string \<Rightarrow> string \<Rightarrow> str" where
  "help_lines name help kind = text_line (lit ''# HELP '' @ lit name @ lit '' '' @ lit help) @ text_line (lit ''# TYPE '' @ lit name @ lit '' '' @ lit kind)"

definition backend_samples :: "backend_metric \<Rightarrow> str" where
  "backend_samples b =
     (let labels = label ''route'' (show_nat (bm_route_index b)) @ lit '','' @ label ''hosts'' (escape_label (join_with (lit '','') (bm_hosts b)))
            @ lit '','' @ label ''backend'' (escape_label (bm_backend b)) in
      sample ''mcgate_route_backend_active_connections'' labels (show_int (bm_active b))
      @ (case bm_latency_millis b of None \<Rightarrow> [] | Some latency \<Rightarrow> sample ''mcgate_route_backend_latency_ms'' labels (show_int latency)))"

definition usage_samples :: "string \<Rightarrow> string \<Rightarrow> str \<Rightarrow> bool \<Rightarrow> int \<Rightarrow> int \<Rightarrow> str" where
  "usage_samples name direction labels enabled bytes limit =
     (if enabled then
        sample name labels (show_int bytes)
        @ (if 0 \<le> limit then sample ''mcgate_route_bytes_limit'' (labels @ lit '','' @ label ''direction'' (lit direction)) (show_int limit) else [])
      else [])"

definition route_metric_samples :: "route_metric \<Rightarrow> str" where
  "route_metric_samples m =
     (let c = rmt_counter m;
          labels = label ''route'' (show_nat (rmt_route_index m)) @ lit '','' @ label ''hosts'' (escape_label (join_with (lit '','') (rmt_hosts m))) in
      usage_samples ''mcgate_route_bytes_uploaded_total'' ''upload'' labels (tc_upload_enabled c) (tc_upload_bytes c) (tc_upload_limit c)
      @ usage_samples ''mcgate_route_bytes_downloaded_total'' ''download'' labels (tc_download_enabled c) (tc_download_bytes c) (tc_download_limit c))"

definition metrics_text :: "view_env \<Rightarrow> metrics_snapshot \<Rightarrow> str" where
  "metrics_text ve s =
     help_lines ''mcgate_players_online'' ''Currently connected players.'' ''gauge''
     @ text_line (lit ''mcgate_players_online '' @ show_nat (sn_players_online s))
     @ help_lines ''mcgate_host_players_online'' ''Currently connected players per virtual host.'' ''gauge''
     @ concat (map (\<lambda>(host, n). sample ''mcgate_host_players_online'' (label ''host'' (escape_label host)) (show_nat n)) (sn_online_by_host s))
     @ help_lines ''mcgate_uptime_seconds'' ''Seconds since the process started.'' ''gauge''
     @ text_line (lit ''mcgate_uptime_seconds '' @ ve_float_text ve (sn_uptime_seconds s))
     @ help_lines ''mcgate_route_backend_active_connections'' ''Active relayed connections per backend.'' ''gauge''
     @ help_lines ''mcgate_route_backend_latency_ms'' ''Last-observed backend connect/ping latency.'' ''gauge''
     @ concat (map backend_samples (sn_backends s))
     @ help_lines ''mcgate_connection_tracking_enabled'' ''Whether connection-history tracking is enabled.'' ''gauge''
     @ text_line (lit ''mcgate_connection_tracking_enabled '' @ (if sn_tracking_enabled s then lit ''1'' else lit ''0''))
     @ (if sn_route_metrics s = [] then []
        else help_lines ''mcgate_route_bytes_uploaded_total'' ''Cumulative client->backend bytes relayed per route.'' ''counter''
          @ help_lines ''mcgate_route_bytes_downloaded_total'' ''Cumulative backend->client bytes relayed per route.'' ''counter''
          @ help_lines ''mcgate_route_bytes_limit'' ''Configured byte ceiling per route/direction (absent when unlimited).'' ''gauge''
          @ concat (map route_metric_samples (sn_route_metrics s)))"

text \<open>The page of the player list a query selects.\<close>

definition page_limit :: "int \<Rightarrow> nat option \<Rightarrow> nat" where
  "page_limit players_page_limit limit = (let max_limit = nat (max players_page_limit 0) in min (unwrap_or limit max_limit) max_limit)"

definition players_page :: "int \<Rightarrow> nat option \<Rightarrow> nat option \<Rightarrow> 'a list \<Rightarrow> nat \<times> nat \<times> 'a list" where
  "players_page players_page_limit q_limit q_offset all =
     (let limit = page_limit players_page_limit q_limit; offset = unwrap_or q_offset 0 in
      (offset, limit, if length all \<le> offset then [] else slice offset (min (offset + limit) (length all)) all))"

definition players_json :: "view_env \<Rightarrow> int \<Rightarrow> nat option \<Rightarrow> nat option \<Rightarrow> player_session list \<Rightarrow> json" where
  "players_json ve players_page_limit q_limit q_offset all =
     (case players_page players_page_limit q_limit q_offset all of (offset, limit, page) \<Rightarrow> J_Object
        [field ''total'' (J_Int (int (length all))), field ''offset'' (J_Int (int offset)), field ''limit'' (J_Int (int limit)),
         field ''players'' (J_Array (map (player_json ve) page))])"

text \<open>A signed value cast to a machine-sized unsigned one.\<close>

definition as_usize :: "int \<Rightarrow> nat" where
  "as_usize n = nat (n mod 2 ^ 64)"

section \<open>Facts\<close>

definition escaped :: "nat \<Rightarrow> str" where
  "escaped c = (if c = 92 then [92, 92] else if c = 34 then [92, 34] else if c = 10 then [92, ch CHR ''n''] else [c])"

lemma escape_char_simps [simp]:
  "escape_char c by [] = []" "escape_char c by (x # s) = (if x = c then by else [x]) @ escape_char c by s"
  "escape_char c by (s @ t) = escape_char c by s @ escape_char c by t"
  by (simp_all add: escape_char_def)

lemma escape_label_map: "escape_label v = concat (map escaped v)"
  by (induction v) (auto simp: escape_label_def escaped_def)

text \<open>How a scraper reads a label value: up to the first quote that is not escaped.\<close>

fun read_label :: "str \<Rightarrow> (str \<times> str) option" where
  "read_label [] = None"
| "read_label (c # s) =
     (if c = 34 then Some ([], s)
      else if c = 10 then None
      else if c = 92 then
        (case s of
           [] \<Rightarrow> None
         | e # s \<Rightarrow>
             (case (if e = 92 \<or> e = 34 then Some e else if e = ch CHR ''n'' then Some 10 else None) of
                None \<Rightarrow> None
              | Some d \<Rightarrow> map_option (\<lambda>(v, r). (d # v, r)) (read_label s)))
      else map_option (\<lambda>(v, r). (c # v, r)) (read_label s))"

lemma read_escaped: "read_label (escaped c @ s) = map_option (\<lambda>(v, r). (c # v, r)) (read_label s)"
  by (auto simp: escaped_def)

lemma read_label_escape: "read_label (escape_label v @ 34 # rest) = Some (v, rest)"
  unfolding escape_label_map by (induction v) (simp_all add: read_escaped)

lemma page_slice: "snd (snd (players_page mx l (Some off) all)) = take (page_limit mx l) (drop off all)"
proof (cases "off + page_limit mx l \<le> length all")
  case False
  then have "take (length all - off) (drop off all) = drop off all" "take (page_limit mx l) (drop off all) = drop off all" by simp_all
  then show ?thesis using False by (simp add: players_page_def Let_def slice_def)
qed (auto simp: players_page_def Let_def slice_def)

section \<open>Properties\<close>

text \<open>A label value cannot break out of its sample. Whatever text a host or a backend name contains, the
  escaped value has no line feed, and a scraper that reads it up to the closing quote gets the text back
  and continues right behind the quote.\<close>

theorem metric_labels_round_trip:
  "read_label (escape_label v @ 34 # rest) = Some (v, rest) \<and> 10 \<notin> set (escape_label v)"
  using read_label_escape by (auto simp: escape_label_map escaped_def split: if_splits)

text \<open>The pages of the player list partition it. Asking for one page after the other, each as long as the
  limit that is reported back, gives every player once and in order, and no page is longer than the
  configured limit.\<close>

theorem players_pages_partition:
  "concat (map (\<lambda>k. snd (snd (players_page mx l (Some (k * page_limit mx l)) all))) [0..<n]) = take (n * page_limit mx l) all
   \<and> int (length (snd (snd (players_page mx l off all)))) \<le> max mx 0"
proof
  show "concat (map (\<lambda>k. snd (snd (players_page mx l (Some (k * page_limit mx l)) all))) [0..<n]) = take (n * page_limit mx l) all"
  proof (induction n)
    case (Suc n)
    then show ?case using take_add [of "n * page_limit mx l" "page_limit mx l" all] by (simp add: page_slice add.commute)
  qed simp
  have "length (snd (snd (players_page mx l off all))) \<le> page_limit mx l"
    using page_slice [of mx l "unwrap_or off 0" all] by (simp add: players_page_def Let_def)
  also have "int (page_limit mx l) \<le> max mx 0" by (simp add: page_limit_def Let_def)
  finally show "int (length (snd (snd (players_page mx l off all)))) \<le> max mx 0" by simp
qed

text \<open>A strategy shown by the API is accepted as that strategy in the configuration.\<close>

theorem strategy_name_round_trip: "strategy_parse lc (Some (strategy_name s)) = Inr s"
  by (cases s) (simp_all add: strategy_parse_def to_lowercase_def lit_def is_ascii_def to_ascii_lowercase_def Let_def)

text \<open>A negative page limit means no players in the player list but every player in the metrics: one
  clamps the setting at zero, the other casts it to an unsigned number.\<close>

theorem negative_page_limit_differs:
  assumes "mx < 0" "- (2 ^ 31) \<le> mx" "length all < 2 ^ 63"
  shows "snd (snd (players_page mx None None all)) = [] \<and> take (as_usize mx) all = all"
proof -
  have "mx mod 2 ^ 64 = (mx + 2 ^ 64) mod 2 ^ 64" by simp
  also have "\<dots> = mx + 2 ^ 64" using assms(1,2) by (intro mod_pos_pos_trivial) simp_all
  finally have "mx mod 2 ^ 64 = mx + 2 ^ 64" .
  then have "2 ^ 63 \<le> as_usize mx" using assms(2) by (simp add: as_usize_def)
  then show ?thesis using assms(1,3) by (simp add: players_page_def page_limit_def slice_def Let_def)
qed

theorem negative_page_limit_differs_witness: "take (as_usize (- 1)) [demo_session 1] = [demo_session 1]"
  using negative_page_limit_differs [of "- 1" "[demo_session 1]"] by simp

end
