(* ===== verification/Gate_Api.thy ===== *)
theory Gate_Api
  imports App_State Api_Views
begin

text \<open>
  The admin API, \<open>src/net/api.rs\<close>: authorization, every endpoint with its effects, and the pipeline that
  edits the routes of config.yml and applies the result.

  A handler takes the request as the extractors of the HTTP library hand it over and returns the response
  and the new world, or panics. The environment supplies the disk, the YAML library, the conversion of a
  JSON body to YAML, the resolver, the clock, the behaviour of dialled backends and the JSON parser.
\<close>

section \<open>Definitions\<close>

datatype body = Json_Body json | Text_Body string str | Redirect_To string

record response =
  rs_status :: nat
  rs_body :: body

record api_env =
  ae_volume :: volume
  ae_yaml :: yaml_lib
  ae_ex :: externs
  ae_reload :: reload_env
  ae_to_yaml :: "json \<Rightarrow> str + yaml"
  ae_resolve :: "str \<Rightarrow> u16 \<Rightarrow> dns_result"
  ae_now :: instant
  ae_uptime :: f64
  ae_dial :: "socket_addr \<Rightarrow> bytes \<Rightarrow> ping_dial"
  ae_parse_json :: "str \<Rightarrow> json option"
  ae_view :: view_env
  ae_openapi :: str
  ae_reference :: str

record api_world =
  aw_app :: app_state
  aw_files :: files
  aw_sessions :: player_sessions
  aw_live_pings :: nat

type_synonym handler = "api_env \<Rightarrow> api_world \<Rightarrow> response run \<times> api_world"

definition json_response :: "nat \<Rightarrow> json \<Rightarrow> response" where
  "json_response status v = \<lparr>rs_status = status, rs_body = Json_Body v\<rparr>"

definition error_response :: "nat \<Rightarrow> str \<Rightarrow> response" where
  "error_response status e = json_response status (J_Object [field ''error'' (J_String e)])"

definition not_found :: response where
  "not_found = error_response 404 (lit ''not found'')"

definition aw_config :: "api_world \<Rightarrow> gate_config" where
  "aw_config w = st_config (aw_app w)"

definition route_at :: "api_world \<Rightarrow> nat \<Rightarrow> route option" where
  "route_at w index = (let rs = gc_routes (aw_config w) in if index < length rs then Some (rs ! index) else None)"

text \<open>The header value is the authorization header of the request as text, if it has one.\<close>

definition check_auth :: "str option \<Rightarrow> api_world \<Rightarrow> bool" where
  "check_auth auth w \<longleftrightarrow>
     (case api_token (gc_api (aw_config w)) of
        None \<Rightarrow> True
      | Some token \<Rightarrow> auth = Some (lit ''Bearer '' @ token))"

definition unauthorized :: response where
  "unauthorized = error_response 401 (lit ''unauthorized'')"

text \<open>The first lines of every handler but the two that serve static documentation.\<close>

definition authorized :: "str option \<Rightarrow> handler \<Rightarrow> handler" where
  "authorized auth h e w = (if check_auth auth w then h e w else (Returned unauthorized, w))"

definition reply :: "response \<Rightarrow> api_world \<Rightarrow> response run \<times> api_world" where
  "reply r w = (Returned r, w)"

subsection \<open>Reading\<close>

definition reference_handler :: handler where
  "reference_handler e = reply \<lparr>rs_status = 200, rs_body = Text_Body ''text/html; charset=utf-8'' (ae_reference e)\<rparr>"

definition openapi_handler :: handler where
  "openapi_handler e = reply \<lparr>rs_status = 200, rs_body = Text_Body ''application/json'' (ae_openapi e)\<rparr>"

definition runtime_of_route :: "api_world \<Rightarrow> route \<Rightarrow> route_runtime option" where
  "runtime_of_route w r = Option.bind (first_index (\<lambda>x. route_eq x r) (gc_routes (aw_config w))) (runtime_value (aw_app w))"

definition snapshot_of :: "api_env \<Rightarrow> api_world \<Rightarrow> metrics_snapshot run" where
  "snapshot_of e w = collect_metrics (ex_lc (ae_ex e)) (ae_resolve e) (ae_now e) (rv_millis (ae_reload e)) (ae_uptime e)
     (runtime_of_route w) (sv_metrics (st_services (aw_app w))) (sv_tracker (st_services (aw_app w))) (aw_sessions w) (gc_routes (aw_config w))"

definition metrics_handler :: "str option \<Rightarrow> handler" where
  "metrics_handler q_type e w =
     (run_bind (snapshot_of e w) (\<lambda>s. Returned
        (if q_type = Some (lit ''json'')
         then json_response 200 (metrics_json (ae_view e) s (as_usize (api_players_page_limit (gc_api (aw_config w)))))
         else \<lparr>rs_status = 200, rs_body = Text_Body ''text/plain; version=0.0.4; charset=utf-8'' (metrics_text (ae_view e) s)\<rparr>)), w)"

definition routes_handler :: handler where
  "routes_handler e w = reply (json_response 200 (J_Object [field ''routes''
     (J_Array (map (\<lambda>(i, r). route_json i r) (enumerate 0 (gc_routes (aw_config w)))))])) w"

definition route_handler :: "nat \<Rightarrow> handler" where
  "route_handler index e w = reply (case route_at w index of Some r \<Rightarrow> json_response 200 (route_json index r) | None \<Rightarrow> not_found) w"

definition backend_entry :: "instant \<Rightarrow> route_runtime option \<Rightarrow> socket_addr list option \<Rightarrow> nat \<times> str \<Rightarrow> json" where
  "backend_entry now runtime resolved it =
     (case it of (i, template) \<Rightarrow>
        let addr = Option.bind resolved (\<lambda>as. if i < length as then Some (as ! i) else None) in
        J_Object [field ''address'' (J_String template),
          field ''activeConnections'' (json_option J_Int (Option.bind addr (\<lambda>a. map_option (active_connections_of a) runtime))),
          field ''latencyMillis'' (json_option J_Int (Option.bind addr (\<lambda>a. Option.bind runtime (\<lambda>r. fst (latency_of now a r)))))])"

definition resolve_static :: "api_env \<Rightarrow> route \<Rightarrow> socket_addr list option run" where
  "resolve_static e r =
     (if list_all (\<lambda>p. hp_wildcard_count p = 0) (rt_host_patterns r)
      then run_bind (resolve_backends (ae_resolve e) (rt_backend_templates r) []) (\<lambda>res. Returned (case res of Inr as \<Rightarrow> Some as | Inl _ \<Rightarrow> None))
      else Returned None)"

definition on_runtime :: "nat \<Rightarrow> (route_runtime \<Rightarrow> route_runtime) \<Rightarrow> api_world \<Rightarrow> api_world" where
  "on_runtime index f w =
     (case route_runtime_at index (aw_app w) of
        None \<Rightarrow> w
      | Some h \<Rightarrow> w\<lparr>aw_app := (aw_app w)\<lparr>st_arena := (st_arena (aw_app w))[h := f (st_arena (aw_app w) ! h)]\<rparr>\<rparr>)"

definition backends_handler :: "nat \<Rightarrow> handler" where
  "backends_handler index e w =
     (case route_at w index of
        None \<Rightarrow> reply not_found w
      | Some r \<Rightarrow>
          (case resolve_static e r of
             Panicked \<Rightarrow> (Panicked, w)
           | Returned resolved \<Rightarrow>
               reply (json_response 200 (J_Object [field ''backends'' (J_Array
                   (map (backend_entry (ae_now e) (runtime_value (aw_app w) index) resolved) (enumerate 0 (rt_backend_templates r))))]))
                 (on_runtime index (fold (\<lambda>a q. snd (latency_of (ae_now e) a q)) (unwrap_or resolved [])) w)))"

definition route_metrics_handler :: "nat \<Rightarrow> handler" where
  "route_metrics_handler index e w =
     reply (case Option.bind (route_at w index) (route_metrics_json (sv_metrics (st_services (aw_app w))) index) of
              Some j \<Rightarrow> json_response 200 j
            | None \<Rightarrow> not_found) w"

definition players_handler :: "nat option \<Rightarrow> nat option \<Rightarrow> handler" where
  "players_handler q_limit q_offset e w =
     reply (json_response 200 (players_json (ae_view e) (api_players_page_limit (gc_api (aw_config w))) q_limit q_offset
       (sessions_all (ex_lc (ae_ex e)) (aw_sessions w)))) w"

subsection \<open>Resetting counters\<close>

definition on_services :: "(services \<Rightarrow> services) \<Rightarrow> api_world \<Rightarrow> api_world" where
  "on_services f w = w\<lparr>aw_app := (aw_app w)\<lparr>st_services := f (st_services (aw_app w))\<rparr>\<rparr>"

definition route_metrics_reset_handler :: "nat \<Rightarrow> handler" where
  "route_metrics_reset_handler index e w =
     (case route_at w index of
        None \<Rightarrow> reply not_found w
      | Some r \<Rightarrow>
          let sv = st_services (aw_app w) in
          (case metrics_reset (rv_millis (ae_reload e)) r (sv_metrics sv) (sv_metrics_disk sv) of
             (None, _, _) \<Rightarrow> reply (error_response 404 (lit ''this route has no metrics: block with a direction enabled'')) w
           | (Some _, m, d) \<Rightarrow>
               reply (case route_metrics_json m index r of Some j \<Rightarrow> json_response 200 j | None \<Rightarrow> not_found)
                 (on_services (\<lambda>s. s\<lparr>sv_metrics := m, sv_metrics_disk := d\<rparr>) w)))"

definition metrics_reset_all_handler :: handler where
  "metrics_reset_all_handler e w =
     (let sv = st_services (aw_app w) in
      case metrics_reset_all (rv_millis (ae_reload e)) (sv_metrics sv) (sv_metrics_disk sv) of
        (n, m, d) \<Rightarrow> reply (json_response 200 (J_Object [field ''reset'' (J_Int (int n))]))
          (on_services (\<lambda>s. s\<lparr>sv_metrics := m, sv_metrics_disk := d\<rparr>) w))"

subsection \<open>Live pings\<close>

definition LIVE_PING_PERMITS :: nat where "LIVE_PING_PERMITS = 4"

definition ping_entry :: "api_env \<Rightarrow> str \<Rightarrow> ping_error + ping_result \<Rightarrow> json" where
  "ping_entry e template result =
     (case result of
        Inr p \<Rightarrow> J_Object [field ''address'' (J_String template), field ''online'' (J_Bool True),
          field ''latencyMillis'' (J_Int (pr_latency_millis p)), field ''status'' (unwrap_or (ae_parse_json e (pr_status_json p)) J_Null)]
      | Inl er \<Rightarrow> J_Object [field ''address'' (J_String template), field ''online'' (J_Bool False), field ''error'' (J_String (ping_error_text er))])"

definition live_ping :: "api_env \<Rightarrow> route \<Rightarrow> socket_addr \<Rightarrow> ping_error + ping_result" where
  "live_ping e r addr =
     ping_backend_live (ae_dial e) addr (- 1) (case rt_host_patterns r of p # _ \<Rightarrow> hp_raw p | [] \<Rightarrow> []) (addr_port addr) (rt_proxy_protocol r)"

definition note_latency :: "api_env \<Rightarrow> route \<Rightarrow> nat \<Rightarrow> socket_addr \<Rightarrow> api_world \<Rightarrow> api_world" where
  "note_latency e r index addr w =
     (case live_ping e r addr of
        Inr p \<Rightarrow> on_runtime index (record_latency (ae_now e) addr (pr_latency_millis p)) w
      | Inl _ \<Rightarrow> w)"

text \<open>One permit is held while the backends are dialled one after the other; it is free again at the end.\<close>

definition ping_handler :: "nat \<Rightarrow> handler" where
  "ping_handler index e w =
     (case route_at w index of
        None \<Rightarrow> reply not_found w
      | Some r \<Rightarrow>
          if list_ex (\<lambda>p. 0 < hp_wildcard_count p) (rt_host_patterns r)
          then reply (error_response 400 (lit ''cannot ping a wildcard route without a concrete host'')) w
          else if LIVE_PING_PERMITS \<le> aw_live_pings w
          then reply (error_response 429 (lit ''too many concurrent live pings'')) w
          else case resolve_backends (ae_resolve e) (rt_backend_templates r) [] of
            Panicked \<Rightarrow> (Panicked, w)
          | Returned (Inl _) \<Rightarrow> reply (error_response 500 (lit ''failed to resolve backends'')) w
          | Returned (Inr addrs) \<Rightarrow>
              reply (json_response 200 (J_Object [field ''index'' (J_Int (int index)), field ''pings'' (J_Array
                  (map (\<lambda>(template, addr). ping_entry e template (live_ping e r addr)) (zip (rt_backend_templates r) addrs)))]))
                (fold (note_latency e r index) addrs w))"

subsection \<open>Editing routes\<close>

definition route_hosts_from_json :: "json \<Rightarrow> str list" where
  "route_hosts_from_json v =
     (case json_get (lit ''host'') v of
        Some (J_Array arr) \<Rightarrow> List.map_filter (\<lambda>x. case x of J_String s \<Rightarrow> Some s | _ \<Rightarrow> None) arr
      | Some (J_String s) \<Rightarrow> [s]
      | _ \<Rightarrow> [])"

definition route_matches_hosts :: "route \<Rightarrow> str list \<Rightarrow> bool" where
  "route_matches_hosts r hosts \<longleftrightarrow> set (map hp_raw (rt_host_patterns r)) = set hosts"

type_synonym mutation = "config_document \<Rightarrow> (str + config_document) run"

text \<open>The blocking task: read the document, edit it, print it, write it back if it loads, apply it. A panic
  of the task is an error of its join handle.\<close>

definition mutate_routes_task :: "api_env \<Rightarrow> mutation \<Rightarrow> api_world \<Rightarrow> (cfg_error + gate_config) \<times> api_world" where
  "mutate_routes_task e mutate w =
     (let app = aw_app w; path = st_config_path app in
      case config_document_read (ae_yaml e) (aw_files w) path of
        Inl er \<Rightarrow> (Inl er, w)
      | Inr doc \<Rightarrow>
          (case mutate doc of
             Panicked \<Rightarrow> (Inl Cfg_Panic, w)
           | Returned (Inl er) \<Rightarrow> (Inl (Cfg_Error er), w)
           | Returned (Inr doc) \<Rightarrow>
               (case to_yaml_string (ae_yaml e) doc of
                  Inl er \<Rightarrow> (Inl er, w)
                | Inr yaml \<Rightarrow>
                    (case write_validated (ae_volume e) (ae_yaml e) (ae_ex e) path yaml (st_messages app) (aw_files w) of
                       (Inl er, fs) \<Rightarrow> (Inl er, w\<lparr>aw_files := fs\<rparr>)
                     | (Inr c, fs) \<Rightarrow> (Inr c, w\<lparr>aw_files := fs, aw_app := apply_config_change (ae_reload e) c app\<rparr>)))))"

definition mutate_routes_file :: "api_env \<Rightarrow> mutation \<Rightarrow> api_world \<Rightarrow> (response + gate_config) \<times> api_world" where
  "mutate_routes_file e mutate w =
     (case mutate_routes_task e mutate w of
        (Inr c, w) \<Rightarrow> (Inr c, w)
      | (Inl (Cfg_Error er), w) \<Rightarrow> (Inl (error_response 400 er), w)
      | (Inl Cfg_Panic, w) \<Rightarrow> (Inl (error_response 500 (lit ''task panicked'')), w))"

definition need_host :: str where
  "need_host = lit ''route body must have a non-empty '' @ lit [CHR 39] @ lit ''host'' @ lit [CHR 39] @ lit '' (string or array)''"

definition stale_route :: str where
  "stale_route = lit ''that route'' @ lit [CHR 39] @ lit ''s host set no longer matches anything in config.yml (it may have changed since this index was read) - re-fetch GET /v1/routes and retry''"

text \<open>The route the response shows: the first one with the submitted host set.\<close>

definition shown_route :: "nat \<Rightarrow> str list \<Rightarrow> gate_config \<Rightarrow> response" where
  "shown_route status hosts c =
     (case first_index (\<lambda>r. route_matches_hosts r hosts) (gc_routes c) of
        Some i \<Rightarrow> json_response status (route_json i (gc_routes c ! i))
      | None \<Rightarrow> json_response status (J_Object [field ''routeCount'' (J_Int (int (length (gc_routes c))))]))"

definition edit_reply :: "(gate_config \<Rightarrow> response) \<Rightarrow> (response + gate_config) \<times> api_world \<Rightarrow> response run \<times> api_world" where
  "edit_reply show_ok res = (case res of (Inr c, w) \<Rightarrow> reply (show_ok c) w | (Inl r, w) \<Rightarrow> reply r w)"

definition creating_mutation :: "yaml \<Rightarrow> mutation" where
  "creating_mutation route doc = run_bind (create_route route doc) (\<lambda>doc. Returned (Inr doc))"

definition replacing_mutation :: "str list \<Rightarrow> yaml \<Rightarrow> mutation" where
  "replacing_mutation hosts route doc =
     run_bind (replace_route hosts route doc) (\<lambda>(ok, doc). Returned (if ok then Inr doc else Inl stale_route))"

definition deleting_mutation :: "str list \<Rightarrow> mutation" where
  "deleting_mutation hosts doc =
     run_bind (delete_route hosts doc) (\<lambda>(ok, doc). Returned (if ok then Inr doc else Inl stale_route))"

definition create_route_handler :: "json \<Rightarrow> handler" where
  "create_route_handler body e w =
     (let hosts = route_hosts_from_json body in
      if hosts = [] then reply (error_response 400 need_host) w
      else case ae_to_yaml e body of
        Inl er \<Rightarrow> reply (error_response 400 er) w
      | Inr route \<Rightarrow> edit_reply (shown_route 201 hosts) (mutate_routes_file e (creating_mutation route) w))"

definition update_route_handler :: "nat \<Rightarrow> json \<Rightarrow> handler" where
  "update_route_handler index body e w =
     (case route_at w index of
        None \<Rightarrow> reply not_found w
      | Some existing \<Rightarrow>
          let existing_hosts = map hp_raw (rt_host_patterns existing); new_hosts = route_hosts_from_json body in
          if new_hosts = [] then reply (error_response 400 need_host) w
          else case ae_to_yaml e body of
            Inl er \<Rightarrow> reply (error_response 400 er) w
          | Inr route \<Rightarrow> edit_reply (shown_route 200 new_hosts) (mutate_routes_file e (replacing_mutation existing_hosts route) w))"

definition delete_route_handler :: "nat \<Rightarrow> handler" where
  "delete_route_handler index e w =
     (case route_at w index of
        None \<Rightarrow> reply not_found w
      | Some existing \<Rightarrow>
          edit_reply (\<lambda>c. json_response 200 (J_Object [field ''deleted'' (J_Bool True), field ''routeCount'' (J_Int (int (length (gc_routes c))))]))
            (mutate_routes_file e (deleting_mutation (map hp_raw (rt_host_patterns existing))) w))"

subsection \<open>The router\<close>

datatype api_request = Get_Root | Get_Reference | Get_Openapi | Get_Metrics "str option" | Post_Metrics_Reset
  | Get_Routes | Post_Route json | Get_Route nat | Put_Route nat json | Delete_Route nat | Get_Backends nat
  | Get_Route_Metrics nat | Post_Route_Metrics_Reset nat | Get_Ping nat | Get_Players "nat option" "nat option"

fun api_route :: "str option \<Rightarrow> api_request \<Rightarrow> handler" where
  "api_route auth Get_Root = (\<lambda>e. reply \<lparr>rs_status = 307, rs_body = Redirect_To ''/reference''\<rparr>)"
| "api_route auth Get_Reference = reference_handler"
| "api_route auth Get_Openapi = openapi_handler"
| "api_route auth (Get_Metrics q) = authorized auth (metrics_handler q)"
| "api_route auth Post_Metrics_Reset = authorized auth metrics_reset_all_handler"
| "api_route auth Get_Routes = authorized auth routes_handler"
| "api_route auth (Post_Route b) = authorized auth (create_route_handler b)"
| "api_route auth (Get_Route i) = authorized auth (route_handler i)"
| "api_route auth (Put_Route i b) = authorized auth (update_route_handler i b)"
| "api_route auth (Delete_Route i) = authorized auth (delete_route_handler i)"
| "api_route auth (Get_Backends i) = authorized auth (backends_handler i)"
| "api_route auth (Get_Route_Metrics i) = authorized auth (route_metrics_handler i)"
| "api_route auth (Post_Route_Metrics_Reset i) = authorized auth (route_metrics_reset_handler i)"
| "api_route auth (Get_Ping i) = authorized auth (ping_handler i)"
| "api_route auth (Get_Players l off) = authorized auth (players_handler l off)"

definition serve :: "gate_config \<Rightarrow> externs \<Rightarrow> str + socket_addr option" where
  "serve c ex = (if \<not> api_enabled (gc_api c) then Inr None
     else bind_result (Gate_Config.parse_host_port ex (api_bind (gc_api c)) 8080) (\<lambda>a. Inr (Some a)))"

section \<open>Facts on the edit pipeline\<close>

lemma reply_simps [simp]: "reply r w = (Returned r, w)"
  by (simp add: reply_def)

lemma statuses [simp]: "rs_status (json_response n v) = n" "rs_status (error_response n er) = n" "rs_status not_found = 404" "rs_status unauthorized = 401"
  by (simp_all add: json_response_def error_response_def not_found_def unauthorized_def)

lemma shown_route_status [simp]: "rs_status (shown_route n hosts c) = n"
  by (simp add: shown_route_def split: option.split)

text \<open>What an edit does to the world, whatever the mutation: it succeeds and the file and the live
  configuration agree, or it fails and the live state is untouched.\<close>

definition edit_outcome :: "api_env \<Rightarrow> api_world \<Rightarrow> bool \<Rightarrow> api_world \<Rightarrow> bool" where
  "edit_outcome e w ok w' \<longleftrightarrow>
     (let path = st_config_path (aw_app w) in
      if ok
      then load_config_file (ae_yaml e) (ae_ex e) (aw_files w') path (st_messages (aw_app w)) = Inr (st_config (aw_app w'))
         \<and> aw_app w' = set_config (ae_reload e) (st_config (aw_app w')) (aw_app w)
      else aw_app w' = aw_app w
         \<and> (aw_files w' path = aw_files w path \<or> (\<exists>n. vol_write (ae_volume e) path = Cut_Short n)))
     \<and> aw_sessions w' = aw_sessions w"

lemma st_config_set_config [simp]: "st_config (set_config ev c st) = c"
  by (simp add: set_config_def split: prod.split)

lemma mutate_routes_task_outcome:
  assumes path: "file_name (st_config_path (aw_app w)) = Some name" and run: "mutate_routes_task e mutate w = (res, w')"
  shows "edit_outcome e w (\<exists>c. res = Inr c) w' \<and> (\<forall>c. res = Inr c \<longrightarrow> st_config (aw_app w') = c)"
proof (cases "\<exists>doc doc' yaml. config_document_read (ae_yaml e) (aw_files w) (st_config_path (aw_app w)) = Inr doc
    \<and> mutate doc = Returned (Inr doc') \<and> to_yaml_string (ae_yaml e) doc' = Inr yaml")
  case False
  then have "(\<exists>er. res = Inl er) \<and> w' = w"
    using run by (auto simp: mutate_routes_task_def Let_def split: sum.splits run.splits)
  then show ?thesis by (auto simp: edit_outcome_def Let_def)
next
  case True
  then obtain doc doc' yaml where d: "config_document_read (ae_yaml e) (aw_files w) (st_config_path (aw_app w)) = Inr doc"
    "mutate doc = Returned (Inr doc')" "to_yaml_string (ae_yaml e) doc' = Inr yaml" by blast
  obtain wr fs where wv: "write_validated (ae_volume e) (ae_yaml e) (ae_ex e) (st_config_path (aw_app w)) yaml (st_messages (aw_app w)) (aw_files w) = (wr, fs)"
    by (metis prod.exhaust)
  note spec = write_validated_cases [OF wv tmp_path_differs [OF path]]
  show ?thesis
  proof (cases wr)
    case (Inl er)
    then have "res = Inl er" "w' = w\<lparr>aw_files := fs\<rparr>" using run d wv by (simp_all add: mutate_routes_task_def Let_def)
    then show ?thesis using spec Inl by (auto simp: edit_outcome_def Let_def)
  next
    case (Inr c)
    then have "res = Inr c" "w' = w\<lparr>aw_files := fs, aw_app := apply_config_change (ae_reload e) c (aw_app w)\<rparr>"
      using run d wv by (simp_all add: mutate_routes_task_def Let_def)
    then show ?thesis using spec Inr by (simp add: edit_outcome_def Let_def apply_config_change_def load_config_file_text)
  qed
qed

lemma edit_reply_outcome:
  assumes path: "file_name (st_config_path (aw_app w)) = Some name" and ok: "\<And>c. rs_status (show_ok c) \<in> {200, 201}"
    and run: "edit_reply show_ok (mutate_routes_file e mutate w) = (r, w')"
  shows "\<exists>resp. r = Returned resp \<and> rs_status resp \<in> {200, 201, 400, 500} \<and> edit_outcome e w (rs_status resp \<in> {200, 201}) w'"
proof -
  obtain res w1 where t: "mutate_routes_task e mutate w = (res, w1)" by (metis prod.exhaust)
  note out = mutate_routes_task_outcome [OF path t]
  show ?thesis
  proof (cases res)
    case (Inr c)
    then show ?thesis using run t out ok [of c] by (auto simp: edit_reply_def mutate_routes_file_def)
  next
    case (Inl er)
    then show ?thesis using run t out by (cases er) (auto simp: edit_reply_def mutate_routes_file_def)
  qed
qed

lemma unchanged_outcome: "edit_outcome e w False w"
  by (simp add: edit_outcome_def)

section \<open>Properties\<close>

text \<open>The requests that serve static documentation and those that change the configuration.\<close>

fun is_public :: "api_request \<Rightarrow> bool" where
  "is_public Get_Root = True" | "is_public Get_Reference = True" | "is_public Get_Openapi = True" | "is_public _ = False"

fun is_edit :: "api_request \<Rightarrow> bool" where
  "is_edit (Post_Route _) = True" | "is_edit (Put_Route _ _) = True" | "is_edit (Delete_Route _) = True" | "is_edit _ = False"

fun is_reset :: "api_request \<Rightarrow> bool" where
  "is_reset Post_Metrics_Reset = True" | "is_reset (Post_Route_Metrics_Reset _) = True" | "is_reset _ = False"

text \<open>C40: nothing happens without the token. When a token is configured, a request that does not carry exactly
  it is answered 401 by every endpoint but the documentation, and changes nothing.\<close>

theorem unauthorized_no_effect:
  assumes "api_token (gc_api (st_config (aw_app w))) = Some token" "auth \<noteq> Some (lit ''Bearer '' @ token)" "\<not> is_public req"
  shows "\<exists>resp. api_route auth req e w = (Returned resp, w) \<and> rs_status resp = 401"
  using assms by (cases req) (simp_all add: authorized_def check_auth_def aw_config_def)

lemma frame_on_runtime:
  "aw_files (on_runtime i f w) = aw_files w" "aw_sessions (on_runtime i f w) = aw_sessions w"
  "(\<exists>a. aw_app (on_runtime i f w) = (aw_app w)\<lparr>st_arena := a\<rparr>)"
  by (auto simp: on_runtime_def split: option.split intro: exI [of _ "st_arena (aw_app w)"])

definition only_arena :: "api_world \<Rightarrow> api_world \<Rightarrow> bool" where
  "only_arena w w' \<longleftrightarrow> aw_files w' = aw_files w \<and> aw_sessions w' = aw_sessions w \<and> (\<exists>a. aw_app w' = (aw_app w)\<lparr>st_arena := a\<rparr>)"

lemma only_arena_refl [simp]: "only_arena w w"
  by (auto simp: only_arena_def intro: exI [of _ "st_arena (aw_app w)"])

lemma only_arena_trans: "only_arena w w1 \<Longrightarrow> only_arena w1 w2 \<Longrightarrow> only_arena w w2"
  by (auto simp: only_arena_def)

lemma only_arena_runtime: "only_arena w (on_runtime i f w)"
  using frame_on_runtime by (simp add: only_arena_def)

lemma only_arena_pings: "only_arena w (fold (note_latency e r i) addrs w)"
proof (induction addrs arbitrary: w)
  case (Cons a addrs)
  have "only_arena w (note_latency e r i a w)" by (simp add: note_latency_def only_arena_runtime split: sum.split)
  then show ?case using Cons.IH only_arena_trans by simp
qed simp

text \<open>Reading changes nothing but measurements. A request that neither edits a route nor resets a counter
  leaves the files, the sessions, the configuration, the messages and every service as they were; only
  latency readings of the runtimes may differ.\<close>

theorem reads_change_only_measurements:
  assumes "\<not> is_edit req" "\<not> is_reset req"
  shows "only_arena w (snd (api_route auth req e w))"
  using assms
  by (cases req) (auto simp: authorized_def metrics_handler_def routes_handler_def route_handler_def backends_handler_def route_metrics_handler_def
      players_handler_def ping_handler_def reference_handler_def openapi_handler_def only_arena_runtime only_arena_pings
      split: option.split run.split sum.split)

text \<open>C17: the file and the live configuration stay in step. Whatever route edit arrives, it is answered with
  success, and then config.yml loads to exactly the configuration that is now live; or it is answered
  with an error, and then the live state is untouched and so is the file, unless the disk cut the final
  write short.\<close>

theorem route_edit_in_step:
  assumes path: "file_name (st_config_path (aw_app w)) = Some name" and edit: "is_edit req"
    and run: "api_route auth req e w = (r, w')"
  shows "\<exists>resp. r = Returned resp \<and> rs_status resp \<in> {200, 201, 400, 401, 404, 500} \<and> edit_outcome e w (rs_status resp \<in> {200, 201}) w'"
proof (cases "check_auth auth w")
  case False
  then have "r = Returned unauthorized" "w' = w" using edit run by (cases req; simp add: authorized_def)+
  then show ?thesis using unchanged_outcome by simp
next
  case auth: True
  note out = edit_reply_outcome [OF path]
  show ?thesis
  proof (cases req)
    case (Post_Route b)
    then show ?thesis
      using run auth out [of "shown_route 201 (route_hosts_from_json b)" e _ r w'] unchanged_outcome
      by (auto simp: authorized_def create_route_handler_def Let_def split: if_splits sum.splits)
  next
    case (Put_Route i b)
    then show ?thesis
      using run auth out [of "shown_route 200 (route_hosts_from_json b)" e _ r w'] unchanged_outcome
      by (auto simp: authorized_def update_route_handler_def Let_def split: if_splits sum.splits option.splits)
  next
    case (Delete_Route i)
    then show ?thesis
      using run auth out [of "\<lambda>c. json_response 200 (J_Object [field ''deleted'' (J_Bool True), field ''routeCount'' (J_Int (int (length (gc_routes c))))])" e _ r w']
        unchanged_outcome
      by (auto simp: authorized_def delete_route_handler_def Let_def split: option.splits)
  qed (use edit in simp_all)
qed

text \<open>What the disk and the YAML library have to do for an edit of a document to go through.\<close>

definition goes_through :: "api_env \<Rightarrow> str \<Rightarrow> config_document \<Rightarrow> bool" where
  "goes_through e path d \<longleftrightarrow> vol_write (ae_volume e) path = Written
     \<and> vol_write (ae_volume e) (path_with_extension path (lit ''yml.tmp-validate'')) = Written
     \<and> (\<exists>text. yl_print (ae_yaml e) (cd_root d) = Inr text \<and> yl_parse (ae_yaml e) text = Inr (cd_root d))"

lemma write_validated_succeeds:
  assumes path: "file_name path = Some name" and w: "vol_write vol path = Written" "vol_write vol (path_with_extension path (lit ''yml.tmp-validate'')) = Written"
    and loads: "load_text yl ex ms text = Inr c"
  shows "\<exists>fs'. write_validated vol yl ex path text ms fs = (Inr c, fs') \<and> fs' path = Some text"
  using w loads tmp_path_differs [OF path] by (auto simp: write_validated_def Let_def fs_write_def load_config_file_text)

lemma config_document_read_doc:
  assumes "fs path = Some text" "yl_parse yl text = Inr (cd_root d)" "doc_ok d"
  shows "config_document_read yl fs path = Inr d"
  using assms by (cases d) (auto simp: config_document_read_def doc_ok_def)

lemma mutate_routes_task_succeeds:
  assumes read: "config_document_read (ae_yaml e) (aw_files w) (st_config_path (aw_app w)) = Inr d"
    and edit: "mutate d = Returned (Inr d')" "doc_ok d'" and path: "file_name (st_config_path (aw_app w)) = Some name"
    and through: "goes_through e (st_config_path (aw_app w)) d'"
    and loads: "load_config (ae_ex e) (st_messages (aw_app w)) (cd_root d') = Inr c"
  shows "\<exists>w'. mutate_routes_task e mutate w = (Inr c, w') \<and> aw_app w' = set_config (ae_reload e) c (aw_app w)
    \<and> config_document_read (ae_yaml e) (aw_files w') (st_config_path (aw_app w)) = Inr d'"
proof -
  let ?path = "st_config_path (aw_app w)"
  obtain t where t: "yl_print (ae_yaml e) (cd_root d') = Inr t" "yl_parse (ae_yaml e) t = Inr (cd_root d')"
    using through by (auto simp: goes_through_def)
  have lt: "load_text (ae_yaml e) (ae_ex e) (st_messages (aw_app w)) t = Inr c" using t(2) loads by (simp add: load_text_def cfg_def)
  obtain fs where fs: "write_validated (ae_volume e) (ae_yaml e) (ae_ex e) ?path t (st_messages (aw_app w)) (aw_files w) = (Inr c, fs)"
      "fs ?path = Some t"
    using write_validated_succeeds [OF path _ _ lt, of "ae_volume e" "aw_files w"] through by (auto simp: goes_through_def)
  have "to_yaml_string (ae_yaml e) d' = Inr t" using t(1) by (simp add: to_yaml_string_def)
  then have "mutate_routes_task e mutate w = (Inr c, w\<lparr>aw_files := fs, aw_app := set_config (ae_reload e) c (aw_app w)\<rparr>)"
    using read edit(1) fs(1) by (simp add: mutate_routes_task_def Let_def apply_config_change_def)
  moreover have "config_document_read (ae_yaml e) fs ?path = Inr d'" using config_document_read_doc [of fs ?path t "ae_yaml e" d'] fs(2) t(2) edit(2) by simp
  ultimately show ?thesis by simp
qed

text \<open>C21: a submitted route becomes live. When config.yml loads to the routes \<open>rs\<close> and the body of an authorized
  POST is a route entry for \<open>r\<close> with at least one host, then, as long as the disk takes the writes and the
  YAML library reads back what it printed, the answer is 201, the file now lists \<open>rs\<close> followed by \<open>r\<close>, and
  the live configuration is the old one with these routes in routing order.\<close>

theorem posted_route_goes_live:
  assumes auth: "check_auth auth w" and path: "file_name (st_config_path (aw_app w)) = Some name"
    and read: "config_document_read (ae_yaml e) (aw_files w) (st_config_path (aw_app w)) = Inr d"
    and loads: "loads_routes (ae_ex e) (st_messages (aw_app w)) d rs g"
    and body: "route_hosts_from_json b \<noteq> []" "ae_to_yaml e b = Inr new" "parse_entry (ae_ex e) (st_messages (aw_app w)) new 0 = Inr r"
    and edit: "create_route new d = Returned d'" and through: "goes_through e (st_config_path (aw_app w)) d'"
  shows "\<exists>resp w'. api_route auth (Post_Route b) e w = (Returned resp, w') \<and> rs_status resp = 201
    \<and> st_config (aw_app w') = g\<lparr>gc_routes := sort_routes (rs @ [r])\<rparr>
    \<and> config_document_read (ae_yaml e) (aw_files w') (st_config_path (aw_app w)) = Inr d'
    \<and> loads_routes (ae_ex e) (st_messages (aw_app w)) d' (rs @ [r]) g"
proof -
  have "list_all2 (\<lambda>v r. parse_entry (ae_ex e) (st_messages (aw_app w)) v 0 = Inr r) (raw_routes_of (section_of d)) rs"
    using loads by (simp add: loads_routes_def)
  then have "list_all2 (\<lambda>v r. parse_entry (ae_ex e) (st_messages (aw_app w)) v 0 = Inr r) (raw_routes_of (section_of d) @ [new]) (rs @ [r])"
    using body(3) by (simp add: list_all2_appendI)
  then have live: "loads_routes (ae_ex e) (st_messages (aw_app w)) d' (rs @ [r]) g"
    using creating.edit_refines [OF loads, of new d'] edit by (simp add: run_bind_def)
  then have "load_config (ae_ex e) (st_messages (aw_app w)) (cd_root d') = Inr (g\<lparr>gc_routes := sort_routes (rs @ [r])\<rparr>)" "doc_ok d'"
    by (simp_all add: loads_routes_def)
  from mutate_routes_task_succeeds [OF read _ this(2) path through this(1), of "creating_mutation new"] edit
  obtain w' where w': "mutate_routes_task e (creating_mutation new) w = (Inr (g\<lparr>gc_routes := sort_routes (rs @ [r])\<rparr>), w')"
    "aw_app w' = set_config (ae_reload e) (g\<lparr>gc_routes := sort_routes (rs @ [r])\<rparr>) (aw_app w)"
    "config_document_read (ae_yaml e) (aw_files w') (st_config_path (aw_app w)) = Inr d'"
    by (auto simp: creating_mutation_def run_bind_def)
  then have "api_route auth (Post_Route b) e w = (Returned (shown_route 201 (route_hosts_from_json b) (g\<lparr>gc_routes := sort_routes (rs @ [r])\<rparr>)), w')"
    using auth body by (simp add: authorized_def create_route_handler_def Let_def edit_reply_def mutate_routes_file_def)
  with w' live show ?thesis by simp
qed

text \<open>An update or a deletion, which is told the hosts of the live route at the index, works on an entry that
  has exactly these hosts: the document it leaves behind is the one found on disk with such an entry replaced or removed.\<close>

theorem edits_target_the_indexed_hosts:
  assumes read: "config_document_read yl fs path = Inr d"
    and edit: "replacing_mutation existing_hosts new d = Returned (Inr d') \<or> deleting_mutation existing_hosts d = Returned (Inr d')"
  shows "\<exists>i. i < length (raw_routes_of (section_of d)) \<and> set (route_hosts (raw_routes_of (section_of d) ! i)) = set existing_hosts
    \<and> (raw_routes_of (section_of d') = (raw_routes_of (section_of d))[i := new]
       \<or> raw_routes_of (section_of d') = take i (raw_routes_of (section_of d)) @ drop (Suc i) (raw_routes_of (section_of d)))"
proof -
  let ?s = "raw_routes_of (section_of d)"
  note ok = config_document_read_ok [OF read]
  from edit show ?thesis
  proof
    assume "replacing_mutation existing_hosts new d = Returned (Inr d')"
    then have "replace_route existing_hosts new d = Returned (True, d')"
      by (auto simp: replacing_mutation_def run_bind_def split: run.splits if_splits)
    from replacing.edit_spec [OF ok this] obtain i where "find_route_index ?s existing_hosts = Some i" "raw_routes_of (section_of d') = ?s[i := new]"
      by (auto split: option.splits)
    then show ?thesis using first_index_Some(1,2) [of "\<lambda>r. set (route_hosts r) = set existing_hosts" ?s i] by (auto simp: find_route_index_def)
  next
    assume "deleting_mutation existing_hosts d = Returned (Inr d')"
    then have "delete_route existing_hosts d = Returned (True, d')"
      by (auto simp: deleting_mutation_def run_bind_def split: run.splits if_splits)
    from deleting.edit_spec [OF ok this] obtain i where "find_route_index ?s existing_hosts = Some i"
        "raw_routes_of (section_of d') = take i ?s @ drop (Suc i) ?s"
      by (auto split: option.splits)
    then show ?thesis using first_index_Some(1,2) [of "\<lambda>r. set (route_hosts r) = set existing_hosts" ?s i] by (auto simp: find_route_index_def)
  qed
qed

section \<open>Defects\<close>

text \<open>The two halves of the edit task: everything up to the printed document, and the write. No lock spans
  them.\<close>

definition edit_read :: "api_env \<Rightarrow> mutation \<Rightarrow> str \<Rightarrow> files \<Rightarrow> cfg_error + str" where
  "edit_read e mutate path fs =
     bind_result (config_document_read (ae_yaml e) fs path) (\<lambda>doc.
       case mutate doc of Panicked \<Rightarrow> Inl Cfg_Panic | Returned (Inl er) \<Rightarrow> Inl (Cfg_Error er) | Returned (Inr doc) \<Rightarrow> to_yaml_string (ae_yaml e) doc)"

definition edit_write :: "api_env \<Rightarrow> str \<Rightarrow> api_world \<Rightarrow> (cfg_error + gate_config) \<times> api_world" where
  "edit_write e yaml w =
     (case write_validated (ae_volume e) (ae_yaml e) (ae_ex e) (st_config_path (aw_app w)) yaml (st_messages (aw_app w)) (aw_files w) of
        (Inl er, fs) \<Rightarrow> (Inl er, w\<lparr>aw_files := fs\<rparr>)
      | (Inr c, fs) \<Rightarrow> (Inr c, w\<lparr>aw_files := fs, aw_app := apply_config_change (ae_reload e) c (aw_app w)\<rparr>))"

lemma mutate_routes_task_split:
  "mutate_routes_task e mutate w =
     (case edit_read e mutate (st_config_path (aw_app w)) (aw_files w) of Inl er \<Rightarrow> (Inl er, w) | Inr yaml \<Rightarrow> edit_write e yaml w)"
  by (auto simp: mutate_routes_task_def edit_read_def edit_write_def bind_result_def Let_def split: sum.split run.split)

text \<open>A lost update. When two edits read the file before either writes, the second write wins: the live
  configuration and the file are the ones of the second edit alone, and both were answered with success.\<close>

theorem concurrent_edit_lost:
  assumes first: "edit_read e m1 (st_config_path (aw_app w)) (aw_files w) = Inr t1" "edit_write e t1 w = (Inr c1, w1)"
    and second: "edit_read e m2 (st_config_path (aw_app w)) (aw_files w) = Inr t2" "edit_write e t2 w1 = (Inr c2, w2)"
    and path: "file_name (st_config_path (aw_app w)) = Some name"
  shows "aw_files w2 (st_config_path (aw_app w)) = Some t2 \<and> st_config (aw_app w2) = c2
    \<and> load_text (ae_yaml e) (ae_ex e) (st_messages (aw_app w)) t2 = Inr c2"
proof -
  have keep: "st_config_path (aw_app w1) = st_config_path (aw_app w)" "st_messages (aw_app w1) = st_messages (aw_app w)"
    using first(2) by (auto simp: edit_write_def apply_config_change_def set_config_def split: prod.splits sum.splits)
  obtain fs where wv: "write_validated (ae_volume e) (ae_yaml e) (ae_ex e) (st_config_path (aw_app w)) t2 (st_messages (aw_app w)) (aw_files w1) = (Inr c2, fs)"
    "w2 = w1\<lparr>aw_files := fs, aw_app := apply_config_change (ae_reload e) c2 (aw_app w1)\<rparr>"
    using second(2) keep by (auto simp: edit_write_def split: prod.splits sum.splits)
  then show ?thesis using write_validated_cases [OF wv(1) tmp_path_differs [OF path]] by (simp add: apply_config_change_def)
qed

text \<open>A failure of the disk is answered 400, the answer for a bad request, although the documentation of the
  pipeline says that an I/O failure is answered 500.\<close>

theorem disk_failure_blames_caller:
  assumes "edit_read e mutate (st_config_path (aw_app w)) (aw_files w) = Inr yaml"
    and "vol_write (ae_volume e) (path_with_extension (st_config_path (aw_app w)) (lit ''yml.tmp-validate'')) = Not_Opened"
  shows "\<exists>resp. mutate_routes_file e mutate w = (Inl resp, w) \<and> rs_status resp = 400"
  using assms by (simp add: mutate_routes_file_def mutate_routes_task_split edit_write_def write_validated_def Let_def fs_write_def)

text \<open>A route whose host is written as a number is live under the text of the number, but the editor only
  looks at strings: updating or deleting it by index is answered 400 as if the file had changed.\<close>

theorem numeric_host_not_editable:
  assumes "as_map v = Some m" "get m ''host'' = Some (Y_Int n)" "parse_route ex m i ms = Inr r"
  shows "map hp_raw (rt_host_patterns r) = [show_int n] \<and> find_route_index [v] (map hp_raw (rt_host_patterns r)) = None"
proof -
  have "map hp_raw (rt_host_patterns r) = [show_int n]"
    using assms(2,3) by (auto simp: parse_route_def bind_result_Inr_iff string_list_def value_to_string_def host_pattern_new_def Let_def split: option.splits)
  moreover have "route_hosts v = []" using assms(1,2) by (simp add: route_hosts_def)
  ultimately show ?thesis by (simp add: find_route_index_def first_index_def)
qed

section \<open>Examples\<close>

definition demo_entry :: yaml where
  "demo_entry = raw_routes_of (section_of demo_doc) ! 0"

definition grown_doc :: config_document where
  "grown_doc = (case create_route demo_entry demo_doc of Returned d \<Rightarrow> d | Panicked \<Rightarrow> demo_doc)"

text \<open>A YAML library that knows the example document and its extension by one route.\<close>

definition growing_yaml :: yaml_lib where
  "growing_yaml = \<lparr>yl_parse = (\<lambda>t. if t = lit ''grown'' then Inr (cd_root grown_doc) else yl_parse demo_yaml t), yl_print = (\<lambda>_. Inr (lit ''grown''))\<rparr>"

definition demo_api_env :: "yaml_lib \<Rightarrow> volume \<Rightarrow> api_env" where
  "demo_api_env yl vol = \<lparr>ae_volume = vol, ae_yaml = yl, ae_ex = demo_externs, ae_reload = demo_reload, ae_to_yaml = (\<lambda>_. Inr demo_entry),
     ae_resolve = (\<lambda>_ _. Inr (SocketAddr (V4 10 0 0 1) 25565)), ae_now = 0, ae_uptime = 0, ae_dial = (\<lambda>_ _. Connect_Late), ae_parse_json = (\<lambda>_. None),
     ae_view = \<lparr>ve_uuid_text = (\<lambda>_. []), ve_float_text = (\<lambda>_. []), ve_client_ping = (\<lambda>_. None)\<rparr>, ae_openapi = [], ae_reference = []\<rparr>"

definition demo_world :: "string list \<Rightarrow> api_world" where
  "demo_world hosts = \<lparr>aw_app = (demo_app hosts)\<lparr>st_messages := demo_messages\<rparr>, aw_files = demo_files, aw_sessions = [], aw_live_pings = 0\<rparr>"

definition guarded_world :: api_world where
  "guarded_world = (demo_world [''a''])\<lparr>aw_app := (demo_app [''a''])\<lparr>st_config := (demo_config [''a''])\<lparr>gc_api := (gc_api (demo_config [''a'']))\<lparr>api_token := Some (lit ''s'')\<rparr>\<rparr>\<rparr>\<rparr>"

definition read_only :: volume where
  "read_only = demo_volume\<lparr>vol_write := \<lambda>_. Not_Opened\<rparr>"

lemma demo_world_simps [simp]:
  "st_config_path (aw_app (demo_world hosts)) = lit ''gate.yml''" "st_messages (aw_app (demo_world hosts)) = demo_messages"
  "aw_files (demo_world hosts) = demo_files" "st_config (aw_app (demo_world hosts)) = demo_config hosts"
  by (simp_all add: demo_world_def demo_app_def app_state_new_def split: prod.split)

lemma demo_env_simps [simp]:
  "ae_volume (demo_api_env yl vol) = vol" "ae_yaml (demo_api_env yl vol) = yl" "ae_ex (demo_api_env yl vol) = demo_externs"
  "ae_reload (demo_api_env yl vol) = demo_reload" "ae_to_yaml (demo_api_env yl vol) b = Inr demo_entry"
  by (simp_all add: demo_api_env_def)

lemma demo_world_open [simp]: "check_auth auth (demo_world hosts)"
  by (simp add: check_auth_def aw_config_def demo_config_def gate_config_default_def api_default_def)

lemma grown: "create_route demo_entry demo_doc = Returned grown_doc"
  using demo_delete(3) by (auto simp: grown_doc_def create_route_def delete_route_def run_bind_def split: run.splits)

lemma demo_yaml_print: "yl_print demo_yaml d = Inr (lit ''demo'')"
  by (simp add: demo_yaml_def)

lemma demo_volume_written [simp]: "p \<noteq> lit ''full.yml'' \<Longrightarrow> vol_write demo_volume p = Written"
  by (simp add: demo_volume_def)

lemma demo_tmp_path: "path_with_extension (lit ''gate.yml'') (lit ''yml.tmp-validate'') \<noteq> lit ''full.yml''"
  by (simp add: path_with_extension_def demo_file_name) (simp add: path_dir_def path_trunk_def file_stem_def rsplit_once_def lit_def)

lemma goes_through_demo: "goes_through (demo_api_env growing_yaml demo_volume) (lit ''gate.yml'') grown_doc"
  using demo_tmp_path by (simp add: goes_through_def growing_yaml_def lit_def)

lemma growing_read: "config_document_read growing_yaml demo_files (lit ''gate.yml'') = Inr demo_doc"
  using demo_doc_read by (simp add: config_document_read_def growing_yaml_def demo_files_def lit_def)

theorem unauthorized_no_effect_witness:
  "\<exists>resp. api_route None (Delete_Route 0) (demo_api_env demo_yaml demo_volume) guarded_world = (Returned resp, guarded_world) \<and> rs_status resp = 401"
  by (rule unauthorized_no_effect [of _ "lit ''s''"]) (simp_all add: guarded_world_def)

theorem reads_change_only_measurements_witness:
  "only_arena (demo_world [''a'']) (snd (api_route None (Get_Ping 0) (demo_api_env demo_yaml demo_volume) (demo_world [''a''])))"
  by (rule reads_change_only_measurements) simp_all

theorem route_edit_in_step_witness:
  "\<exists>resp w'. api_route None (Post_Route J_Null) (demo_api_env demo_yaml demo_volume) (demo_world [''a'']) = (Returned resp, w')
     \<and> edit_outcome (demo_api_env demo_yaml demo_volume) (demo_world [''a'']) (rs_status resp \<in> {200, 201}) w'"
proof -
  obtain r w' where run: "api_route None (Post_Route J_Null) (demo_api_env demo_yaml demo_volume) (demo_world [''a'']) = (r, w')"
    by (metis prod.exhaust)
  then show ?thesis using route_edit_in_step [OF _ _ run, of "lit ''gate.yml''"] demo_file_name(1) by auto
qed

theorem posted_route_goes_live_witness:
  "\<exists>resp w'. api_route None (Post_Route (J_Object [field ''host'' (J_String (lit ''a''))])) (demo_api_env growing_yaml demo_volume) (demo_world [''a'']) = (Returned resp, w')
     \<and> rs_status resp = 201 \<and> length (gc_routes (st_config (aw_app w'))) = 3"
proof -
  obtain rs g where rs: "length rs = 2" "loads_routes demo_externs demo_messages demo_doc rs g" using demo_loads_routes by blast
  have "\<exists>r. parse_entry demo_externs demo_messages demo_entry 0 = Inr r"
    using rs by (auto simp: loads_routes_def list_all2_conv_all_nth demo_entry_def)
  then obtain r where r: "parse_entry demo_externs demo_messages demo_entry 0 = Inr r" ..
  have b: "route_hosts_from_json (J_Object [field ''host'' (J_String (lit ''a''))]) = [lit ''a'']"
    by (simp add: route_hosts_from_json_def field_def hm_get_def)
  show ?thesis
    using posted_route_goes_live [of None "demo_world [''a'']" "lit ''gate.yml''" "demo_api_env growing_yaml demo_volume" demo_doc rs g
        "J_Object [field ''host'' (J_String (lit ''a''))]" demo_entry r grown_doc]
      demo_file_name(1) growing_read rs r grown goes_through_demo b
    by (auto simp: sort_routes_def)
qed

theorem edits_target_the_indexed_hosts_witness:
  "\<exists>d' i. deleting_mutation [lit ''a''] demo_doc = Returned (Inr d') \<and> i < length (raw_routes_of (section_of demo_doc))
     \<and> set (route_hosts (raw_routes_of (section_of demo_doc) ! i)) = {lit ''a''}"
proof -
  obtain d' where d': "deleting_mutation [lit ''a''] demo_doc = Returned (Inr d')"
    using demo_delete(3) by (auto simp: deleting_mutation_def run_bind_def)
  then show ?thesis using edits_target_the_indexed_hosts [OF demo_doc_read, of "[lit ''a'']" Y_Null d'] by auto
qed

theorem disk_failure_blames_caller_witness:
  "\<exists>resp. mutate_routes_file (demo_api_env demo_yaml read_only) (creating_mutation demo_entry) (demo_world [''a'']) = (Inl resp, demo_world [''a''])
     \<and> rs_status resp = 400"
  by (rule disk_failure_blames_caller [of _ _ _ "lit ''demo''"])
    (simp_all add: read_only_def edit_read_def demo_doc_read creating_mutation_def grown run_bind_def to_yaml_string_def demo_yaml_print bind_result_def)

lemma numeric_host_loads:
  assumes "get m ''host'' = Some (Y_Int n)" and "get m ''backend'' = Some (Y_String b)"
    and "get m ''reconnect'' = None" and "get m ''metrics'' = None" and "get m ''strategy'' = None"
    and "get m ''cachePingTTL'' = None"
  shows "\<exists>r. parse_route demo_externs m i demo_messages = Inr r"
  using assms
  by (simp add: parse_route_def strategy_parse_def get_str_def get_map_def parse_reconnect_def demo_messages_def Let_def
      string_list_def render_reconnect_text_def run_bind_def of_run_def parse_metrics_def cfg_def default_ping_ttl)

theorem numeric_host_not_editable_witness:
  "\<exists>r. parse_route demo_externs [(Y_String (lit ''host''), Y_Int 7), (Y_String (lit ''backend''), Y_String (lit ''x''))] 0 demo_messages = Inr r
     \<and> map hp_raw (rt_host_patterns r) = [lit ''7'']"
proof -
  let ?m = "[(Y_String (lit ''host''), Y_Int 7), (Y_String (lit ''backend''), Y_String (lit ''x''))]"
  have "\<exists>r. parse_route demo_externs ?m 0 demo_messages = Inr r"
    by (rule numeric_host_loads [of _ 7 "lit ''x''"]) (simp_all add: get_def lit_def)
  then obtain r where r: "parse_route demo_externs ?m 0 demo_messages = Inr r" ..
  have "map hp_raw (rt_host_patterns r) = [show_int 7]"
    using numeric_host_not_editable [OF _ _ r, of "Y_Map ?m" 7] by (simp add: as_map_def get_def lit_def)
  then show ?thesis using r by (auto simp: show_int_def show_nat.simps lit_def)
qed

lemma growing_edit:
  assumes "st_config_path (aw_app w) = lit ''gate.yml''" "st_messages (aw_app w) = demo_messages"
  shows "\<exists>c w'. edit_write (demo_api_env growing_yaml demo_volume) (lit ''grown'') w = (Inr c, w')"
proof -
  obtain rs g where rs: "length rs = 2" "loads_routes demo_externs demo_messages demo_doc rs g" using demo_loads_routes by blast
  then have entry: "\<exists>r. parse_entry demo_externs demo_messages demo_entry 0 = Inr r"
      "list_all2 (\<lambda>v r. parse_entry demo_externs demo_messages v 0 = Inr r) (raw_routes_of (section_of demo_doc)) rs"
    by (auto simp: loads_routes_def list_all2_conv_all_nth demo_entry_def)
  then obtain r where "parse_entry demo_externs demo_messages demo_entry 0 = Inr r" by blast
  then have "list_all2 (\<lambda>v r. parse_entry demo_externs demo_messages v 0 = Inr r) (raw_routes_of (section_of demo_doc) @ [demo_entry]) (rs @ [r])"
    using entry(2) by (simp add: list_all2_appendI)
  then have "loads_routes demo_externs demo_messages grown_doc (rs @ [r]) g"
    using creating.edit_refines [OF rs(2), of demo_entry grown_doc] grown by (simp add: run_bind_def)
  then have "load_text growing_yaml demo_externs demo_messages (lit ''grown'') = Inr (g\<lparr>gc_routes := sort_routes (rs @ [r])\<rparr>)"
    by (simp add: load_text_def cfg_def growing_yaml_def loads_routes_def)
  from write_validated_succeeds [OF demo_file_name(1) _ _ this, of demo_volume "aw_files w"] show ?thesis
    using assms demo_tmp_path by (auto simp: edit_write_def lit_def)
qed

theorem concurrent_edit_lost_witness:
  "\<exists>t1 t2 c1 c2 w1 w2. edit_read (demo_api_env growing_yaml demo_volume) (creating_mutation demo_entry) (lit ''gate.yml'') demo_files = Inr t1
     \<and> edit_write (demo_api_env growing_yaml demo_volume) t1 (demo_world [''a'']) = (Inr c1, w1)
     \<and> edit_read (demo_api_env growing_yaml demo_volume) (deleting_mutation [lit ''a'']) (lit ''gate.yml'') demo_files = Inr t2
     \<and> edit_write (demo_api_env growing_yaml demo_volume) t2 w1 = (Inr c2, w2) \<and> st_config (aw_app w2) = c2"
proof -
  let ?e = "demo_api_env growing_yaml demo_volume" and ?w = "demo_world [''a'']"
  obtain d where d: "delete_route [lit ''a''] demo_doc = Returned (True, d)" using demo_delete(3) by blast
  have printed: "to_yaml_string growing_yaml d = Inr (lit ''grown'')" for d by (simp add: to_yaml_string_def growing_yaml_def)
  have reads: "edit_read ?e (creating_mutation demo_entry) (lit ''gate.yml'') demo_files = Inr (lit ''grown'')"
      "edit_read ?e (deleting_mutation [lit ''a'']) (lit ''gate.yml'') demo_files = Inr (lit ''grown'')"
    by (simp_all add: edit_read_def growing_read creating_mutation_def deleting_mutation_def grown d run_bind_def printed bind_result_def)
  obtain c1 w1 where 1: "edit_write ?e (lit ''grown'') ?w = (Inr c1, w1)" using growing_edit [of ?w] by auto
  have "st_config_path (aw_app w1) = lit ''gate.yml''" "st_messages (aw_app w1) = demo_messages"
    using 1 by (auto simp: edit_write_def apply_config_change_def set_config_def split: prod.splits sum.splits)
  then obtain c2 w2 where 2: "edit_write ?e (lit ''grown'') w1 = (Inr c2, w2)" using growing_edit by blast
  have "st_config (aw_app w2) = c2"
    using concurrent_edit_lost [of ?e "creating_mutation demo_entry" ?w _ c1 w1 "deleting_mutation [lit ''a'']" _ c2 w2 "lit ''gate.yml''"]
      reads 1 2 demo_file_name(1) by simp
  with reads 1 2 show ?thesis by blast
qed

end
