(* ===== verification/Gate_Console.thy ===== *)
theory Gate_Console
  imports Gate_Api Session_Relay Admission
begin

text \<open>
  The operator console, \<open>src/console.rs\<close>, and the graceful stop of \<open>src/main.rs\<close> it shares with Ctrl+C:
  reading a command line, every command with its effects and the lines it logs.

  A line is handled to completion before the next one is read. The world adds to the one of the admin API
  the ban list, the connections whose disconnect notification was fired, in order, and the lines logged.
  Terminal handling (line editing, history, the external printer) belongs to a library.
\<close>

section \<open>Definitions\<close>

record console_env =
  ce_api :: api_env
  ce_uptime :: duration
  ce_version :: str

record console_world =
  cw_gate :: api_world
  cw_bans :: ip_ban_list
  cw_woken :: "nat list"
  cw_log :: "str list"

definition ce_lc :: "console_env \<Rightarrow> str \<Rightarrow> str" where
  "ce_lc e = ex_lc (ae_ex (ce_api e))"

definition info :: "str \<Rightarrow> console_world \<Rightarrow> console_world" where
  "info line w = w\<lparr>cw_log := cw_log w @ [line]\<rparr>"

definition on_gate :: "(api_world \<Rightarrow> api_world) \<Rightarrow> console_world \<Rightarrow> console_world" where
  "on_gate f w = w\<lparr>cw_gate := f (cw_gate w)\<rparr>"

definition quoted :: "str \<Rightarrow> str" where
  "quoted s = 39 # s @ [39]"

definition live_sessions :: "console_env \<Rightarrow> console_world \<Rightarrow> player_session list" where
  "live_sessions e w = sessions_all (ce_lc e) (aw_sessions (cw_gate w))"

definition live_routes :: "console_world \<Rightarrow> route list" where
  "live_routes w = gc_routes (aw_config (cw_gate w))"

definition names_of :: "player_session list \<Rightarrow> str" where
  "names_of ss = join_with (lit '', '') (map ps_name ss)"

definition hosts_text :: "route \<Rightarrow> str" where
  "hosts_text r = join_with (lit '', '') (map hp_raw (rt_host_patterns r))"

subsection \<open>Cutting a line into words\<close>

text \<open>\<open>&s[n..]\<close> on a text: it panics unless byte \<open>n\<close> starts a character or ends the text.\<close>

fun str_from :: "nat \<Rightarrow> str \<Rightarrow> str run" where
  "str_from 0 s = Returned s"
| "str_from (Suc n) [] = Panicked"
| "str_from (Suc n) (c # s) =
     (let k = length (utf8_encode_char c) in if k \<le> Suc n then str_from (Suc n - k) s else Panicked)"

text \<open>\<open>splitn(2, ' ')\<close>: the part before the first space, and the part behind it if there is a space.\<close>

definition splitn_2 :: "str \<Rightarrow> str \<times> str option" where
  "splitn_2 s = (takeWhile (\<lambda>c. c \<noteq> 32) s, case dropWhile (\<lambda>c. c \<noteq> 32) s of [] \<Rightarrow> None | _ # r \<Rightarrow> Some r)"

function split_whitespace :: "str \<Rightarrow> str list" where
  "split_whitespace [] = []"
| "split_whitespace (c # s) =
     (if is_whitespace c then split_whitespace s
      else (c # takeWhile (\<lambda>c. \<not> is_whitespace c) s) # split_whitespace (dropWhile (\<lambda>c. \<not> is_whitespace c) s))"
  by pat_completeness auto
termination
  by (relation "measure length") (auto simp: le_imp_less_Suc length_dropWhile_le)

definition nonempty :: "str option \<Rightarrow> str option" where
  "nonempty x = (case x of Some s \<Rightarrow> if trim s = [] then None else Some (trim s) | None \<Rightarrow> None)"

subsection \<open>Text of numbers\<close>

definition format_duration :: "duration \<Rightarrow> str" where
  "format_duration d =
     (let total_seconds = as_secs d; days = total_seconds div 86400; hours = total_seconds mod 86400 div 3600;
          minutes = total_seconds mod 3600 div 60; seconds = total_seconds mod 60 in
      if days > 0 then show_nat days @ lit ''d '' @ show_nat hours @ lit ''h '' @ show_nat minutes @ lit ''m''
      else if hours > 0 then show_nat hours @ lit ''h '' @ show_nat minutes @ lit ''m '' @ show_nat seconds @ lit ''s''
      else if minutes > 0 then show_nat minutes @ lit ''m '' @ show_nat seconds @ lit ''s''
      else show_nat seconds @ lit ''s'')"

text \<open>Division rounded to the nearest integer, a tie to the even one, as IEEE arithmetic and the formatting of
  floating point numbers round.\<close>

definition div_half_even :: "nat \<Rightarrow> nat \<Rightarrow> nat" where
  "div_half_even a b =
     (let q = a div b; r = a mod b in if b < 2 * r \<or> 2 * r = b \<and> odd q then q + 1 else q)"

text \<open>\<open>n as f64\<close> for a 64-bit number: exact below 2^53, otherwise rounded to 53 significant bits.\<close>

fun as_f64_at :: "nat \<Rightarrow> nat \<Rightarrow> nat" where
  "as_f64_at 0 n = n"
| "as_f64_at (Suc e) n = (if n < 2 ^ (52 + Suc e) then as_f64_at e n else div_half_even n (2 ^ Suc e) * 2 ^ Suc e)"

definition as_f64 :: "nat \<Rightarrow> nat" where
  "as_f64 n = as_f64_at 11 n"

text \<open>The value is \<open>v / 1024 ^ (unit + 1)\<close> throughout the loop; dividing by 1024 is exact.\<close>

fun unit_loop :: "nat \<Rightarrow> nat \<Rightarrow> nat \<Rightarrow> nat" where
  "unit_loop 0 v unit = unit"
| "unit_loop (Suc n) v unit = (if 1024 * 1024 ^ (unit + 1) \<le> v \<and> unit < 4 then unit_loop n v (unit + 1) else unit)"

definition unit_names :: "str list" where
  "unit_names = [lit ''KiB'', lit ''MiB'', lit ''GiB'', lit ''TiB'', lit ''PiB'']"

definition two_digits :: "nat \<Rightarrow> str" where
  "two_digits n = [48 + n div 10, 48 + n mod 10]"

definition format_bytes :: "int \<Rightarrow> str" where
  "format_bytes n =
     (if n < 1024 then show_int n @ lit '' B''
      else let v = as_f64 (nat n); unit = unit_loop 4 v 0; hundredths = div_half_even (v * 100) (1024 ^ (unit + 1)) in
        show_nat (hundredths div 100) @ lit ''.'' @ two_digits (hundredths mod 100) @ lit '' '' @ unit_names ! unit)"

subsection \<open>Commands that only show something\<close>

definition format_ping :: "console_env \<Rightarrow> player_session \<Rightarrow> str" where
  "format_ping e s = (case ve_client_ping (ae_view (ce_api e)) s of Some ms \<Rightarrow> show_int ms @ lit ''ms'' | None \<Rightarrow> lit ''n/a'')"

definition status_text :: "player_session \<Rightarrow> str" where
  "status_text s = (case ps_backend s of Some b \<Rightarrow> show_socket_addr b | None \<Rightarrow> lit ''waiting to reconnect'')"

definition help_text :: "str list" where
  "help_text = map lit
    [''Commands:'',
     ''  help                     - show this list'',
     ''  players, playerlist        - list connected players (detailed)'',
     ''  list [-a]                - list connected player names; -a for detailed view'',
     ''  whois <player>           - show full session detail for one player'',
     ''  ping [player]            - show client<->MCGate latency for one player, or every player'',
     ''  kick <player> [message]  - disconnect a player, optionally with a message'',
     ''  transfer <player> <host:port> - send a player directly to another Minecraft server'',
     ''  routes                   - list configured routes and backend status'',
     ''  metrics [reset <index|host|all>] - show per-route byte usage, or reset a counter to zero'',
     ''  ban <ip> [duration]      - manually ban a source IP right away (default duration: autoBan.banDuration)'',
     ''  bans                     - list source IPs currently banned, and for how much longer'',
     ''  unban <ip>               - lift a ban (auto- or manual) before it expires on its own'',
     ''  reload                   - re-read config.yml and messages.yml now'',
     ''  uptime                   - show how long MCGate has been running'',
     ''  version                  - show the running MCGate version'',
     ''  stop, shutdown, exit     - stop the server'']"

definition print_help :: "console_world \<Rightarrow> console_world" where
  "print_help w = fold info help_text w"

definition player_line :: "console_env \<Rightarrow> player_session \<Rightarrow> str" where
  "player_line e s = lit ''  '' @ ps_name s @ lit '' ('' @ ve_uuid_text (ae_view (ce_api e)) (ps_uuid s) @ lit '') from '' @ ps_remote_address s
     @ lit '' on '' @ quoted (ps_host s) @ lit '' -> '' @ status_text s @ lit '' ping='' @ format_ping e s"

definition print_players :: "console_env \<Rightarrow> console_world \<Rightarrow> console_world" where
  "print_players e w =
     (let ss = live_sessions e w in
      if ss = [] then info (lit ''No players connected.'') w
      else fold info (map (player_line e) ss) (info (show_nat (length ss) @ lit '' player(s) connected:'') w))"

definition list_command :: "console_env \<Rightarrow> str \<Rightarrow> console_world \<Rightarrow> console_world" where
  "list_command e rest w =
     (if trim rest = lit ''-a'' then print_players e w
      else let ss = live_sessions e w in
        if ss = [] then info (lit ''There are 0 players online.'') w
        else info (lit ''There are '' @ show_nat (length ss) @ lit '' player(s) online: '' @ names_of ss) w)"

definition no_such_player :: "str \<Rightarrow> str" where
  "no_such_player name = lit ''No player named '' @ quoted name @ lit '' is connected.''"

definition whois_lines :: "console_env \<Rightarrow> player_session \<Rightarrow> str list" where
  "whois_lines e s =
    [lit ''Player: '' @ ps_name s @ lit '' ('' @ ve_uuid_text (ae_view (ce_api e)) (ps_uuid s) @ lit '')'',
     lit ''  From:      '' @ ps_remote_address s,
     lit ''  Host:      '' @ ps_host s,
     lit ''  Status:    '' @ status_text s,
     lit ''  Ping:      '' @ format_ping e s,
     lit ''  Sent:      '' @ show_int (ps_packets_sent s) @ lit '' packet(s), '' @ show_int (ps_bytes_sent s) @ lit '' byte(s)'',
     lit ''  Received:  '' @ show_int (ps_packets_received s) @ lit '' packet(s), '' @ show_int (ps_bytes_received s) @ lit '' byte(s)'']"

definition print_whois :: "console_env \<Rightarrow> str \<Rightarrow> console_world \<Rightarrow> console_world" where
  "print_whois e name w =
     (case find_by_name name (aw_sessions (cw_gate w)) of
        None \<Rightarrow> info (no_such_player name) w
      | Some s \<Rightarrow> fold info (whois_lines e s) w)"

definition ping_command :: "console_env \<Rightarrow> str \<Rightarrow> console_world \<Rightarrow> console_world" where
  "ping_command e rest w =
     (let name = trim rest in
      if name = [] then
        (let ss = live_sessions e w in
         if ss = [] then info (lit ''No players connected.'') w
         else fold info (map (\<lambda>s. lit ''  '' @ ps_name s @ lit '': '' @ format_ping e s) ss) w)
      else case find_by_name name (aw_sessions (cw_gate w)) of
        None \<Rightarrow> info (no_such_player name) w
      | Some s \<Rightarrow> info (ps_name s @ lit '': '' @ format_ping e s) w)"

definition print_bans :: "console_env \<Rightarrow> console_world \<Rightarrow> console_world" where
  "print_bans e w =
     (let bans = active_bans (ae_now (ce_api e)) (cw_bans w) in
      if bans = [] then info (lit ''No source IPs are currently auto-banned.'') w
      else fold info (map (\<lambda>(ip, seconds_left). lit ''  '' @ ip @ lit '' - '' @ show_nat seconds_left @ lit ''s remaining'') bans)
        (info (show_nat (length bans) @ lit '' source IP(s) currently auto-banned:'') w))"

definition cap_text :: "int \<Rightarrow> bool \<Rightarrow> str" where
  "cap_text limit reached =
     (if limit \<ge> 0 then lit '' of '' @ format_bytes limit @ (if reached then lit '' [LIMIT REACHED]'' else []) else lit '' (no limit)'')"

definition metrics_lines :: "nat \<times> route \<times> traffic_counter \<Rightarrow> str list" where
  "metrics_lines row =
     (case row of (index, r, c) \<Rightarrow>
        [lit ''['' @ show_nat index @ lit ''] '' @ hosts_text r @ (case tc_file c of Some f \<Rightarrow> lit '' (-> '' @ f @ lit '')'' | None \<Rightarrow> [])]
        @ (if tc_upload_enabled c
           then [lit ''      upload  : '' @ format_bytes (tc_upload_bytes c) @ cap_text (tc_upload_limit c) (upload_exceeded c)] else [])
        @ (if tc_download_enabled c
           then [lit ''      download: '' @ format_bytes (tc_download_bytes c) @ cap_text (tc_download_limit c) (download_exceeded c)] else []))"

definition metrics_rows :: "console_world \<Rightarrow> (nat \<times> route \<times> traffic_counter) list" where
  "metrics_rows w =
     List.map_filter (\<lambda>(i, r). map_option (\<lambda>c. (i, r, c)) (metrics_handle r (sv_metrics (st_services (aw_app (cw_gate w))))))
       (enumerate 0 (live_routes w))"

definition print_metrics :: "console_world \<Rightarrow> console_world" where
  "print_metrics w =
     (let rows = metrics_rows w in
      if rows = [] then info (lit ''No routes have metrics accounting enabled.'') w
      else fold info (concat (map metrics_lines rows)) (info (lit ''Per-route traffic usage:'') w))"

definition print_backend :: "console_env \<Rightarrow> nat \<Rightarrow> socket_addr list option \<Rightarrow> nat \<times> str \<Rightarrow> console_world \<Rightarrow> console_world" where
  "print_backend e index resolved it w =
     (case it of (i, template) \<Rightarrow>
        let now = ae_now (ce_api e); runtime = runtime_value (aw_app (cw_gate w)) index;
            addr = Option.bind resolved (\<lambda>as. if i < length as then Some (as ! i) else None);
            active = unwrap_or (Option.bind addr (\<lambda>a. map_option (active_connections_of a) runtime)) 0;
            latency = (case Option.bind addr (\<lambda>a. Option.bind runtime (\<lambda>r. fst (latency_of now a r))) of
                Some ms \<Rightarrow> show_int ms @ lit ''ms'' | None \<Rightarrow> lit ''n/a'') in
        info (lit ''      -> '' @ template @ lit '' (active='' @ show_int active @ lit '', latency='' @ latency @ lit '')'')
          (case addr of Some a \<Rightarrow> on_gate (on_runtime index (\<lambda>r. snd (latency_of now a r))) w | None \<Rightarrow> w))"

fun print_route_list :: "console_env \<Rightarrow> (nat \<times> route) list \<Rightarrow> console_world \<Rightarrow> unit run \<times> console_world" where
  "print_route_list e [] w = (Returned (), w)"
| "print_route_list e ((index, r) # rs) w =
     (let w = info (lit ''['' @ show_nat index @ lit ''] '' @ hosts_text r @ lit '' (priority '' @ show_int (rt_priority r) @ lit '')'') w in
      case resolve_static (ce_api e) r of
        Panicked \<Rightarrow> (Panicked, w)
      | Returned resolved \<Rightarrow> print_route_list e rs (fold (print_backend e index resolved) (enumerate 0 (rt_backend_templates r)) w))"

definition print_routes :: "console_env \<Rightarrow> console_world \<Rightarrow> unit run \<times> console_world" where
  "print_routes e w =
     (if live_routes w = [] then (Returned (), info (lit ''No routes configured.'') w)
      else print_route_list e (enumerate 0 (live_routes w)) w)"

subsection \<open>Commands that change something\<close>

text \<open>The session object is shared with its relay: the registry holds the new value, and firing the
  notification wakes the relay only if it waits at that moment.\<close>

definition set_pending :: "session_action \<Rightarrow> player_session \<Rightarrow> console_world \<Rightarrow> console_world" where
  "set_pending action s w =
     on_gate (\<lambda>g. g\<lparr>aw_sessions := map (\<lambda>(u, p). if u = ps_uuid s then (u, p\<lparr>ps_pending_action := action\<rparr>) else (u, p)) (aw_sessions g)\<rparr>) w"

definition wake :: "player_session \<Rightarrow> console_world \<Rightarrow> console_world" where
  "wake s w = w\<lparr>cw_woken := cw_woken w @ [ps_conn s]\<rparr>"

definition kick_command :: "str \<Rightarrow> console_world \<Rightarrow> console_world" where
  "kick_command rest w =
     (case splitn_2 rest of (first, second) \<Rightarrow>
        let name = trim first; message = nonempty second in
        if name = [] then info (lit ''Usage: kick <player> [message]'') w
        else case find_by_name name (aw_sessions (cw_gate w)) of
          None \<Rightarrow> info (no_such_player name) w
        | Some s \<Rightarrow>
            info (lit ''Kicked '' @ quoted (ps_name s) @ lit ''.'')
              (wake s (case message of Some msg \<Rightarrow> set_pending (KickWithMessage msg) s w | None \<Rightarrow> w)))"

definition transfer_command :: "str \<Rightarrow> console_world \<Rightarrow> console_world" where
  "transfer_command rest w =
     (case splitn_2 rest of (first, second) \<Rightarrow>
        let name = trim first; target = trim (unwrap_or second []) in
        if name = [] \<or> target = [] then info (lit ''Usage: transfer <player> <host:port>'') w
        else case find_by_name name (aw_sessions (cw_gate w)) of
          None \<Rightarrow> info (no_such_player name) w
        | Some s \<Rightarrow>
            (case split_host_port target 25565 of (host, port) \<Rightarrow>
               info (lit ''Transferring '' @ quoted (ps_name s) @ lit '' to '' @ target @ lit ''.'')
                 (wake s (set_pending (Transfer host port) s w))))"

definition ban_usage :: str where
  "ban_usage = lit ''Usage: ban <ip> [duration]  (e.g. '' @ quoted (lit ''ban 1.2.3.4 30m'') @ lit ''; duration defaults to config.yml'' @ [39] @ lit ''s autoBan.banDuration)''"

definition ban_command :: "console_env \<Rightarrow> str \<Rightarrow> console_world \<Rightarrow> console_world" where
  "ban_command e rest w =
     (case splitn_2 rest of (first, second) \<Rightarrow>
        let ip = trim first in
        if ip = [] then info ban_usage w
        else case (case nonempty second of
                     Some s \<Rightarrow> (case parse_duration_millis s of Inr ms \<Rightarrow> Inr ms | Inl er \<Rightarrow> Inl (lit ''Invalid duration '' @ quoted s @ lit '': '' @ er))
                   | None \<Rightarrow> Inr (ab_ban_duration_millis (gc_auto_ban (aw_config (cw_gate w))))) of
          Inl line \<Rightarrow> info line w
        | Inr duration_millis \<Rightarrow>
            let d = from_millis (nat (max duration_millis 0)) in
            info (lit ''Banned '' @ ip @ lit '' for '' @ show_nat (as_secs d) @ lit ''s.'')
              (w\<lparr>cw_bans := ban (ae_now (ce_api e)) ip d (cw_bans w)\<rparr>))"

definition unban_command :: "console_env \<Rightarrow> str \<Rightarrow> console_world \<Rightarrow> console_world" where
  "unban_command e rest w =
     (let ip = trim rest in
      if ip = [] then info (lit ''Usage: unban <ip>'') w
      else case unban (ae_now (ce_api e)) ip (cw_bans w) of
        (True, bans) \<Rightarrow> info (lit ''Lifted the auto-ban on '' @ ip @ lit ''.'') (w\<lparr>cw_bans := bans\<rparr>)
      | (False, bans) \<Rightarrow> info (ip @ lit '' isn'' @ [39] @ lit ''t currently auto-banned.'') (w\<lparr>cw_bans := bans\<rparr>))"

text \<open>The routes named by a host: one of their patterns is written like that, or they match it.\<close>

fun routes_named :: "(str \<Rightarrow> str) \<Rightarrow> str \<Rightarrow> route list \<Rightarrow> route list run" where
  "routes_named lc target [] = Returned []"
| "routes_named lc target (r # rs) =
     run_bind (if list_ex (\<lambda>p. hp_raw p = target) (rt_host_patterns r) then Returned True
               else run_bind (route_match_host lc (rt_host_patterns r) target) (\<lambda>m. Returned (m \<noteq> None))) (\<lambda>hit.
     run_bind (routes_named lc target rs) (\<lambda>found. Returned (if hit then r # found else found)))"

definition reset_targets :: "(str \<Rightarrow> str) \<Rightarrow> str \<Rightarrow> route list \<Rightarrow> route list run" where
  "reset_targets lc target rs =
     (case Option.bind (parse_usize target) (\<lambda>i. if i < length rs then Some (rs ! i) else None) of
        Some r \<Rightarrow> Returned [r]
      | None \<Rightarrow> routes_named lc target rs)"

text \<open>The counters and their files, with the number of counters reset so far.\<close>

definition reset_route :: "console_env \<Rightarrow> route \<Rightarrow> nat \<times> console_world \<Rightarrow> nat \<times> console_world" where
  "reset_route e r acc =
     (case acc of (n, w) \<Rightarrow>
        let sv = st_services (aw_app (cw_gate w)) in
        case metrics_reset (rv_millis (ae_reload (ce_api e))) r (sv_metrics sv) (sv_metrics_disk sv) of
          (None, _, _) \<Rightarrow> (n, w)
        | (Some _, m, d) \<Rightarrow>
            (n + 1, info (lit ''Reset metrics for '' @ quoted (hosts_text r) @ lit '': upload/download now 0 bytes.'')
              (on_gate (on_services (\<lambda>s. s\<lparr>sv_metrics := m, sv_metrics_disk := d\<rparr>)) w)))"

definition reset_all_counters :: "console_env \<Rightarrow> console_world \<Rightarrow> console_world" where
  "reset_all_counters e w =
     (let sv = st_services (aw_app (cw_gate w)) in
      case metrics_reset_all (rv_millis (ae_reload (ce_api e))) (sv_metrics sv) (sv_metrics_disk sv) of
        (n, m, d) \<Rightarrow>
          info (if n = 0 then lit ''No metrics counters to reset.'' else lit ''Reset '' @ show_nat n @ lit '' metrics counter(s).'')
            (on_gate (on_services (\<lambda>s. s\<lparr>sv_metrics := m, sv_metrics_disk := d\<rparr>)) w))"

definition reset_matched :: "console_env \<Rightarrow> str \<Rightarrow> route list \<Rightarrow> console_world \<Rightarrow> console_world" where
  "reset_matched e target matched w =
     (if matched = [] then info (lit ''No route matches '' @ quoted target @ lit '' (give a route index, a host, or '' @ quoted (lit ''all'') @ lit '').'') w
      else case fold (reset_route e) matched (0, w) of
        (n, w) \<Rightarrow> if n = 0 then info (lit ''Matched route(s) but none have metrics accounting enabled.'') w else w)"

definition metrics_command :: "console_env \<Rightarrow> str \<Rightarrow> console_world \<Rightarrow> unit run \<times> console_world" where
  "metrics_command e args w =
     (if args = [] then (Returned (), print_metrics w)
      else case split_whitespace args of
        [word, target] \<Rightarrow>
          if \<not> eq_ignore_ascii_case word (lit ''reset'') then (Returned (), info (lit ''Usage: metrics [reset <index|host|all>]'') w)
          else if eq_ignore_ascii_case target (lit ''all'') then (Returned (), reset_all_counters e w)
          else (case reset_targets (ce_lc e) target (live_routes w) of
                  Panicked \<Rightarrow> (Panicked, w)
                | Returned matched \<Rightarrow> (Returned (), reset_matched e target matched w))
      | _ \<Rightarrow> (Returned (), info (lit ''Usage: metrics [reset <index|host|all>]'') w))"

definition reload_command :: "console_env \<Rightarrow> console_world \<Rightarrow> console_world" where
  "reload_command e w =
     on_gate (\<lambda>g. g\<lparr>aw_app := snd (reload_all (ae_yaml (ce_api e)) (ae_ex (ce_api e)) (ae_reload (ce_api e)) (aw_files g) (aw_app g))\<rparr>) w"

text \<open>The last thing the process does; the writer threads are joined one after the other.\<close>

definition shutdown_gracefully :: "console_env \<Rightarrow> console_world \<Rightarrow> console_world" where
  "shutdown_gracefully e w =
     (let ss = live_sessions e w;
          w = (if ss = [] then w
               else fold wake ss (info (lit ''Disconnecting '' @ show_nat (length ss) @ lit '' player(s): '' @ names_of ss) w));
          w = on_gate (on_services (\<lambda>sv. sv\<lparr>sv_tracker := tracker_shutdown (rv_tracker_committed (ae_reload (ce_api e))) (sv_tracker sv)\<rparr>)) w;
          w = on_gate (on_services (\<lambda>sv. sv\<lparr>sv_stats := logger_shutdown (sv_stats sv)\<rparr>)) w in
      info (lit ''Stopped.'') w)"

subsection \<open>Reading commands\<close>

datatype command = Stop | Help | Players | List_Players | Routes | Metrics | Version | Reload | Uptime | Kick | Transfer_To
  | Bans | Ban | Unban | Whois | Ping | Nothing | Unknown

definition command_words :: "(string \<times> command) list" where
  "command_words = [(''stop'', Stop), (''shutdown'', Stop), (''exit'', Stop), (''help'', Help), (''?'', Help), (''players'', Players),
     (''playerlist'', Players), (''list'', List_Players), (''routes'', Routes), (''metrics'', Metrics), (''version'', Version),
     (''reload'', Reload), (''uptime'', Uptime), (''kick'', Kick), (''transfer'', Transfer_To), (''bans'', Bans), (''ban'', Ban),
     (''unban'', Unban), (''whois'', Whois), (''ping'', Ping), ('''', Nothing)]"

definition command_of :: "str \<Rightarrow> command" where
  "command_of word = unwrap_or (map_of (map (\<lambda>(s, c). (lit s, c)) command_words) word) Unknown"

text \<open>A command returns to the reader, ends the process, or panics and with it ends the console's thread.\<close>

datatype outcome = Waiting console_world | Exited console_world | Thread_Panicked console_world

definition of_command :: "unit run \<times> console_world \<Rightarrow> outcome" where
  "of_command r = (case r of (Returned _, w) \<Rightarrow> Waiting w | (Panicked, w) \<Rightarrow> Thread_Panicked w)"

fun run_command :: "console_env \<Rightarrow> command \<Rightarrow> str \<Rightarrow> str \<Rightarrow> console_world \<Rightarrow> outcome" where
  "run_command e Stop trimmed rest w = Exited (shutdown_gracefully e (info (lit ''Stop command received, shutting down...'') w))"
| "run_command e Help trimmed rest w = Waiting (print_help w)"
| "run_command e Players trimmed rest w = Waiting (print_players e w)"
| "run_command e List_Players trimmed rest w = Waiting (list_command e rest w)"
| "run_command e Routes trimmed rest w = of_command (print_routes e w)"
| "run_command e Metrics trimmed rest w = of_command (metrics_command e rest w)"
| "run_command e Version trimmed rest w = Waiting (info (lit ''MCGate v'' @ ce_version e) w)"
| "run_command e Reload trimmed rest w = Waiting (reload_command e w)"
| "run_command e Uptime trimmed rest w = Waiting (info (lit ''Uptime: '' @ format_duration (ce_uptime e)) w)"
| "run_command e Kick trimmed rest w = Waiting (kick_command rest w)"
| "run_command e Transfer_To trimmed rest w = Waiting (transfer_command rest w)"
| "run_command e Bans trimmed rest w = Waiting (print_bans e w)"
| "run_command e Ban trimmed rest w = Waiting (ban_command e rest w)"
| "run_command e Unban trimmed rest w = Waiting (unban_command e rest w)"
| "run_command e Whois trimmed rest w = Waiting (if rest = [] then info (lit ''Usage: whois <player>'') w else print_whois e rest w)"
| "run_command e Ping trimmed rest w = Waiting (ping_command e rest w)"
| "run_command e Nothing trimmed rest w = Waiting w"
| "run_command e Unknown trimmed rest w = Waiting (info (lit ''Unknown command: '' @ quoted trimmed @ lit '' (try '' @ quoted (lit ''help'') @ lit '')'') w)"

definition handle_command :: "console_env \<Rightarrow> str \<Rightarrow> console_world \<Rightarrow> outcome" where
  "handle_command e line w =
     (let trimmed = trim line; command = to_lowercase (ce_lc e) (takeWhile (\<lambda>c. c \<noteq> 32) trimmed) in
      case str_from (length (as_bytes command)) trimmed of
        Panicked \<Rightarrow> Thread_Panicked w
      | Returned rest \<Rightarrow> run_command e (command_of command) trimmed (trim rest) w)"

text \<open>The reader: each line meets the environment of its moment; a line that cannot be read ends it.\<close>

fun run_plain :: "(console_env \<times> str option) list \<Rightarrow> console_world \<Rightarrow> outcome" where
  "run_plain [] w = Waiting w"
| "run_plain ((e, None) # ls) w = Waiting w"
| "run_plain ((e, Some line) # ls) w = (case handle_command e line w of Waiting w \<Rightarrow> run_plain ls w | r \<Rightarrow> r)"

text \<open>The interactive reader: what the line editor reports for each prompt.\<close>

datatype readline = Line str | Interrupted | Closed

fun run_rustyline :: "(console_env \<times> readline) list \<Rightarrow> console_world \<Rightarrow> outcome" where
  "run_rustyline [] w = Waiting w"
| "run_rustyline ((e, Line line) # ls) w = (case handle_command e line w of Waiting w \<Rightarrow> run_rustyline ls w | r \<Rightarrow> r)"
| "run_rustyline ((e, Interrupted) # ls) w = Exited (info (lit ''Ctrl+C received, shutting down...'') w)"
| "run_rustyline ((e, Closed) # ls) w = Waiting w"

text \<open>Which of the two readers runs: the editor only on request, on a terminal, and if it initialises.\<close>

definition console_start :: "str option \<Rightarrow> bool \<Rightarrow> bool \<Rightarrow> bool \<Rightarrow> bool" where
  "console_start env stdin_tty stdout_tty editor_ok \<longleftrightarrow>
     (let interactive_requested = (env = Some (lit ''true'')); plain = (\<not> interactive_requested \<or> \<not> (stdin_tty \<and> stdout_tty)) in
      \<not> plain \<and> editor_ok)"

text \<open>Where console lines go: to the printer of the line editor while one is installed, else to the standard
  output.\<close>

record console_screen =
  sc_printer :: bool
  sc_above_prompt :: "str list"
  sc_stdout :: "str list"

definition set_active_line_printer :: "bool \<Rightarrow> console_screen \<Rightarrow> console_screen" where
  "set_active_line_printer p s = s\<lparr>sc_printer := p\<rparr>"

definition print_console_line :: "str \<Rightarrow> console_screen \<Rightarrow> console_screen" where
  "print_console_line line s =
     (if sc_printer s then s\<lparr>sc_above_prompt := sc_above_prompt s @ [line @ lit [CHR 0x0A]]\<rparr> else s\<lparr>sc_stdout := sc_stdout s @ [line @ lit [CHR 0x0A]]\<rparr>)"

text \<open>The console thread: whether the editor reads the commands, and the screen. The editor is used only with
  its printer, which is installed first.\<close>

definition console_run :: "bool \<Rightarrow> bool \<Rightarrow> bool \<Rightarrow> console_screen \<Rightarrow> bool \<times> console_screen" where
  "console_run force_plain editor_ok printer_ok s =
     (if \<not> force_plain \<and> editor_ok \<and> printer_ok then (True, set_active_line_printer True s) else (False, s))"

section \<open>Lemmas\<close>

lemma info_simps [simp]:
  "cw_gate (info l w) = cw_gate w" "cw_bans (info l w) = cw_bans w" "cw_woken (info l w) = cw_woken w" "cw_log (info l w) = cw_log w @ [l]"
  by (simp_all add: info_def)

lemma fold_info [simp]: "fold info ls w = w\<lparr>cw_log := cw_log w @ ls\<rparr>"
  by (induction ls arbitrary: w) (simp_all add: info_def)

lemma on_gate_simps [simp]:
  "cw_gate (on_gate f w) = f (cw_gate w)" "cw_bans (on_gate f w) = cw_bans w" "cw_woken (on_gate f w) = cw_woken w" "cw_log (on_gate f w) = cw_log w"
  by (simp_all add: on_gate_def)

lemma wake_simps [simp]:
  "cw_gate (wake s w) = cw_gate w" "cw_bans (wake s w) = cw_bans w" "cw_woken (wake s w) = cw_woken w @ [ps_conn s]" "cw_log (wake s w) = cw_log w"
  by (simp_all add: wake_def)

lemma fold_wake [simp]: "fold wake ss w = w\<lparr>cw_woken := cw_woken w @ map ps_conn ss\<rparr>"
  by (induction ss arbitrary: w) (simp_all add: wake_def)

lemma str_from_ascii: "list_all is_ascii a \<Longrightarrow> str_from (length a) (a @ s) = Returned s"
  by (induction a) (simp_all add: utf8_encode_char_def is_ascii_def)

lemma lowercase_ascii: "list_all is_ascii a \<Longrightarrow> list_all is_ascii (map to_ascii_lowercase a)"
  by (induction a) (auto simp: is_ascii_def to_ascii_lowercase_def)

lemma splitn_2_word:
  assumes "32 \<notin> set word"
  shows "splitn_2 (word @ 32 # s) = (word, Some s)" "splitn_2 word = (word, None)"
proof -
  have "takeWhile (\<lambda>c. c \<noteq> 32) (word @ t) = word @ takeWhile (\<lambda>c. c \<noteq> 32) t" "dropWhile (\<lambda>c. c \<noteq> 32) (word @ t) = dropWhile (\<lambda>c. c \<noteq> 32) t" for t
    using assms by (auto intro!: takeWhile_append2 dropWhile_append2)
  from this [of "32 # s"] show "splitn_2 (word @ 32 # s) = (word, Some s)" by (simp add: splitn_2_def)
  have "takeWhile (\<lambda>c. c \<noteq> 32) word = word" "dropWhile (\<lambda>c. c \<noteq> 32) word = []"
    using assms by (auto simp: takeWhile_eq_all_conv dropWhile_eq_Nil_conv)
  then show "splitn_2 word = (word, None)" by (simp only: splitn_2_def list.case)
qed

text \<open>What a command that only shows something may change: the log, and latency readings that have expired.\<close>

definition only_shown :: "console_world \<Rightarrow> console_world \<Rightarrow> bool" where
  "only_shown w w' \<longleftrightarrow> cw_bans w' = cw_bans w \<and> cw_woken w' = cw_woken w \<and> only_arena (cw_gate w) (cw_gate w')
     \<and> (\<exists>lines. cw_log w' = cw_log w @ lines)"

lemma only_shown_refl [simp]: "only_shown w w"
  by (simp add: only_shown_def)

lemma only_shown_trans: "only_shown w w1 \<Longrightarrow> only_shown w1 w2 \<Longrightarrow> only_shown w w2"
  by (auto simp: only_shown_def intro: only_arena_trans)

lemma only_shown_info [simp]: "only_shown w (info l w)" "only_shown w (w\<lparr>cw_log := cw_log w @ ls\<rparr>)"
  by (auto simp: only_shown_def)

lemma only_shown_infos [simp]: "only_shown w ((info l w)\<lparr>cw_log := cw_log w @ l # ls\<rparr>)"
  by (auto simp: only_shown_def)

lemma print_backend_shown: "only_shown w (print_backend e index resolved it w)"
  by (auto simp: print_backend_def only_shown_def Let_def only_arena_runtime split: prod.split option.split)

lemma print_backends_shown: "only_shown w (fold (print_backend e index resolved) its w)"
  by (induction its arbitrary: w) (auto intro: only_shown_trans [OF print_backend_shown])

lemma print_route_list_shown: "only_shown w (snd (print_route_list e rs w))"
proof (induction e rs w rule: print_route_list.induct)
  case (2 e index r rs w)
  let ?w = "info (lit ''['' @ show_nat index @ lit ''] '' @ hosts_text r @ lit '' (priority '' @ show_int (rt_priority r) @ lit '')'') w"
  show ?case
  proof (cases "resolve_static (ce_api e) r")
    case (Returned res)
    then have "only_shown ?w (snd (print_route_list e rs (fold (print_backend e index res) (enumerate 0 (rt_backend_templates r)) ?w)))"
      using 2 only_shown_trans [OF print_backends_shown] by blast
    then show ?thesis using Returned only_shown_trans [OF only_shown_info(1)] by (simp add: Let_def)
  qed (simp add: Let_def)
qed simp

section \<open>Properties\<close>

text \<open>How a line is read. When the trimmed line is an ASCII word followed by nothing or by a space and more,
  the command is the word in any letter case and its argument is the rest without surrounding blanks.\<close>

theorem console_reads_command:
  assumes "trim line = word @ rest" "list_all is_ascii word" "32 \<notin> set word" "rest = [] \<or> hd rest = 32"
  shows "handle_command e line w = run_command e (command_of (map to_ascii_lowercase word)) (trim line) (trim rest) w"
proof -
  have "takeWhile (\<lambda>c. c \<noteq> 32) (word @ rest) = word @ takeWhile (\<lambda>c. c \<noteq> 32) rest"
    using assms(3) by (auto intro!: takeWhile_append2)
  also have "takeWhile (\<lambda>c. c \<noteq> 32) rest = []" using assms(4) by (cases rest) simp_all
  finally have "to_lowercase (ce_lc e) (takeWhile (\<lambda>c. c \<noteq> 32) (trim line)) = map to_ascii_lowercase word"
    using assms by (simp add: to_lowercase_def)
  moreover have "str_from (length (as_bytes (map to_ascii_lowercase word))) (word @ rest) = Returned rest"
    using assms(2) lowercase_ascii str_from_ascii by (simp add: as_bytes_ascii)
  ultimately show ?thesis using assms(1) by (simp add: handle_command_def Let_def)
qed

text \<open>Showing changes nothing. A command other than stop, reload, kick, transfer, ban, unban and a metrics
  reset leaves the bans, the sessions, the files, the configuration and every service as they were.\<close>

theorem console_shows_only:
  assumes "c \<notin> {Stop, Reload, Kick, Transfer_To, Ban, Unban, Metrics} \<or> c = Metrics \<and> rest = []"
  shows "\<exists>w'. run_command e c trimmed rest w \<in> {Waiting w', Thread_Panicked w'} \<and> only_shown w w'"
proof (cases c)
  case Routes
  show ?thesis
  proof (cases "live_routes w = []")
    case False
    then show ?thesis
      using Routes print_route_list_shown [of w e "enumerate 0 (live_routes w)"]
      by (auto simp: print_routes_def of_command_def split: run.split prod.splits)
  qed (use Routes in \<open>simp add: print_routes_def of_command_def\<close>)
qed (use assms in \<open>auto simp: print_help_def print_players_def list_command_def print_bans_def print_whois_def ping_command_def
    metrics_command_def print_metrics_def of_command_def Let_def split: option.split\<close>)

text \<open>The registry is consistent: one entry per key, and every entry sits under the id of its session.\<close>

definition sessions_keyed :: "player_sessions \<Rightarrow> bool" where
  "sessions_keyed m \<longleftrightarrow> hm_ok m \<and> (\<forall>(u, p) \<in> set m. u = ps_uuid p)"

lemma find_by_name_keyed:
  assumes "sessions_keyed m" "find_by_name name m = Some s"
  shows "hm_get m (ps_uuid s) = Some s" "eq_ignore_ascii_case (ps_name s) name"
proof -
  have "s \<in> set (map snd m)" "eq_ignore_ascii_case (ps_name s) name"
    using assms(2) unfolding find_by_name_def by (metis (mono_tags, lifting) find_Some_iff nth_mem)+
  then show "hm_get m (ps_uuid s) = Some s" "eq_ignore_ascii_case (ps_name s) name"
    using assms(1) by (auto simp: sessions_keyed_def hm_get_in_set)
qed

lemma hm_get_map_entry:
  "hm_get (map (\<lambda>(u, p). if u = k then (u, f p) else (u, p)) m) j = (if j = k then map_option f (hm_get m j) else hm_get m j)"
  by (induction m) (auto simp: hm_get_def)

lemma set_pending_get:
  "hm_get (aw_sessions (cw_gate (set_pending a s w))) u =
     (if u = ps_uuid s then map_option (\<lambda>p. p\<lparr>ps_pending_action := a\<rparr>) (hm_get (aw_sessions (cw_gate w)) u) else hm_get (aw_sessions (cw_gate w)) u)"
  by (simp add: set_pending_def hm_get_map_entry)

lemma set_pending_frame [simp]: "cw_woken (set_pending a s w) = cw_woken w" "cw_bans (set_pending a s w) = cw_bans w"
  by (simp_all add: set_pending_def)

text \<open>A word as it stands in a command line: not empty, no blank at either end, no space inside.\<close>

definition plain_word :: "str \<Rightarrow> bool" where
  "plain_word s \<longleftrightarrow> s \<noteq> [] \<and> trim s = s \<and> 32 \<notin> set s"

text \<open>Kick and transfer reach exactly the named player. When a player of that name, in any letter case, is
  connected, the command gives that session alone the action, wakes its connection and no other, and
  its relay, once it takes the action, sends the disconnect packet with the rendered message or the
  transfer packet for the host and port of the target whenever the session allows a packet to be injected.\<close>

theorem kick_and_transfer_reach_player:
  fixes s :: player_session and z :: "'e zlib"
  defines "after act \<equiv> s\<lparr>ps_pending_action := act\<rparr>"
  assumes keyed: "sessions_keyed (aw_sessions (cw_gate w))" and found: "find_by_name name (aw_sessions (cw_gate w)) = Some s"
    and words: "plain_word name" "trim arg \<noteq> []"
    and cmd: "w' = kick_command (name @ 32 # arg) w \<and> action = KickWithMessage (trim arg)
      \<or> w' = transfer_command (name @ 32 # arg) w \<and> split_host_port (trim arg) 25565 = (host, port) \<and> action = Transfer host port"
  shows "hm_get (aw_sessions (cw_gate w')) (ps_uuid s) = Some (after action)
    \<and> (\<forall>u. u \<noteq> ps_uuid s \<longrightarrow> hm_get (aw_sessions (cw_gate w')) u = hm_get (aw_sessions (cw_gate w)) u)
    \<and> cw_woken w' = cw_woken w @ [ps_conn s] \<and> cw_bans w' = cw_bans w
    \<and> eq_ignore_ascii_case (ps_name s) name
    \<and> (can_inject_packet s \<longrightarrow> fst (handle_pending_action interp lc z (after action)) =
         run_bind (packet_ids (ps_protocol_version s)) (\<lambda>ids. case action of
             KickWithMessage msg \<Rightarrow> run_bind (to_legacy_text interp lc msg) (\<lambda>rendered.
               Returned (Some (encode_play_disconnect z ids rendered (word_of_int (ps_compression_threshold s)))))
           | Transfer h p \<Rightarrow> Returned (Some (encode_transfer z ids h p (word_of_int (ps_compression_threshold s))))
           | Disconnect \<Rightarrow> Returned None))"
proof -
  note get = find_by_name_keyed [OF keyed found]
  have word: "trim name = name" "name \<noteq> []" "splitn_2 (name @ 32 # arg) = (name, Some arg)"
    using words(1) splitn_2_word(1) by (auto simp: plain_word_def)
  have "\<exists>line. w' = info line (wake s (set_pending action s w))"
    using cmd word words(2) found by (auto simp: kick_command_def transfer_command_def Let_def nonempty_def)
  then obtain line where w': "w' = info line (wake s (set_pending action s w))" ..
  have "can_inject_packet (after action) = can_inject_packet s" by (simp add: can_inject_packet_def after_def)
  then show ?thesis
    using w' get cmd by (auto simp: set_pending_get after_def handle_pending_action_def Let_def)
qed

lemma acquire_prelogin_ban: "fst (acquire_prelogin now k st) \<noteq> Refused Banned"
  by (simp add: acquire_prelogin_def Let_def split: prod.split option.split)

lemma enter_gate_ban: "fst (enter_gate conf now peer inner st) \<noteq> Refused Banned"
  using acquire_prelogin_ban
  by (simp add: enter_gate_def limit_rate_def Let_def split: prod.split option.split bool.split)

text \<open>With automatic bans enabled and no PROXY headers, the gate refuses for a ban exactly the addresses banned
  at that moment.\<close>

lemma accept_banned_iff:
  assumes "ab_enabled (gc_auto_ban conf)" "\<not> gc_proxy_protocol conf"
  shows "fst (accept_connection conf now peer inner st) = Refused Banned \<longleftrightarrow> banned_at now (gs_bans st) (ip_of peer)"
  using assms fst_is_banned [of now "ip_of peer" "gs_bans st"] enter_gate_ban
  by (auto simp: accept_connection_def check_ban_def split: prod.splits bool.splits)

text \<open>A banned address is turned away. After \<open>ban ip duration\<close> every connection from that address that
  arrives before the duration is over is refused, as long as automatic bans are enabled and the gate
  sees the addresses of its clients; after \<open>unban ip\<close> none is refused for a ban. Bans of other
  addresses stay as they are.\<close>

theorem console_ban_enforced:
  assumes word: "plain_word ip" "trim d \<noteq> []" and dur: "parse_duration_millis (trim d) = Inr millis" "0 \<le> millis"
    and conf: "ab_enabled (gc_auto_ban conf)" "\<not> gc_proxy_protocol conf" and peer: "ip_of peer = ip"
  shows "(t < ae_now (ce_api e) + from_millis (nat millis) \<longrightarrow>
      fst (accept_connection conf t peer inner (st\<lparr>gs_bans := cw_bans (ban_command e (ip @ 32 # d) w)\<rparr>)) = Refused Banned)
    \<and> fst (accept_connection conf t peer inner (st\<lparr>gs_bans := cw_bans (unban_command e ip w)\<rparr>)) \<noteq> Refused Banned
    \<and> (\<forall>j. j \<noteq> ip \<longrightarrow> ban_view (cw_bans (ban_command e (ip @ 32 # d) w)) j = ban_view (cw_bans w) j
         \<and> ban_view (cw_bans (unban_command e ip w)) j = ban_view (cw_bans w) j)"
proof -
  have "trim ip = ip" "ip \<noteq> []" "splitn_2 (ip @ 32 # d) = (ip, Some d)"
    using word(1) splitn_2_word(1) by (auto simp: plain_word_def)
  then have bans: "cw_bans (ban_command e (ip @ 32 # d) w) = ban (ae_now (ce_api e)) ip (from_millis (nat millis)) (cw_bans w)"
      "cw_bans (unban_command e ip w) = snd (unban (ae_now (ce_api e)) ip (cw_bans w))"
    using word(2) dur by (simp_all add: ban_command_def unban_command_def nonempty_def Let_def max_absorb1 split: prod.split bool.split)
  show ?thesis
    using conf peer accept_banned_iff [OF conf, of t peer inner]
    by (auto simp: bans ban_view_ban ban_view_unban banned_at_def)
qed

definition live_counters :: "console_world \<Rightarrow> (str, traffic_counter) hmap" where
  "live_counters w = ms_counters (sv_metrics (st_services (aw_app (cw_gate w))))"

text \<open>Exactly the counters of some routes are zero now, and no counter came or went.\<close>

definition zeroed_for :: "route list \<Rightarrow> (str, traffic_counter) hmap \<Rightarrow> (str, traffic_counter) hmap \<Rightarrow> bool" where
  "zeroed_for rs m m' \<longleftrightarrow> (\<forall>key. case hm_get m key of
      None \<Rightarrow> hm_get m' key = None
    | Some c \<Rightarrow> if \<exists>r \<in> set rs. key_for r = Some key
        then \<exists>c'. hm_get m' key = Some c' \<and> tc_upload_bytes c' = 0 \<and> tc_download_bytes c' = 0
        else hm_get m' key = Some c)"

text \<open>A reset of one route zeroes the counter of its key and leaves the others.\<close>

lemma metrics_reset_zeroes:
  assumes "metrics_reset now r s d = (res, s', d')"
  shows "zeroed_for [r] (ms_counters s) (ms_counters s')"
proof -
  have "tc_upload_bytes (fst (flush_counter now force (zero_counter now c) d)) = 0 \<and> tc_download_bytes (fst (flush_counter now force (zero_counter now c) d)) = 0" for force c
    by (simp add: flush_counter_def zero_counter_def Let_def split: option.split)
  then show ?thesis
    using assms unfolding zeroed_for_def
    by (intro allI) (auto simp: metrics_reset_def metrics_handle_def split: option.splits prod.splits bind_splits, (metis fst_conv)+)
qed

lemma zeroed_for_Nil: "zeroed_for [] w w"
  by (simp add: zeroed_for_def split: option.split)

lemma zeroed_for_Cons:
  assumes "zeroed_for [r] w w1" "zeroed_for rs w1 w2"
  shows "zeroed_for (r # rs) w w2"
  unfolding zeroed_for_def
proof
  fix key
  show "case hm_get w key of
      None \<Rightarrow> hm_get w2 key = None
    | Some c \<Rightarrow> if \<exists>r \<in> set (r # rs). key_for r = Some key
        then \<exists>c'. hm_get w2 key = Some c' \<and> tc_upload_bytes c' = 0 \<and> tc_download_bytes c' = 0
        else hm_get w2 key = Some c"
    using assms [unfolded zeroed_for_def, THEN spec, of key] by (auto split: option.splits if_splits)
qed

lemma live_counters_info [simp]: "live_counters (info l w) = live_counters w"
  by (simp add: live_counters_def)

lemma live_counters_services [simp]: "live_counters (on_gate (on_services f) w) = ms_counters (sv_metrics (f (st_services (aw_app (cw_gate w)))))"
  by (simp add: live_counters_def on_services_def)

lemma reset_route_zeroes: "zeroed_for [r] (live_counters w) (live_counters (snd (reset_route e r (n, w))))"
proof -
  let ?sv = "st_services (aw_app (cw_gate w))" and ?now = "rv_millis (ae_reload (ce_api e))"
  obtain res m d where run: "metrics_reset ?now r (sv_metrics ?sv) (sv_metrics_disk ?sv) = (res, m, d)" by (metis prod.exhaust)
  have "res = None \<Longrightarrow> m = sv_metrics ?sv" using run by (auto simp: metrics_reset_def split: option.splits prod.splits)
  then have "live_counters (snd (reset_route e r (n, w))) = ms_counters m"
    using run by (cases res) (simp_all add: reset_route_def Let_def, simp add: live_counters_def)
  then show ?thesis using metrics_reset_zeroes [OF run] by (simp add: live_counters_def)
qed

lemma reset_routes_zero: "zeroed_for rs (live_counters w) (live_counters (snd (fold (reset_route e) rs (n, w))))"
proof (induction rs arbitrary: n w)
  case (Cons r rs)
  obtain n1 w1 where step: "reset_route e r (n, w) = (n1, w1)" by (metis prod.exhaust)
  then show ?case using zeroed_for_Cons [of r "live_counters w" "live_counters w1" rs] reset_route_zeroes [of r w e n] Cons.IH [of w1 n1] by simp
qed (simp add: zeroed_for_Nil)

definition host_named :: "(str \<Rightarrow> str) \<Rightarrow> str \<Rightarrow> route \<Rightarrow> bool" where
  "host_named lc target r \<longleftrightarrow> list_ex (\<lambda>p. hp_raw p = target) (rt_host_patterns r)
     \<or> (\<exists>cs. route_match_host lc (rt_host_patterns r) target = Returned (Some cs))"

lemma routes_named_filter: "routes_named lc target rs = Returned found \<Longrightarrow> found = filter (host_named lc target) rs"
  by (induction rs arbitrary: found) (auto simp: host_named_def run_bind_def split: run.splits if_splits)

text \<open>A metrics reset hits the counters it names. \<open>metrics reset target\<close> sets to zero exactly the counters of
  the route at that index or, when the target is no index of a route, of the routes one of whose host
  patterns is written like the target or matches it; every other counter keeps its value.\<close>

theorem metrics_reset_scope:
  assumes args: "split_whitespace args = [word, target]" "eq_ignore_ascii_case word (lit ''reset'')" "\<not> eq_ignore_ascii_case target (lit ''all'')"
    and run: "metrics_command e args w = (Returned (), w')"
  shows "zeroed_for (case parse_usize target of
        Some i \<Rightarrow> if i < length (live_routes w) then [live_routes w ! i] else filter (host_named (ce_lc e) target) (live_routes w)
      | None \<Rightarrow> filter (host_named (ce_lc e) target) (live_routes w)) (live_counters w) (live_counters w')"
proof -
  have "args \<noteq> []" using args(1) by auto
  then obtain matched where m: "reset_targets (ce_lc e) target (live_routes w) = Returned matched" "w' = reset_matched e target matched w"
    using args run by (auto simp: metrics_command_def split: run.splits)
  then have "matched = (case parse_usize target of
        Some i \<Rightarrow> if i < length (live_routes w) then [live_routes w ! i] else filter (host_named (ce_lc e) target) (live_routes w)
      | None \<Rightarrow> filter (host_named (ce_lc e) target) (live_routes w))"
    by (auto simp: reset_targets_def dest!: routes_named_filter split: option.splits if_splits)
  moreover have "zeroed_for matched (live_counters w) (live_counters w')"
    using m(2) reset_routes_zero [of matched w e 0] by (auto simp: reset_matched_def zeroed_for_Nil split: prod.splits)
  ultimately show ?thesis by simp
qed

text \<open>Stopping drains the gate. The stop command ends the process after it woke the connection of every
  player in the registry and stopped both writer threads; when the tracker runs and its last
  transaction commits, every queued record is stored behind the earlier ones.\<close>

theorem stop_drains:
  fixes w :: console_world and e :: console_env
  defines "tracker v \<equiv> sv_tracker (st_services (aw_app (cw_gate v)))"
  assumes "tk_running (tracker w)" "rv_tracker_committed (ae_reload (ce_api e))"
  shows "\<exists>w'. run_command e Stop trimmed rest w = Exited w'
    \<and> cw_woken w' = cw_woken w @ map ps_conn (live_sessions e w)
    \<and> (\<forall>(u, p) \<in> set (aw_sessions (cw_gate w)). ps_conn p \<in> set (cw_woken w'))
    \<and> persisted (tracker w') = persisted (tracker w) @ tk_queue (tracker w) \<and> tk_queue (tracker w') = [] \<and> \<not> tk_running (tracker w')
    \<and> \<not> lg_running (sv_stats (st_services (aw_app (cw_gate w'))))
    \<and> st_config (aw_app (cw_gate w')) = st_config (aw_app (cw_gate w))"
proof -
  have all: "set (live_sessions e w) = snd ` set (aw_sessions (cw_gate w))" by (simp add: live_sessions_def sessions_all_def)
  let ?w0 = "info (lit ''Stop command received, shutting down...'') w"
  have live: "live_sessions e ?w0 = live_sessions e w" by (simp add: live_sessions_def)
  let ?w' = "shutdown_gracefully e ?w0"
  have woken: "cw_woken ?w' = cw_woken w @ map ps_conn (live_sessions e w)"
    by (simp add: shutdown_gracefully_def Let_def live)
  have sv: "st_services (aw_app (cw_gate ?w')) = (st_services (aw_app (cw_gate w)))
      \<lparr>sv_tracker := tracker_shutdown True (tracker w), sv_stats := logger_shutdown (sv_stats (st_services (aw_app (cw_gate w))))\<rparr>"
    using assms(3) by (simp add: shutdown_gracefully_def Let_def live on_services_def tracker_def)
  have "st_config (aw_app (cw_gate ?w')) = st_config (aw_app (cw_gate w))" by (simp add: shutdown_gracefully_def Let_def live on_services_def)
  moreover have "\<forall>(u, p) \<in> set (aw_sessions (cw_gate w)). ps_conn p \<in> set (cw_woken ?w')"
    using woken all by (force simp: image_iff)
  moreover have "persisted (tracker_shutdown True (tracker w)) = persisted (tracker w) @ tk_queue (tracker w)"
      "tk_queue (tracker_shutdown True (tracker w)) = []" "\<not> tk_running (tracker_shutdown True (tracker w))"
    using assms(2) by (simp_all add: tracker_shutdown_def stop_internal_def write_batch_def persisted_def table_of_def set_table_def insert_rows_def)
  ultimately show ?thesis
    using woken by (simp add: sv tracker_def logger_shutdown_def logger_stop_internal_def)
qed

lemma unit_loop_fits:
  "unit + n = 4 \<Longrightarrow> 1024 ^ (unit + 1) \<le> v \<Longrightarrow>
     unit_loop n v unit \<le> 4 \<and> 1024 ^ (unit_loop n v unit + 1) \<le> v \<and> (unit_loop n v unit = 4 \<or> v < 1024 ^ (unit_loop n v unit + 2))"
  by (induction n v unit rule: unit_loop.induct) auto

lemma div_half_even_near:
  assumes "0 < b"
  shows "2 * (div_half_even a b * b) \<le> 2 * a + b" "2 * a \<le> 2 * (div_half_even a b * b) + b"
proof -
  obtain q r where qr: "a div b = q" "a mod b = r" "r < b" "a = q * b + r" using assms by (metis div_mult_mod_eq mod_less_divisor)
  then show "2 * (div_half_even a b * b) \<le> 2 * a + b" "2 * a \<le> 2 * (div_half_even a b * b) + b"
    by (auto simp: div_half_even_def Let_def add_mult_distrib)
qed

lemma as_f64_at_exact: "n < 2 ^ 53 \<Longrightarrow> as_f64_at e n = n"
proof (induction e)
  case (Suc e)
  have "(2::nat) ^ 53 \<le> 2 ^ (52 + Suc e)" by (rule power_increasing) simp_all
  then show ?case using Suc by simp
qed simp

lemma as_f64_exact: "n < 2 ^ 53 \<Longrightarrow> as_f64 n = n"
  by (simp add: as_f64_def as_f64_at_exact del: as_f64_at.simps)

text \<open>The byte counts shown are right to the last digit. An amount of at least 1024 bytes and below 2^53 is
  shown in the largest of the units KiB to PiB that it reaches, and the two decimals shown are the
  nearest ones to the exact quotient.\<close>

theorem format_bytes_accurate:
  assumes "1024 \<le> n" "n < 2 ^ 53"
  shows "\<exists>unit h. format_bytes (int n) = show_nat (h div 100) @ lit ''.'' @ two_digits (h mod 100) @ lit '' '' @ unit_names ! unit
    \<and> unit \<le> 4 \<and> 1024 ^ (unit + 1) \<le> n \<and> (unit = 4 \<or> n < 1024 ^ (unit + 2))
    \<and> 2 * (h * 1024 ^ (unit + 1)) \<le> 2 * (100 * n) + 1024 ^ (unit + 1) \<and> 2 * (100 * n) \<le> 2 * (h * 1024 ^ (unit + 1)) + 1024 ^ (unit + 1)"
proof -
  define unit where "unit = unit_loop 4 n 0"
  define h where "h = div_half_even (n * 100) (1024 ^ (unit + 1))"
  have "format_bytes (int n) = show_nat (h div 100) @ lit ''.'' @ two_digits (h mod 100) @ lit '' '' @ unit_names ! unit"
    using assms by (simp add: format_bytes_def Let_def as_f64_exact unit_def h_def del: show_nat.simps)
  moreover have "unit \<le> 4 \<and> 1024 ^ (unit + 1) \<le> n \<and> (unit = 4 \<or> n < 1024 ^ (unit + 2))"
    using unit_loop_fits [of 0 4 n] assms unfolding unit_def by simp
  moreover have "2 * (h * 1024 ^ (unit + 1)) \<le> 2 * (100 * n) + 1024 ^ (unit + 1)" "2 * (100 * n) \<le> 2 * (h * 1024 ^ (unit + 1)) + 1024 ^ (unit + 1)"
    using div_half_even_near [of "1024 ^ (unit + 1)" "n * 100"] unfolding h_def by (simp_all only: mult.commute [of n] zero_less_power zero_less_numeral)
  ultimately show ?thesis by blast
qed

section \<open>Defects\<close>

text \<open>A ban from the console has no effect unless automatic bans are enabled: the gate looks at the ban list
  only then, although the console answers that the address is banned.\<close>

theorem manual_ban_ignored:
  assumes "\<not> ab_enabled (gc_auto_ban conf)" and "plain_word ip" and "parse_duration_millis (trim d) = Inr millis" "trim d \<noteq> []"
  shows "last (cw_log (ban_command e (ip @ 32 # d) w)) = lit ''Banned '' @ ip @ lit '' for '' @ show_nat (as_secs (from_millis (nat (max millis 0)))) @ lit ''s.''
    \<and> fst (accept_connection conf t peer inner (st\<lparr>gs_bans := cw_bans (ban_command e (ip @ 32 # d) w)\<rparr>)) \<noteq> Refused Banned"
  using assms splitn_2_word(1) [of ip d] enter_gate_ban
  by (simp add: plain_word_def ban_command_def nonempty_def Let_def accept_connection_def del: show_nat.simps)

text \<open>A line that starts with a word whose lowercase form is longer ends the console: the cut behind the
  command is made at the length of the lowercase word, past the end of the line. No later line is read.\<close>

theorem console_thread_panics:
  assumes "ce_lc e [0x130] = [0x69, 0x307]"
  shows "run_plain ((e, Some [0x130]) # later) w = Thread_Panicked w"
proof -
  have "trim [0x130] = [0x130]" by (simp add: trim_id is_whitespace_def)
  moreover have "str_from (length (as_bytes [0x69, 0x307])) [0x130] = Panicked"
    by (simp add: as_bytes_def utf8_encode_char_def)
  ultimately show ?thesis
    using assms by (simp add: handle_command_def to_lowercase_def is_ascii_def Let_def del: str_from.simps)
qed

text \<open>A kick without a message does not clear an action that an earlier command left behind because its
  notification found nobody waiting: the player is transferred instead of kicked.\<close>

theorem plain_kick_runs_stale_action:
  assumes keyed: "sessions_keyed (aw_sessions (cw_gate w))" and found: "find_by_name name (aw_sessions (cw_gate w)) = Some s" and word: "plain_word name"
    and stale: "ps_pending_action s = Transfer host port" and inject: "can_inject_packet s"
  shows "hm_get (aw_sessions (cw_gate (kick_command name w))) (ps_uuid s) = Some s
    \<and> fst (handle_pending_action interp lc z s) = run_bind (packet_ids (ps_protocol_version s)) (\<lambda>ids.
         Returned (Some (encode_transfer z ids host port (word_of_int (ps_compression_threshold s)))))"
  using find_by_name_keyed(1) [OF keyed found] found word stale inject splitn_2_word(2) [of name]
  by (simp add: kick_command_def plain_word_def nonempty_def Let_def handle_pending_action_def)

text \<open>Ctrl+C at the interactive prompt ends the process without the drain that Ctrl+C elsewhere and the stop
  command perform: nobody is woken, the writers still run and queued records are lost.\<close>

theorem interactive_interrupt_skips_drain:
  "\<exists>w'. run_rustyline ((e, Interrupted) # ls) w = Exited w' \<and> cw_woken w' = cw_woken w \<and> cw_gate w' = cw_gate w"
  by simp

text \<open>While the line editor shows its prompt no log line goes past it: all lines are printed by its printer, in
  order; with the plain reader all go to the standard output.\<close>

theorem console_lines_one_way:
  assumes "console_run force_plain editor_ok printer_ok s = (interactive, s')" "\<not> sc_printer s"
  shows "fold print_console_line ls s' = (if interactive then s'\<lparr>sc_above_prompt := sc_above_prompt s @ map (\<lambda>l. l @ [10]) ls\<rparr>
    else s'\<lparr>sc_stdout := sc_stdout s @ map (\<lambda>l. l @ [10]) ls\<rparr>)"
proof -
  have "fold print_console_line ls t = (if sc_printer t then t\<lparr>sc_above_prompt := sc_above_prompt t @ map (\<lambda>l. l @ [10]) ls\<rparr>
    else t\<lparr>sc_stdout := sc_stdout t @ map (\<lambda>l. l @ [10]) ls\<rparr>)" for t
    by (induction ls arbitrary: t) (simp_all add: print_console_line_def lit_def)
  then show ?thesis using assms by (auto simp: console_run_def set_active_line_printer_def split: if_splits)
qed

theorem console_lines_one_way_witness:
  "sc_stdout (fold print_console_line [lit ''a''] (snd (console_run False True True \<lparr>sc_printer = False, sc_above_prompt = [], sc_stdout = []\<rparr>))) = []"
  using console_lines_one_way [of False True True "\<lparr>sc_printer = False, sc_above_prompt = [], sc_stdout = []\<rparr>" True _ "[lit ''a'']"]
  by (simp add: console_run_def set_active_line_printer_def)

section \<open>Examples\<close>

definition demo_console_env :: console_env where
  "demo_console_env = \<lparr>ce_api = demo_api_env demo_yaml demo_volume, ce_uptime = 0, ce_version = lit ''1''\<rparr>"

definition demo_player :: "session_action \<Rightarrow> player_session" where
  "demo_player a = (demo_session 3)\<lparr>ps_protocol_version := 774, ps_pending_action := a\<rparr>"

definition demo_console :: "session_action \<Rightarrow> console_world" where
  "demo_console a = \<lparr>cw_gate = (demo_world [''a''])\<lparr>aw_sessions := [(replicate 16 7, demo_player a)]\<rparr>, cw_bans = [], cw_woken = [], cw_log = []\<rparr>"

definition demo_peer :: socket_addr where
  "demo_peer = SocketAddr (V4 1 2 3 4) 5000"

definition demo_shared :: gate_shared where
  "demo_shared = \<lparr>gs_bans = [], gs_global = 0, gs_rates = [], gs_prelogin = []\<rparr>"

lemma demo_player_simps: "ps_uuid (demo_player a) = replicate 16 7" "ps_conn (demo_player a) = 3" "ps_pending_action (demo_player a) = a"
    "(demo_player a)\<lparr>ps_pending_action := b\<rparr> = demo_player b"
  by (simp_all add: demo_player_def demo_session_def)

lemma demo_player_injectable: "can_inject_packet (demo_player a)"
  by (simp add: can_inject_packet_def demo_player_def demo_session_def reconnect_supported_def bracket_for_def)

lemma demo_console_woken: "cw_woken (demo_console a) = []"
  by (simp add: demo_console_def)

lemma demo_console_keyed: "sessions_keyed (aw_sessions (cw_gate (demo_console a)))"
  by (simp add: sessions_keyed_def demo_console_def hm_ok_def demo_player_simps)

lemma demo_console_find: "find_by_name (lit ''steve'') (aw_sessions (cw_gate (demo_console a))) = Some (demo_player a)"
  by (simp add: demo_console_def find_by_name_def demo_player_def demo_session_def eq_ignore_ascii_case_def to_ascii_lowercase_def lit_def)

lemma demo_words: "plain_word (lit ''steve'')" "plain_word (lit ''1.2.3.4'')" "trim (lit ''hi'') = lit ''hi''" "trim (lit ''1m'') = lit ''1m''"
  by (simp_all add: plain_word_def trim_id is_whitespace_def lit_def)

lemma demo_peer_ip: "ip_of demo_peer = lit ''1.2.3.4''"
  by (simp add: ip_of_def demo_peer_def show_ipv4_def show_octet_def show_nat.simps lit_def)

lemma demo_minute: "parse_duration_millis (lit ''1m'') = Inr 60000"
  by (simp add: parse_duration_millis_def lit_def trim_def trim_end_by_def is_whitespace_def is_amount_char_def
      is_ascii_digit_def parse_i64_def parse_signed_def digits_value_def duration_unit_def wrap_i64_def Let_def)

theorem kick_and_transfer_reach_player_witness:
  "hm_get (aw_sessions (cw_gate (kick_command (lit ''steve'' @ 32 # lit ''hi'') (demo_console Disconnect)))) (replicate 16 7)
     = Some (demo_player (KickWithMessage (lit ''hi'')))
   \<and> cw_woken (kick_command (lit ''steve'' @ 32 # lit ''hi'') (demo_console Disconnect)) = [3]"
proof -
  have "trim (lit ''hi'') \<noteq> []" using demo_words(3) by (simp add: lit_def)
  note reach = kick_and_transfer_reach_player [OF demo_console_keyed demo_console_find [of Disconnect] demo_words(1) this disjI1 [OF conjI [OF refl refl]]]
  show ?thesis
    using reach [THEN conjunct1] reach [THEN conjunct2, THEN conjunct2, THEN conjunct1]
    by (simp add: demo_words(3) demo_player_simps demo_console_woken)
qed

theorem console_ban_enforced_witness:
  "fst (accept_connection (gate_config_default\<lparr>gc_auto_ban := (gc_auto_ban gate_config_default)\<lparr>ab_enabled := True\<rparr>\<rparr>) 5 demo_peer []
     (demo_shared\<lparr>gs_bans := cw_bans (ban_command demo_console_env (lit ''1.2.3.4'' @ 32 # lit ''1m'') (demo_console Disconnect))\<rparr>)) = Refused Banned"
proof -
  have "trim (lit ''1m'') \<noteq> []" using demo_words(4) by (simp add: lit_def)
  from console_ban_enforced [OF demo_words(2) this, of 60000 "gate_config_default\<lparr>gc_auto_ban := (gc_auto_ban gate_config_default)\<lparr>ab_enabled := True\<rparr>\<rparr>"
      demo_peer 5 demo_console_env "[]" "demo_console Disconnect" demo_shared]
  show ?thesis using demo_words(4) demo_minute demo_peer_ip
    by (simp add: gate_config_default_def demo_console_env_def demo_api_env_def from_millis_def)
qed

theorem manual_ban_ignored_witness:
  "fst (accept_connection (gate_config_default\<lparr>gc_auto_ban := (gc_auto_ban gate_config_default)\<lparr>ab_enabled := False\<rparr>\<rparr>) 5 demo_peer []
     (demo_shared\<lparr>gs_bans := cw_bans (ban_command demo_console_env (lit ''1.2.3.4'' @ 32 # lit ''1m'') (demo_console Disconnect))\<rparr>)) \<noteq> Refused Banned"
proof -
  have "trim (lit ''1m'') \<noteq> []" using demo_words(4) by (simp add: lit_def)
  from manual_ban_ignored [OF _ demo_words(2) _ this, of "gate_config_default\<lparr>gc_auto_ban := (gc_auto_ban gate_config_default)\<lparr>ab_enabled := False\<rparr>\<rparr>" 60000
      demo_console_env "demo_console Disconnect" 5 demo_peer "[]" demo_shared]
  show ?thesis using demo_words(4) demo_minute by simp
qed

theorem console_reads_command_witness:
  "handle_command demo_console_env (lit ''KICK steve'') (demo_console Disconnect) = Waiting (kick_command (lit ''steve'') (demo_console Disconnect))"
proof -
  have "trim (lit ''KICK steve'') = lit ''KICK'' @ lit '' steve''" by (simp add: trim_id is_whitespace_def lit_def)
  moreover have "trim (lit '' steve'') = lit ''steve''" by (simp add: trim_def trim_end_by_def is_whitespace_def lit_def)
  moreover have "command_of (map to_ascii_lowercase (lit ''KICK'')) = Kick" by (simp add: command_of_def command_words_def to_ascii_lowercase_def lit_def)
  ultimately show ?thesis
    using console_reads_command [of "lit ''KICK steve''" "lit ''KICK''" "lit '' steve''" demo_console_env "demo_console Disconnect"]
    by (simp add: is_ascii_def lit_def)
qed

theorem console_shows_only_witness:
  "\<exists>w'. run_command demo_console_env Players [] [] (demo_console Disconnect) \<in> {Waiting w', Thread_Panicked w'} \<and> only_shown (demo_console Disconnect) w'"
  by (rule console_shows_only) simp

theorem console_thread_panics_witness:
  "run_plain [(demo_console_env\<lparr>ce_api := (ce_api demo_console_env)\<lparr>ae_ex := demo_externs\<lparr>ex_lc := \<lambda>s. if s = [0x130] then [0x69, 0x307] else s\<rparr>\<rparr>\<rparr>, Some [0x130]),
     (demo_console_env, Some (lit ''stop''))] (demo_console Disconnect) = Thread_Panicked (demo_console Disconnect)"
  by (rule console_thread_panics) (simp add: ce_lc_def)

theorem plain_kick_runs_stale_action_witness:
  "hm_get (aw_sessions (cw_gate (kick_command (lit ''steve'') (demo_console (Transfer (lit ''x'') 1))))) (replicate 16 7)
     = Some (demo_player (Transfer (lit ''x'') 1))"
  using plain_kick_runs_stale_action [OF demo_console_keyed demo_console_find [of "Transfer (lit ''x'') 1"] demo_words(1), of "lit ''x''" 1, THEN conjunct1]
    demo_player_injectable by (simp add: demo_player_simps)

definition metered_route :: route where
  "metered_route = (demo_app_route ''a'')\<lparr>rt_metrics := Some \<lparr>rm_file = None, rm_upload = \<lparr>mu_enabled = True, mu_limit = - 1\<rparr>,
     rm_download = \<lparr>mu_enabled = False, mu_limit = - 1\<rparr>, rm_reset_interval_millis = 0\<rparr>\<rparr>"

definition metered_console :: console_world where
  "metered_console = (demo_console Disconnect)\<lparr>cw_gate := on_services (\<lambda>s. s\<lparr>sv_metrics := \<lparr>ms_counters =
      [(lit ''host:a'', (counter_new (lit ''host:a''))\<lparr>tc_upload_bytes := 9\<rparr>), (lit ''b'', (counter_new (lit ''b''))\<lparr>tc_upload_bytes := 8\<rparr>)], ms_flush_interval = 0\<rparr>\<rparr>)
     ((demo_world [''a''])\<lparr>aw_app := (demo_app [''a''])\<lparr>st_config := (demo_config [''a''])\<lparr>gc_routes := [metered_route]\<rparr>\<rparr>\<rparr>)\<rparr>"

lemma metered_console_routes: "live_routes metered_console = [metered_route]"
  by (simp add: live_routes_def aw_config_def metered_console_def on_services_def)

theorem metrics_reset_scope_witness:
  "\<exists>w'. metrics_command demo_console_env (lit ''reset 0'') metered_console = (Returned (), w')
     \<and> zeroed_for [metered_route] (live_counters metered_console) (live_counters w')"
proof -
  have args: "split_whitespace (lit ''reset 0'') = [lit ''reset'', lit ''0'']" "lit ''reset 0'' \<noteq> []" by (simp_all add: lit_def is_whitespace_def)
  have words: "eq_ignore_ascii_case (lit ''reset'') (lit ''reset'')" "\<not> eq_ignore_ascii_case (lit ''0'') (lit ''all'')" "parse_usize (lit ''0'') = Some 0"
    by (simp_all add: eq_ignore_ascii_case_def lit_def parse_usize_def parse_unsigned_def is_ascii_digit_def digits_value_def)
  obtain w' where run: "metrics_command demo_console_env (lit ''reset 0'') metered_console = (Returned (), w')"
    using args words by (simp add: metrics_command_def reset_targets_def metered_console_routes)
  from metrics_reset_scope [OF args(1) words(1,2) run] run words(3) show ?thesis by (simp add: metered_console_routes)
qed

theorem format_bytes_accurate_witness:
  "\<exists>unit h. format_bytes (int 1536) = show_nat (h div 100) @ lit ''.'' @ two_digits (h mod 100) @ lit '' '' @ unit_names ! unit
    \<and> unit \<le> 4 \<and> 1024 ^ (unit + 1) \<le> (1536 :: nat) \<and> (unit = 4 \<or> 1536 < (1024 :: nat) ^ (unit + 2))
    \<and> 2 * (h * 1024 ^ (unit + 1)) \<le> 2 * (100 * 1536) + (1024 :: nat) ^ (unit + 1) \<and> 2 * (100 * 1536) \<le> 2 * (h * 1024 ^ (unit + 1)) + (1024 :: nat) ^ (unit + 1)"
  by (rule format_bytes_accurate) simp_all

definition tracking_console :: console_world where
  "tracking_console = (demo_console Disconnect)\<lparr>cw_gate := on_services (\<lambda>s. s\<lparr>sv_tracker := tracker_default\<lparr>tk_running := True, tk_queue := [demo_record]\<rparr>\<rparr>)
     (cw_gate (demo_console Disconnect))\<rparr>"

theorem stop_drains_witness:
  "\<exists>w'. run_command demo_console_env Stop [] [] tracking_console = Exited w' \<and> cw_woken w' = [3]
     \<and> persisted (sv_tracker (st_services (aw_app (cw_gate w')))) = [demo_record]"
proof -
  have t: "sv_tracker (st_services (aw_app (cw_gate tracking_console))) = tracker_default\<lparr>tk_running := True, tk_queue := [demo_record]\<rparr>"
    by (simp add: tracking_console_def on_services_def)
  have c: "rv_tracker_committed (ae_reload (ce_api demo_console_env))" by (simp add: demo_console_env_def demo_reload_def)
  have l: "map ps_conn (live_sessions demo_console_env tracking_console) = [3]" "cw_woken tracking_console = []"
    by (simp_all add: live_sessions_def sessions_all_def tracking_console_def demo_console_def on_services_def demo_player_simps)
  have p: "persisted (tracker_default\<lparr>tk_running := True, tk_queue := [demo_record]\<rparr>) = []"
    by (simp add: persisted_def table_of_def tracker_default_def db_empty_def)
  from stop_drains [of tracking_console demo_console_env "[]" "[]"] c t l p show ?thesis by auto
qed

end
