(* ===== verification/Gate_Main.thy ===== *)
theory Gate_Main
  imports Gate_Console
begin

text \<open>
  The entry point, \<open>src/main.rs\<close>: the command line, the order of start-up with everything that can fail on
  the way, and which tasks run afterwards. The stop is \<open>shutdown_gracefully\<close> of the console's theory,
  which Ctrl+C and the console share.

  What the platform does is in the environment: whether the log directory, the two file watchers and the
  disk work, and the default texts compiled into the binary. The banner and the version lines it prints
  are not modelled.
\<close>

section \<open>Definitions\<close>

text \<open>The arguments behind the program name. \<open>None\<close> means that help or the version was printed.\<close>

fun parse_args_loop :: "str list \<Rightarrow> str list \<Rightarrow> str list option" where
  "parse_args_loop positional [] = Some positional"
| "parse_args_loop positional (arg # args) =
     (if arg = lit ''-h'' \<or> arg = lit ''--help'' then None
      else if arg = lit ''-V'' \<or> arg = lit ''--version'' then None
      else parse_args_loop (positional @ [arg]) args)"

definition parse_args :: "str list \<Rightarrow> (str \<times> str) option" where
  "parse_args args =
     (case parse_args_loop [] args of
        None \<Rightarrow> None
      | Some positional \<Rightarrow>
          Some (if 0 < length positional then positional ! 0 else lit ''config.yml'',
                if 1 < length positional then positional ! 1 else lit ''messages.yml''))"

record main_env =
  me_volume :: volume
  me_yaml :: yaml_lib
  me_ex :: externs
  me_reload :: reload_env
  me_default_config :: str
  me_default_messages :: str
  me_services :: services
  me_logging :: "str + unit"
  me_watch_messages :: "str + unit"
  me_watch_config :: "str + unit"

datatype task = Dns_Evictor | Rate_Sweeper | Ban_Sweeper | Console_Thread | Api_Server | Metrics_Ticker | Voice_Evictor
  | Udp_Forward udp_proxy_config | Voice_Relay_Server socket_addr bool | Tcp_Server

record running =
  rn_app :: app_state
  rn_held :: held_reconnect_sessions
  rn_tasks :: "task list"

datatype start = Left_Early | Start_Error cfg_error | Running running

text \<open>The tasks of a configuration, in the order they are spawned. The voice relay shares the address of the
  main listener and is there only if some route has a voice chat backend.\<close>

definition voice_tasks :: "externs \<Rightarrow> gate_config \<Rightarrow> str + task list" where
  "voice_tasks ex c =
     (if list_ex (\<lambda>r. rt_voicechat_templates r \<noteq> []) (gc_routes c)
      then bind_result (bind_address ex c) (\<lambda>a. Inr [Voice_Relay_Server a (gc_udp_proxy_protocol c)])
      else Inr [])"

definition start_tasks :: "main_env \<Rightarrow> app_state \<Rightarrow> start" where
  "start_tasks e st =
     (let c = st_config st in
      case voice_tasks (me_ex e) c of
        Inl er \<Rightarrow> Start_Error (Cfg_Error er)
      | Inr voice \<Rightarrow>
          Running \<lparr>rn_app = st, rn_held = hr_set_max (gc_max_held_reconnect_sessions c) \<lparr>hr_held = 0, hr_max = 500\<rparr>,
            rn_tasks = [Dns_Evictor, Rate_Sweeper, Ban_Sweeper, Console_Thread, Api_Server, Metrics_Ticker, Voice_Evictor]
              @ map Udp_Forward (gc_udp_proxies c) @ voice @ [Tcp_Server]\<rparr>)"

definition start_loaded :: "main_env \<Rightarrow> str \<Rightarrow> str \<Rightarrow> gate_messages \<Rightarrow> gate_config \<Rightarrow> start" where
  "start_loaded e config_path messages_path messages c =
     (case bind_result (me_logging e) (\<lambda>_. bind_result (me_watch_messages e) (\<lambda>_. me_watch_config e)) of
        Inl er \<Rightarrow> Start_Error (Cfg_Error er)
      | Inr _ \<Rightarrow>
          start_tasks e (app_state_new (me_reload e) config_path messages_path c messages
            (log_level_apply (me_reload e) (gc_log_level c) (me_services e))))"

definition start_up :: "main_env \<Rightarrow> str list \<Rightarrow> files \<Rightarrow> start \<times> files" where
  "start_up e args fs =
     (case parse_args args of
        None \<Rightarrow> (Left_Early, fs)
      | Some (config_path, messages_path) \<Rightarrow>
          (case messages_load_or_create_default (me_volume e) (me_yaml e) (me_default_messages e) messages_path fs of
             (Inl er, fs) \<Rightarrow> (Start_Error er, fs)
           | (Inr messages, fs) \<Rightarrow>
               (case load_or_create_default (me_volume e) (me_yaml e) (me_ex e) (me_default_config e) config_path messages fs of
                  (Inl er, fs) \<Rightarrow> (Start_Error er, fs)
                | (Inr c, fs) \<Rightarrow> (start_loaded e config_path messages_path messages c, fs))))"

section \<open>Properties\<close>

definition is_option :: "str \<Rightarrow> bool" where
  "is_option arg \<longleftrightarrow> arg \<in> {lit ''-h'', lit ''--help'', lit ''-V'', lit ''--version''}"

lemma parse_args_loop_spec: "parse_args_loop acc args = (if list_ex is_option args then None else Some (acc @ args))"
  by (induction acc args rule: parse_args_loop.induct) (auto simp: is_option_def)

text \<open>The command line: an option anywhere prints and leaves; otherwise the first two arguments are the two
  file names, with the usual defaults.\<close>

theorem parse_args_spec:
  "parse_args args = (if list_ex is_option args then None
     else Some (case args of [] \<Rightarrow> (lit ''config.yml'', lit ''messages.yml'') | [c] \<Rightarrow> (c, lit ''messages.yml'') | c # m # _ \<Rightarrow> (c, m)))"
  by (auto simp: parse_args_def parse_args_loop_spec split: list.split)

lemma bootstrap_writes:
  assumes "fs path = None" "vol_write vol path = Written" "path_dir path = [] \<or> vol_create_dir vol (path_dir path)"
  shows "bootstrap vol what text path fs = (Inr (), fs(path := Some text))"
  using assms by (auto simp: bootstrap_def fs_write_def)

lemma bootstrap_keeps: "fs path \<noteq> None \<Longrightarrow> bootstrap vol what text path fs = (Inr (), fs)"
  by (simp add: bootstrap_def)

text \<open>A start never touches files that are there: when both files exist, whatever they hold, starting leaves
  every file as it was, and what runs is the configuration the file loads to.\<close>

theorem start_preserves_files:
  assumes args: "parse_args args = Some (cp, mp)" and there: "fs cp \<noteq> None" "fs mp \<noteq> None" and run: "start_up e args fs = (res, fs')"
  shows "fs' = fs \<and> (\<forall>r. res = Running r \<longrightarrow>
    messages_load (me_yaml e) fs mp = Inr (st_messages (rn_app r))
    \<and> load_config_file (me_yaml e) (me_ex e) fs cp (st_messages (rn_app r)) = Inr (st_config (rn_app r)))"
proof -
  have new: "st_config (app_state_new ev cp mp c m s) = c" "st_messages (app_state_new ev cp mp c m s) = m" for ev c m s
    by (simp_all add: app_state_new_def split: prod.split)
  show ?thesis
    using args run there
    by (auto simp: start_up_def messages_load_or_create_default_def load_or_create_default_def bootstrap_keeps start_loaded_def start_tasks_def
        Let_def new split: sum.splits)
qed

text \<open>The first start works. In an empty directory, when the disk takes the two files and the texts
  compiled into the binary load, to a bind address that can be read where the voice relay needs it, MCGate runs with exactly the configuration of these texts, both files
  are there afterwards, every configured UDP forward has its task, the voice relay runs if and only if a
  route has a voice chat backend, and the listener runs.\<close>

theorem first_start_runs:
  assumes fresh: "fs (lit ''config.yml'') = None" "fs (lit ''messages.yml'') = None"
    and disk: "vol_write (me_volume e) (lit ''config.yml'') = Written" "vol_write (me_volume e) (lit ''messages.yml'') = Written"
    and loads: "messages_load (me_yaml e) [lit ''messages.yml'' \<mapsto> me_default_messages e] (lit ''messages.yml'') = Inr m"
      "load_text (me_yaml e) (me_ex e) m (me_default_config e) = Inr c"
    and platform: "me_logging e = Inr ()" "me_watch_messages e = Inr ()" "me_watch_config e = Inr ()"
    and bind: "list_ex (\<lambda>x. rt_voicechat_templates x \<noteq> []) (gc_routes c) \<longrightarrow> bind_address (me_ex e) c = Inr a"
  shows "\<exists>r fs'. start_up e [] fs = (Running r, fs')
    \<and> fs' = fs(lit ''messages.yml'' \<mapsto> me_default_messages e, lit ''config.yml'' \<mapsto> me_default_config e)
    \<and> st_config (rn_app r) = c \<and> st_messages (rn_app r) = m \<and> runtimes_ok (rn_app r)
    \<and> filter (\<lambda>t. \<exists>u. t = Udp_Forward u) (rn_tasks r) = map Udp_Forward (gc_udp_proxies c)
    \<and> (\<exists>b. Voice_Relay_Server a b \<in> set (rn_tasks r)) = (\<exists>x \<in> set (gc_routes c). rt_voicechat_templates x \<noteq> [])
    \<and> Tcp_Server \<in> set (rn_tasks r)"
proof -
  have names: "path_dir (lit ''config.yml'') = []" "path_dir (lit ''messages.yml'') = []" "lit ''config.yml'' \<noteq> lit ''messages.yml''"
    by (simp_all add: path_dir_def path_trunk_def rsplit_once_def lit_def)
  let ?st = "app_state_new (me_reload e) (lit ''config.yml'') (lit ''messages.yml'') c m (log_level_apply (me_reload e) (gc_log_level c) (me_services e))"
  have st: "st_config ?st = c" "st_messages ?st = m" by (simp_all add: app_state_new_def split: prod.split)
  have args: "parse_args [] = Some (lit ''config.yml'', lit ''messages.yml'')" by (simp add: parse_args_def)
  have "messages_load (me_yaml e) (fs(lit ''messages.yml'' \<mapsto> me_default_messages e)) (lit ''messages.yml'') = Inr m"
    using loads(1) by (simp add: messages_load_def)
  moreover have "load_config_file (me_yaml e) (me_ex e) (fs(lit ''messages.yml'' \<mapsto> me_default_messages e, lit ''config.yml'' \<mapsto> me_default_config e)) (lit ''config.yml'') m = Inr c"
    using loads(2) by (simp add: load_config_file_text)
  ultimately have run: "start_up e [] fs = (start_tasks e ?st, fs(lit ''messages.yml'' \<mapsto> me_default_messages e, lit ''config.yml'' \<mapsto> me_default_config e))"
    using fresh disk names platform
    by (simp add: start_up_def args messages_load_or_create_default_def load_or_create_default_def bootstrap_writes start_loaded_def bind_result_def)
  show ?thesis
    using run st bind app_state_new_ok
    by (auto simp: start_tasks_def voice_tasks_def bind_result_def list_ex_iff filter_map o_def)
qed

section \<open>Examples\<close>

text \<open>A YAML library that reads every text as an empty document.\<close>

definition blank_yaml :: yaml_lib where
  "blank_yaml = \<lparr>yl_parse = (\<lambda>_. Inr Y_Null), yl_print = (\<lambda>_. Inr [])\<rparr>"

definition demo_main :: main_env where
  "demo_main = \<lparr>me_volume = demo_volume, me_yaml = blank_yaml, me_ex = demo_externs, me_reload = demo_reload, me_default_config = lit ''c'',
     me_default_messages = lit ''m'', me_services = demo_services, me_logging = Inr (), me_watch_messages = Inr (), me_watch_config = Inr ()\<rparr>"

lemma blank_loads: "load_text blank_yaml ex m t = Inr gate_config_default"
  by (simp add: load_text_def cfg_def blank_yaml_def load_config_def as_map_def Let_def parse_routes_def parse_udp_def parse_api_def
      parse_connection_tracking_def parse_stats_logging_def parse_connection_throttle_def parse_auto_ban_def
      parse_udp_throttle_def gate_config_default_def sort_routes_def)

theorem first_start_runs_witness:
  "\<exists>r fs'. start_up demo_main [] (\<lambda>_. None) = (Running r, fs') \<and> st_config (rn_app r) = gate_config_default \<and> Tcp_Server \<in> set (rn_tasks r)"
proof -
  have m: "messages_load (me_yaml demo_main) [lit ''messages.yml'' \<mapsto> me_default_messages demo_main] (lit ''messages.yml'') = Inr (messages_parse Y_Null)"
    by (simp add: messages_load_def demo_main_def blank_yaml_def bind_result_def cfg_def)
  have c: "load_text (me_yaml demo_main) (me_ex demo_main) (messages_parse Y_Null) (me_default_config demo_main) = Inr gate_config_default"
    using blank_loads by (simp add: demo_main_def)
  have v: "vol_write (me_volume demo_main) (lit ''config.yml'') = Written" "vol_write (me_volume demo_main) (lit ''messages.yml'') = Written"
    by (simp_all add: demo_main_def demo_volume_def lit_def)
  have p: "me_logging demo_main = Inr ()" "me_watch_messages demo_main = Inr ()" "me_watch_config demo_main = Inr ()"
    by (simp_all add: demo_main_def)
  have "list_ex (\<lambda>x. rt_voicechat_templates x \<noteq> []) (gc_routes gate_config_default) \<longrightarrow> bind_address (me_ex demo_main) gate_config_default = Inr demo_peer"
    by (simp add: gate_config_default_def)
  from first_start_runs [OF refl refl v m c p this] show ?thesis by (elim exE conjE) (intro exI conjI, assumption+)
qed

theorem start_preserves_files_witness:
  "snd (start_up demo_main [lit ''gate.yml'', lit ''odd.yml''] demo_files) = demo_files"
proof -
  obtain res fs' where run: "start_up demo_main [lit ''gate.yml'', lit ''odd.yml''] demo_files = (res, fs')" by (metis prod.exhaust)
  moreover have "parse_args [lit ''gate.yml'', lit ''odd.yml''] = Some (lit ''gate.yml'', lit ''odd.yml'')" by (simp add: parse_args_def lit_def)
  ultimately show ?thesis using start_preserves_files [of "[lit ''gate.yml'', lit ''odd.yml'']" "lit ''gate.yml''" "lit ''odd.yml''" demo_files demo_main res fs']
    by (simp add: demo_files_def)
qed

end
