(* ===== verification/Spec2Isabelle.thy ===== *)
theory Spec2Isabelle
  imports Gate_Server Voice_Traffic Colour_Gradient Error_Texts Log_Colours Platform_Info Gate_Main
begin

text \<open>
  A verification development of MCGate, a reverse proxy for Minecraft servers written in Rust. All file
  names below are relative to \<open>src/\<close>.

  \<^bold>\<open>The program.\<close> A client opens a TCP connection. The accept loop (\<open>src/net/server.rs\<close>) checks the ban list, the
  connection ceilings and the per-address limits, reads an optional PROXY header and the first packet,
  and finds the route of the configuration whose host pattern matches the host in the handshake. A
  status request is answered from a backend or a cache; a login is forwarded to one of the route's
  backends, and from then on bytes are relayed in both directions while the session is counted and can
  be kicked or transferred. Beside it run a UDP forwarder, a relay for voice chat, an admin API, an
  operator console, file watchers that reload the configuration, and writers for statistics.

  \<^bold>\<open>The theories.\<close> Definitions carry the names of the Rust items they translate where Isabelle allows it.

  \<^item> Foundations. \<open>Gate_Prelude\<close> (numbers, times, hash maps as association lists, results, the locale of
    counting slots), \<open>Rust_Std\<close> (panics as the type \<open>run\<close>, texts as lists of scalar values, UTF-8, number
    parsing and printing), \<open>Net_Addr\<close> (\<open>std::net\<close>), \<open>Byte_Stream\<close> (a socket as the list of what successive
    reads deliver: data, end or error).
  \<^item> Wire formats, \<open>src/protocol/\<close>. \<open>Varint\<close>, \<open>Minecraft_Protocol\<close>, \<open>Handshake\<close>, \<open>Proxy_Protocol\<close> (TCP and
    datagram headers), \<open>Nbt\<close>, \<open>Compression\<close>, \<open>Reconnect_Protocol\<close>, \<open>Text_Format\<close>, \<open>Colour_Gradient\<close> (the
    double-precision arithmetic of gradients), \<open>Error_Texts\<close>; \<open>Buffered_Stream\<close> is
    \<open>src/net/buffered_stream.rs\<close>. Shown: encoders and decoders are inverse, decoders decide every input, a
    packet is read the same however the stream is cut into pieces, lengths and decompression are bounded,
    a gradient's colours stay between its stops in spite of rounding, error texts tell errors apart.
  \<^item> Configuration, \<open>src/config.rs\<close> and \<open>src/config/\<close>. \<open>Duration_Parse\<close>, \<open>Host_Pattern\<close>, \<open>Gate_Config\<close>,
    \<open>Config_Editor\<close>. Shown: the wildcard matcher equals the glob relation it optimises, routes are
    ordered by priority, edits of the YAML document refine list operations on the routes, a text that
    does not load never replaces the file.
  \<^item> Admission, \<open>src/net/\<close>. \<open>Connection_Guard\<close>, \<open>Flood_Control\<close>, \<open>Ip_Ban\<close>, and \<open>Admission\<close>, which composes them
    as the accept loop does, as a step relation over any number of connections. Shown: slots are
    conserved under every interleaving, ceilings hold, a banned address is never admitted, a violation
    is charged to the address that committed it.
  \<^item> Serving. \<open>Dns_Cache\<close>, \<open>Ping_Cache\<close>, \<open>Route_State\<close> (player registry, backend order, runtime counters),
    \<open>Status_Handler\<close>, \<open>Login_Handler\<close>, \<open>Session_Relay\<close>, \<open>Connection_Tracker\<close>, \<open>Route_Metrics\<close>,
    \<open>Metrics_Snapshot\<close>, \<open>Stats_Logger\<close>, and \<open>Gate_Server\<close>, the accept loop and the handler of one connection
    from its accepted socket to its end. Shown: backends are permuted and round robin is fair, a session
    carries exactly the client's and the backend's bytes, a login leaves no count behind on any exit, the
    handler of a connection is a run of the admission steps that gives back all it took,
    the status handler ends on every input, counters survive reloads and restarts, records are stored
    exactly once.
  \<^item> UDP, \<open>src/udp/\<close>. \<open>Udp_Relay\<close> and \<open>Voice_Relay\<close> are the session tables and their handlers; \<open>Udp_Traffic\<close> adds
    the sockets, the reader of each session and the loops, \<open>Voice_Traffic\<close> the routing table and its hook. Both run over arbitrary
    sequences of events. Shown: session limits hold, what a client sends goes out on its own socket only
    and it hears only that one, voice is relayed only for addresses with a player logged in, routing
    entries live exactly as long as the logins that hold them.
  \<^item> Operation. \<open>App_State\<close> (\<open>src/state/app_state.rs\<close> and the watchers), \<open>Backend_Pinger\<close>, \<open>Api_Views\<close> and
    \<open>Gate_Api\<close> (\<open>src/net/api.rs\<close>), \<open>Gate_Console\<close> (\<open>src/console.rs\<close> and the stop in \<open>src/main.rs\<close>), \<open>Gate_Main\<close>
    (\<open>src/main.rs\<close>), \<open>Log_Files\<close> and \<open>Log_Colours\<close> (\<open>src/logging.rs\<close>), \<open>Platform_Info\<close>. Shown: every route
    always has its runtime and keeps it over a reload, a failed reload changes no setting, file and
    live configuration stay in step through API edits, nothing happens without the API token, console
    commands reach exactly what they name, the first start runs with the bundled configuration.
  \<^item> This theory holds what spans them: the route a connection gets, from the document to the handshake, and
    a login and a server list ping as runs of all the components, from the accepted socket to the bytes
    the backend and the client receive.

  \<^bold>\<open>State and effects.\<close> Each component's state is a record with the source's fields; an operation takes it and
  returns it changed, with the value or error it yields. A panic is the value \<open>Panicked\<close>. Mutexes and
  atomics make their operations single steps; where the code's steps can interleave, they are separate
  definitions and the properties quantify over sequences or over a step relation. Runtimes that several
  holders share live in an arena and are referred to by index. Machine integers are words or integers
  with the wrap-around written out. Interfaces that several components provide are locales, each
  interpreted on the definitions that model the code: tables with a lookup law, tables of counted slots,
  sweeps that leave answers unchanged and prefix codecs in \<open>Gate_Prelude\<close>, readers of framed packets in
  \<open>Buffered_Stream\<close>, edits of the route list in \<open>Config_Editor\<close>.

  \<^bold>\<open>Parameters.\<close> What is not in the repository is an argument: the YAML library, zlib and gzip, SQLite's success or
  failure, the DNS resolver, the regular expression engine, Unicode case mapping beyond ASCII, floating
  point beyond gradients and what the console prints, the clock, the disk's behaviour at each write, and what peers
  send. Where a property needs more than their type, it names the documented behaviour as a hypothesis,
  and its witness supplies a concrete instance.

  \<^bold>\<open>Loops and bounds.\<close> Loops over data are structural recursion or recursion with a measure. A status
  request's wait for a dial slot is bounded by the passes its deadline allows (\<open>SLOT_WAIT_PASSES\<close>, one
  more than the number of polls before it, so that the last pass always sees the deadline); reads consume the list of what the peer sends, so they end.
  The accept loop and the UDP loops, which never end, are runs over a list of the events they meet, and the
  properties hold for every list; other tickers and sweepers are their single turns. When a timer fires is
  not modelled.

  \<^bold>\<open>Defects.\<close> Theorems in sections called Defects, or introduced as such, prove behaviour that differs from what the
  code's documentation says or plainly intends; they are listed as findings of the manifest.

  \<^bold>\<open>Not modelled.\<close> The build script; module declarations; tests; the Java launcher;
  the texts of the bundled resources; the HTTP, terminal and logging libraries' own behaviour; timing
  and scheduling of tasks.
\<close>

section \<open>Routing, from the file to the connection\<close>

text \<open>What walking the routes in order finds.\<close>

lemma match_route_first:
  assumes "match_route lc i rs host = Returned res"
  shows "case res of
      None \<Rightarrow> \<forall>r \<in> set rs. route_match_host lc (rt_host_patterns r) host = Returned None
    | Some (k, r, caps) \<Rightarrow> i \<le> k \<and> k - i < length rs \<and> rs ! (k - i) = r \<and> route_match_host lc (rt_host_patterns r) host = Returned (Some caps)
        \<and> (\<forall>j < k - i. route_match_host lc (rt_host_patterns (rs ! j)) host = Returned None)"
  using assms
proof (induction lc i rs host rule: match_route.induct)
  case (2 lc i r rs host)
  obtain m where m: "route_match_host lc (rt_host_patterns r) host = Returned m"
    using 2(2) by (cases "route_match_host lc (rt_host_patterns r) host") (auto simp: run_bind_def)
  show ?case
  proof (cases m)
    case (Some caps)
    then show ?thesis using 2(2) m by (auto simp: run_bind_def)
  next
    case None
    then have "match_route lc (i + 1) rs host = Returned res" using 2(2) m by (simp add: run_bind_def)
    note rest = 2(1) [OF this]
    show ?thesis
    proof (cases res)
      case (Some x)
      obtain k r' caps where x: "x = (k, r', caps)" by (metis prod.exhaust)
      then obtain n where "k = i + Suc n" using rest Some by (auto simp: le_iff_add)
      then show ?thesis using rest Some x m None by (auto simp: less_Suc_eq_0_disj)
    qed (use rest m None in auto)
  qed
qed auto

lemma sorted_wrt_later:
  assumes "sorted_wrt P xs" "k < length xs" "x \<in> set xs" "\<forall>j < k. xs ! j \<noteq> x"
  shows "x = xs ! k \<or> P (xs ! k) x"
proof -
  obtain j where j: "j < length xs" "xs ! j = x" using assms(3) by (auto simp: in_set_conv_nth)
  then have "k \<le> j" using assms(4) by (auto simp: not_le_imp_less linorder_not_le [symmetric])
  then show ?thesis using j assms(1) by (cases "k = j") (auto simp: sorted_wrt_iff_nth_less)
qed

text \<open>C7: a client is sent to the best route. When the gate, running with a configuration loaded from a document,
  picks a route for the host of a handshake, that route matches the host, no matching route of the
  document has a higher priority, and among the matching ones of equal priority none stands before it;
  it picks none only if no route matches.\<close>

theorem best_route_chosen:
  assumes load: "load_config ex messages doc = Inr c" and pick: "match_route lc 0 (gc_routes c) host = Returned res"
  shows "case res of
      None \<Rightarrow> \<forall>r \<in> set (gc_routes c). route_match_host lc (rt_host_patterns r) host = Returned None
    | Some (k, r, caps) \<Rightarrow> k < length (gc_routes c) \<and> gc_routes c ! k = r \<and> route_match_host lc (rt_host_patterns r) host = Returned (Some caps)
        \<and> (\<forall>r' \<in> set (gc_routes c). (\<exists>caps'. route_match_host lc (rt_host_patterns r') host = Returned (Some caps')) \<longrightarrow> rt_priority r' \<le> rt_priority r)
        \<and> (\<forall>j < k. route_match_host lc (rt_host_patterns (gc_routes c ! j)) host = Returned None)"
proof (cases res)
  case None
  then show ?thesis using match_route_first [OF pick] by simp
next
  case (Some x)
  obtain k r caps where x: "x = (k, r, caps)" by (metis prod.exhaust)
  have first: "k < length (gc_routes c)" "gc_routes c ! k = r" "route_match_host lc (rt_host_patterns r) host = Returned (Some caps)"
      "\<forall>j < k. route_match_host lc (rt_host_patterns (gc_routes c ! j)) host = Returned None"
    using match_route_first [OF pick] Some x by auto
  have sorted: "sorted_wrt (\<lambda>a b. rt_priority b \<le> rt_priority a) (gc_routes c)"
    using load_config_parses [OF load] sort_routes_sorted by auto
  have "rt_priority r' \<le> rt_priority r" if "r' \<in> set (gc_routes c)" "route_match_host lc (rt_host_patterns r') host = Returned (Some caps')" for r' caps'
  proof -
    have "\<forall>j < k. gc_routes c ! j \<noteq> r'" using first(4) that(2) by auto
    from sorted_wrt_later [OF sorted first(1) that(1) this] show ?thesis using first(2) by auto
  qed
  then show ?thesis using Some x first by auto
qed

definition one_route :: mapping where
  "one_route = [(Y_String (lit ''host''), Y_String (lit ''a'')), (Y_String (lit ''backend''), Y_String (lit ''x''))]"

definition one_route_document :: yaml where
  "one_route_document = Y_Map [(Y_String (lit ''routes''), Y_Seq [Y_Map one_route])]"

lemma one_route_loads:
  "\<exists>c r. load_config demo_externs demo_messages one_route_document = Inr c \<and> gc_routes c = [r] \<and> rt_host_patterns r = [host_pattern_new (\<lambda>s. s) (lit ''a'')]"
proof -
  have get: "get one_route ''host'' = Some (Y_String (lit ''a''))" by (simp add: one_route_def get_def lit_def)
  obtain r where r: "parse_route demo_externs one_route 0 demo_messages = Inr r"
    using demo_route [of one_route "lit ''a''" "lit ''x''" 0] by (auto simp: one_route_def get_def lit_def)
  moreover have "rt_host_patterns r = [host_pattern_new (\<lambda>s. s) (lit ''a'')]"
    using r get by (auto simp: parse_route_def bind_result_Inr_iff string_list_def demo_externs_def Let_def split: option.splits)
  moreover have "parse_routes demo_externs demo_messages [Y_Map one_route] = Inr [r]" using r by (simp add: parse_routes_def as_map_def)
  ultimately show ?thesis
    by (simp add: load_config_def one_route_document_def as_map_def as_sequence_def get_map_def get_def lit_def
        get_str_def get_bool_def get_i32_def get_i64_def get_duration_def Let_def parse_udp_def parse_api_def
        parse_connection_tracking_def parse_stats_logging_def parse_connection_throttle_def parse_auto_ban_def
        parse_udp_throttle_def sort_routes_def)
qed

lemma one_host_matches:
  assumes "host \<in> {lit ''a'', lit ''A''}"
  shows "\<exists>caps. match_host (\<lambda>s. s) (host_pattern_new (\<lambda>s. s) (lit ''a'')) host = Returned (Some caps)"
  using assms
  by (auto simp: match_host_def host_pattern_new_def trim_dots_def trim_end_by_def to_lowercase_def
      is_ascii_def lit_def to_ascii_lowercase_def is_wildcard_def Let_def)

theorem best_route_chosen_witness:
  "\<exists>c r caps. load_config demo_externs demo_messages one_route_document = Inr c
     \<and> match_route (\<lambda>s. s) 0 (gc_routes c) (lit ''A'') = Returned (Some (0, r, caps)) \<and> gc_routes c ! 0 = r"
proof -
  obtain c r where c: "load_config demo_externs demo_messages one_route_document = Inr c" "gc_routes c = [r]"
      "rt_host_patterns r = [host_pattern_new (\<lambda>s. s) (lit ''a'')]"
    using one_route_loads by blast
  obtain caps where "match_route (\<lambda>s. s) 0 (gc_routes c) (lit ''A'') = Returned (Some (0, r, caps))"
    using one_host_matches [of "lit ''A''"] c by (auto simp: run_bind_def)
  with best_route_chosen [OF c(1) this] c(1) show ?thesis by auto
qed

section \<open>A connection, from the socket to the backend\<close>

lemma hello_routed:
  assumes "read_login_handshake lc now late k st = (Continue k', st')" "bs_read_handshake (cn_stream k) = (Inr h, stream)"
  shows "\<exists>i r caps. k' = k\<lparr>cn_stream := stream, cn_phase := Dispatched i r caps h\<rparr> \<and> match_route lc 0 (gc_routes (cn_cfg k)) (hs_host h) = Returned (Some (i, r, caps))"
  using assms by (auto simp: read_login_handshake_def Let_def within_def split: if_splits run.splits option.splits handshake_error.splits)

text \<open>A client that connects directly and sends a handshake and more, in segments whose sizes leave the handshake
  room in the reader's limit.\<close>

definition sends_hello :: "nat \<Rightarrow> reader \<Rightarrow> i32 \<Rightarrow> str \<Rightarrow> u16 \<Rightarrow> i32 \<Rightarrow> bytes \<Rightarrow> bool" where
  "sends_hello m inner v host port next rest \<longleftrightarrow> healthy inner \<and> incoming inner = encode_handshake v host port next @ rest
     \<and> list_all is_scalar host \<and> length (as_bytes host) \<le> 255 \<and> segments_at_most m inner \<and> length (encode_handshake v host port next) + m \<le> 1025"

abbreviation hello :: "i32 \<Rightarrow> str \<Rightarrow> u16 \<Rightarrow> i32 \<Rightarrow> handshake" where
  "hello v host port next \<equiv> \<lparr>hs_protocol_version = v, hs_host = strip_host host, hs_port = port, hs_next_state = next,
     hs_raw_frame = encode_handshake v host port next\<rparr>"

lemma hello_read:
  assumes "sends_hello m inner v host port next rest"
  shows "\<exists>stream. bs_read_handshake (bs_new inner) = (Inr (hello v host port next), stream) \<and> bs_ok stream \<and> contents stream = rest"
proof -
  have "bs_ok (bs_new inner)" "contents (bs_new inner) = encode_handshake v host port next @ rest" "segments_at_most m (bs_inner (bs_new inner))"
    using assms by (simp_all add: sends_hello_def bs_ok_def bs_new_def contents_def unread_def)
  then show ?thesis using read_handshake_delivers assms unfolding sends_hello_def by blast
qed

lemma hello_dispatched:
  assumes sent: "sends_hello m inner v host port next rest" and direct: "\<not> gc_proxy_protocol conf"
    and run: "handle_connection e conf s peer inner w = (res, w')" "\<And>why. res \<noteq> Conn_Refused why"
  shows "\<exists>k g i r caps. dispatch e s k (w\<lparr>srv_gate := g\<rparr>) = (res, w') \<and> cn_phase k = Dispatched i r caps (hello v host port next)
    \<and> bs_ok (cn_stream k) \<and> contents (cn_stream k) = rest \<and> cn_addr k = peer \<and> cn_cfg k = conf
    \<and> match_route (sn_lc e) 0 (gc_routes conf) (strip_host host) = Returned (Some (i, r, caps))"
proof -
  obtain stream where rd: "bs_read_handshake (bs_new inner) = (Inr (hello v host port next), stream)" "bs_ok stream" "contents stream = rest"
    using hello_read [OF sent] by blast
  obtain k1 g1 where a: "accept_connection conf (cs_accepted_at s) peer inner (srv_gate w) = (Continue k1, g1)"
    using run by (auto simp: handle_connection_def split: prod.splits progress.splits)
  note k1 = accept_fresh [OF a]
  obtain k2 g2 where r: "read_login_handshake (sn_lc e) (cs_hello_at s) (cs_hello_late s) k1 g1 = (Continue k2, g2)" "dispatch e s k2 (w\<lparr>srv_gate := g2\<rparr>) = (res, w')"
    using run a direct by (auto simp: handle_connection_def split: prod.splits progress.splits)
  from hello_routed [OF r(1)] rd(1) k1 obtain i rt caps where
    "k2 = k1\<lparr>cn_stream := stream, cn_phase := Dispatched i rt caps (hello v host port next)\<rparr>"
    "match_route (sn_lc e) 0 (gc_routes conf) (strip_host host) = Returned (Some (i, rt, caps))" by fastforce
  then show ?thesis using r(2) rd(2,3) k1 by (intro exI [of _ k2]) auto
qed

text \<open>C3: the proxy is transparent from end to end. When a client connects directly, sends a handshake for a host
  and then any bytes, in whatever segments the network makes of them, and the connection ends as a
  relayed login, then the backend it was relayed to has received, up to what the client's stream still
  holds, the optional PROXY header of the client's own address, the client's handshake (rewritten only
  if the route says so) and exactly the client's further bytes; the route is the first one that matches
  the host; and the client has received the backend's bytes and after them at most one packet of the
  gateway.\<close>

theorem login_end_to_end:
  fixes e :: "'e server_env"
  assumes sent: "sends_hello m inner v host port next rest" and direct: "\<not> gc_proxy_protocol conf"
    and run: "handle_connection e conf s peer inner w = (Login_Ended (Login_Relayed a l), w')"
    and backend: "\<And>b. cs_dial s a = Some b \<Longrightarrow> healthy_conn b" "\<forall>r \<in> set (gc_routes conf). counter_ok (metrics_handle r (srv_metrics w))"
  shows "\<exists>i r caps. i < length (gc_routes conf) \<and> gc_routes conf ! i = r
    \<and> route_match_host (sn_lc e) (rt_host_patterns r) (strip_host host) = Returned (Some caps)
    \<and> (\<forall>j < i. route_match_host (sn_lc e) (rt_host_patterns (gc_routes conf ! j)) (strip_host host) = Returned None)
    \<and> ln_to_backend l @ contents (ln_client l) =
      proxy_header_bytes r peer a
      @ (if rt_modify_virtual_host r then encode_handshake v (show_ip (addr_ip a)) port 2 else encode_handshake v host port next) @ rest
    \<and> (\<exists>b down extra. cs_dial s a = Some b \<and> ln_to_client l = down @ extra \<and> down @ contents (ln_backend l) = incoming (bc_reader b)
        \<and> gateway_packet (sn_interp e) (sn_lc e) (sn_zlib e) Ended extra)"
proof -
  from hello_dispatched [OF sent direct run] obtain k g i r caps where
    d: "dispatch e s k (w\<lparr>srv_gate := g\<rparr>) = (Login_Ended (Login_Relayed a l), w')" "cn_phase k = Dispatched i r caps (hello v host port next)"
    and k: "bs_ok (cn_stream k)" "contents (cn_stream k) = rest" "cn_addr k = peer"
    and m: "match_route (sn_lc e) 0 (gc_routes conf) (strip_host host) = Returned (Some (i, r, caps))" by auto
  note first = match_route_first [OF m]
  then have r: "counter_ok (metrics_handle r (lw_metrics (login_view i (w\<lparr>srv_gate := g\<rparr>))))"
    using backend(2) by (auto simp: login_view_def)
  obtain k' w1 where l: "handle_login (sn_interp e) (sn_lc e) (sn_zlib e) (sn_shuffle e) (sn_resolve e) (cs_dial s) (cs_live_config s) (sn_limit_message e)
       (cs_request_at s) (cs_request_late s) r caps (hello v host port next) k (login_view i (w\<lparr>srv_gate := g\<rparr>)) = (Login_Relayed a l, k', w1)"
    using d by (auto simp: dispatch_def serve_status_def serve_login_def split: if_splits option.splits prod.splits)
  note stream = handle_login_stream [OF l k(1) backend(1) r]
  have "dial_bytes r a (hello v host port next) (cn_addr k) @ contents (cn_stream k) = proxy_header_bytes r peer a
      @ (if rt_modify_virtual_host r then encode_handshake v (show_ip (addr_ip a)) port 2 else encode_handshake v host port next) @ rest"
    using k by (simp add: dial_bytes_def)
  then show ?thesis using stream first by auto
qed

definition one_login_route :: route where
  "one_login_route = demo_login_route\<lparr>rt_host_patterns := [host_pattern_new (\<lambda>s. s) (lit ''a'')]\<rparr>"

definition one_login_config :: gate_config where
  "one_login_config = gate_config_default\<lparr>gc_routes := [one_login_route]\<rparr>"

text \<open>A client that asks for this host, its handshake cut after three bytes.\<close>

definition one_client :: "i32 \<Rightarrow> bytes \<Rightarrow> reader" where
  "one_client next rest = [Data (take 3 (encode_handshake 763 (lit ''a'') 25565 next)), Data (drop 3 (encode_handshake 763 (lit ''a'') 25565 next) @ rest)]"

lemma one_client_hello:
  "length rest \<le> 20 \<Longrightarrow> sends_hello 40 (one_client 1 rest) 763 (lit ''a'') 25565 1 rest"
  "length rest \<le> 20 \<Longrightarrow> sends_hello 40 (one_client 2 rest) 763 (lit ''a'') 25565 2 rest"
  by (simp_all add: sends_hello_def one_client_def encode_handshake_def length_prefix_def write_string_def write_var_int.simps to_be_bytes_def
      lit_def as_bytes_def utf8_encode_char_def is_scalar_def segments_at_most_def)

lemma one_host_stripped: "strip_host (lit ''a'') = lit ''a''"
  by (simp add: strip_host_def lit_def trim_end_by_def)

lemma one_client_dispatched:
  assumes "sends_hello m inner 763 (lit ''a'') 25565 next rest" "srv_gate w = gate_start"
  shows "\<exists>k g caps. handle_connection demo_server one_login_config demo_script demo_addr inner w
      = dispatch demo_server demo_script k (w\<lparr>srv_gate := g\<rparr>) \<and> bs_ok (cn_stream k) \<and> contents (cn_stream k) = rest
    \<and> cn_phase k = Dispatched 0 one_login_route caps (hello 763 (lit ''a'') 25565 next)"
proof -
  obtain k1 g1 where a: "accept_connection one_login_config 0 demo_addr inner gate_start = (Continue k1, g1)"
    using demo_accepted [of "[one_login_route]"] unfolding one_login_config_def by blast
  have direct: "\<not> gc_proxy_protocol one_login_config" by (simp add: one_login_config_def gate_config_default_def)
  obtain stream where rd: "bs_read_handshake (bs_new inner) = (Inr (hello 763 (lit ''a'') 25565 next), stream)" "bs_ok stream" "contents stream = rest"
    using hello_read [OF assms(1)] by blast
  obtain caps where "read_login_handshake (\<lambda>s. s) 0 False k1 g1
      = (Continue (k1\<lparr>cn_stream := stream, cn_phase := Dispatched 0 one_login_route caps (hello 763 (lit ''a'') 25565 next)\<rparr>), g1)"
    using rd(1) accept_fresh [OF a] one_host_matches [of "lit ''a''"]
    by (auto simp: read_login_handshake_def Let_def within_def one_login_config_def one_login_route_def run_bind_def one_host_stripped)
  then show ?thesis
    using a direct rd(2,3) assms(2)
    by (intro exI [of _ "k1\<lparr>cn_stream := stream, cn_phase := Dispatched 0 one_login_route caps (hello 763 (lit ''a'') 25565 next)\<rparr>"] exI [of _ g1])
      (simp add: handle_connection_def demo_server_def demo_script_def)
qed

theorem login_end_to_end_witness:
  "\<exists>l w'. handle_connection demo_server one_login_config demo_script demo_addr (one_client 2 (length_prefix [0, 0])) demo_server_world
       = (Login_Ended (Login_Relayed demo_backend l), w')
     \<and> ln_to_backend l @ contents (ln_client l) = encode_handshake 763 (lit ''a'') 25565 2 @ length_prefix [0, 0]"
proof -
  let ?in = "one_client 2 (length_prefix [0, 0])"
  have sent: "sends_hello 40 ?in 763 (lit ''a'') 25565 2 (length_prefix [0, 0])" by (rule one_client_hello) (simp add: length_prefix_def write_var_int.simps)
  obtain k g caps where d: "handle_connection demo_server one_login_config demo_script demo_addr ?in demo_server_world
      = dispatch demo_server demo_script k (demo_server_world\<lparr>srv_gate := g\<rparr>)" "bs_ok (cn_stream k)" "contents (cn_stream k) = length_prefix [0, 0]"
      "cn_phase k = Dispatched 0 one_login_route caps (hello 763 (lit ''a'') 25565 2)"
    using one_client_dispatched [OF sent, of demo_server_world] by (auto simp: demo_server_world_def)
  have v: "lw_runtime (login_view 0 (demo_server_world\<lparr>srv_gate := g\<rparr>)) = runtime_default"
      "lw_metrics (login_view 0 (demo_server_world\<lparr>srv_gate := g\<rparr>)) = \<lparr>ms_counters = [], ms_flush_interval = 0\<rparr>"
    by (simp_all add: login_view_def runtime_of_def demo_server_world_def hm_get_def unwrap_or_def)
  obtain l k' w1 where "handle_login (\<lambda>stops _ _. hd stops) (\<lambda>s. s) stored_zlib (\<lambda>as. as) (\<lambda>_ _. Inr demo_backend) (\<lambda>_. Some demo_backend_conn)
      gate_config_default [] 0 False one_login_route caps (hello 763 (lit ''a'') 25565 2) k (login_view 0 (demo_server_world\<lparr>srv_gate := g\<rparr>))
      = (Login_Relayed demo_backend l, k', w1)"
    using login_runs [OF d(2,3) v] unfolding one_login_route_def by blast
  then obtain w' where run: "handle_connection demo_server one_login_config demo_script demo_addr ?in demo_server_world = (Login_Ended (Login_Relayed demo_backend l), w')"
    unfolding d(1) by (simp add: dispatch_def serve_login_def d(4)) (simp add: demo_server_def demo_script_def)
  have b: "healthy_conn b" if "cs_dial demo_script demo_backend = Some b" for b
    using that by (auto simp: demo_script_def healthy_conn_def demo_backend_conn_def)
  have c: "\<forall>r \<in> set (gc_routes one_login_config). counter_ok (metrics_handle r (srv_metrics demo_server_world))"
    by (simp add: one_login_config_def counter_ok_def metrics_handle_def key_for_def one_login_route_def demo_login_route_def Status_Handler.demo_route_def)
  have direct: "\<not> gc_proxy_protocol one_login_config" by (simp add: one_login_config_def gate_config_default_def)
  have r: "proxy_header_bytes one_login_route demo_addr demo_backend = []" "\<not> rt_modify_virtual_host one_login_route" "gc_routes one_login_config = [one_login_route]"
    by (simp_all add: proxy_header_bytes_def one_login_route_def demo_login_route_def Status_Handler.demo_route_def one_login_config_def)
  from login_end_to_end [OF sent direct run b c]
  have "ln_to_backend l @ contents (ln_client l) = encode_handshake 763 (lit ''a'') 25565 2 @ length_prefix [0, 0]" using r by auto
  with run show ?thesis by blast
qed

text \<open>The request every client sends after a status handshake, and its ping.\<close>

abbreviation status_request :: bytes where
  "status_request \<equiv> length_prefix (write_var_int 0)"

abbreviation ping_packet :: "i64 \<Rightarrow> bytes" where
  "ping_packet payload \<equiv> length_prefix (write_var_int 1 @ to_be_bytes payload)"

text \<open>What the handler writes for a request and a ping that have arrived: nothing if no backend can be named or
  none answers and the route has no fallback, and otherwise one response and the pong.\<close>

lemma handle_status_response:
  assumes "handle_status interp lc parse shuffle resolve env False ping_late stream route captures hs w = Some (Returned out, w')"
    and "bs_ok stream" "contents stream = status_request @ ping_packet payload @ rest"
  shows "out = [] \<and> ((\<exists>er. resolve_backends resolve (rt_backend_templates route) captures = Returned (Inl er))
        \<or> rt_fallback route = None \<and> (\<exists>addrs r n w1. resolve_ordered_backends shuffle resolve (se_clock env 0) route captures (sw_runtime w) = (Returned (Inr addrs), r)
             \<and> status_loop parse env route hs addrs 0 (w\<lparr>sw_runtime := r\<rparr>) = Some (None, n, w1)))
    \<or> (\<exists>j. out = encode_status_response j @ (if ping_late then [] else encode_pong payload)
        \<and> ((\<exists>addrs n r w1. status_loop parse env route hs addrs 0 (w\<lparr>sw_runtime := r\<rparr>) = Some (Some j, n, w1))
           \<or> (\<exists>f. rt_fallback route = Some f \<and> build_fallback_json interp lc f = Returned j)))"
proof -
  have "int (length (write_var_int 0)) \<le> sint MAX_PACKET_BYTES" using length_write_var_int [of 0] by (simp add: MAX_PACKET_BYTES_sint)
  then obtain st where rd: "read_frame MAX_PACKET_BYTES stream = (Inr status_request, st)" "bs_ok st" "contents st = ping_packet payload @ rest"
    using read_frame_delivers [OF assms(2,3)] by blast
  have v: "read_var_int status_request = Inr (of_nat (length (write_var_int 0)), length (write_var_int (of_nat (length (write_var_int 0)))))"
    unfolding length_prefix_def by (rule read_write_var_int)
  have id: "read_var_int (drop (length (write_var_int (of_nat (length (write_var_int 0))))) status_request) = Inr (0, length (write_var_int 0))"
    using read_write_var_int [of 0 "[]"] by (simp add: length_prefix_def)
  have ping: "handle_ping ping_late st = (if ping_late then [] else encode_pong payload)"
    using handle_ping_echoes [OF rd(2,3)] by (simp add: handle_ping_def)
  show ?thesis
    using assms(1) rd(1) v id
    by (auto simp: handle_status_def ping resolve_ordered_backends_def run_bind_def
        split: run.splits sum.splits prod.splits option.splits; blast)
qed

definition no_backend_answers :: "'e server_env \<Rightarrow> conn_script \<Rightarrow> handshake \<Rightarrow> route \<Rightarrow> str list \<Rightarrow> status_world \<Rightarrow> bool" where
  "no_backend_answers e s h r caps w \<longleftrightarrow>
     (case resolve_ordered_backends (sn_shuffle e) (sn_resolve e) (se_clock (cs_status s) 0) r caps (sw_runtime w) of
        (Returned (Inr addrs), rr) \<Rightarrow>
          (case status_loop (sn_parse e) (cs_status s) r h addrs 0 (w\<lparr>sw_runtime := rr\<rparr>) of Some (None, _, _) \<Rightarrow> True | _ \<Rightarrow> False)
      | _ \<Rightarrow> False)"

text \<open>C4: a server list ping, from the socket to the answer. When a client connects directly, asks for the status of
  a host and pings, in whatever segments, and the connection is served, then it was served for the first
  route that matches the host; the client was sent either nothing, and then no backend could be named or
  all failed and the route has no fallback, or exactly one response and the pong with its own payload;
  and the response was given for this client's host and protocol, or is a last-known answer that reports
  this client's protocol, or the route's fallback.\<close>

theorem status_end_to_end:
  assumes sent: "sends_hello m inner v host port 1 (status_request @ ping_packet payload @ rest)" and direct: "\<not> gc_proxy_protocol conf"
    and run: "handle_connection e conf s peer inner w = (Status_Served (Returned out), w')" "\<not> cs_request_late s"
    and cached: "answers_good (sn_parse e) (cs_status s) (hello v host port 1) P" "\<And>r. cache_good P \<lparr>sw_cache = srv_cache w, sw_runtime = r\<rparr>"
  shows "\<exists>i r caps. i < length (gc_routes conf) \<and> gc_routes conf ! i = r
    \<and> route_match_host (sn_lc e) (rt_host_patterns r) (strip_host host) = Returned (Some caps)
    \<and> (\<forall>j < i. route_match_host (sn_lc e) (rt_host_patterns (gc_routes conf ! j)) (strip_host host) = Returned None)
    \<and> (out = [] \<and> ((\<exists>er. resolve_backends (sn_resolve e) (rt_backend_templates r) caps = Returned (Inl er))
          \<or> rt_fallback r = None \<and> no_backend_answers e s (hello v host port 1) r caps \<lparr>sw_cache = srv_cache w, sw_runtime = runtime_of i w\<rparr>)
      \<or> (\<exists>j. out = encode_status_response j @ (if cs_ping_late s then [] else encode_pong payload)
          \<and> ((\<exists>addr. P (status_cache_key (down_key addr) (strip_host host) v) j \<or> P (down_key addr) j \<and> status_protocol (sn_parse e) j = Some (sint v))
             \<or> (\<exists>f. rt_fallback r = Some f \<and> build_fallback_json (sn_interp e) (sn_lc e) f = Returned j))))"
proof -
  from hello_dispatched [OF sent direct run(1)] obtain k g i r caps where
    d: "dispatch e s k (w\<lparr>srv_gate := g\<rparr>) = (Status_Served (Returned out), w')" "cn_phase k = Dispatched i r caps (hello v host port 1)"
    and k: "bs_ok (cn_stream k)" "contents (cn_stream k) = status_request @ ping_packet payload @ rest"
    and m: "match_route (sn_lc e) 0 (gc_routes conf) (strip_host host) = Returned (Some (i, r, caps))" by auto
  let ?sw = "\<lparr>sw_cache = srv_cache w, sw_runtime = runtime_of i w\<rparr>"
  obtain sw where h: "handle_status (sn_interp e) (sn_lc e) (sn_parse e) (sn_shuffle e) (sn_resolve e) (cs_status s) False (cs_ping_late s) (cn_stream k) r caps
      (hello v host port 1) ?sw = Some (Returned out, sw)"
    using d run(2) by (auto simp: dispatch_def serve_status_def runtime_of_def split: if_splits option.splits prod.splits)
  have good: "\<exists>addr. P (status_cache_key (down_key addr) (strip_host host) v) j \<or> P (down_key addr) j \<and> status_protocol (sn_parse e) j = Some (sint v)"
    if "status_loop (sn_parse e) (cs_status s) r (hello v host port 1) addrs 0 (?sw\<lparr>sw_runtime := rr\<rparr>) = Some (Some j, n, w1)" for addrs j n rr w1
  proof -
    have "cache_good P (?sw\<lparr>sw_runtime := rr\<rparr>)" using cached(2) by simp
    from status_loop_good [OF cached(1) this that] show ?thesis by (auto simp: answer_right_def)
  qed
  have first: "i < length (gc_routes conf)" "gc_routes conf ! i = r" "route_match_host (sn_lc e) (rt_host_patterns r) (strip_host host) = Returned (Some caps)"
      "\<forall>j < i. route_match_host (sn_lc e) (rt_host_patterns (gc_routes conf ! j)) (strip_host host) = Returned None"
    using match_route_first [OF m] by auto
  have "out = [] \<and> ((\<exists>er. resolve_backends (sn_resolve e) (rt_backend_templates r) caps = Returned (Inl er))
          \<or> rt_fallback r = None \<and> no_backend_answers e s (hello v host port 1) r caps ?sw)
      \<or> (\<exists>j. out = encode_status_response j @ (if cs_ping_late s then [] else encode_pong payload)
          \<and> ((\<exists>addr. P (status_cache_key (down_key addr) (strip_host host) v) j \<or> P (down_key addr) j \<and> status_protocol (sn_parse e) j = Some (sint v))
             \<or> (\<exists>f. rt_fallback r = Some f \<and> build_fallback_json (sn_interp e) (sn_lc e) f = Returned j)))"
    using handle_status_response [OF h k]
  proof (elim disjE)
    assume "\<exists>j. out = encode_status_response j @ (if cs_ping_late s then [] else encode_pong payload)
        \<and> ((\<exists>addrs n rr w1. status_loop (sn_parse e) (cs_status s) r (hello v host port 1) addrs 0 (?sw\<lparr>sw_runtime := rr\<rparr>) = Some (Some j, n, w1))
           \<or> (\<exists>f. rt_fallback r = Some f \<and> build_fallback_json (sn_interp e) (sn_lc e) f = Returned j))"
    then show ?thesis using good by (elim exE conjE disjE) blast+
  qed (auto simp: no_backend_answers_def)
  then show ?thesis using first by blast
qed

definition demo_status_cache :: ping_cache where
  "demo_status_cache = \<lparr>pc_entries = [(status_cache_key (down_key demo_backend) (lit ''a'') 763, \<lparr>pe_json = lit ''ok'', pe_expires_at = 100\<rparr>)], pc_down_until = []\<rparr>"

lemma demo_status_cached:
  "status_loop (\<lambda>_. None) demo_env r (hello 763 (lit ''a'') 25565 1) [demo_backend] 0 \<lparr>sw_cache = demo_status_cache, sw_runtime = runtime_default\<rparr>
     = Some (Some (lit ''ok''), 0, \<lparr>sw_cache = demo_status_cache, sw_runtime = runtime_default\<rparr>)"
  by (simp add: try_backend_def one_host_stripped demo_status_cache_def demo_env_def ping_get_def hm_get_def Let_def from_millis_def)

theorem status_end_to_end_witness:
  "\<exists>out w'. handle_connection demo_server one_login_config demo_script demo_addr (one_client 1 (status_request @ ping_packet 5)) (demo_server_world\<lparr>srv_cache := demo_status_cache\<rparr>)
       = (Status_Served (Returned out), w') \<and> out = encode_status_response (lit ''ok'') @ encode_pong 5"
proof -
  let ?w = "demo_server_world\<lparr>srv_cache := demo_status_cache\<rparr>" and ?in = "one_client 1 (status_request @ ping_packet 5)" and ?P = "\<lambda>k j. j = lit ''ok''"
  have sent: "sends_hello 40 ?in 763 (lit ''a'') 25565 1 (status_request @ ping_packet 5)"
    by (rule one_client_hello) (simp add: length_prefix_def write_var_int.simps to_be_bytes_def)
  then have sent': "sends_hello 40 ?in 763 (lit ''a'') 25565 1 (status_request @ ping_packet 5 @ [])" by simp
  obtain k g caps where d: "handle_connection demo_server one_login_config demo_script demo_addr ?in ?w = dispatch demo_server demo_script k (?w\<lparr>srv_gate := g\<rparr>)"
      "bs_ok (cn_stream k)" "cn_phase k = Dispatched 0 one_login_route caps (hello 763 (lit ''a'') 25565 1)"
    using one_client_dispatched [OF sent, of ?w] by (auto simp: demo_server_world_def)
  have rb: "resolve_backends (\<lambda>_ _. Inr demo_backend) (rt_backend_templates one_login_route) caps \<noteq> Panicked"
    using demo_resolved [of "rt_host_patterns one_login_route" caps] by (auto simp: resolve_ordered_backends_def one_login_route_def split: run.splits sum.splits)
  have fb: "rt_fallback one_login_route = None" by (simp add: one_login_route_def demo_login_route_def Status_Handler.demo_route_def)
  have "sleeps demo_env" by (simp add: sleeps_def demo_env_def from_millis_def)
  then obtain out sw where "handle_status (\<lambda>stops _ _. hd stops) (\<lambda>s. s) (\<lambda>_. None) (\<lambda>as. as) (\<lambda>_ _. Inr demo_backend) demo_env False False (cn_stream k)
      one_login_route caps (hello 763 (lit ''a'') 25565 1) \<lparr>sw_cache = srv_cache ?w, sw_runtime = runtime_of 0 (?w\<lparr>srv_gate := g\<rparr>)\<rparr> = Some (Returned out, sw)"
    using status_handler_returns [OF _ d(2) rb] fb by (metis option.distinct(1))
  then obtain w' where run: "handle_connection demo_server one_login_config demo_script demo_addr ?in ?w = (Status_Served (Returned out), w')"
    unfolding d(1) by (simp add: dispatch_def serve_status_def d(3)) (simp add: demo_server_def demo_script_def)
  have "answers_good (sn_parse demo_server) (cs_status demo_script) (hello 763 (lit ''a'') 25565 1) ?P"
    by (simp add: answers_good_def demo_server_def demo_script_def demo_env_def fetch_backend_status_def)
  moreover have "cache_good ?P \<lparr>sw_cache = srv_cache ?w, sw_runtime = r\<rparr>" for r
    by (auto simp: cache_good_def demo_status_cache_def hm_ok_def hm_get_def split: if_splits)
  moreover have "\<not> gc_proxy_protocol one_login_config" "\<not> cs_request_late demo_script" "\<not> cs_ping_late demo_script"
    "gc_routes one_login_config = [one_login_route]"
    by (simp_all add: one_login_config_def gate_config_default_def demo_script_def)
  moreover have "\<not> no_backend_answers demo_server demo_script (hello 763 (lit ''a'') 25565 1) one_login_route caps' \<lparr>sw_cache = srv_cache ?w, sw_runtime = runtime_of 0 ?w\<rparr>"
      "resolve_backends (sn_resolve demo_server) (rt_backend_templates one_login_route) caps' \<noteq> Returned (Inl er)" for caps' er
    using demo_resolved [of "rt_host_patterns one_login_route" caps'] demo_status_cached [of one_login_route]
    by (auto simp: no_backend_answers_def demo_server_def demo_script_def demo_server_world_def runtime_of_def unwrap_or_def hm_get_def one_login_route_def
        demo_env_def from_millis_def resolve_ordered_backends_def split: run.splits sum.splits prod.splits)
  ultimately have "out = encode_status_response (lit ''ok'') @ encode_pong 5" using status_end_to_end [OF sent' _ run, of ?P] fb by auto
  then show ?thesis using run by blast
qed

end
